(* ===== verification/KPrelude.thy ===== *)
theory KPrelude
  imports Main "HOL-Library.Word"
begin

text \<open>
  Shared vocabulary of the development: the machine integer types of the
  i686 kernel, byte arrays behind C pointers, the little-endian 32-bit
  accesses that page tables and on-disk structures use, and the generic
  lemmas on lists and words the component theories build on.

  A pointer to bytes (\<^verbatim>\<open>uint8_t *\<close>) is a function from offsets to bytes: C gives
  such a pointer no length, so the bounds within which a component accesses
  it are stated and proved by the component.
\<close>

unbundle bit_operations_syntax

type_synonym u8 = "8 word"
type_synonym u16 = "16 word"
type_synonym u32 = "32 word"
type_synonym u64 = "64 word"
type_synonym bytes = "nat \<Rightarrow> u8"

named_theorems kdefs "definitions unfolded by the component proofs"

subsection \<open>Loops\<close>

text \<open>
  A counting loop \<^verbatim>\<open>for (i = lo; i < hi; i++) s = f(i, s);\<close> is a fold over the
  interval. The rule below is the loop rule: an invariant indexed by the
  counter.
\<close>

abbreviation for_loop :: "nat \<Rightarrow> nat \<Rightarrow> (nat \<Rightarrow> 's \<Rightarrow> 's) \<Rightarrow> 's \<Rightarrow> 's" where
  "for_loop lo hi f s \<equiv> fold f [lo..<hi] s"

lemma for_loop_rule:
  assumes "lo \<le> hi" and "P lo s"
    and "\<And>i s. lo \<le> i \<Longrightarrow> i < hi \<Longrightarrow> P i s \<Longrightarrow> P (Suc i) (f i s)"
  shows "P hi (for_loop lo hi f s)"
  using assms
proof (induction hi)
  case 0
  then show ?case by simp
next
  case (Suc hi)
  show ?case
  proof (cases "lo = Suc hi")
    case True
    with Suc.prems show ?thesis by simp
  next
    case False
    with Suc.prems have le: "lo \<le> hi" by simp
    then have "P hi (for_loop lo hi f s)" by (rule Suc.IH) (use Suc.prems in auto)
    with le Suc.prems(3) [of hi] show ?thesis by simp
  qed
qed

lemma fold_inv:
  assumes "P s" and "\<And>x s. x \<in> set xs \<Longrightarrow> P s \<Longrightarrow> P (f x s)"
  shows "P (fold f xs s)"
  using assms by (induction xs arbitrary: s) auto

text \<open>The same for a loop whose rounds may fail.\<close>

lemma for_loop_option:
  assumes "lo \<le> hi" and "P lo s"
    and "\<And>i s. lo \<le> i \<Longrightarrow> i < hi \<Longrightarrow> P i s \<Longrightarrow> \<exists>s'. f i s = Some s' \<and> P (Suc i) s'"
  shows "\<exists>s'. for_loop lo hi (\<lambda>i r. Option.bind r (f i)) (Some s) = Some s' \<and> P hi s'"
  by (rule for_loop_rule [where P = "\<lambda>i r. \<exists>s'. r = Some s' \<and> P i s'"]) (use assms in auto)

lemma upt_0_Suc: "[0..<Suc n] = 0 # map Suc [0..<n]"
  by (simp add: map_Suc_upt upt_conv_Cons del: upt_Suc)

subsection \<open>First match\<close>

lemma find_upt_Some:
  "List.find P [lo..<hi] = Some i \<longleftrightarrow> lo \<le> i \<and> i < hi \<and> P i \<and> (\<forall>j. lo \<le> j \<longrightarrow> j < i \<longrightarrow> \<not> P j)"
proof
  assume "List.find P [lo..<hi] = Some i"
  then obtain k where k: "k < length [lo..<hi]" "P ([lo..<hi] ! k)" "i = [lo..<hi] ! k"
      "\<forall>j<k. \<not> P ([lo..<hi] ! j)"
    by (auto simp: find_Some_iff)
  have "\<not> P j" if "lo \<le> j" "j < i" for j
  proof -
    have "j - lo < k" using that k(1,3) by simp
    then show ?thesis using k(4) that k(1) by (auto dest!: spec [of _ "j - lo"])
  qed
  with k show "lo \<le> i \<and> i < hi \<and> P i \<and> (\<forall>j. lo \<le> j \<longrightarrow> j < i \<longrightarrow> \<not> P j)"
    by auto
next
  assume i: "lo \<le> i \<and> i < hi \<and> P i \<and> (\<forall>j. lo \<le> j \<longrightarrow> j < i \<longrightarrow> \<not> P j)"
  then show "List.find P [lo..<hi] = Some i"
    by (auto simp: find_Some_iff intro!: exI [of _ "i - lo"])
qed

lemma find_upt_None:
  "List.find P [lo..<hi] = None \<longleftrightarrow> (\<forall>j. lo \<le> j \<longrightarrow> j < hi \<longrightarrow> \<not> P j)"
  by (auto simp: find_None_iff)

subsection \<open>Bytes and little-endian words\<close>

definition get32 :: "bytes \<Rightarrow> nat \<Rightarrow> u32" where
  "get32 m a = ucast (m a) OR push_bit 8 (ucast (m (a + 1)))
     OR push_bit 16 (ucast (m (a + 2))) OR push_bit 24 (ucast (m (a + 3)))"

definition put32 :: "bytes \<Rightarrow> nat \<Rightarrow> u32 \<Rightarrow> bytes" where
  "put32 m a v = m(a := ucast v, a + 1 := ucast (drop_bit 8 v),
     a + 2 := ucast (drop_bit 16 v), a + 3 := ucast (drop_bit 24 v))"

lemma get32_cong:
  "(\<And>k. a \<le> k \<Longrightarrow> k < a + 4 \<Longrightarrow> m k = m' k) \<Longrightarrow> get32 m a = get32 m' a"
  by (simp add: get32_def)

lemma get32_put32_same [simp]: "get32 (put32 m a v) a = v"
proof (rule bit_word_eqI)
  fix n
  assume "n < LENGTH(32)"
  then consider "n < 8" | "8 \<le> n" "n < 16" | "16 \<le> n" "n < 24" | "24 \<le> n" "n < 32"
    by fastforce
  then show "bit (get32 (put32 m a v) a) n = bit v n"
    by cases (auto simp: get32_def put32_def bit_simps)
qed

lemma get32_put32_other:
  "b + 4 \<le> a \<or> a + 4 \<le> b \<Longrightarrow> get32 (put32 m a v) b = get32 m b"
  by (rule get32_cong) (auto simp: put32_def)

lemma put32_other: "k < a \<or> a + 4 \<le> k \<Longrightarrow> put32 m a v k = m k"
  by (auto simp: put32_def)

lemma get32_put32_index [simp]:
  "get32 (put32 m (base + 4 * i) v) (base + 4 * j)
     = (if i = j then v else get32 m (base + 4 * j))"
  by (cases i j rule: linorder_cases) (auto intro: get32_put32_other)

text \<open>\<^verbatim>\<open>memcpy\<close> and \<^verbatim>\<open>memset\<close> on byte arrays with explicit offsets.\<close>

definition mem_copy :: "bytes \<Rightarrow> nat \<Rightarrow> bytes \<Rightarrow> nat \<Rightarrow> nat \<Rightarrow> bytes" where
  "mem_copy d doff s soff n = (\<lambda>i. if doff \<le> i \<and> i < doff + n then s (i - doff + soff) else d i)"

definition mem_set :: "bytes \<Rightarrow> nat \<Rightarrow> u8 \<Rightarrow> nat \<Rightarrow> bytes" where
  "mem_set d doff v n = (\<lambda>i. if doff \<le> i \<and> i < doff + n then v else d i)"

lemma mem_copy_in [simp]: "doff \<le> i \<Longrightarrow> i < doff + n \<Longrightarrow> mem_copy d doff s soff n i = s (i - doff + soff)"
  and mem_copy_out: "i < doff \<or> doff + n \<le> i \<Longrightarrow> mem_copy d doff s soff n i = d i"
  by (auto simp: mem_copy_def)

lemma mem_set_in [simp]: "doff \<le> i \<Longrightarrow> i < doff + n \<Longrightarrow> mem_set d doff v n i = v"
  and mem_set_out: "i < doff \<or> doff + n \<le> i \<Longrightarrow> mem_set d doff v n i = d i"
  by (auto simp: mem_set_def)

lemma mem_copy_0 [simp]: "mem_copy d doff s soff 0 = d"
  and mem_set_0 [simp]: "mem_set d doff v 0 = d"
  by (auto simp: mem_copy_def mem_set_def fun_eq_iff)

lemma mem_set_Suc: "mem_set m p v (Suc n) = mem_set (m(p := v)) (Suc p) v n"
  by (auto simp: mem_set_def fun_eq_iff)

lemma mem_copy_Suc:
  "(\<And>i. s' i = s (Suc i)) \<Longrightarrow> mem_copy m p s 0 (Suc n) = mem_copy (m(p := s 0)) (Suc p) s' 0 n"
  by (auto simp: mem_copy_def fun_eq_iff Suc_diff_Suc not_less_eq_eq)

subsection \<open>Rounding and widening\<close>

lemma round_up_ge:
  fixes d n :: nat
  assumes "0 < d"
  shows "n \<le> d * ((n + (d - 1)) div d)"
proof -
  have "n + (d - 1) < d * ((n + (d - 1)) div d) + d"
    using assms div_mult_mod_eq [of "n + (d - 1)" d] mod_less_divisor [of d "n + (d - 1)"]
    by (metis add_less_cancel_left mult.commute)
  then show ?thesis using assms by linarith
qed

lemma round_up_multiple:
  fixes d q :: nat
  assumes "0 < d"
  shows "(d * q + (d - 1)) div d = q"
  using assms by (intro div_nat_eqI) auto

lemma unat_ucast_u64 [simp]: "unat (ucast (x::u32) :: u64) = unat x"
proof -
  have "unat x < 2 ^ 64" using unsigned_less [of x] by (rule less_le_trans) simp
  then show ?thesis by (simp add: unsigned_ucast_eq take_bit_nat_eq_self)
qed

subsection \<open>Powers of two\<close>

lemma u32_bound: "unat (x::u32) < 2 ^ 32"
  using unsigned_less [of x] by simp

lemma unat_pow2_32 [simp]: "k < 32 \<Longrightarrow> unat ((2::u32) ^ k) = 2 ^ k"
proof -
  assume "k < 32"
  then have "(2::nat) ^ k < 2 ^ 32" by (rule power_strict_increasing) simp
  then have "unat (word_of_nat (2 ^ k) :: u32) = 2 ^ k"
    by (simp only: unat_of_nat) simp
  then show ?thesis by simp
qed

lemma and_not_mask_nat:
  assumes k: "k < 32"
  shows "unat ((x::u32) AND NOT (2 ^ k - 1)) = 2 ^ k * (unat x div 2 ^ k)"
proof -
  have "x AND NOT (mask k) = push_bit k (drop_bit k x)"
    by (rule bit_word_eqI) (auto simp: bit_simps)
  then have eq: "x AND NOT (2 ^ k - 1) = 2 ^ k * (x div 2 ^ k)"
    using k by (simp add: mask_eq_decr_exp push_bit_eq_mult drop_bit_eq_div mult.commute)
  have "2 ^ k * (unat x div 2 ^ k) \<le> unat x" by simp
  also have "\<dots> < 2 ^ LENGTH(32)" by (rule unsigned_less)
  finally have "unat ((2::u32) ^ k) * unat (x div 2 ^ k) < 2 ^ LENGTH(32)"
    using k by (simp add: unat_div)
  then have "unat (2 ^ k * (x div 2 ^ k)) = unat ((2::u32) ^ k) * unat (x div 2 ^ k)"
    by (rule unat_mult_lem [THEN iffD1])
  then show ?thesis using k by (simp add: eq unat_div)
qed

end
