(* ===== verification/Ranges.thy ===== *)
theory Ranges
  imports KPrelude
begin

text \<open>
  Alignment helpers (\<^verbatim>\<open>kernel/include/utils/math.h\<close>), address ranges
  (\<^verbatim>\<open>kernel/src/adt/range.c\<close>), bit-field helpers
  (\<^verbatim>\<open>kernel/include/adt/binary.h\<close>) and the physical memory map queries
  (\<^verbatim>\<open>kernel/src/mm/memory_map.c\<close>).
  \<^verbatim>\<open>uintptr_t\<close> is 32 bits wide on i686, so all arithmetic here wraps at
  \<open>2\<^sup>3\<^sup>2\<close>; the lemmas say when it does.
\<close>

subsection \<open>math.h and binary.h\<close>

definition align_down :: "u32 \<Rightarrow> u32 \<Rightarrow> u32" where
  "align_down num jump_size = num AND NOT (jump_size - 1)"

definition align_up :: "u32 \<Rightarrow> u32 \<Rightarrow> u32" where
  "align_up num jump_size = align_down (num + jump_size - 1) jump_size"

definition is_aligned :: "u32 \<Rightarrow> u32 \<Rightarrow> bool" where
  "is_aligned num jump_size = (num AND (jump_size - 1) = 0)"

definition GET_BITS :: "u32 \<Rightarrow> nat \<Rightarrow> nat \<Rightarrow> u32" where
  "GET_BITS val from count = drop_bit from val AND (push_bit (count + 1) 1 - 1)"

subsection \<open>range.c\<close>

record range_t =
  range_start :: u32
  range_end :: u32

definition range_clamp :: "range_t \<Rightarrow> range_t \<Rightarrow> range_t" where
  "range_clamp src boundry =
     \<lparr>range_start = (if range_start src > range_start boundry then range_start src else range_start boundry),
      range_end = (if range_end src < range_end boundry then range_end src else range_end boundry)\<rparr>"

definition range_align_outward :: "range_t \<Rightarrow> u64 \<Rightarrow> range_t" where
  "range_align_outward r block_size =
     \<lparr>range_start = align_down (range_start r) (ucast block_size),
      range_end = align_up (range_end r) (ucast block_size)\<rparr>"

definition range_align_inward :: "range_t \<Rightarrow> u64 \<Rightarrow> range_t" where
  "range_align_inward r block_size =
     \<lparr>range_start = align_up (range_start r) (ucast block_size),
      range_end = align_down (range_end r) (ucast block_size)\<rparr>"

definition in_range :: "u64 \<Rightarrow> range_t \<Rightarrow> bool" where
  "in_range addr r = (addr \<ge> ucast (range_start r) \<and> addr < ucast (range_end r))"

text \<open>The set of addresses a half-open range stands for.\<close>

definition range_set :: "range_t \<Rightarrow> u32 set" where
  "range_set r = {a. range_start r \<le> a \<and> a < range_end r}"

subsection \<open>memory_map.c\<close>

text \<open>The kinds of \<^verbatim>\<open>enum E820MemoryBlockType\<close>; a region carries any 32-bit type.\<close>

datatype E820MemoryBlockType =
  E820_USABLE | E820_RESERVED | E820_ACPI_RECLAIMABLE | E820_ACPI_NVS | E820_BAD_MEMORY

fun e820_code :: "E820MemoryBlockType \<Rightarrow> u32" where
  "e820_code E820_USABLE = 1"
| "e820_code E820_RESERVED = 2"
| "e820_code E820_ACPI_RECLAIMABLE = 3"
| "e820_code E820_ACPI_NVS = 4"
| "e820_code E820_BAD_MEMORY = 5"

record memory_region_t =
  region_start :: u64
  region_size :: u64
  region_type :: u32

definition region_step :: "memory_region_t \<Rightarrow> u32 \<times> u32 \<Rightarrow> u32 \<times> u32" where
  "region_step region = (\<lambda>(min_addr, max_addr).
     if region_type region \<noteq> e820_code E820_USABLE then (min_addr, max_addr)
     else
       (let rend = ucast (region_start region + region_size region) :: u32;
            min_addr = (if region_start region < ucast min_addr then ucast (region_start region) else min_addr);
            max_addr = (if rend > max_addr then rend else max_addr)
        in (min_addr, max_addr)))"

definition get_memory_range :: "memory_region_t list \<Rightarrow> range_t" where
  "get_memory_range regions =
     (let (min_addr, max_addr) = fold region_step regions (ucast (- 1 :: u64), 0)
      in \<lparr>range_start = min_addr, range_end = max_addr\<rparr>)"

subsection \<open>Alignment\<close>

lemma unat_align_down:
  "k < 32 \<Longrightarrow> unat (align_down x (2 ^ k)) = 2 ^ k * (unat x div 2 ^ k)"
  by (simp add: align_down_def and_not_mask_nat)

lemma is_aligned_iff:
  assumes "k < 32"
  shows "is_aligned x (2 ^ k) \<longleftrightarrow> 2 ^ k dvd unat x"
  using and_mask_dvd_nat [of k x] by (simp add: is_aligned_def mask_eq_decr_exp)

lemma unat_pow2_minus1: "k < 32 \<Longrightarrow> unat ((2::u32) ^ k - 1) = 2 ^ k - 1"
  by (subst unat_minus_one) auto

lemma unat_align_up:
  assumes k: "k < 32" and no_wrap: "unat x + (2 ^ k - 1) < 2 ^ 32"
  shows "unat (align_up x (2 ^ k)) = 2 ^ k * ((unat x + (2 ^ k - 1)) div 2 ^ k)"
proof -
  have "unat (x + (2 ^ k - 1)) = unat x + (2 ^ k - 1)"
    using no_wrap k unat_add_lem [of x "2 ^ k - 1"] by (simp add: unat_pow2_minus1)
  then show ?thesis
    using k by (simp add: align_up_def unat_align_down add_diff_eq [symmetric])
qed

lemma align_up_wraps:
  assumes k: "k < 32" and wrap: "2 ^ 32 \<le> unat x + (2 ^ k - 1)"
  shows "align_up x (2 ^ k) = 0"
proof -
  have "unat (x + (2 ^ k - 1)) = unat x + (2 ^ k - 1) - 2 ^ 32"
    using wrap k by (simp add: unat_plus_if_size word_size unat_pow2_minus1)
  also have "\<dots> < 2 ^ k"
    using u32_bound [of x] by (cases "2 ^ k :: nat") (simp_all)
  finally have "unat (align_up x (2 ^ k)) = 0"
    using k by (simp add: align_up_def unat_align_down add_diff_eq [symmetric])
  then show ?thesis by (simp add: unat_eq_0)
qed

lemma align_down_le: "k < 32 \<Longrightarrow> align_down x (2 ^ k) \<le> x"
  by (simp add: word_le_nat_alt unat_align_down)

lemma is_aligned_align_down: "k < 32 \<Longrightarrow> is_aligned (align_down x (2 ^ k)) (2 ^ k)"
  by (simp add: is_aligned_iff unat_align_down)

lemma is_aligned_align_up: "k < 32 \<Longrightarrow> is_aligned (align_up x (2 ^ k)) (2 ^ k)"
  by (simp add: align_up_def is_aligned_align_down)

lemma align_up_ge:
  assumes "k < 32" and "unat x + (2 ^ k - 1) < 2 ^ 32"
  shows "x \<le> align_up x (2 ^ k)"
  unfolding word_le_nat_alt unat_align_up [OF assms] by (rule round_up_ge) simp

lemma align_down_aligned: "k < 32 \<Longrightarrow> is_aligned x (2 ^ k) \<Longrightarrow> align_down x (2 ^ k) = x"
  by (auto simp: word_unat_eq_iff unat_align_down is_aligned_iff)

lemma align_up_aligned:
  assumes "k < 32" and "is_aligned x (2 ^ k)"
  shows "align_up x (2 ^ k) = x"
proof -
  obtain q where q: "unat x = 2 ^ k * q" using assms by (auto simp: is_aligned_iff)
  have "2 ^ k * q < 2 ^ k * (2 ^ (32 - k))"
    using assms(1) u32_bound [of x] by (simp add: q flip: power_add)
  then have "q + 1 \<le> 2 ^ (32 - k)" by simp
  then have "2 ^ k * (q + 1) \<le> (2::nat) ^ k * 2 ^ (32 - k)" by (rule mult_le_mono2)
  then have "unat x + (2 ^ k - 1) < 2 ^ 32"
    using assms(1) by (simp add: q flip: power_add)
  then have "unat (align_up x (2 ^ k)) = 2 ^ k * ((2 ^ k * q + (2 ^ k - 1)) div 2 ^ k)"
    using unat_align_up [OF assms(1)] q by metis
  also have "\<dots> = unat x" by (subst round_up_multiple) (auto simp: q)
  finally show ?thesis by (simp add: word_unat_eq_iff)
qed

subsection \<open>Ranges\<close>

lemma range_set_clamp: "range_set (range_clamp a b) = range_set a \<inter> range_set b"
  by (auto simp: range_set_def range_clamp_def)

lemma in_range_iff: "in_range (ucast a) r \<longleftrightarrow> a \<in> range_set r"
  by (simp add: in_range_def range_set_def word_le_nat_alt word_less_nat_alt)

text \<open>
  Aligning a range outward to a power of two never loses an address and
  aligning it inward never gains one; both results have both ends aligned.
  Outward alignment is exact only while the rounded-up end fits in 32 bits,
  which is the hypothesis.
\<close>

theorem range_align_sandwich:
  assumes "k < 32" and "unat (range_end r) + (2 ^ k - 1) < 2 ^ 32"
    and "unat (range_start r) + (2 ^ k - 1) < 2 ^ 32"
  shows "range_set (range_align_inward r (2 ^ k)) \<subseteq> range_set r
    \<and> range_set r \<subseteq> range_set (range_align_outward r (2 ^ k))
    \<and> is_aligned (range_start (range_align_outward r (2 ^ k))) (2 ^ k)
    \<and> is_aligned (range_end (range_align_outward r (2 ^ k))) (2 ^ k)
    \<and> is_aligned (range_start (range_align_inward r (2 ^ k))) (2 ^ k)
    \<and> is_aligned (range_end (range_align_inward r (2 ^ k))) (2 ^ k)"
proof -
  have u: "ucast ((2::u64) ^ k) = (2::u32) ^ k"
    by (rule bit_word_eqI) (use assms(1) in \<open>auto simp: bit_simps\<close>)
  show ?thesis
    using align_up_ge [OF assms(1,2)] align_up_ge [OF assms(1,3)]
      align_down_le [OF assms(1), of "range_start r"] align_down_le [OF assms(1), of "range_end r"]
    by (auto simp: range_set_def range_align_inward_def range_align_outward_def u
        is_aligned_align_down is_aligned_align_up assms(1)
        intro: order_trans less_le_trans)
qed

theorem range_align_sandwich_witness:
  "let r = \<lparr>range_start = 0x1234, range_end = 0x4567\<rparr> in
   range_set (range_align_inward r (2 ^ 12)) \<subseteq> range_set r \<and> range_set r \<subseteq> range_set (range_align_outward r (2 ^ 12))
   \<and> range_align_inward r (2 ^ 12) = \<lparr>range_start = 0x2000, range_end = 0x4000\<rparr>
   \<and> range_align_outward r (2 ^ 12) = \<lparr>range_start = 0x1000, range_end = 0x5000\<rparr>"
  using range_align_sandwich [of 12 "\<lparr>range_start = 0x1234, range_end = 0x4567\<rparr>"]
  by (simp add: range_align_inward_def range_align_outward_def align_up_def align_down_def)

end
