(* ===== verification/Bitmap.thy ===== *)
theory Bitmap
  imports KPrelude
begin

text \<open>
  The byte-array bitmap primitives of \<^verbatim>\<open>kernel/include/adt/bitmap.h\<close> and the
  interface they share with the two other bitmaps of the kernel (the heap
  page bitmap of \<^verbatim>\<open>kmalloc.c\<close> and the on-disk bitmaps of \<^verbatim>\<open>myfs.c\<close>): the
  locale \<open>bit_array\<close> states what a lookup returns after an update, and the
  facts about ranges, counting and first-fit search are proved once in it.
\<close>

subsection \<open>bitmap.h\<close>

definition bitmap_set :: "bytes \<Rightarrow> nat \<Rightarrow> bytes" where
  "bitmap_set bitmap i = bitmap(i div 8 := bitmap (i div 8) OR push_bit (i mod 8) 1)"

definition bitmap_clear :: "bytes \<Rightarrow> nat \<Rightarrow> bytes" where
  "bitmap_clear bitmap i = bitmap(i div 8 := bitmap (i div 8) AND NOT (push_bit (i mod 8) 1))"

definition bitmap_test :: "bytes \<Rightarrow> nat \<Rightarrow> bool" where
  "bitmap_test bitmap i = (bitmap (i div 8) AND push_bit (i mod 8) 1 \<noteq> 0)"

definition bitmap_set_range :: "bytes \<Rightarrow> nat \<Rightarrow> nat \<Rightarrow> bytes" where
  "bitmap_set_range bitmap start stop = for_loop start stop (\<lambda>i bm. bitmap_set bm i) bitmap"

definition bitmap_clear_range :: "bytes \<Rightarrow> nat \<Rightarrow> nat \<Rightarrow> bytes" where
  "bitmap_clear_range bitmap start stop = for_loop start stop (\<lambda>i bm. bitmap_clear bm i) bitmap"

text \<open>\<open>None\<close> is the \<^verbatim>\<open>UINT64_MAX\<close> of the source: no bit below \<open>size\<close> is clear.\<close>

definition bitmap_find_first_clear :: "bytes \<Rightarrow> nat \<Rightarrow> nat option" where
  "bitmap_find_first_clear bitmap sz = List.find (\<lambda>i. \<not> bitmap_test bitmap i) [0..<sz]"

definition bitmap_fill :: "bytes \<Rightarrow> nat \<Rightarrow> u8 \<Rightarrow> bytes" where
  "bitmap_fill bitmap size_bytes value = for_loop 0 size_bytes (\<lambda>i bm. bm(i := value)) bitmap"

subsection \<open>The bit array interface\<close>

locale bit_array =
  fixes tst :: "'b \<Rightarrow> nat \<Rightarrow> bool"
    and st :: "'b \<Rightarrow> nat \<Rightarrow> 'b"
    and cl :: "'b \<Rightarrow> nat \<Rightarrow> 'b"
  assumes tst_st: "tst (st b i) j \<longleftrightarrow> i = j \<or> tst b j"
    and tst_cl: "tst (cl b i) j \<longleftrightarrow> i \<noteq> j \<and> tst b j"
begin

definition ones :: "'b \<Rightarrow> nat \<Rightarrow> nat set" where
  "ones b n = {j. j < n \<and> tst b j}"

lemma ones_finite [simp]: "finite (ones b n)"
  by (simp add: ones_def)

lemma in_ones: "i \<in> ones b n \<longleftrightarrow> i < n \<and> tst b i"
  by (simp add: ones_def)

lemma ones_st: "ones (st b i) n = (if i < n then insert i (ones b n) else ones b n)"
  by (auto simp: ones_def tst_st)

lemma ones_cl: "ones (cl b i) n = ones b n - {i}"
  by (auto simp: ones_def tst_cl)

lemma ones_card_le: "card (ones b n) \<le> n"
proof -
  have "card (ones b n) \<le> card {..<n}" by (rule card_mono) (auto simp: ones_def)
  then show ?thesis by simp
qed

lemma card_ones_st: "i < n \<Longrightarrow> \<not> tst b i \<Longrightarrow> card (ones (st b i) n) = Suc (card (ones b n))"
  by (simp add: ones_st in_ones)

lemma card_ones_cl: "i < n \<Longrightarrow> tst b i \<Longrightarrow> Suc (card (ones (cl b i) n)) = card (ones b n)"
  unfolding ones_cl by (rule card_Suc_Diff1) (auto simp: in_ones)

lemma tst_set_list: "tst (fold (\<lambda>i b. st b i) xs b) j \<longleftrightarrow> j \<in> set xs \<or> tst b j"
  by (induction xs arbitrary: b) (auto simp: tst_st)

lemma tst_clear_list: "tst (fold (\<lambda>i b. cl b i) xs b) j \<longleftrightarrow> j \<notin> set xs \<and> tst b j"
  by (induction xs arbitrary: b) (auto simp: tst_cl)

lemma first_fit_fresh:
  assumes "List.find (\<lambda>i. \<not> tst b i) [lo..<hi] = Some i"
  shows "lo \<le> i" and "i < hi" and "\<not> tst b i" and "tst (st b i) i"
    and "j \<noteq> i \<Longrightarrow> tst (st b i) j = tst b j" and "lo \<le> j \<Longrightarrow> j < i \<Longrightarrow> tst b j"
  using assms by (auto simp: find_upt_Some tst_st)

lemma st_cl_inverse: "\<not> tst b i \<Longrightarrow> tst (cl (st b i) i) j = tst b j"
  by (auto simp: tst_st tst_cl)

end

lemma bit_and_push_iff:
  "r < 8 \<Longrightarrow> (x AND push_bit r 1 \<noteq> (0::u8)) \<longleftrightarrow> bit x r"
proof -
  assume r: "r < 8"
  have "bit (x AND push_bit r 1) n \<longleftrightarrow> n = r \<and> bit x r" for n
    using r by (auto simp: bit_simps)
  then show ?thesis by (metis bit_0_eq bit_eq_iff bot_apply bot_bool_def)
qed

lemma bitmap_test_bit: "bitmap_test bm i \<longleftrightarrow> bit (bm (i div 8)) (i mod 8)"
  unfolding bitmap_test_def by (rule bit_and_push_iff) simp

lemma div_mod_8_eq: "(i div 8 = j div 8 \<and> i mod 8 = j mod 8) \<longleftrightarrow> i = (j::nat)"
  by (metis div_mult_mod_eq)

interpretation bm: bit_array bitmap_test bitmap_set bitmap_clear
proof
  fix b i j
  show "bitmap_test (bitmap_set b i) j \<longleftrightarrow> i = j \<or> bitmap_test b j"
    using div_mod_8_eq [of i j]
    by (auto simp: bitmap_test_bit bitmap_set_def bit_simps)
  show "bitmap_test (bitmap_clear b i) j \<longleftrightarrow> i \<noteq> j \<and> bitmap_test b j"
    using div_mod_8_eq [of i j]
    by (auto simp: bitmap_test_bit bitmap_clear_def bit_simps)
qed

subsection \<open>Range operations\<close>

lemma bitmap_test_set_range:
  "bitmap_test (bitmap_set_range bm lo hi) j \<longleftrightarrow> (lo \<le> j \<and> j < hi) \<or> bitmap_test bm j"
  by (auto simp: bitmap_set_range_def bm.tst_set_list)

lemma bitmap_test_clear_range:
  "bitmap_test (bitmap_clear_range bm lo hi) j \<longleftrightarrow> \<not> (lo \<le> j \<and> j < hi) \<and> bitmap_test bm j"
  by (auto simp: bitmap_clear_range_def bm.tst_clear_list)

lemma bitmap_fill_apply: "bitmap_fill bm n v k = (if k < n then v else bm k)"
  by (induction n) (auto simp: bitmap_fill_def)

end
