(* ===== verification/CircularBuffer.thy ===== *)
theory CircularBuffer
  imports KPrelude
begin

text \<open>
  The fixed-capacity ring buffer of \<^verbatim>\<open>kernel/src/adt/circular_buffer.c\<close> that
  holds the pending keystrokes of the terminal, and the bounded FIFO
  interface it implements. The same interface is implemented by the receive
  queues of the raw sockets.
\<close>

subsection \<open>circular\_buffer.c\<close>

definition QUEUE_SIZE :: nat where
  "QUEUE_SIZE = 256"

text \<open>Elements are \<^verbatim>\<open>void *\<close>: 32-bit values with 0 as \<^verbatim>\<open>NULL\<close>.\<close>

record circular_buff_t =
  cb_data :: "nat \<Rightarrow> u32"
  cb_head :: nat
  cb_tail :: nat
  cb_count :: nat

definition circular_buff_init :: "circular_buff_t \<Rightarrow> circular_buff_t" where
  "circular_buff_init cb = cb\<lparr>cb_head := 0, cb_tail := 0, cb_count := 0\<rparr>"

definition circular_buff_is_empty :: "circular_buff_t \<Rightarrow> bool" where
  "circular_buff_is_empty cb = (cb_count cb = 0)"

definition circular_buff_is_full :: "circular_buff_t \<Rightarrow> bool" where
  "circular_buff_is_full cb = (cb_count cb = QUEUE_SIZE)"

definition circular_buff_enqueue :: "circular_buff_t \<Rightarrow> u32 \<Rightarrow> circular_buff_t" where
  "circular_buff_enqueue cb val =
     (if circular_buff_is_full cb then cb
      else cb\<lparr>cb_data := (cb_data cb)(cb_head cb := val),
              cb_head := (cb_head cb + 1) mod QUEUE_SIZE,
              cb_count := cb_count cb + 1\<rparr>)"

definition circular_buff_dequeue :: "circular_buff_t \<Rightarrow> u32 \<times> circular_buff_t" where
  "circular_buff_dequeue cb =
     (if circular_buff_is_empty cb then (0, cb)
      else (cb_data cb (cb_tail cb),
            cb\<lparr>cb_tail := (cb_tail cb + 1) mod QUEUE_SIZE, cb_count := cb_count cb - 1\<rparr>))"

definition circular_buff_dequeue_last :: "circular_buff_t \<Rightarrow> bool \<times> circular_buff_t" where
  "circular_buff_dequeue_last cb =
     (if cb_count cb = 0 then (False, cb)
      else (True,
            cb\<lparr>cb_head := (if cb_head cb = 0 then QUEUE_SIZE - 1 else cb_head cb - 1),
               cb_count := cb_count cb - 1\<rparr>))"

subsection \<open>The bounded FIFO interface\<close>

locale bounded_fifo =
  fixes enq :: "'q \<Rightarrow> 'a \<Rightarrow> 'q"
    and deq :: "'q \<Rightarrow> 'a \<times> 'q"
    and contents :: "'q \<Rightarrow> 'a list"
    and ok :: "'q \<Rightarrow> bool"
    and cap :: nat
  assumes contents_cap: "ok q \<Longrightarrow> length (contents q) \<le> cap"
    and ok_enq: "ok q \<Longrightarrow> ok (enq q x)"
    and contents_enq: "ok q \<Longrightarrow>
      contents (enq q x) = (if length (contents q) < cap then contents q @ [x] else contents q)"
    and ok_deq: "ok q \<Longrightarrow> contents q \<noteq> [] \<Longrightarrow> ok (snd (deq q))"
    and contents_deq: "ok q \<Longrightarrow> contents q \<noteq> [] \<Longrightarrow>
      fst (deq q) = hd (contents q) \<and> contents (snd (deq q)) = tl (contents q)"
begin

definition enq_all :: "'q \<Rightarrow> 'a list \<Rightarrow> 'q" where
  "enq_all q xs = fold (\<lambda>x q. enq q x) xs q"

fun drain :: "nat \<Rightarrow> 'q \<Rightarrow> 'a list \<times> 'q" where
  "drain 0 q = ([], q)"
| "drain (Suc n) q = (case deq q of (x, q1) \<Rightarrow> case drain n q1 of (xs, q2) \<Rightarrow> (x # xs, q2))"

lemma ok_enq_all: "ok q \<Longrightarrow> ok (enq_all q xs)"
  by (induction xs arbitrary: q) (simp_all add: enq_all_def ok_enq)

lemma contents_enq_all: "ok q \<Longrightarrow> contents (enq_all q xs) = take cap (contents q @ xs)"
proof (induction xs arbitrary: q)
  case Nil
  then show ?case by (simp add: enq_all_def contents_cap)
next
  case (Cons x xs)
  have "contents (enq_all q (x # xs)) = take cap (contents (enq q x) @ xs)"
    using Cons by (simp add: enq_all_def ok_enq)
  then show ?case
    using contents_cap [OF Cons.prems] by (auto simp: contents_enq [OF Cons.prems] take_Cons')
qed

lemma drain_contents:
  "ok q \<Longrightarrow> n \<le> length (contents q) \<Longrightarrow>
     fst (drain n q) = take n (contents q) \<and> contents (snd (drain n q)) = drop n (contents q)"
proof (induction n arbitrary: q)
  case 0
  then show ?case by simp
next
  case (Suc n)
  then have ne: "contents q \<noteq> []" by auto
  let ?q1 = "snd (deq q)"
  have d: "fst (deq q) = hd (contents q)" "contents ?q1 = tl (contents q)"
    using contents_deq [OF Suc.prems(1) ne] by auto
  have "n \<le> length (contents ?q1)" using Suc.prems(2) d(2) by simp
  then have "fst (drain n ?q1) = take n (contents ?q1) \<and> contents (snd (drain n ?q1)) = drop n (contents ?q1)"
    using Suc.IH ok_deq [OF Suc.prems(1) ne] by blast
  then show ?case
    using d ne by (cases "contents q") (simp_all add: split_beta)
qed

text \<open>What fits comes out again, in order.\<close>

lemma fifo_order:
  assumes "ok q" and "contents q = []" and "length xs \<le> cap"
  shows "fst (drain (length xs) (enq_all q xs)) = xs"
  using drain_contents [OF ok_enq_all [OF assms(1)], of "length xs" xs] contents_enq_all [OF assms(1), of xs] assms
  by simp

end

subsection \<open>The ring buffer is a bounded FIFO\<close>

definition cb_inv :: "circular_buff_t \<Rightarrow> bool" where
  "cb_inv cb \<longleftrightarrow> cb_tail cb < QUEUE_SIZE \<and> cb_count cb \<le> QUEUE_SIZE
     \<and> cb_head cb = (cb_tail cb + cb_count cb) mod QUEUE_SIZE"

definition cb_list :: "circular_buff_t \<Rightarrow> u32 list" where
  "cb_list cb = map (\<lambda>i. cb_data cb ((cb_tail cb + i) mod QUEUE_SIZE)) [0..<cb_count cb]"

lemma length_cb_list [simp]: "length (cb_list cb) = cb_count cb"
  by (simp add: cb_list_def)

lemma cb_inv_init: "cb_inv (circular_buff_init cb)" and cb_list_init: "cb_list (circular_buff_init cb) = []"
  by (simp_all add: cb_inv_def cb_list_def circular_buff_init_def QUEUE_SIZE_def)

lemma ring_index_neq:
  "i < c \<Longrightarrow> c < n \<Longrightarrow> (t + i) mod n \<noteq> (t + c) mod (n::nat)"
  using mod_eq_dvd_iff_nat [of "t + i" "t + c" n] by (auto dest: dvd_imp_le)

lemma cb_head_lt: "cb_inv cb \<Longrightarrow> cb_head cb < QUEUE_SIZE"
  by (simp add: cb_inv_def QUEUE_SIZE_def)

lemma cb_inv_enqueue: "cb_inv cb \<Longrightarrow> cb_inv (circular_buff_enqueue cb v)"
  by (auto simp: cb_inv_def circular_buff_enqueue_def circular_buff_is_full_def QUEUE_SIZE_def mod_Suc_eq)

lemma cb_list_enqueue:
  assumes "cb_inv cb"
  shows "cb_list (circular_buff_enqueue cb v)
    = (if cb_count cb < QUEUE_SIZE then cb_list cb @ [v] else cb_list cb)"
  using assms ring_index_neq
  by (auto simp: cb_list_def circular_buff_enqueue_def circular_buff_is_full_def cb_inv_def)

lemma cb_inv_dequeue: "cb_inv cb \<Longrightarrow> cb_inv (snd (circular_buff_dequeue cb))"
  by (cases "cb_count cb")
    (auto simp: cb_inv_def circular_buff_dequeue_def circular_buff_is_empty_def QUEUE_SIZE_def mod_add_left_eq)

lemma cb_list_dequeue:
  assumes "cb_inv cb" and "cb_list cb \<noteq> []"
  shows "fst (circular_buff_dequeue cb) = hd (cb_list cb)
    \<and> cb_list (snd (circular_buff_dequeue cb)) = tl (cb_list cb)"
proof -
  from assms(2) obtain c where c: "cb_count cb = Suc c"
    by (cases "cb_count cb") (auto simp: cb_list_def)
  have "cb_list cb = cb_data cb (cb_tail cb mod QUEUE_SIZE)
      # map (\<lambda>i. cb_data cb ((cb_tail cb + Suc i) mod QUEUE_SIZE)) [0..<c]"
    by (simp add: cb_list_def c upt_0_Suc comp_def del: upt_Suc)
  then show ?thesis
    using assms(1) c
    by (simp add: circular_buff_dequeue_def circular_buff_is_empty_def cb_list_def cb_inv_def mod_add_left_eq)
qed

interpretation ring: bounded_fifo circular_buff_enqueue circular_buff_dequeue cb_list cb_inv QUEUE_SIZE
proof
  fix q x
  assume q: "cb_inv q"
  then show "length (cb_list q) \<le> QUEUE_SIZE" by (simp add: cb_inv_def)
  from q show "cb_inv (circular_buff_enqueue q x)" by (rule cb_inv_enqueue)
  from q show "cb_list (circular_buff_enqueue q x)
      = (if length (cb_list q) < QUEUE_SIZE then cb_list q @ [x] else cb_list q)"
    by (simp add: cb_list_enqueue)
  from q show "cb_inv (snd (circular_buff_dequeue q))" by (rule cb_inv_dequeue)
  assume "cb_list q \<noteq> []"
  with q show "fst (circular_buff_dequeue q) = hd (cb_list q)
      \<and> cb_list (snd (circular_buff_dequeue q)) = tl (cb_list q)"
    by (rule cb_list_dequeue)
qed

lemma cb_inv_dequeue_last: "cb_inv cb \<Longrightarrow> cb_inv (snd (circular_buff_dequeue_last cb))"
  by (cases "cb_count cb")
    (auto simp: cb_inv_def circular_buff_dequeue_last_def QUEUE_SIZE_def mod_Suc split: if_splits)

lemma cb_list_dequeue_last:
  "cb_list (snd (circular_buff_dequeue_last cb)) = butlast (cb_list cb)"
  "fst (circular_buff_dequeue_last cb) \<longleftrightarrow> cb_list cb \<noteq> []"
  by (cases "cb_count cb"; simp add: cb_list_def circular_buff_dequeue_last_def)+

text \<open>
  C37. The ring buffer refines a bounded FIFO list: in a state reached by the
  operations, enqueue appends (and is dropped silently when 256 elements are
  held), dequeue returns and removes the oldest element or returns \<^verbatim>\<open>NULL\<close>
  when empty, \<^verbatim>\<open>dequeue_last\<close> removes the newest, and each keeps the
  invariant that ties head, tail and count together.
\<close>

theorem circular_buff_refines_fifo:
  assumes "cb_inv cb"
  shows "cb_list (circular_buff_enqueue cb v)
      = (if length (cb_list cb) < 256 then cb_list cb @ [v] else cb_list cb)
    \<and> fst (circular_buff_dequeue cb) = (if cb_list cb = [] then 0 else hd (cb_list cb))
    \<and> cb_list (snd (circular_buff_dequeue cb)) = tl (cb_list cb)
    \<and> fst (circular_buff_dequeue_last cb) = (cb_list cb \<noteq> [])
    \<and> cb_list (snd (circular_buff_dequeue_last cb)) = butlast (cb_list cb)
    \<and> cb_inv (circular_buff_enqueue cb v) \<and> cb_inv (snd (circular_buff_dequeue cb))
    \<and> cb_inv (snd (circular_buff_dequeue_last cb))"
proof -
  have "cb_list cb = [] \<Longrightarrow> circular_buff_dequeue cb = (0, cb)"
    by (simp add: cb_list_def circular_buff_dequeue_def circular_buff_is_empty_def)
  then show ?thesis
    using ring.contents_deq [OF assms] ring.contents_enq [OF assms, of v]
      cb_inv_enqueue [OF assms, of v] cb_inv_dequeue [OF assms] cb_inv_dequeue_last [OF assms]
    by (auto simp: cb_list_dequeue_last QUEUE_SIZE_def)
qed

definition cb_demo :: circular_buff_t where
  "cb_demo = \<lparr>cb_data = (\<lambda>i. if i = 255 then 104 else 105), cb_head = 1, cb_tail = 255, cb_count = 2\<rparr>"

theorem circular_buff_refines_fifo_witness:
  "cb_inv cb_demo \<and> cb_list cb_demo = [104, 105]
    \<and> cb_list (circular_buff_enqueue cb_demo 10) = [104, 105, 10]
    \<and> fst (circular_buff_dequeue cb_demo) = 104"
proof -
  have i: "cb_inv cb_demo" and l: "cb_list cb_demo = [104, 105]"
    by (simp_all add: cb_inv_def cb_list_def cb_demo_def QUEUE_SIZE_def upt_rec)
  show ?thesis using circular_buff_refines_fifo [OF i, of 10] i by (simp add: l)
qed

end
