(* ===== verification/Pmm.thy ===== *)
theory Pmm
  imports Ranges Bitmap
begin

text \<open>
  The physical frame allocator of \<^verbatim>\<open>kernel/src/mm/pmm.c\<close>: a bitmap with one bit
  per 4 KiB frame and a 16-bit reference count per frame. The static
  variables of the file are the record \<open>pmm_t\<close>. A failing \<^verbatim>\<open>ASSERT\<close> panics and
  halts the kernel: the operations that contain one return \<open>None\<close> then.
\<close>

subsection \<open>State and operations\<close>

definition FRAME_SIZE :: nat where
  "FRAME_SIZE = 4096"

definition MAX_FRAMES :: nat where
  "MAX_FRAMES = 1024 * 1024"

record pmm_t =
  pmm_bitmap :: bytes
  total_frames :: nat
  used_frames :: u64
  bitmap_size_bytes :: nat
  pmm_initialized :: bool
  memory_range :: range_t
  frame_refcounts :: "nat \<Rightarrow> u16"

text \<open>The static variables before \<^verbatim>\<open>pmm_init\<close>: all zero.\<close>

definition pmm_statics :: pmm_t where
  "pmm_statics = \<lparr>pmm_bitmap = (\<lambda>_. 0), total_frames = 0, used_frames = 0, bitmap_size_bytes = 0,
     pmm_initialized = False, memory_range = \<lparr>range_start = 0, range_end = 0\<rparr>, frame_refcounts = (\<lambda>_. 0)\<rparr>"

definition pmm_frame_refcount_inc :: "pmm_t \<Rightarrow> u32 \<Rightarrow> pmm_t" where
  "pmm_frame_refcount_inc s frame_addr =
     (let frame_idx = unat (frame_addr div 4096) in
      if frame_idx < total_frames s
      then s\<lparr>frame_refcounts := (frame_refcounts s)(frame_idx := frame_refcounts s frame_idx + 1)\<rparr>
      else s)"

definition pmm_frame_refcount_get :: "pmm_t \<Rightarrow> u32 \<Rightarrow> u16" where
  "pmm_frame_refcount_get s frame_addr =
     (let frame_idx = unat (frame_addr div 4096) in
      if frame_idx < total_frames s then frame_refcounts s frame_idx else 0)"

definition mark_frame_used :: "nat \<Rightarrow> pmm_t \<Rightarrow> pmm_t" where
  "mark_frame_used frame_idx s =
     (if \<not> bitmap_test (pmm_bitmap s) frame_idx
      then s\<lparr>pmm_bitmap := bitmap_set (pmm_bitmap s) frame_idx,
             used_frames := used_frames s + 1,
             frame_refcounts := (frame_refcounts s)(frame_idx := 1)\<rparr>
      else s)"

definition aligned_addr_to_frame :: "pmm_t \<Rightarrow> u64 \<Rightarrow> nat option" where
  "aligned_addr_to_frame s addr =
     (if addr AND (4096 - 1) \<noteq> 0 then None
      else if \<not> addr \<ge> ucast (range_start (memory_range s)) then None
      else Some (unat ((addr - ucast (range_start (memory_range s))) div 4096)))"

definition pmm_mark_range_used :: "u32 \<Rightarrow> u32 \<Rightarrow> pmm_t \<Rightarrow> pmm_t option" where
  "pmm_mark_range_used from to s =
     (let r = range_align_outward \<lparr>range_start = from, range_end = to\<rparr> 4096;
          r = range_clamp r (memory_range s)
      in if range_start r \<ge> range_end r then Some s
         else case aligned_addr_to_frame s (ucast (range_start r)) of None \<Rightarrow> None
         | Some start_frame \<Rightarrow>
           (case aligned_addr_to_frame s (ucast (range_end r)) of None \<Rightarrow> None
            | Some end_frame \<Rightarrow>
                Some (for_loop start_frame (min end_frame (total_frames s)) mark_frame_used s)))"

definition frame_to_aligned_addr :: "pmm_t \<Rightarrow> nat \<Rightarrow> u64" where
  "frame_to_aligned_addr s frame = ucast (range_start (memory_range s)) + of_nat frame * 4096"

definition mark_frame_free :: "nat \<Rightarrow> pmm_t \<Rightarrow> pmm_t" where
  "mark_frame_free frame s =
     (if \<not> bitmap_test (pmm_bitmap s) frame then s
      else
        (let s = (if frame_refcounts s frame > 0
                  then s\<lparr>frame_refcounts := (frame_refcounts s)(frame := frame_refcounts s frame - 1)\<rparr>
                  else s)
         in if frame_refcounts s frame = 0
            then s\<lparr>pmm_bitmap := bitmap_clear (pmm_bitmap s) frame, used_frames := used_frames s - 1\<rparr>
            else s))"

definition pmm_frame_alloc :: "pmm_t \<Rightarrow> u64 \<times> pmm_t" where
  "pmm_frame_alloc s =
     (case List.find (\<lambda>frame. \<not> bitmap_test (pmm_bitmap s) frame) [1..<total_frames s] of
        Some frame \<Rightarrow> (frame_to_aligned_addr s frame, mark_frame_used frame s)
      | None \<Rightarrow> (0, s))"

definition pmm_frame_free :: "u32 \<Rightarrow> pmm_t \<Rightarrow> pmm_t option" where
  "pmm_frame_free frame_addr s =
     (if frame_addr = 0 \<or> frame_addr AND (4096 - 1) \<noteq> 0 then Some s
      else if \<not> in_range (ucast frame_addr) (memory_range s) then Some s
      else case aligned_addr_to_frame s (ucast frame_addr) of None \<Rightarrow> None
      | Some frame \<Rightarrow> if frame \<ge> total_frames s then Some s else Some (mark_frame_free frame s))"

definition release_frame :: "nat \<Rightarrow> pmm_t \<Rightarrow> pmm_t" where
  "release_frame f s =
     (if f = 0 then s
      else if bitmap_test (pmm_bitmap s) f
      then s\<lparr>pmm_bitmap := bitmap_clear (pmm_bitmap s) f,
             frame_refcounts := (frame_refcounts s)(f := 0),
             used_frames := used_frames s - 1\<rparr>
      else s)"

definition pmm_mark_range_free :: "u32 \<Rightarrow> u32 \<Rightarrow> pmm_t \<Rightarrow> pmm_t" where
  "pmm_mark_range_free from to s =
     (let start = align_up from 4096; stop = align_down to 4096
      in if start \<ge> stop then s
         else
           (let start_frame = unat ((start - range_start (memory_range s)) div 4096);
                end_frame = unat ((stop - range_start (memory_range s)) div 4096)
            in for_loop start_frame (min end_frame (total_frames s)) release_frame s))"

text \<open>The loop over the critical ranges; a panic in one call ends it.\<close>

fun mark_ranges_used :: "range_t list \<Rightarrow> pmm_t \<Rightarrow> pmm_t option" where
  "mark_ranges_used [] s = Some s"
| "mark_ranges_used (r # rs) s =
     (case pmm_mark_range_used (range_start r) (range_end r) s of
        None \<Rightarrow> None | Some s \<Rightarrow> mark_ranges_used rs s)"

definition pmm_init :: "range_t \<Rightarrow> range_t list \<Rightarrow> range_t list \<Rightarrow> pmm_t \<Rightarrow> pmm_t option" where
  "pmm_init total_range usable_ranges critical_ranges s =
     (let s = s\<lparr>memory_range := total_range,
                total_frames := unat ((range_end total_range - range_start total_range) div 4096)\<rparr>;
          s = s\<lparr>bitmap_size_bytes := (total_frames s + 7) div 8\<rparr>;
          s = s\<lparr>pmm_bitmap := mem_set (pmm_bitmap s) 0 0xFF (bitmap_size_bytes s),
                used_frames := of_nat (total_frames s)\<rparr>;
          s = fold (\<lambda>r. pmm_mark_range_free (range_start r) (range_end r)) usable_ranges s
      in map_option (\<lambda>s. s\<lparr>pmm_initialized := True\<rparr>) (mark_ranges_used critical_ranges s))"

definition frame_get_free_count :: "pmm_t \<Rightarrow> u64" where
  "frame_get_free_count s = of_nat (total_frames s) - used_frames s"

definition frame_get_used_count :: "pmm_t \<Rightarrow> u64" where
  "frame_get_used_count s = used_frames s"

definition frame_get_total_count :: "pmm_t \<Rightarrow> u64" where
  "frame_get_total_count s = of_nat (total_frames s) - 1"

subsection \<open>Invariants\<close>

text \<open>
  The geometry fixed by \<^verbatim>\<open>pmm_init\<close>: a page-aligned managed range that does not
  wrap around, cut into whole frames.
\<close>

definition pmm_wf :: "pmm_t \<Rightarrow> bool" where
  "pmm_wf s \<longleftrightarrow> is_aligned (range_start (memory_range s)) 4096
     \<and> is_aligned (range_end (memory_range s)) 4096
     \<and> range_start (memory_range s) \<le> range_end (memory_range s)
     \<and> total_frames s = unat ((range_end (memory_range s) - range_start (memory_range s)) div 4096)"

text \<open>The counter agrees with the bitmap, and a free frame has no references.\<close>

definition pmm_inv :: "pmm_t \<Rightarrow> bool" where
  "pmm_inv s \<longleftrightarrow> used_frames s = of_nat (card (bm.ones (pmm_bitmap s) (total_frames s)))
     \<and> total_frames s \<le> MAX_FRAMES
     \<and> (\<forall>f < total_frames s. \<not> bitmap_test (pmm_bitmap s) f \<longrightarrow> frame_refcounts s f = 0)"

abbreviation frame_used :: "pmm_t \<Rightarrow> nat \<Rightarrow> bool" where
  "frame_used s f \<equiv> bitmap_test (pmm_bitmap s) f"


subsection \<open>Single-frame updates\<close>

lemma mark_frame_used_frame [simp]:
  "memory_range (mark_frame_used f s) = memory_range s"
  "total_frames (mark_frame_used f s) = total_frames s"
  by (simp_all add: mark_frame_used_def)

lemma mark_frame_free_frame [simp]:
  "memory_range (mark_frame_free f s) = memory_range s"
  "total_frames (mark_frame_free f s) = total_frames s"
  by (simp_all add: mark_frame_free_def Let_def)

lemma release_frame_frame [simp]:
  "memory_range (release_frame f s) = memory_range s"
  "total_frames (release_frame f s) = total_frames s"
  by (simp_all add: release_frame_def)

lemma frame_used_mark_used: "frame_used (mark_frame_used f s) g \<longleftrightarrow> g = f \<or> frame_used s g"
  by (auto simp: mark_frame_used_def bm.tst_st)

lemma refcount_mark_used:
  "frame_refcounts (mark_frame_used f s) g = (if g = f \<and> \<not> frame_used s f then 1 else frame_refcounts s g)"
  by (auto simp: mark_frame_used_def)

lemma frame_used_release: "frame_used (release_frame f s) g \<longleftrightarrow> (g \<noteq> f \<or> f = 0) \<and> frame_used s g"
  by (auto simp: release_frame_def bm.tst_cl)

lemma frame_used_mark_free:
  "frame_used (mark_frame_free f s) g \<longleftrightarrow> frame_used s g \<and> (g = f \<longrightarrow> frame_refcounts s f > 1)"
proof -
  have "0 < frame_refcounts s f \<Longrightarrow> (frame_refcounts s f - 1 = 0) = (frame_refcounts s f \<le> 1)"
    by unat_arith
  then show ?thesis
    by (auto simp: mark_frame_free_def bm.tst_cl Let_def not_less word_gt_0 split: if_splits)
qed

lemma refcount_mark_free:
  "frame_refcounts (mark_frame_free f s) g
     = (if g = f \<and> frame_used s f \<and> frame_refcounts s f > 0 then frame_refcounts s f - 1 else frame_refcounts s g)"
  by (auto simp: mark_frame_free_def Let_def)

lemma pmm_inv_mark_used:
  "pmm_inv s \<Longrightarrow> f < total_frames s \<Longrightarrow> pmm_inv (mark_frame_used f s)"
  by (auto simp: pmm_inv_def refcount_mark_used frame_used_mark_used)
    (auto simp: mark_frame_used_def bm.card_ones_st)

lemma ones_card_dec:
  assumes "f < n" and "bitmap_test b f"
  shows "(of_nat (card (bm.ones b n)) :: u64) - 1 = of_nat (card (bm.ones (bitmap_clear b f) n))"
  using bm.card_ones_cl [OF assms] by (metis add_diff_cancel_right' of_nat_Suc add.commute)

lemma pmm_inv_mark_free:
  "pmm_inv s \<Longrightarrow> f < total_frames s \<Longrightarrow> pmm_inv (mark_frame_free f s)"
  by (auto simp: pmm_inv_def mark_frame_free_def Let_def ones_card_dec bm.tst_cl)

lemma pmm_inv_release:
  "pmm_inv s \<Longrightarrow> f < total_frames s \<Longrightarrow> pmm_inv (release_frame f s)"
  by (auto simp: pmm_inv_def release_frame_def ones_card_dec bm.tst_cl)

subsection \<open>Frame numbers and addresses\<close>

abbreviation frame_addr :: "pmm_t \<Rightarrow> nat \<Rightarrow> u32" where
  "frame_addr s f \<equiv> range_start (memory_range s) + of_nat f * 4096"

lemma aligned_4096: "is_aligned x 4096 \<longleftrightarrow> 4096 dvd unat x"
  using is_aligned_iff [of 12 x] by simp

lemma pmm_wf_bytes:
  assumes "pmm_wf s"
  shows "unat (range_end (memory_range s)) = unat (range_start (memory_range s)) + total_frames s * 4096"
proof -
  let ?b = "range_start (memory_range s)" and ?e = "range_end (memory_range s)"
  have le: "unat ?b \<le> unat ?e" using assms by (simp add: pmm_wf_def word_le_nat_alt)
  have d: "unat (?e - ?b) = unat ?e - unat ?b"
    using le by (simp add: unat_sub word_le_nat_alt)
  have "4096 dvd unat ?e - unat ?b"
    using assms by (simp add: pmm_wf_def aligned_4096 dvd_diff_nat)
  moreover have "total_frames s = (unat ?e - unat ?b) div 4096"
    using assms d by (simp add: pmm_wf_def unat_div)
  ultimately show ?thesis using le by simp
qed

lemma unat_frame_addr:
  assumes "pmm_wf s" and "f < total_frames s"
  shows "unat (frame_addr s f) = unat (range_start (memory_range s)) + f * 4096"
proof -
  have lt: "unat (range_start (memory_range s)) + f * 4096 < 2 ^ 32"
    using pmm_wf_bytes [OF assms(1)] u32_bound [of "range_end (memory_range s)"] assms(2) by linarith
  then have f: "unat (of_nat f * 4096 :: u32) = f * 4096"
    by (simp add: unat_word_ariths unat_of_nat)
  show ?thesis
    using lt f unat_add_lem [of "range_start (memory_range s)" "of_nat f * 4096"] by simp
qed

lemma frame_to_aligned_addr_ucast:
  assumes "pmm_wf s" and "f < total_frames s"
  shows "frame_to_aligned_addr s f = ucast (frame_addr s f)"
proof -
  have lt: "unat (range_start (memory_range s)) + f * 4096 < 2 ^ 32"
    using pmm_wf_bytes [OF assms(1)] u32_bound [of "range_end (memory_range s)"] assms(2) by linarith
  have "unat (frame_to_aligned_addr s f) = unat (range_start (memory_range s)) + f * 4096"
    using lt by (simp add: frame_to_aligned_addr_def unat_word_ariths unat_of_nat)
  then show ?thesis
    using unat_frame_addr [OF assms] by (simp add: word_unat_eq_iff)
qed

lemma and_4095_u32: "(x::u32) AND 4095 = 0 \<longleftrightarrow> 4096 dvd unat x"
  using and_mask_dvd_nat [of 12 x] by (simp add: mask_eq_exp_minus_1)

lemma and_4095_u64: "(x::u64) AND 4095 = 0 \<longleftrightarrow> 4096 dvd unat x"
  using and_mask_dvd_nat [of 12 x] by (simp add: mask_eq_exp_minus_1)

lemma aligned_addr_to_frame_eq:
  assumes "is_aligned a 4096" and "range_start (memory_range s) \<le> a"
  shows "aligned_addr_to_frame s (ucast a) = Some ((unat a - unat (range_start (memory_range s))) div 4096)"
proof -
  have le: "(ucast (range_start (memory_range s)) :: u64) \<le> ucast a"
    using assms(2) by (simp add: word_le_nat_alt)
  then have "unat ((ucast a :: u64) - ucast (range_start (memory_range s)))
      = unat a - unat (range_start (memory_range s))"
    by (simp add: unat_sub)
  then show ?thesis
    using assms(1) le by (simp add: aligned_addr_to_frame_def and_4095_u64 aligned_4096 unat_div)
qed

text \<open>\<^verbatim>\<open>pmm_frame_free\<close> checks its argument before the assertions, so it never panics.\<close>

lemma pmm_frame_free_eq:
  "pmm_frame_free a s = Some
     (let f = (unat a - unat (range_start (memory_range s))) div 4096 in
      if a \<noteq> 0 \<and> is_aligned a 4096 \<and> a \<in> range_set (memory_range s) \<and> f < total_frames s
      then mark_frame_free f s else s)"
proof (cases "a \<noteq> 0 \<and> is_aligned a 4096 \<and> a \<in> range_set (memory_range s)")
  case True
  then show ?thesis
    by (simp add: pmm_frame_free_def Let_def in_range_iff aligned_addr_to_frame_eq range_set_def
        and_4095_u32 aligned_4096)
next
  case False
  then show ?thesis
    by (auto simp: pmm_frame_free_def Let_def in_range_iff and_4095_u32 aligned_4096)
qed

lemma frame_addr_managed:
  assumes "pmm_wf s" and "f < total_frames s"
  shows "is_aligned (frame_addr s f) 4096" and "frame_addr s f \<in> range_set (memory_range s)"
    and "0 < f \<Longrightarrow> frame_addr s f \<noteq> 0"
proof -
  note u = unat_frame_addr [OF assms]
  have "4096 dvd unat (range_start (memory_range s))" using assms(1) by (simp add: pmm_wf_def aligned_4096)
  then show "is_aligned (frame_addr s f) 4096" by (simp add: aligned_4096 u)
  have "unat (range_start (memory_range s)) \<le> unat (frame_addr s f)"
    "unat (frame_addr s f) < unat (range_end (memory_range s))"
    unfolding u pmm_wf_bytes [OF assms(1)] using assms(2) by auto
  then show "frame_addr s f \<in> range_set (memory_range s)"
    unfolding range_set_def word_le_nat_alt word_less_nat_alt by simp
  assume "0 < f"
  then have "unat (frame_addr s f) \<noteq> 0" unfolding u by simp
  then show "frame_addr s f \<noteq> 0" by auto
qed

lemma pmm_frame_free_frame:
  assumes "pmm_wf s" and "0 < f" and "f < total_frames s"
  shows "pmm_frame_free (frame_addr s f) s = Some (mark_frame_free f s)"
  using frame_addr_managed [OF assms(1,3)] assms(2,3)
  by (simp add: pmm_frame_free_eq Let_def unat_frame_addr [OF assms(1,3)])

lemma pmm_inv_frame_free: "pmm_inv s \<Longrightarrow> pmm_frame_free a s = Some s' \<Longrightarrow> pmm_inv s'"
  by (auto simp: pmm_frame_free_eq Let_def pmm_inv_mark_free split: if_splits)

subsection \<open>Allocation\<close>

lemma pmm_frame_alloc_None:
  "(\<forall>f. 1 \<le> f \<longrightarrow> f < total_frames s \<longrightarrow> frame_used s f) \<Longrightarrow> pmm_frame_alloc s = (0, s)"
  using find_upt_None [of "\<lambda>f. \<not> frame_used s f" 1 "total_frames s"]
  by (simp add: pmm_frame_alloc_def)

lemma pmm_frame_alloc_Some:
  assumes "pmm_wf s" and "1 \<le> f" and "f < total_frames s" and "\<not> frame_used s f"
    and "\<And>g. 1 \<le> g \<Longrightarrow> g < f \<Longrightarrow> frame_used s g"
  shows "pmm_frame_alloc s = (ucast (frame_addr s f), mark_frame_used f s)"
proof -
  have "List.find (\<lambda>f. \<not> frame_used s f) [1..<total_frames s] = Some f"
    using assms by (simp add: find_upt_Some)
  then show ?thesis
    by (simp add: pmm_frame_alloc_def frame_to_aligned_addr_ucast [OF assms(1,3)])
qed

lemma pmm_frame_alloc_cases:
  assumes "pmm_wf s"
  obtains (full) "\<And>f. 1 \<le> f \<Longrightarrow> f < total_frames s \<Longrightarrow> frame_used s f" "pmm_frame_alloc s = (0, s)"
  | (frame) f where "1 \<le> f" "f < total_frames s" "\<not> frame_used s f"
      "\<And>g. 1 \<le> g \<Longrightarrow> g < f \<Longrightarrow> frame_used s g"
      "pmm_frame_alloc s = (ucast (frame_addr s f), mark_frame_used f s)"
proof (cases "\<exists>f. 1 \<le> f \<and> f < total_frames s \<and> \<not> frame_used s f")
  case True
  define f where "f = (LEAST f. 1 \<le> f \<and> f < total_frames s \<and> \<not> frame_used s f)"
  have f: "1 \<le> f \<and> f < total_frames s \<and> \<not> frame_used s f"
    unfolding f_def by (rule LeastI_ex [OF True])
  have "frame_used s g" if "1 \<le> g" "g < f" for g
    using not_less_Least [of g "\<lambda>f. 1 \<le> f \<and> f < total_frames s \<and> \<not> frame_used s f"] that f
    unfolding f_def [symmetric] by auto
  then show ?thesis using frame f pmm_frame_alloc_Some [OF assms] by blast
next
  case False
  then show ?thesis using full pmm_frame_alloc_None [of s] by blast
qed

lemma pmm_wf_mark [simp]:
  "pmm_wf (mark_frame_used f s) = pmm_wf s" "pmm_wf (mark_frame_free f s) = pmm_wf s"
  by (simp_all add: pmm_wf_def)

subsection \<open>The frame source interface\<close>

text \<open>
  What the page tables, the kernel heap and the address spaces rely on: a
  frame handed out was owned by nobody, and a release affects no other frame.
\<close>

locale frame_source =
  fixes alloc :: "'s \<Rightarrow> u64 \<times> 's"
    and free :: "u32 \<Rightarrow> 's \<Rightarrow> 's option"
    and owned :: "'s \<Rightarrow> u32 set"
    and ok :: "'s \<Rightarrow> bool"
  assumes alloc_ok: "ok s \<Longrightarrow> ok (snd (alloc s))"
    and alloc_none: "ok s \<Longrightarrow> fst (alloc s) = 0 \<Longrightarrow> snd (alloc s) = s"
    and alloc_some: "ok s \<Longrightarrow> fst (alloc s) \<noteq> 0 \<Longrightarrow>
      ucast (fst (alloc s)) \<notin> owned s
      \<and> owned (snd (alloc s)) = insert (ucast (fst (alloc s))) (owned s)
      \<and> is_aligned (ucast (fst (alloc s))) 4096 \<and> (ucast (fst (alloc s)) :: u32) \<noteq> 0"
    and free_ok: "ok s \<Longrightarrow> \<exists>s'. free a s = Some s' \<and> ok s'"
    and free_owned: "ok s \<Longrightarrow> free a s = Some s' \<Longrightarrow> owned s - {a} \<subseteq> owned s' \<and> owned s' \<subseteq> owned s"
begin

text \<open>Allocating frame after frame until the request is met or memory runs out.\<close>

fun alloc_n :: "nat \<Rightarrow> 's \<Rightarrow> u32 list \<times> 's" where
  "alloc_n 0 s = ([], s)"
| "alloc_n (Suc n) s =
     (case alloc s of (a, s1) \<Rightarrow>
        if a = 0 then ([], s1) else (case alloc_n n s1 of (as, s2) \<Rightarrow> (ucast a # as, s2)))"

lemma alloc_n_fresh:
  "ok s \<Longrightarrow> alloc_n n s = (as, s') \<Longrightarrow>
     ok s' \<and> distinct as \<and> set as \<inter> owned s = {} \<and> owned s' = owned s \<union> set as
     \<and> 0 \<notin> set as \<and> length as \<le> n"
proof (induction n arbitrary: s as s')
  case 0
  then show ?case by simp
next
  case (Suc n)
  obtain a s1 where a: "alloc s = (a, s1)" by (cases "alloc s")
  show ?case
  proof (cases "a = 0")
    case True
    then show ?thesis using Suc.prems a alloc_none [of s] alloc_ok [of s] by auto
  next
    case False
    obtain as' where r: "alloc_n n s1 = (as', s')" "as = ucast a # as'"
      using Suc.prems(2) a False by (auto split: prod.splits)
    have "ok s1" using alloc_ok [OF Suc.prems(1)] a by simp
    from Suc.IH [OF this r(1)] alloc_some [OF Suc.prems(1)] a False r(2)
    show ?thesis by auto
  qed
qed

end

definition owned_frames :: "pmm_t \<Rightarrow> u32 set" where
  "owned_frames s = {a. \<exists>f < total_frames s. frame_used s f \<and> a = frame_addr s f}"

lemma frame_addr_inj:
  assumes "pmm_wf s" and "f < total_frames s" and "g < total_frames s" and "frame_addr s f = frame_addr s g"
  shows "f = g"
proof -
  have "unat (frame_addr s f) = unat (frame_addr s g)" unfolding assms(4) ..
  then show ?thesis unfolding unat_frame_addr [OF assms(1,2)] unat_frame_addr [OF assms(1,3)] by simp
qed

lemma owned_mark_used:
  "f < total_frames s \<Longrightarrow> owned_frames (mark_frame_used f s) = insert (frame_addr s f) (owned_frames s)"
  by (auto simp: owned_frames_def frame_used_mark_used)

lemma frame_addr_of_frame:
  assumes "pmm_wf s" and "is_aligned a 4096" and "a \<in> range_set (memory_range s)"
  shows "frame_addr s ((unat a - unat (range_start (memory_range s))) div 4096) = a"
    and "(unat a - unat (range_start (memory_range s))) div 4096 < total_frames s"
proof -
  let ?b = "range_start (memory_range s)" and ?f = "(unat a - unat (range_start (memory_range s))) div 4096"
  have b: "4096 dvd unat ?b" "4096 dvd unat a"
    using assms by (auto simp: pmm_wf_def aligned_4096)
  have le: "unat ?b \<le> unat a" "unat a < unat ?b + total_frames s * 4096"
    using assms(3) pmm_wf_bytes [OF assms(1)] by (auto simp: range_set_def word_le_nat_alt word_less_nat_alt)
  have d: "?f * 4096 = unat a - unat ?b" using b by (simp add: dvd_diff_nat)
  then show lt: "?f < total_frames s" using le by linarith
  show "frame_addr s ?f = a"
    unfolding word_unat_eq_iff unat_frame_addr [OF assms(1) lt] d using le by simp
qed

lemma ucast_u64_back [simp]: "ucast (ucast a :: u64) = (a::u32)"
  by (rule bit_word_eqI) (auto simp: bit_simps)

lemma ucast_u64_eq_0 [simp]: "(ucast (a::u32) :: u64) = 0 \<longleftrightarrow> a = 0"
  using ucast_u64_back [of a] by (metis unsigned_0)

lemma pmm_alloc_fresh:
  assumes "pmm_wf s" and "fst (pmm_frame_alloc s) \<noteq> 0"
  shows "ucast (fst (pmm_frame_alloc s)) \<notin> owned_frames s
      \<and> owned_frames (snd (pmm_frame_alloc s)) = insert (ucast (fst (pmm_frame_alloc s))) (owned_frames s)
      \<and> is_aligned (ucast (fst (pmm_frame_alloc s))) 4096 \<and> (ucast (fst (pmm_frame_alloc s)) :: u32) \<noteq> 0"
proof (rule pmm_frame_alloc_cases [OF assms(1)])
  assume "pmm_frame_alloc s = (0, s)"
  then show ?thesis using assms(2) by simp
next
  fix f assume f: "1 \<le> f" "f < total_frames s" "\<not> frame_used s f"
    "pmm_frame_alloc s = (ucast (frame_addr s f), mark_frame_used f s)"
  have "frame_addr s f \<notin> owned_frames s"
    using f(2,3) frame_addr_inj [OF assms(1) f(2)] by (auto simp: owned_frames_def)
  then show ?thesis
    using f(1) frame_addr_managed [OF assms(1) f(2)] by (simp add: owned_mark_used f(2,4))
qed

lemma pmm_alloc_keeps:
  assumes "pmm_wf s"
  shows "pmm_wf (snd (pmm_frame_alloc s))" and "pmm_inv s \<Longrightarrow> pmm_inv (snd (pmm_frame_alloc s))"
    and "fst (pmm_frame_alloc s) = 0 \<Longrightarrow> snd (pmm_frame_alloc s) = s"
  using frame_addr_managed(3) [OF assms]
  by (auto intro: pmm_frame_alloc_cases [OF assms] simp: assms pmm_inv_mark_used)

lemma pmm_free_owned:
  assumes "pmm_wf s" and "pmm_frame_free a s = Some s'"
  shows "owned_frames s - {a} \<subseteq> owned_frames s' \<and> owned_frames s' \<subseteq> owned_frames s"
proof (cases "a \<noteq> 0 \<and> is_aligned a 4096 \<and> a \<in> range_set (memory_range s)")
  case True
  let ?f = "(unat a - unat (range_start (memory_range s))) div 4096"
  have s': "s' = mark_frame_free ?f s"
    using True assms(2) frame_addr_of_frame(2) [OF assms(1)]
    by (auto simp: pmm_frame_free_eq Let_def split: if_splits)
  have "frame_addr s ?f = a" using frame_addr_of_frame(1) [OF assms(1)] True by blast
  then show ?thesis
    unfolding s' by (auto simp: owned_frames_def frame_used_mark_free)
next
  case False
  then show ?thesis using assms(2) by (auto simp: pmm_frame_free_eq Let_def split: if_splits)
qed

interpretation pm: frame_source pmm_frame_alloc pmm_frame_free owned_frames "\<lambda>s. pmm_wf s \<and> pmm_inv s"
  by unfold_locales
    (simp_all add: pmm_alloc_keeps pmm_alloc_fresh pmm_free_owned pmm_frame_free_eq Let_def pmm_inv_mark_free)

subsection \<open>Ranges of frames\<close>

definition frame_inside :: "pmm_t \<Rightarrow> range_t \<Rightarrow> nat \<Rightarrow> bool" where
  "frame_inside s r f \<longleftrightarrow> unat (range_start r) \<le> unat (range_start (memory_range s)) + 4096 * f
     \<and> unat (range_start (memory_range s)) + 4096 * f + 4096 \<le> unat (range_end r)"

definition frame_touches :: "pmm_t \<Rightarrow> range_t \<Rightarrow> nat \<Rightarrow> bool" where
  "frame_touches s r f \<longleftrightarrow> unat (range_start r) < unat (range_start (memory_range s)) + 4096 * f + 4096
     \<and> unat (range_start (memory_range s)) + 4096 * f < unat (range_end r)"

lemma fold_mark_frame:
  "memory_range (fold mark_frame_used fs s) = memory_range s"
  "total_frames (fold mark_frame_used fs s) = total_frames s"
  "memory_range (fold release_frame fs s) = memory_range s"
  "total_frames (fold release_frame fs s) = total_frames s"
  by (induction fs arbitrary: s) simp_all

lemma fold_mark_used:
  "frame_used (fold mark_frame_used fs s) g \<longleftrightarrow> g \<in> set fs \<or> frame_used s g"
  by (induction fs arbitrary: s) (auto simp: frame_used_mark_used)

lemma fold_release:
  "frame_used (fold release_frame fs s) g \<longleftrightarrow> frame_used s g \<and> (g = 0 \<or> g \<notin> set fs)"
  by (induction fs arbitrary: s) (auto simp: frame_used_release)

lemma pmm_inv_fold:
  "pmm_inv s \<Longrightarrow> \<forall>f\<in>set fs. f < total_frames s \<Longrightarrow> pmm_inv (fold mark_frame_used fs s)"
  "pmm_inv s \<Longrightarrow> \<forall>f\<in>set fs. f < total_frames s \<Longrightarrow> pmm_inv (fold release_frame fs s)"
  by (induction fs arbitrary: s) (simp_all add: pmm_inv_mark_used pmm_inv_release)

lemma page_bounds:
  "(x + 4095) div 4096 \<le> n \<longleftrightarrow> x \<le> 4096 * n" "n < (x + 4095) div 4096 \<longleftrightarrow> 4096 * n < x"
  "x div 4096 \<le> n \<longleftrightarrow> x < 4096 * n + 4096" "n < x div 4096 \<longleftrightarrow> 4096 * n + 4096 \<le> (x::nat)"
  by auto

lemma clamp_interval:
  "max F b < min E (b + n) \<Longrightarrow>
     set [max F b - b..<min (min E (b + n) - b) n] = {f. f < n \<and> F \<le> b + f \<and> b + f < (E::nat)}"
  by (auto simp: max_def min_def split: if_splits)

lemma pmm_wf_pages:
  assumes "pmm_wf s"
  obtains b where "unat (range_start (memory_range s)) = 4096 * b"
    "unat (range_end (memory_range s)) = 4096 * (b + total_frames s)"
proof -
  obtain b where "unat (range_start (memory_range s)) = 4096 * b"
    using assms by (auto simp: pmm_wf_def aligned_4096)
  then show ?thesis using that pmm_wf_bytes [OF assms] by (simp add: algebra_simps)
qed

lemma unat_align_4096:
  "unat (align_down x 4096) = 4096 * (unat x div 4096)"
  "unat x + 4095 < 2 ^ 32 \<Longrightarrow> unat (align_up x 4096) = 4096 * ((unat x + 4095) div 4096)"
  using unat_align_down [of 12 x] unat_align_up [of 12 x] by simp_all

text \<open>Reserving a range marks exactly the frames it touches, and never panics.\<close>

lemma pmm_mark_range_used_frames:
  assumes wf: "pmm_wf s" and fits: "unat (range_end r) + 4095 < 2 ^ 32"
  shows "\<exists>fs. pmm_mark_range_used (range_start r) (range_end r) s = Some (fold mark_frame_used fs s)
    \<and> set fs = {f. f < total_frames s \<and> frame_touches s r f}"
proof -
  obtain b where b: "unat (range_start (memory_range s)) = 4096 * b"
    "unat (range_end (memory_range s)) = 4096 * (b + total_frames s)"
    using pmm_wf_pages [OF wf] .
  let ?F = "unat (range_start r) div 4096" and ?E = "(unat (range_end r) + 4095) div 4096"
  define q where "q = range_clamp (range_align_outward r 4096) (memory_range s)"
  have eta: "\<lparr>range_start = range_start r, range_end = range_end r\<rparr> = r" by simp
  have lo: "unat (range_start q) = 4096 * max ?F b"
    by (auto simp: q_def range_clamp_def range_align_outward_def word_less_nat_alt unat_align_4096 b max_def)
  have hi: "unat (range_end q) = 4096 * min ?E (b + total_frames s)"
    by (auto simp: q_def range_clamp_def range_align_outward_def word_less_nat_alt unat_align_4096(1) unat_align_4096(2) [OF fits] b min_def)
  have al: "is_aligned (range_start q) 4096" "is_aligned (range_end q) 4096"
    by (simp_all add: aligned_4096 lo hi)
  have touch: "frame_touches s r f \<longleftrightarrow> ?F \<le> b + f \<and> b + f < ?E" for f
    by (auto simp: frame_touches_def b page_bounds algebra_simps)
  show ?thesis
  proof (cases "range_start q \<ge> range_end q")
    case True
    then have e: "pmm_mark_range_used (range_start r) (range_end r) s = Some s"
      by (simp add: pmm_mark_range_used_def q_def eta)
    have "{f. f < total_frames s \<and> frame_touches s r f} = {}"
      using True by (auto simp: touch word_le_nat_alt lo hi)
    then show ?thesis using e by (intro exI [of _ "[]"]) simp
  next
    case False
    then have lt: "max ?F b < min ?E (b + total_frames s)" by (simp only: word_le_nat_alt lo hi not_le) simp
    then have ge: "range_start (memory_range s) \<le> range_start q" "range_start (memory_range s) \<le> range_end q"
      by (simp_all add: word_le_nat_alt lo hi b)
    let ?fs = "[max ?F b - b..<min (min ?E (b + total_frames s) - b) (total_frames s)]"
    have d: "(4096 * m - 4096 * n) div 4096 = m - n" for m n :: nat
      by (simp flip: diff_mult_distrib2)
    have "pmm_mark_range_used (range_start r) (range_end r) s = Some (fold mark_frame_used ?fs s)"
      using False al ge unfolding q_def
      by (simp add: pmm_mark_range_used_def aligned_addr_to_frame_eq d b eta
          lo [unfolded q_def] hi [unfolded q_def])
    moreover have "set ?fs = {f. f < total_frames s \<and> frame_touches s r f}"
      unfolding touch by (rule clamp_interval [OF lt])
    ultimately show ?thesis by blast
  qed
qed

text \<open>Releasing a range frees exactly the frames that lie inside it, frame 0 apart.\<close>

lemma pmm_mark_range_free_frames:
  assumes wf: "pmm_wf s" and base: "range_start (memory_range s) \<le> range_start r"
    and fits: "unat (range_start r) + 4095 < 2 ^ 32"
  shows "\<exists>fs. pmm_mark_range_free (range_start r) (range_end r) s = fold release_frame fs s
    \<and> set fs = {f. f < total_frames s \<and> frame_inside s r f}"
proof -
  obtain b where b: "unat (range_start (memory_range s)) = 4096 * b" using pmm_wf_pages [OF wf] .
  let ?A = "(unat (range_start r) + 4095) div 4096" and ?B = "unat (range_end r) div 4096"
  let ?lo = "align_up (range_start r) 4096" and ?hi = "align_down (range_end r) 4096"
  have inside: "frame_inside s r f \<longleftrightarrow> ?A \<le> b + f \<and> b + f < ?B" for f
    by (auto simp: frame_inside_def b page_bounds algebra_simps)
  have bA: "b \<le> ?A" using base b by (simp add: word_le_nat_alt)
  show ?thesis
  proof (cases "?lo \<ge> ?hi")
    case True
    then have "{f. f < total_frames s \<and> frame_inside s r f} = {}"
      by (auto simp: inside word_le_nat_alt unat_align_4096(1) unat_align_4096(2) [OF fits])
    then show ?thesis using True by (intro exI [of _ "[]"]) (simp add: pmm_mark_range_free_def)
  next
    case False
    then have lt: "?A < ?B" by (simp add: word_le_nat_alt unat_align_4096(1) unat_align_4096(2) [OF fits])
    have ge: "range_start (memory_range s) \<le> ?lo" "range_start (memory_range s) \<le> ?hi"
      using bA lt by (simp_all add: word_le_nat_alt unat_align_4096(1) unat_align_4096(2) [OF fits] b)
    let ?fs = "[?A - b..<min (?B - b) (total_frames s)]"
    have d: "(4096 * m - 4096 * n) div 4096 = m - n" for m n :: nat
      by (simp flip: diff_mult_distrib2)
    have "pmm_mark_range_free (range_start r) (range_end r) s = fold release_frame ?fs s"
      using False ge by (simp add: pmm_mark_range_free_def unat_div unat_sub unat_align_4096(1) unat_align_4096(2) [OF fits] b d)
    moreover have "set ?fs = {f. f < total_frames s \<and> frame_inside s r f}"
      using bA lt by (auto simp: inside)
    ultimately show ?thesis by blast
  qed
qed

lemma frame_rel_cong:
  "memory_range s = memory_range t \<Longrightarrow> frame_inside s = frame_inside t \<and> frame_touches s = frame_touches t"
  by (simp add: fun_eq_iff frame_inside_def frame_touches_def)

lemma pmm_wf_cong:
  "memory_range s = memory_range t \<Longrightarrow> total_frames s = total_frames t \<Longrightarrow> pmm_wf s = pmm_wf t"
  by (simp add: pmm_wf_def)

definition same_geometry :: "pmm_t \<Rightarrow> pmm_t \<Rightarrow> bool" where
  "same_geometry s t \<longleftrightarrow> memory_range t = memory_range s \<and> total_frames t = total_frames s \<and> (pmm_inv s \<longrightarrow> pmm_inv t)"

lemma same_geometryD:
  "same_geometry s t \<Longrightarrow> pmm_wf t = pmm_wf s \<and> frame_inside t = frame_inside s \<and> frame_touches t = frame_touches s"
  using frame_rel_cong [of t s] pmm_wf_cong [of t s] by (simp add: same_geometry_def)

lemma same_geometry_fold:
  assumes "\<forall>f\<in>set fs. f < total_frames s"
  shows "same_geometry s (fold mark_frame_used fs s)" and "same_geometry s (fold release_frame fs s)"
  using assms pmm_inv_fold [of s fs] by (auto simp: same_geometry_def fold_mark_frame)

lemma mark_range_free_usable:
  assumes "pmm_wf s" and "\<forall>r\<in>set rs. range_start (memory_range s) \<le> range_start r \<and> unat (range_start r) + 4095 < 2 ^ 32"
  shows "same_geometry s (fold (\<lambda>r. pmm_mark_range_free (range_start r) (range_end r)) rs s)
    \<and> (\<forall>f < total_frames s. frame_used (fold (\<lambda>r. pmm_mark_range_free (range_start r) (range_end r)) rs s) f
         \<longleftrightarrow> frame_used s f \<and> (f = 0 \<or> \<not> (\<exists>r\<in>set rs. frame_inside s r f)))"
  using assms
proof (induction rs arbitrary: s)
  case Nil
  then show ?case by (simp add: same_geometry_def)
next
  case (Cons r rs)
  obtain fs where fs: "pmm_mark_range_free (range_start r) (range_end r) s = fold release_frame fs s"
    "set fs = {f. f < total_frames s \<and> frame_inside s r f}"
    using pmm_mark_range_free_frames [of s r] Cons.prems by auto
  have g: "same_geometry s (fold release_frame fs s)" by (rule same_geometry_fold) (simp add: fs)
  note gd = same_geometryD [OF g]
  have "same_geometry (fold release_frame fs s) t \<Longrightarrow> same_geometry s t" for t
    using g by (simp add: same_geometry_def)
  then show ?case
    using Cons.IH [of "fold release_frame fs s"] Cons.prems gd
    by (auto simp: fs fold_mark_frame fold_release)
qed

lemma mark_ranges_used_critical:
  assumes "pmm_wf s" and "\<forall>r\<in>set rs. unat (range_end r) + 4095 < 2 ^ 32"
  shows "\<exists>t. mark_ranges_used rs s = Some t \<and> same_geometry s t
    \<and> (\<forall>f < total_frames s. frame_used t f \<longleftrightarrow> frame_used s f \<or> (\<exists>r\<in>set rs. frame_touches s r f))"
  using assms
proof (induction rs arbitrary: s)
  case Nil
  then show ?case by (simp add: same_geometry_def)
next
  case (Cons r rs)
  obtain fs where fs: "pmm_mark_range_used (range_start r) (range_end r) s = Some (fold mark_frame_used fs s)"
    "set fs = {f. f < total_frames s \<and> frame_touches s r f}"
    using pmm_mark_range_used_frames [of s r] Cons.prems by auto
  have g: "same_geometry s (fold mark_frame_used fs s)" by (rule same_geometry_fold) (simp add: fs)
  note gd = same_geometryD [OF g]
  have "same_geometry (fold mark_frame_used fs s) t \<Longrightarrow> same_geometry s t" for t
    using g by (simp add: same_geometry_def)
  then show ?case
    using Cons.IH [of "fold mark_frame_used fs s"] Cons.prems gd
    by (auto simp: fs fold_mark_frame fold_mark_used)
qed

lemma pmm_inv_filled:
  assumes "pmm_bitmap s = mem_set b 0 0xFF ((total_frames s + 7) div 8)"
    and "used_frames s = of_nat (total_frames s)" and "total_frames s \<le> MAX_FRAMES"
  shows "pmm_inv s" and "\<forall>f < total_frames s. frame_used s f"
proof -
  have ff: "bit (255 :: u8) (f mod 8)" for f
    using bit_mask_iff [of 8 "f mod 8", where 'a = "8 word"] by (simp add: mask_eq_exp_minus_1)
  show u: "\<forall>f < total_frames s. frame_used s f"
  proof (intro allI impI)
    fix f assume "f < total_frames s"
    then have "pmm_bitmap s (f div 8) = 255" unfolding assms(1) by (intro mem_set_in) auto
    then show "frame_used s f" unfolding bitmap_test_bit by (simp only: ff)
  qed
  then have "bm.ones (pmm_bitmap s) (total_frames s) = {..<total_frames s}" by (auto simp: bm.in_ones)
  then show "pmm_inv s" using assms u by (simp add: pmm_inv_def)
qed

subsection \<open>Correctness of the allocator\<close>

text \<open>
  C36. \<^verbatim>\<open>pmm_init\<close> never panics, whatever the boot memory map, and leaves a
  consistent allocator in which a frame is available exactly when it is not
  frame 0, lies wholly inside some usable range and touches no critical
  range. The hypotheses: the managed range is page aligned, every usable range
  starts inside it, and rounding a bound up to a page does not pass 4 GiB.
\<close>

theorem pmm_init_frames:
  assumes al: "is_aligned (range_start managed) 4096" "is_aligned (range_end managed) 4096"
      "range_start managed \<le> range_end managed"
    and usable: "\<forall>r\<in>set usable. range_start managed \<le> range_start r \<and> unat (range_start r) + 4095 < 2 ^ 32"
    and critical: "\<forall>r\<in>set critical. unat (range_end r) + 4095 < 2 ^ 32"
  shows "\<exists>s'. pmm_init managed usable critical s = Some s' \<and> pmm_wf s' \<and> pmm_inv s' \<and> pmm_initialized s'
    \<and> memory_range s' = managed
    \<and> (\<forall>f < total_frames s'. frame_used s' f \<longleftrightarrow>
          f = 0 \<or> \<not> (\<exists>r\<in>set usable. frame_inside s' r f) \<or> (\<exists>r\<in>set critical. frame_touches s' r f))"
proof -
  let ?n = "unat ((range_end managed - range_start managed) div 4096)"
  define s0 where "s0 = s\<lparr>memory_range := managed, total_frames := ?n, bitmap_size_bytes := (?n + 7) div 8,
    pmm_bitmap := mem_set (pmm_bitmap s) 0 0xFF ((?n + 7) div 8), used_frames := of_nat ?n\<rparr>"
  define s1 where "s1 = fold (\<lambda>r. pmm_mark_range_free (range_start r) (range_end r)) usable s0"
  have wf0: "pmm_wf s0" using al by (simp add: s0_def pmm_wf_def)
  have "?n \<le> MAX_FRAMES"
    using u32_bound [of "range_end managed - range_start managed"] by (simp add: unat_div MAX_FRAMES_def)
  then have inv0: "pmm_inv s0" "\<forall>f < total_frames s0. frame_used s0 f"
    using pmm_inv_filled [of s0 "pmm_bitmap s"] by (simp_all add: s0_def)
  have s1: "same_geometry s0 s1" "\<forall>f < total_frames s0. frame_used s1 f
      \<longleftrightarrow> frame_used s0 f \<and> (f = 0 \<or> \<not> (\<exists>r\<in>set usable. frame_inside s0 r f))"
    using mark_range_free_usable [OF wf0, of usable] usable by (simp_all add: s1_def) (simp_all add: s0_def)
  note g1 = same_geometryD [OF s1(1)]
  obtain s2 where s2: "mark_ranges_used critical s1 = Some s2" "same_geometry s1 s2"
    "\<forall>f < total_frames s1. frame_used s2 f \<longleftrightarrow> frame_used s1 f \<or> (\<exists>r\<in>set critical. frame_touches s1 r f)"
    using mark_ranges_used_critical [of s1 critical] critical wf0 g1 by auto
  note g2 = same_geometryD [OF s2(2)]
  let ?t = "s2\<lparr>pmm_initialized := True\<rparr>"
  have t: "frame_inside ?t = frame_inside s0" "frame_touches ?t = frame_touches s0"
    using g1 g2 frame_rel_cong [of ?t s2] by simp_all
  have "pmm_init managed usable critical s = Some ?t"
    using s2(1) by (simp add: pmm_init_def Let_def s1_def s0_def)
  moreover have "pmm_inv ?t" using inv0(1) s1(1) s2(2) by (simp add: same_geometry_def pmm_inv_def)
  moreover have "pmm_wf ?t" "memory_range ?t = managed" "total_frames ?t = total_frames s0"
    using wf0 g1 g2 s1(1) s2(2) by (simp_all add: same_geometry_def pmm_wf_def s0_def)
  ultimately show ?thesis
    using inv0(2) s1 s2(3) g1 by (auto simp: t same_geometry_def)
qed

theorem pmm_init_frames_witness:
  "\<exists>s'. pmm_init \<lparr>range_start = 0, range_end = 0x8000\<rparr> [\<lparr>range_start = 0x1000, range_end = 0x7800\<rparr>]
      [\<lparr>range_start = 0x2800, range_end = 0x3001\<rparr>] pmm_statics = Some s'
    \<and> pmm_wf s' \<and> pmm_inv s' \<and> \<not> frame_used s' 1 \<and> frame_used s' 2 \<and> frame_used s' 3
    \<and> \<not> frame_used s' 6 \<and> frame_used s' 7"
proof -
  let ?m = "\<lparr>range_start = 0, range_end = 0x8000\<rparr>" and ?u = "\<lparr>range_start = 0x1000, range_end = 0x7800\<rparr>"
    and ?c = "\<lparr>range_start = 0x2800, range_end = 0x3001\<rparr>"
  obtain s' where s': "pmm_init ?m [?u] [?c] pmm_statics = Some s' \<and> pmm_wf s' \<and> pmm_inv s'
    \<and> pmm_initialized s' \<and> memory_range s' = ?m \<and> (\<forall>f < total_frames s'. frame_used s' f \<longleftrightarrow>
          f = 0 \<or> \<not> (\<exists>r\<in>set [?u]. frame_inside s' r f) \<or> (\<exists>r\<in>set [?c]. frame_touches s' r f))"
    by (rule exE [OF pmm_init_frames [of ?m "[?u]" "[?c]" pmm_statics]]) (simp_all add: aligned_4096)
  then have n: "total_frames s' = 8" by (simp add: pmm_wf_def)
  have "frame_used s' f \<longleftrightarrow> f = 0 \<or> \<not> frame_inside s' ?u f \<or> frame_touches s' ?c f" if "f < 8" for f
    using s' n that by simp
  then show ?thesis
    using s' by (intro exI [of _ s']) (simp add: frame_inside_def frame_touches_def)
qed

text \<open>
  C11. \<^verbatim>\<open>pmm_frame_alloc\<close> returns 0 exactly when every frame but frame 0 is in
  use, and then changes nothing. Otherwise it hands out the lowest free frame:
  the address is the frame's, page aligned and not 0, the frame has one
  reference, no other frame changes and the counters stay consistent.
\<close>

theorem pmm_frame_alloc_spec:
  assumes "pmm_wf s" and "pmm_inv s"
  shows "(pmm_frame_alloc s = (0, s) \<and> (\<forall>f. 1 \<le> f \<and> f < total_frames s \<longrightarrow> frame_used s f))
    \<or> (\<exists>f s'. pmm_frame_alloc s = (ucast (frame_addr s f), s') \<and> frame_addr s f \<noteq> 0
        \<and> is_aligned (frame_addr s f) 4096 \<and> frame_addr s f \<in> range_set (memory_range s)
        \<and> 1 \<le> f \<and> f < total_frames s \<and> \<not> frame_used s f \<and> (\<forall>g. 1 \<le> g \<and> g < f \<longrightarrow> frame_used s g)
        \<and> (\<forall>g. frame_used s' g \<longleftrightarrow> g = f \<or> frame_used s g)
        \<and> frame_refcounts s' = (frame_refcounts s)(f := 1)
        \<and> frame_get_used_count s' = frame_get_used_count s + 1
        \<and> frame_get_free_count s' = frame_get_free_count s - 1 \<and> pmm_wf s' \<and> pmm_inv s')"
proof (rule pmm_frame_alloc_cases [OF assms(1)])
  assume "\<And>f. 1 \<le> f \<Longrightarrow> f < total_frames s \<Longrightarrow> frame_used s f" "pmm_frame_alloc s = (0, s)"
  then show ?thesis by simp
next
  fix f assume f: "1 \<le> f" "f < total_frames s" "\<not> frame_used s f" "\<And>g. 1 \<le> g \<Longrightarrow> g < f \<Longrightarrow> frame_used s g"
    "pmm_frame_alloc s = (ucast (frame_addr s f), mark_frame_used f s)"
  have "frame_refcounts (mark_frame_used f s) = (frame_refcounts s)(f := 1)"
    "used_frames (mark_frame_used f s) = used_frames s + 1"
    using f(3) by (simp_all add: mark_frame_used_def)
  then show ?thesis
    using f frame_addr_managed [OF assms(1) f(2)] assms
    by (intro disjI2 exI [of _ f] exI [of _ "mark_frame_used f s"])
      (simp add: frame_used_mark_used pmm_inv_mark_used frame_get_used_count_def frame_get_free_count_def)
qed

text \<open>Eight frames, of which 0, 1 and 3 are in use.\<close>

definition pmm_demo :: pmm_t where
  "pmm_demo = pmm_statics\<lparr>memory_range := \<lparr>range_start = 0, range_end = 0x8000\<rparr>, total_frames := 8,
     bitmap_size_bytes := 1, pmm_bitmap := (\<lambda>_. 0)(0 := 0x0B), used_frames := 3,
     frame_refcounts := (\<lambda>_. 0)(0 := 1, 1 := 1, 3 := 1)\<rparr>"

lemma pmm_demo_used: "f < 8 \<Longrightarrow> frame_used pmm_demo f \<longleftrightarrow> f \<in> {0, 1, 3}"
proof -
  assume "f < 8"
  then consider "f = 0" | "f = 1" | "f = 2" | "f = 3" | "f = 4" | "f = 5" | "f = 6" | "f = 7" by linarith
  then show ?thesis by cases (simp_all add: pmm_demo_def pmm_statics_def bitmap_test_def)
qed

lemma pmm_demo_ok: "pmm_wf pmm_demo" "pmm_inv pmm_demo"
proof -
  show "pmm_wf pmm_demo" by (simp add: pmm_wf_def pmm_demo_def aligned_4096)
  have t: "total_frames pmm_demo = 8" "used_frames pmm_demo = 3" by (simp_all add: pmm_demo_def)
  have "bm.ones (pmm_bitmap pmm_demo) 8 = {0, 1, 3}" by (auto simp: bm.in_ones pmm_demo_used)
  moreover have "frame_refcounts pmm_demo f = 0" if "f < 8" "\<not> frame_used pmm_demo f" for f
    using that by (simp add: pmm_demo_used) (simp add: pmm_demo_def)
  ultimately show "pmm_inv pmm_demo" by (simp add: pmm_inv_def t MAX_FRAMES_def)
qed

theorem pmm_frame_alloc_spec_witness:
  "fst (pmm_frame_alloc pmm_demo) = 0x2000 \<and> pmm_inv (snd (pmm_frame_alloc pmm_demo))"
proof -
  have t: "total_frames pmm_demo = 8" "range_start (memory_range pmm_demo) = 0" by (simp_all add: pmm_demo_def)
  have "f = 2" if "1 \<le> f" "f < 8" "\<not> frame_used pmm_demo f" "\<forall>g. 1 \<le> g \<and> g < f \<longrightarrow> frame_used pmm_demo g" for f
    using that pmm_demo_used [of f] pmm_demo_used [of 2] by (cases "f < 2"; cases "2 < f") auto
  then have f2: "Suc 0 \<le> f \<Longrightarrow> f < 8 \<Longrightarrow> \<not> frame_used pmm_demo f
      \<Longrightarrow> \<forall>g. Suc 0 \<le> g \<and> g < f \<longrightarrow> frame_used pmm_demo g \<Longrightarrow> f = 2" for f
    by simp
  have "\<not> frame_used pmm_demo 2" by (simp add: pmm_demo_used)
  then show ?thesis
    using pmm_frame_alloc_spec [OF pmm_demo_ok] by (auto simp: t dest!: f2)
qed

text \<open>
  Any number of allocations in a row hands out pairwise distinct, non-null
  frames, none of which was in use before, and every frame in use before stays
  in use.
\<close>

theorem pmm_frame_alloc_distinct:
  assumes "pmm_wf s" and "pmm_inv s" and "pm.alloc_n n s = (as, s')"
  shows "distinct as \<and> 0 \<notin> set as \<and> length as \<le> n \<and> set as \<inter> owned_frames s = {}
    \<and> owned_frames s' = owned_frames s \<union> set as \<and> pmm_wf s' \<and> pmm_inv s'"
  using pm.alloc_n_fresh [of s n as s'] assms by blast

theorem pmm_frame_alloc_distinct_witness:
  "\<exists>as s'. pm.alloc_n 3 pmm_demo = (as, s') \<and> distinct as \<and> set as \<inter> owned_frames pmm_demo = {}"
proof -
  obtain as s' where "pm.alloc_n 3 pmm_demo = (as, s')" by (cases "pm.alloc_n 3 pmm_demo")
  then show ?thesis using pmm_frame_alloc_distinct [OF pmm_demo_ok] by blast
qed

subsection \<open>Shared frames\<close>

text \<open>Sequences of calls on one frame: \<open>n\<close> times one more reference, \<open>n\<close> times one fewer.\<close>

definition share :: "nat \<Rightarrow> u32 \<Rightarrow> pmm_t \<Rightarrow> pmm_t" where
  "share n a = (\<lambda>s. pmm_frame_refcount_inc s a) ^^ n"

fun unshare :: "nat \<Rightarrow> u32 \<Rightarrow> pmm_t \<Rightarrow> pmm_t option" where
  "unshare 0 a s = Some s"
| "unshare (Suc n) a s = (case pmm_frame_free a s of None \<Rightarrow> None | Some s \<Rightarrow> unshare n a s)"

lemma refcount_index:
  assumes "pmm_wf s" and "f < total_frames s"
  shows "unat (frame_addr s f div 4096) = unat (range_start (memory_range s)) div 4096 + f"
  unfolding unat_div unat_frame_addr [OF assms] by simp

lemma refcount_inc_frame:
  assumes "pmm_wf s" and "range_start (memory_range s) = 0" and "f < total_frames s"
  shows "pmm_frame_refcount_inc s (frame_addr s f)
    = s\<lparr>frame_refcounts := (frame_refcounts s)(f := frame_refcounts s f + 1)\<rparr>"
  using refcount_index [OF assms(1,3)] assms(2,3) by (simp add: pmm_frame_refcount_inc_def Let_def)

lemma share_Suc: "share (Suc n) a s = pmm_frame_refcount_inc (share n a s) a"
  by (simp add: share_def)

lemma share_frame:
  assumes "pmm_wf s" and "range_start (memory_range s) = 0" and "f < total_frames s"
  shows "share n (frame_addr s f) s
    = s\<lparr>frame_refcounts := (frame_refcounts s)(f := frame_refcounts s f + of_nat n)\<rparr>"
proof (induction n)
  case (Suc n)
  let ?t = "s\<lparr>frame_refcounts := (frame_refcounts s)(f := frame_refcounts s f + of_nat n)\<rparr>"
  have "pmm_wf ?t" using assms(1) by (simp add: pmm_wf_def)
  then have "pmm_frame_refcount_inc ?t (frame_addr ?t f)
      = ?t\<lparr>frame_refcounts := (frame_refcounts ?t)(f := frame_refcounts ?t f + 1)\<rparr>"
    using assms by (intro refcount_inc_frame) simp_all
  moreover have "share (Suc n) (frame_addr s f) s = pmm_frame_refcount_inc ?t (frame_addr ?t f)"
    unfolding share_Suc Suc by simp
  ultimately show ?case by (simp add: fun_upd_def ac_simps cong: if_cong)
qed (simp add: share_def)

lemma unshare_frame:
  assumes "pmm_wf s" and "0 < f" and "f < total_frames s" and "frame_used s f"
    and "unat (frame_refcounts s f) = n + m" and "0 < m"
  shows "\<exists>t. unshare n (frame_addr s f) s = Some t \<and> unat (frame_refcounts t f) = m
    \<and> pmm_bitmap t = pmm_bitmap s \<and> same_geometry s t"
  using assms
proof (induction n arbitrary: s)
  case 0
  then show ?case by (simp add: same_geometry_def)
next
  case (Suc n)
  let ?t = "mark_frame_free f s"
  have gt: "unat (frame_refcounts s f) > 1" using Suc.prems(5,6) by simp
  then have nz: "frame_refcounts s f \<noteq> 0" "frame_refcounts s f - 1 \<noteq> 0"
    by auto
  have t: "pmm_bitmap ?t = pmm_bitmap s" "frame_refcounts ?t f = frame_refcounts s f - 1"
    using Suc.prems(4) nz by (simp_all add: mark_frame_free_def Let_def word_gt_0)
  have "unat (frame_refcounts s f - 1) = n + m"
    using Suc.prems(5) nz by (simp add: unat_minus_one)
  then obtain u where "unshare n (frame_addr ?t f) ?t = Some u" "unat (frame_refcounts u f) = m"
    "pmm_bitmap u = pmm_bitmap ?t" "same_geometry ?t u"
    using Suc.IH [of ?t] Suc.prems t by auto
  moreover have "same_geometry s ?t"
    using Suc.prems(3) by (simp add: same_geometry_def pmm_inv_mark_free)
  ultimately show ?case
    using Suc.prems(1-3) t by (auto simp: pmm_frame_free_frame same_geometry_def)
qed

lemma unshare_append: "unshare (n + m) a s = Option.bind (unshare n a s) (unshare m a)"
  by (induction n a s rule: unshare.induct) (auto split: option.split)

lemma unshare_last:
  assumes "pmm_wf s" and "0 < f" and "f < total_frames s" and "frame_used s f"
    and "unat (frame_refcounts s f) = Suc n"
  shows "\<exists>t. unshare (Suc n) (frame_addr s f) s = Some t \<and> same_geometry s t
    \<and> (\<forall>g. frame_used t g \<longleftrightarrow> frame_used s g \<and> g \<noteq> f)"
proof -
  obtain t where t: "unshare n (frame_addr s f) s = Some t" "unat (frame_refcounts t f) = 1"
    "pmm_bitmap t = pmm_bitmap s" "same_geometry s t"
    using unshare_frame [OF assms(1-4), of n 1] assms(5) by auto
  have "pmm_frame_free (frame_addr t f) t = Some (mark_frame_free f t)"
    using t(4) assms same_geometryD [OF t(4)] by (intro pmm_frame_free_frame) (auto simp: same_geometry_def)
  moreover have "\<not> frame_refcounts t f > 1" using t(2) by (simp add: word_less_nat_alt)
  ultimately show ?thesis
    using t(1,4) assms(3) unshare_append [of n 1 "frame_addr s f" s]
    by (auto simp: same_geometry_def frame_used_mark_free pmm_inv_mark_free t(3))
qed

text \<open>
  C16. The life of a shared frame when physical memory starts at address 0: a
  frame handed out by \<^verbatim>\<open>pmm_frame_alloc\<close> and shared \<open>n\<close> more times by
  \<^verbatim>\<open>pmm_frame_refcount_inc\<close> stays allocated through the first \<open>n\<close> calls of
  \<^verbatim>\<open>pmm_frame_free\<close>, and the call after that returns it: the same frames are in
  use as before it was allocated. The bound is the 16-bit counter's.
\<close>

theorem pmm_refcount_lifecycle:
  assumes "pmm_wf s" and "pmm_inv s" and "range_start (memory_range s) = 0" and "n < 65535"
    and "pmm_frame_alloc s = (a, s1)" and "a \<noteq> 0"
  shows "(\<forall>j \<le> n. \<exists>t. unshare j (ucast a) (share n (ucast a) s1) = Some t
        \<and> owned_frames t = insert (ucast a) (owned_frames s) \<and> pmm_inv t)
    \<and> (\<exists>t. unshare (Suc n) (ucast a) (share n (ucast a) s1) = Some t
        \<and> owned_frames t = owned_frames s \<and> pmm_inv t)"
proof -
  obtain f where f: "1 \<le> f" "f < total_frames s" "\<not> frame_used s f" "a = ucast (frame_addr s f)"
    "s1 = mark_frame_used f s"
    using pmm_frame_alloc_cases [OF assms(1)] assms(5,6) by (metis prod.inject)
  define s2 where "s2 = share n (frame_addr s f) s1"
  have s1: "pmm_wf s1" "pmm_inv s1" "frame_addr s1 f = frame_addr s f" "total_frames s1 = total_frames s"
    "range_start (memory_range s1) = 0" "frame_refcounts s1 f = 1"
    using f(1-3,5) assms(1-3) by (simp_all add: pmm_inv_mark_used refcount_mark_used)
  have s2: "s2 = s1\<lparr>frame_refcounts := (frame_refcounts s1)(f := 1 + of_nat n)\<rparr>"
    using share_frame [of s1 f n] s1 f(2) unfolding s2_def by simp
  have rc: "unat (1 + of_nat n :: u16) = Suc n"
    using assms(4) by (simp add: unat_word_ariths unat_of_nat)
  have u: "frame_used s2 g \<longleftrightarrow> g = f \<or> frame_used s g" for g
    by (simp add: s2 f(5) frame_used_mark_used)
  have geo: "memory_range s2 = memory_range s" "total_frames s2 = total_frames s" by (simp_all add: s2 f(5))
  have inv: "pmm_inv s2" using s1(2) f(5) by (auto simp: s2 pmm_inv_def frame_used_mark_used)
  have wf: "pmm_wf s2" using s1(1) by (simp add: s2 pmm_wf_def)
  have own: "owned_frames t = {frame_addr s g | g. g < total_frames s \<and> frame_used t g}" if "same_geometry s2 t" for t
    using that geo by (auto simp: owned_frames_def same_geometry_def)
  have f2: "0 < f" "f < total_frames s2" "frame_used s2 f" "frame_refcounts s2 f = 1 + of_nat n"
    using f(1,2) geo u by (simp_all add: s2)
  have "\<exists>t. unshare j (ucast a) s2 = Some t \<and> owned_frames t = insert (ucast a) (owned_frames s) \<and> pmm_inv t"
    if j: "j \<le> n" for j
  proof -
    obtain t where "unshare j (frame_addr s2 f) s2 = Some t" "pmm_bitmap t = pmm_bitmap s2" "same_geometry s2 t"
      using unshare_frame [OF wf f2(1-3), of j "Suc n - j"] j rc f2(4) by auto
    then show ?thesis
      using own [of t] u f(2,4) inv geo by (auto simp: owned_frames_def same_geometry_def)
  qed
  moreover obtain t where "unshare (Suc n) (frame_addr s2 f) s2 = Some t" "same_geometry s2 t"
      "\<forall>g. frame_used t g \<longleftrightarrow> frame_used s2 g \<and> g \<noteq> f"
    using unshare_last [OF wf f2(1-3), of n] rc f2(4) by auto
  then have "unshare (Suc n) (ucast a) s2 = Some t \<and> owned_frames t = owned_frames s \<and> pmm_inv t"
    using own [of t] u f(3,4) inv geo by (auto simp: owned_frames_def same_geometry_def)
  ultimately show ?thesis using f(4) by (auto simp: s2_def)
qed

theorem pmm_refcount_lifecycle_witness:
  "\<exists>a s1. pmm_frame_alloc pmm_demo = (a, s1) \<and> a \<noteq> 0
    \<and> (\<exists>t. unshare 4 (ucast a) (share 3 (ucast a) s1) = Some t \<and> owned_frames t = owned_frames pmm_demo)"
proof -
  have nf: "\<not> frame_used pmm_demo 2" "total_frames pmm_demo = 8" "range_start (memory_range pmm_demo) = 0"
    by (simp_all add: pmm_demo_used) (simp_all add: pmm_demo_def)
  have "frame_used pmm_demo g" if "1 \<le> g" "g < 2" for g using that by (simp add: pmm_demo_used)
  then have "pmm_frame_alloc pmm_demo = (ucast (frame_addr pmm_demo 2), mark_frame_used 2 pmm_demo)"
    using nf by (intro pmm_frame_alloc_Some [OF pmm_demo_ok(1)]) auto
  then obtain a s1 where a: "pmm_frame_alloc pmm_demo = (a, s1)" "a \<noteq> 0"
    using nf(3) by simp
  show ?thesis
    using pmm_refcount_lifecycle [OF pmm_demo_ok nf(3) _ a, of 3] a by auto
qed



end
