(* ===== verification/KString.thy ===== *)
theory KString
  imports KPrelude "HOL-Library.Monad_Syntax"
begin

text \<open>
  The C string library of the kernel, \<^verbatim>\<open>kernel/src/klib/string.c\<close> and
  \<^verbatim>\<open>ctype.c\<close>. All strings live in one byte memory, a pointer is an address in
  it and 0 is \<^verbatim>\<open>NULL\<close>, so that overlapping buffers behave as in C. A loop that
  runs to a terminating NUL has no bound of its own: it is a partial function
  and \<open>None\<close> means that it does not return. A \<^verbatim>\<open>char\<close> is its byte; \<^verbatim>\<open>int\<close>
  results of comparisons are integers, \<^verbatim>\<open>atoi\<close> computes on 32-bit words.
\<close>

subsection \<open>Searching and measuring\<close>

partial_function (option) strrchr_loop :: "bytes \<Rightarrow> nat \<Rightarrow> u8 \<Rightarrow> nat \<Rightarrow> nat option" where
  "strrchr_loop m str chr found =
     (if m str \<noteq> 0 then strrchr_loop m (str + 1) chr (if m str = chr then str else found)
      else Some found)"

definition strrchr :: "bytes \<Rightarrow> nat \<Rightarrow> u8 \<Rightarrow> nat option" where
  "strrchr m str chr = (if str = 0 then Some 0 else strrchr_loop m str chr 0)"

partial_function (option) strchr_loop :: "bytes \<Rightarrow> nat \<Rightarrow> u8 \<Rightarrow> nat option" where
  "strchr_loop m str chr =
     (if m str \<noteq> 0 then (if m str = chr then Some str else strchr_loop m (str + 1) chr) else Some 0)"

definition strchr :: "bytes \<Rightarrow> nat \<Rightarrow> u8 \<Rightarrow> nat option" where
  "strchr m str chr = (if str = 0 then Some 0 else strchr_loop m str chr)"

partial_function (option) strlen_loop :: "bytes \<Rightarrow> nat \<Rightarrow> u32 \<Rightarrow> u32 option" where
  "strlen_loop m str len = (if m str \<noteq> 0 then strlen_loop m (str + 1) (len + 1) else Some len)"

definition strlen :: "bytes \<Rightarrow> nat \<Rightarrow> u32 option" where
  "strlen m str = strlen_loop m str 0"

text \<open>\<^verbatim>\<open>strcspn\<close>: the inner loop looks for one character in the reject string.\<close>

partial_function (option) strcspn_reject :: "bytes \<Rightarrow> u8 \<Rightarrow> nat \<Rightarrow> nat \<Rightarrow> bool option" where
  "strcspn_reject m c reject i =
     (if m (reject + i) \<noteq> 0 then (if c = m (reject + i) then Some True else strcspn_reject m c reject (i + 1))
      else Some False)"

partial_function (option) strcspn_loop :: "bytes \<Rightarrow> nat \<Rightarrow> nat \<Rightarrow> nat \<Rightarrow> nat option" where
  "strcspn_loop m s reject count =
     (if m (s + count) \<noteq> 0 then
        do { hit \<leftarrow> strcspn_reject m (m (s + count)) reject 0;
             if hit then Some count else strcspn_loop m s reject (count + 1) }
      else Some count)"

definition strcspn :: "bytes \<Rightarrow> nat \<Rightarrow> nat \<Rightarrow> nat option" where
  "strcspn m s reject = strcspn_loop m s reject 0"

subsection \<open>Copying\<close>

partial_function (option) strcpy_loop :: "bytes \<Rightarrow> nat \<Rightarrow> nat \<Rightarrow> bytes option" where
  "strcpy_loop m dst src =
     (if m src \<noteq> 0 then strcpy_loop (m(dst := m src)) (dst + 1) (src + 1) else Some (m(dst := 0)))"

text \<open>The result is the returned pointer with the memory.\<close>

definition strcpy :: "bytes \<Rightarrow> nat \<Rightarrow> nat \<Rightarrow> (nat \<times> bytes) option" where
  "strcpy m dst src =
     (if dst = 0 then Some (0, m)
      else if src = 0 then Some (dst, m(dst := 0))
      else map_option (\<lambda>m. (dst, m)) (strcpy_loop m dst src))"

text \<open>\<^verbatim>\<open>while (n--) *dst++ = '\0'\<close>\<close>

fun strncpy_pad :: "bytes \<Rightarrow> nat \<Rightarrow> nat \<Rightarrow> bytes" where
  "strncpy_pad m dst 0 = m"
| "strncpy_pad m dst (Suc n) = strncpy_pad (m(dst := 0)) (dst + 1) n"

fun strncpy_loop :: "bytes \<Rightarrow> nat \<Rightarrow> nat \<Rightarrow> nat \<Rightarrow> bytes" where
  "strncpy_loop m dst src 0 = m"
| "strncpy_loop m dst src (Suc n) =
     (if m src \<noteq> 0 then strncpy_loop (m(dst := m src)) (dst + 1) (src + 1) n
      else strncpy_pad m dst (Suc n))"

definition strncpy :: "bytes \<Rightarrow> nat \<Rightarrow> nat \<Rightarrow> u32 \<Rightarrow> nat \<times> bytes" where
  "strncpy m dst src n =
     (if dst = 0 then (0, m)
      else if src = 0 then (dst, strncpy_pad m dst (unat n))
      else (dst, strncpy_loop m dst src (unat n)))"

definition memcpy :: "bytes \<Rightarrow> nat \<Rightarrow> nat \<Rightarrow> u32 \<Rightarrow> bytes" where
  "memcpy m dst src num = for_loop 0 (unat num) (\<lambda>i m. m(dst + i := m (src + i))) m"

definition memset :: "bytes \<Rightarrow> nat \<Rightarrow> u32 \<Rightarrow> u32 \<Rightarrow> bytes" where
  "memset m ptr value num = for_loop 0 (unat num) (\<lambda>i m. m(ptr + i := ucast value)) m"

subsection \<open>Comparing\<close>

partial_function (option) strcmp :: "bytes \<Rightarrow> nat \<Rightarrow> nat \<Rightarrow> int option" where
  "strcmp m a b =
     (if m a \<noteq> 0 \<and> m a = m b then strcmp m (a + 1) (b + 1)
      else Some (int (unat (m a)) - int (unat (m b))))"

text \<open>
  \<^verbatim>\<open>while (n-- && *a && *a == *b)\<close>: the loop leaves \<^verbatim>\<open>n\<close> at \<^verbatim>\<open>(unsigned)-1\<close> exactly
  when it found \<^verbatim>\<open>n\<close> equal to 0.
\<close>

fun strncmp_loop :: "bytes \<Rightarrow> nat \<Rightarrow> nat \<Rightarrow> nat \<Rightarrow> int" where
  "strncmp_loop m a b 0 = 0"
| "strncmp_loop m a b (Suc n) =
     (if m a \<noteq> 0 \<and> m a = m b then strncmp_loop m (a + 1) (b + 1) n
      else int (unat (m a)) - int (unat (m b)))"

definition strncmp :: "bytes \<Rightarrow> nat \<Rightarrow> nat \<Rightarrow> u32 \<Rightarrow> int" where
  "strncmp m a b n = strncmp_loop m a b (unat n)"

partial_function (option) starts_with :: "bytes \<Rightarrow> nat \<Rightarrow> nat \<Rightarrow> bool option" where
  "starts_with m str prefix =
     (if m prefix \<noteq> 0 then
        (if m str \<noteq> m prefix then Some False else starts_with m (str + 1) (prefix + 1))
      else Some True)"

definition memcmp :: "bytes \<Rightarrow> nat \<Rightarrow> nat \<Rightarrow> u32 \<Rightarrow> int" where
  "memcmp m ptr1 ptr2 num =
     (case List.find (\<lambda>i. m (ptr1 + i) \<noteq> m (ptr2 + i)) [0..<unat num] of Some _ \<Rightarrow> 1 | None \<Rightarrow> 0)"

subsection \<open>Tokens\<close>

text \<open>The two scans of \<^verbatim>\<open>strtok\<close> and \<^verbatim>\<open>strtok_r\<close>: over delimiters and over the token.\<close>

partial_function (option) skip_delims :: "bytes \<Rightarrow> nat \<Rightarrow> nat \<Rightarrow> nat option" where
  "skip_delims m delim str =
     (if m str \<noteq> 0 then
        do { hit \<leftarrow> strchr m delim (m str);
             if hit \<noteq> 0 then skip_delims m delim (str + 1) else Some str }
      else Some str)"

partial_function (option) scan_token :: "bytes \<Rightarrow> nat \<Rightarrow> nat \<Rightarrow> nat option" where
  "scan_token m delim str =
     (if m str \<noteq> 0 then
        do { hit \<leftarrow> strchr m delim (m str);
             if hit = 0 then scan_token m delim (str + 1) else Some str }
      else Some str)"

text \<open>Both return the token, the saved pointer and the memory.\<close>

definition strtok :: "bytes \<Rightarrow> nat \<Rightarrow> nat \<Rightarrow> nat \<Rightarrow> (nat \<times> nat \<times> bytes) option" where
  "strtok m saved str delim =
     (let saved = (if str \<noteq> 0 then str else saved) in
      if saved = 0 then Some (0, saved, m)
      else do {
        saved \<leftarrow> skip_delims m delim saved;
        if m saved = 0 then Some (0, saved, m)
        else do {
          let token_start = saved;
          saved \<leftarrow> scan_token m delim saved;
          if m saved \<noteq> 0 then Some (token_start, saved + 1, m(saved := 0))
          else Some (token_start, 0, m) } })"

definition strtok_r :: "bytes \<Rightarrow> nat \<Rightarrow> nat \<Rightarrow> nat \<Rightarrow> (nat \<times> nat \<times> bytes) option" where
  "strtok_r m str delim saveptr =
     do { let str = (if str = 0 then saveptr else str);
          str \<leftarrow> skip_delims m delim str;
          if m str = 0 then Some (0, str, m)
          else do {
            let token = str;
            str \<leftarrow> scan_token m delim str;
            if m str \<noteq> 0 then Some (token, str + 1, m(str := 0))
            else Some (token, str, m) } }"

subsection \<open>Numbers and characters\<close>

function itoa_digits :: "u32 \<Rightarrow> u8 list \<Rightarrow> u8 list" where
  "itoa_digits value tmp =
     (if value > 0 then itoa_digits (value div 10) (tmp @ [0x30 + ucast (value mod 10)]) else tmp)"
  by pat_completeness auto
termination
proof (relation "measure (\<lambda>(value, tmp). unat value)")
  fix v :: u32 and tmp :: "u8 list"
  assume "v > 0"
  then show "((v div 10, tmp @ [0x30 + ucast (v mod 10)]), v, tmp) \<in> measure (\<lambda>(value, tmp). unat value)"
    by (simp add: unat_div word_less_nat_alt)
qed simp

definition itoa :: "u32 \<Rightarrow> nat \<Rightarrow> bytes \<Rightarrow> bytes" where
  "itoa value str m =
     (if value = 0 then m(str := 0x30, str + 1 := 0)
      else
        (let tmp = itoa_digits value []; i = length tmp;
             m = for_loop 0 i (\<lambda>j m. m(str + j := tmp ! (i - 1 - j))) m
         in m(str + i := 0)))"

partial_function (option) trim_scan :: "bytes \<Rightarrow> nat \<Rightarrow> nat option" where
  "trim_scan m p = (if m p \<noteq> 0 \<and> m p \<noteq> 0x0A \<and> m p \<noteq> 0x0D then trim_scan m (p + 1) else Some p)"

definition trim_newline :: "bytes \<Rightarrow> nat \<Rightarrow> bytes option" where
  "trim_newline m str = (if str = 0 then Some m else map_option (\<lambda>p. m(p := 0)) (trim_scan m str))"

partial_function (option) atoi_blanks :: "bytes \<Rightarrow> nat \<Rightarrow> nat option" where
  "atoi_blanks m str = (if m str = 0x20 \<or> m str = 0x09 then atoi_blanks m (str + 1) else Some str)"

partial_function (option) atoi_digits :: "bytes \<Rightarrow> nat \<Rightarrow> u32 \<Rightarrow> u32 option" where
  "atoi_digits m str result =
     (if 0x30 \<le> m str \<and> m str \<le> 0x39 then atoi_digits m (str + 1) (result * 10 + ucast (m str - 0x30))
      else Some result)"

definition atoi :: "bytes \<Rightarrow> nat \<Rightarrow> u32 option" where
  "atoi m str =
     do { str \<leftarrow> atoi_blanks m str;
          let (sign, str) = (if m str = 0x2D then (-1, str + 1) else if m str = 0x2B then (1, str + 1) else (1, str));
          result \<leftarrow> atoi_digits m str 0;
          Some (sign * result) }"

definition islower :: "u8 \<Rightarrow> bool" where
  "islower chr \<longleftrightarrow> 0x61 \<le> chr \<and> chr \<le> 0x7A"

definition toupper :: "u8 \<Rightarrow> u8" where
  "toupper chr = (if islower chr then chr - 0x61 + 0x41 else chr)"

subsection \<open>Strings in memory\<close>

fun cstr :: "bytes \<Rightarrow> nat \<Rightarrow> u8 list \<Rightarrow> bool" where
  "cstr m p [] \<longleftrightarrow> m p = 0"
| "cstr m p (x # xs) \<longleftrightarrow> m p = x \<and> x \<noteq> 0 \<and> cstr m (p + 1) xs"

lemma cstr_append: "cstr m p (xs @ ys) \<longleftrightarrow> (\<forall>i < length xs. m (p + i) = xs ! i \<and> xs ! i \<noteq> 0) \<and> cstr m (p + length xs) ys"
proof (induction xs arbitrary: p)
  case (Cons x xs)
  then show ?case by (auto simp: All_less_Suc2)
qed simp

lemma cstr_iff: "cstr m p xs \<longleftrightarrow> (\<forall>i < length xs. m (p + i) = xs ! i \<and> xs ! i \<noteq> 0) \<and> m (p + length xs) = 0"
  using cstr_append [of m p xs "[]"] by simp

lemma cstr_cong: "(\<And>i. i \<le> length xs \<Longrightarrow> m (p + i) = m' (p + i)) \<Longrightarrow> cstr m p xs = cstr m' p xs"
  by (simp add: cstr_iff)

lemma strlen_loop_cstr: "cstr m p xs \<Longrightarrow> strlen_loop m p n = Some (n + of_nat (length xs))"
  by (induction xs arbitrary: p n) (simp_all add: strlen_loop.simps)

lemma strchr_loop_cstr:
  "cstr m p xs \<Longrightarrow> 0 < p \<Longrightarrow> \<exists>q. strchr_loop m p c = Some q \<and> (q \<noteq> 0 \<longleftrightarrow> c \<in> set xs)
     \<and> (q \<noteq> 0 \<longrightarrow> p \<le> q \<and> q < p + length xs \<and> m q = c \<and> (\<forall>i. p \<le> i \<and> i < q \<longrightarrow> m i \<noteq> c))"
proof (induction xs arbitrary: p)
  case Nil
  then show ?case by (simp add: strchr_loop.simps)
next
  case (Cons x xs)
  show ?case
  proof (cases "x = c")
    case True
    then show ?thesis using Cons.prems by (auto simp: strchr_loop.simps)
  next
    case False
    obtain q where "strchr_loop m (p + 1) c = Some q" "(q \<noteq> 0) = (c \<in> set xs)"
      "q \<noteq> 0 \<longrightarrow> p + 1 \<le> q \<and> q < p + 1 + length xs \<and> m q = c \<and> (\<forall>i. p + 1 \<le> i \<and> i < q \<longrightarrow> m i \<noteq> c)"
      using Cons.IH [of "p + 1"] Cons.prems by auto
    moreover have "m i \<noteq> c" if "p \<le> i" "i < q" "\<forall>i. p + 1 \<le> i \<and> i < q \<longrightarrow> m i \<noteq> c" for i
      using that False Cons.prems by (cases "i = p") auto
    ultimately show ?thesis using Cons.prems False by (subst strchr_loop.simps) auto
  qed
qed

lemma strchr_delim:
  "cstr m d ds \<Longrightarrow> 0 < d \<Longrightarrow> \<exists>q. strchr m d c = Some q \<and> (q = 0 \<longleftrightarrow> c \<notin> set ds)"
  using strchr_loop_cstr [of m d ds c] by (auto simp: strchr_def)

subsection \<open>Comparison\<close>

lemma byte_diff:
  "(uint x - uint (y::u8) = 0) = (x = y)" "(uint x - uint y < 0) = (x < y)"
  by (simp_all add: word_less_def word_uint_eq_iff)

lemma strcmp_cstr:
  "cstr m a xs \<Longrightarrow> cstr m b ys \<Longrightarrow>
     \<exists>r. strcmp m a b = Some r \<and> (r = 0 \<longleftrightarrow> xs = ys) \<and> (r < 0 \<longleftrightarrow> (xs, ys) \<in> lexord {(x, y). x < y})"
proof (induction xs arbitrary: a b ys)
  case Nil
  then have "strcmp m a b = Some (uint (m a) - uint (m b))" by (simp add: strcmp.simps)
  moreover have "(m a = m b) = (ys = [])" "(m a < m b) = (ys \<noteq> [])"
    using Nil by (cases ys; auto simp: word_gt_0)+
  ultimately show ?case using byte_diff [of "m a" "m b"] by (cases ys) auto
next
  case (Cons x xs)
  show ?case
  proof (cases ys)
    case Nil
    then have "strcmp m a b = Some (uint (m a) - uint (m b))" "m b = 0" "m a \<noteq> 0"
      using Cons.prems by (auto simp: strcmp.simps)
    then show ?thesis using Nil byte_diff [of "m a" "m b"] by auto
  next
    case ys: (Cons y zs)
    show ?thesis
    proof (cases "x = y")
      case True
      then show ?thesis using Cons.IH [of "a + 1" "b + 1" zs] Cons.prems ys by (auto simp: strcmp.simps)
    next
      case False
      then have "strcmp m a b = Some (uint x - uint y)"
        using Cons.prems ys by (auto simp: strcmp.simps)
      then show ?thesis using False ys byte_diff [of x y] by auto
    qed
  qed
qed

subsection \<open>Copying\<close>

lemma copy_loop:
  assumes "dst \<le> src \<or> src + n \<le> dst" and "k \<le> n"
  shows "for_loop 0 k (\<lambda>i m. m(dst + i := m (src + i))) m = mem_copy m dst m src k"
  using assms(2)
proof (induction k)
  case (Suc k)
  then show ?case using assms(1) by (auto simp: mem_copy_def fun_eq_iff less_Suc_eq add.commute)
qed simp

lemma memcpy_eq:
  "dst \<le> src \<or> src + unat n \<le> dst \<Longrightarrow> memcpy m dst src n = mem_copy m dst m src (unat n)"
  unfolding memcpy_def by (rule copy_loop [of _ _ "unat n"]) auto

lemma memset_eq: "memset m p v n = mem_set m p (ucast v) (unat n)"
proof -
  have "for_loop 0 k (\<lambda>i m. m(p + i := ucast v)) m = mem_set m p (ucast v) k" for k
    by (induction k) (auto simp: mem_set_def fun_eq_iff less_Suc_eq)
  then show ?thesis by (simp add: memset_def)
qed

lemma memcmp_eq: "memcmp m p q n = 0 \<longleftrightarrow> (\<forall>i < unat n. m (p + i) = m (q + i))"
proof (cases "List.find (\<lambda>i. m (p + i) \<noteq> m (q + i)) [0..<unat n]")
  case None
  then have "\<forall>i < unat n. m (p + i) = m (q + i)" by (simp add: find_upt_None)
  with None show ?thesis by (simp add: memcmp_def)
next
  case (Some i)
  moreover from Some have "i < unat n \<and> m (p + i) \<noteq> m (q + i)" by (simp add: find_upt_Some)
  ultimately show ?thesis by (auto simp: memcmp_def)
qed

lemma strncpy_pad_eq: "strncpy_pad m dst n = mem_set m dst 0 n"
  by (induction n arbitrary: m dst) (simp_all add: mem_set_Suc)

text \<open>What \<^verbatim>\<open>strncpy\<close> leaves: the string cut to \<open>n\<close> bytes, padded with zeros to \<open>n\<close> bytes.\<close>

definition padded :: "u8 list \<Rightarrow> nat \<Rightarrow> u8" where
  "padded xs i = (if i < length xs then xs ! i else 0)"

lemma padded_Cons [simp]: "padded (x # xs) 0 = x" "padded (x # xs) (Suc i) = padded xs i"
  by (simp_all add: padded_def)

lemma mem_copy_Nil: "mem_copy m p (padded []) 0 n = mem_set m p 0 n"
  by (simp add: mem_copy_def mem_set_def fun_eq_iff padded_def)

lemma mem_copy_Cons: "mem_copy m p (padded (x # xs)) 0 (Suc n) = mem_copy (m(p := x)) (Suc p) (padded xs) 0 n"
  using mem_copy_Suc [of "padded xs" "padded (x # xs)"] by simp

lemma cstr_upd:
  "cstr m p xs \<Longrightarrow> q < p \<or> p + length xs < q \<Longrightarrow> cstr (m(q := v)) p xs"
  using cstr_cong [of xs "m(q := v)" p m] by auto

lemma strncpy_loop_eq:
  assumes "cstr m src xs" and "dst + n \<le> src \<or> src + length xs < dst"
  shows "strncpy_loop m dst src n = mem_copy m dst (padded xs) 0 n"
  using assms
proof (induction xs arbitrary: m dst src n)
  case Nil
  then show ?case by (cases n) (simp_all add: mem_copy_Nil strncpy_pad_eq mem_set_Suc)
next
  case (Cons x xs)
  show ?case
  proof (cases n)
    case (Suc k)
    have "cstr (m(dst := x)) (src + 1) xs" using Cons.prems Suc by (intro cstr_upd) auto
    from Cons.IH [OF this, of "dst + 1" k]
    have "strncpy_loop (m(dst := x)) (dst + 1) (src + 1) k = mem_copy (m(dst := x)) (dst + 1) (padded xs) 0 k"
      using Cons.prems(2) Suc by (auto simp: fun_upd_def)
    moreover have "m src = x" "x \<noteq> 0" using Cons.prems by simp_all
    ultimately show ?thesis unfolding Suc mem_copy_Cons by simp
  qed simp
qed

lemma strcpy_loop_eq:
  assumes "cstr m src xs" and "dst + length xs < src \<or> src + length xs < dst"
  shows "strcpy_loop m dst src = Some (mem_copy m dst (padded xs) 0 (length xs + 1))"
  using assms
proof (induction xs arbitrary: m dst src)
  case Nil
  then show ?case by (simp add: strcpy_loop.simps mem_copy_Nil mem_set_Suc fun_upd_def)
next
  case (Cons x xs)
  have "cstr (m(dst := x)) (src + 1) xs" using Cons.prems by (intro cstr_upd) auto
  from Cons.IH [OF this, of "dst + 1"]
  have "strcpy_loop (m(dst := x)) (dst + 1) (src + 1)
      = Some (mem_copy (m(dst := x)) (dst + 1) (padded xs) 0 (length xs + 1))"
    using Cons.prems(2) by (auto simp: fun_upd_def)
  moreover have "m src = x" "x \<noteq> 0" using Cons.prems by simp_all
  ultimately show ?case by (subst strcpy_loop.simps) (simp add: mem_copy_Cons)
qed

subsection \<open>Tokens\<close>

lemma skip_delims_cstr:
  assumes "cstr m d ds" and "0 < d"
  shows "cstr m p xs \<Longrightarrow>
    skip_delims m d p = Some (p + length (takeWhile (\<lambda>c. c \<in> set ds) xs))"
proof (induction xs arbitrary: p)
  case Nil
  then show ?case by (simp add: skip_delims.simps)
next
  case (Cons x xs)
  then show ?case using strchr_delim [OF assms, of x] by (subst skip_delims.simps) auto
qed

lemma scan_token_cstr:
  assumes "cstr m d ds" and "0 < d"
  shows "cstr m p xs \<Longrightarrow>
    scan_token m d p = Some (p + length (takeWhile (\<lambda>c. c \<notin> set ds) xs))"
proof (induction xs arbitrary: p)
  case Nil
  then show ?case by (simp add: scan_token.simps)
next
  case (Cons x xs)
  then show ?case using strchr_delim [OF assms, of x] by (subst scan_token.simps) auto
qed

text \<open>The head of a string and the string cut at its head.\<close>

lemma cstr_head: "cstr m p xs \<Longrightarrow> m p = 0 \<longleftrightarrow> xs = []"
  by (cases xs) auto

lemma cstr_cut:
  assumes "cstr m p (xs @ x # ys)"
  shows "cstr (m(p + length xs := 0)) p xs" and "cstr (m(p + length xs := 0)) (p + length xs + 1) ys"
proof -
  show "cstr (m(p + length xs := 0)) p xs" using assms by (simp add: cstr_append cstr_iff [of _ p xs])
  show "cstr (m(p + length xs := 0)) (p + length xs + 1) ys"
    by (rule cstr_upd) (use assms in \<open>auto simp: cstr_append\<close>)
qed

subsection \<open>Decimal numbers\<close>

declare itoa_digits.simps [simp del]

lemma div10_less: "0 < v \<Longrightarrow> unat ((v::u32) div 10) < unat v"
  by (simp add: unat_div word_less_nat_alt)

lemma itoa_digits_append: "itoa_digits v tmp = tmp @ itoa_digits v []"
proof (induction "unat v" arbitrary: v tmp rule: less_induct)
  case less
  show ?case
  proof (cases "v > 0")
    case True
    let ?d = "[0x30 + ucast (v mod 10)]"
    have "itoa_digits (v div 10) (tmp @ ?d) = (tmp @ ?d) @ itoa_digits (v div 10) []"
      "itoa_digits (v div 10) ?d = ?d @ itoa_digits (v div 10) []"
      using div10_less [OF True] by (rule less)+
    then show ?thesis using True by (subst (1 2) itoa_digits.simps) simp
  qed (simp add: itoa_digits.simps)
qed

lemma itoa_digits_rec:
  "itoa_digits v [] = (if v > 0 then (0x30 + ucast (v mod 10)) # itoa_digits (v div 10) [] else [])"
  by (subst itoa_digits.simps) (subst itoa_digits_append, simp)

lemma digit_byte:
  fixes v :: u32
  defines "d \<equiv> 0x30 + ucast (v mod 10) :: u8"
  shows "0x30 \<le> d" and "d \<le> 0x39" and "ucast (ucast (v mod 10) :: u8) = v mod 10"
proof -
  have lt: "unat (v mod 10) < 10" by (simp add: unat_mod)
  have u: "unat (ucast (v mod 10) :: u8) = unat (v mod 10)"
    using lt by (simp add: unsigned_ucast_eq take_bit_nat_eq_self)
  then have d: "unat d = 48 + unat (v mod 10)"
    using lt by (simp add: d_def unat_word_ariths)
  show "0x30 \<le> d" "d \<le> 0x39" using d lt by (simp_all add: word_le_nat_alt)
  show "ucast (ucast (v mod 10) :: u8) = v mod 10"
    using lt by (simp add: word_unat_eq_iff unsigned_ucast_eq unsigned_take_bit_eq take_bit_nat_eq_self)
qed

lemma itoa_digits_value:
  "fold (\<lambda>d r. r * 10 + ucast (d - 0x30)) (rev (itoa_digits v [])) 0 = v"
proof (induction "unat v" arbitrary: v rule: less_induct)
  case less
  show ?case
  proof (cases "v > 0")
    case True
    then show ?thesis
      using less [OF div10_less [OF True]] digit_byte(3) [of v]
        word_mod_div_equality [of v 10]
      by (subst itoa_digits_rec) simp
  qed (simp add: itoa_digits_rec word_gt_0)
qed

lemma itoa_digits_set: "d \<in> set (itoa_digits v []) \<Longrightarrow> 0x30 \<le> d \<and> d \<le> 0x39"
proof (induction "unat v" arbitrary: v rule: less_induct)
  case less
  show ?case
  proof (cases "v > 0")
    case True
    then show ?thesis
      using less(1) [OF div10_less [OF True]] less(2) digit_byte(1,2) [of v] by (subst (asm) itoa_digits_rec) auto
  qed (use less(2) in \<open>simp add: itoa_digits_rec\<close>)
qed

text \<open>At most ten digits: the buffer \<^verbatim>\<open>char tmp[16]\<close> is never overrun.\<close>

lemma itoa_digits_length: "unat v < 10 ^ k \<Longrightarrow> length (itoa_digits v []) \<le> k"
proof (induction k arbitrary: v)
  case 0
  then show ?case by (simp add: itoa_digits_rec word_less_nat_alt)
next
  case (Suc k)
  then have "unat (v div 10) < 10 ^ k" by (simp add: unat_div)
  then show ?case using Suc.IH by (subst itoa_digits_rec) simp
qed

lemma atoi_digits_cstr:
  "cstr m p ds \<Longrightarrow> \<forall>d\<in>set ds. 0x30 \<le> d \<and> d \<le> 0x39 \<Longrightarrow>
     atoi_digits m p r = Some (fold (\<lambda>d r. r * 10 + ucast (d - 0x30)) ds r)"
  by (induction ds arbitrary: p r) (simp_all add: atoi_digits.simps)

lemma write_loop:
  "k \<le> length xs \<Longrightarrow> for_loop 0 k (\<lambda>j m. m(p + j := xs ! (length xs - 1 - j))) m = mem_copy m p (padded (rev xs)) 0 k"
proof (induction k)
  case (Suc k)
  then have e: "xs ! (length xs - Suc k) = padded (rev xs) k" by (simp add: padded_def rev_nth)
  show ?case using Suc by (auto simp: mem_copy_def fun_eq_iff less_Suc_eq e)
qed simp

lemma itoa_cstr:
  "\<exists>ds. cstr (itoa v p m) p ds \<and> (\<forall>d\<in>set ds. 0x30 \<le> d \<and> d \<le> 0x39) \<and> ds \<noteq> []
     \<and> fold (\<lambda>d r. r * 10 + ucast (d - 0x30)) ds 0 = v \<and> length ds \<le> 10
     \<and> (\<forall>a. a < p \<or> p + length ds < a \<longrightarrow> itoa v p m a = m a)"
proof (cases "v = 0")
  case True
  then show ?thesis by (intro exI [of _ "[0x30]"]) (simp add: itoa_def)
next
  case False
  let ?ds = "rev (itoa_digits v [])"
  have e: "itoa v p m = (mem_copy m p (padded ?ds) 0 (length ?ds))(p + length ?ds := 0)"
    using False write_loop [of "length ?ds" "itoa_digits v []" p m] by (simp add: itoa_def Let_def)
  have nz: "?ds ! i \<noteq> 0" if "i < length ?ds" for i
    using itoa_digits_set [of "?ds ! i" v] nth_mem [OF that] by auto
  have "cstr (itoa v p m) p ?ds"
    unfolding e cstr_iff using nz by (auto simp: padded_def)
  moreover have "length ?ds \<le> 10" using itoa_digits_length [of v 10] u32_bound [of v] by simp
  moreover have "?ds \<noteq> []" using False by (subst itoa_digits_rec) (simp add: word_gt_0)
  moreover have "itoa v p m a = m a" if "a < p \<or> p + length ?ds < a" for a
    unfolding e using that by (auto simp: mem_copy_out)
  ultimately show ?thesis using itoa_digits_set [of _ v] itoa_digits_value [of v] by (intro exI [of _ ?ds]) auto
qed

subsection \<open>Correctness of the library\<close>

text \<open>
  C39. \<^verbatim>\<open>atoi\<close> reads back what \<^verbatim>\<open>itoa\<close> wrote, for every 32-bit value: \<^verbatim>\<open>itoa\<close> leaves
  a NUL-terminated string of at most ten digits at its buffer, writes nothing
  past the terminator, and \<^verbatim>\<open>atoi\<close> returns on it with the value.
\<close>

theorem atoi_itoa:
  "atoi (itoa v p m) p = Some v
    \<and> (\<exists>n \<le> 10. strlen (itoa v p m) p = Some (of_nat n) \<and> (\<forall>a. a < p \<or> p + n < a \<longrightarrow> itoa v p m a = m a))"
proof -
  obtain ds where ds: "cstr (itoa v p m) p ds" "\<forall>d\<in>set ds. 0x30 \<le> d \<and> d \<le> 0x39" "ds \<noteq> []"
    "fold (\<lambda>d r. r * 10 + ucast (d - 0x30)) ds 0 = v" "length ds \<le> 10"
    "\<forall>a. a < p \<or> p + length ds < a \<longrightarrow> itoa v p m a = m a"
    using itoa_cstr [of v p m] by blast
  obtain d es where "ds = d # es" using ds(3) by (cases ds) auto
  then have c: "itoa v p m p = d" "0x30 \<le> d" "d \<le> 0x39" using ds(1,2) by auto
  then have nb: "itoa v p m p \<notin> {0x20, 0x09, 0x2D, 0x2B}" by (auto simp: word_le_nat_alt)
  then have "atoi_blanks (itoa v p m) p = Some p" by (simp add: atoi_blanks.simps)
  moreover have "atoi_digits (itoa v p m) p 0 = Some v"
    using atoi_digits_cstr [OF ds(1,2), of 0] ds(4) by simp
  ultimately have "atoi (itoa v p m) p = Some v" using nb by (simp add: atoi_def)
  then show ?thesis using ds(5,6) strlen_loop_cstr [OF ds(1), of 0] by (auto simp: strlen_def)
qed

theorem atoi_itoa_witness:
  "\<exists>n. atoi (itoa 4294967295 1 (\<lambda>_. 0)) 1 = Some 4294967295 \<and> n \<le> 10
    \<and> strlen (itoa 4294967295 1 (\<lambda>_. 0)) 1 = Some (of_nat n) \<and> itoa 4294967295 1 (\<lambda>_. 0) (12 + n) = 0"
  using atoi_itoa [of 4294967295 1 "\<lambda>_. 0"] by auto

text \<open>
  On two NUL-terminated strings \<^verbatim>\<open>strcmp\<close> returns: 0 exactly when they are
  equal, a negative number exactly when the first comes first in the
  lexicographic order of their bytes, taken as unsigned numbers.
\<close>

theorem strcmp_lexicographic:
  assumes "cstr m a xs" and "cstr m b ys"
  shows "\<exists>r. strcmp m a b = Some r \<and> (r = 0 \<longleftrightarrow> xs = ys)
    \<and> (r < 0 \<longleftrightarrow> (xs, ys) \<in> lexord {(x, y). x < y}) \<and> (r > 0 \<longleftrightarrow> (ys, xs) \<in> lexord {(x, y). x < y})"
proof -
  have "asym (lexord {(x::u8, y). x < y})" by (intro lexord_asym) (auto intro: asymI)
  then show ?thesis
    using strcmp_cstr [OF assms] lexord_linear [of "{(x::u8, y). x < y}" xs ys] less_linear
    by (auto dest: asymD lexord_irreflexive)
qed

text \<open>A memory that holds the given bytes from address 1 on.\<close>

definition mem_of :: "u8 list \<Rightarrow> bytes" where
  "mem_of xs = (\<lambda>a. if 1 \<le> a \<and> a \<le> length xs then xs ! (a - 1) else 0)"

theorem strcmp_lexicographic_witness:
  "let m = mem_of [0x61, 0x62, 0, 0x61, 0x7A, 0] in
   cstr m 1 [0x61, 0x62] \<and> cstr m 4 [0x61, 0x7A] \<and> (\<exists>r. strcmp m 1 4 = Some r \<and> r < 0)"
proof -
  let ?m = "mem_of [0x61, 0x62, 0, 0x61, 0x7A, 0]"
  have c: "cstr ?m 1 [0x61, 0x62]" "cstr ?m 4 [0x61, 0x7A]" by (simp_all add: mem_of_def)
  show ?thesis using strcmp_lexicographic [OF c] c by (auto simp: Let_def)
qed

text \<open>
  \<^verbatim>\<open>strncpy\<close> from a string that does not overlap the destination writes
  exactly the \<open>n\<close> bytes from the destination on: the string's bytes up to \<open>n\<close>,
  then zeros; when the string has \<open>n\<close> bytes or more no terminator is written.
\<close>

theorem strncpy_spec:
  assumes "cstr m src xs" and "0 < dst" and "0 < src"
    and "dst + unat n \<le> src \<or> src + length xs < dst"
  shows "\<exists>m'. strncpy m dst src n = (dst, m')
    \<and> (\<forall>i < unat n. m' (dst + i) = (if i < length xs then xs ! i else 0))
    \<and> (\<forall>a. a < dst \<or> dst + unat n \<le> a \<longrightarrow> m' a = m a)
    \<and> (length xs < unat n \<longrightarrow> cstr m' dst xs)"
proof -
  have e: "strncpy m dst src n = (dst, mem_copy m dst (padded xs) 0 (unat n))"
    using strncpy_loop_eq [OF assms(1,4)] assms(2,3) by (simp add: strncpy_def)
  show ?thesis
    using assms(1) by (auto simp: e padded_def mem_copy_out cstr_iff)
qed

theorem strncpy_spec_witness:
  "\<exists>m'. strncpy (mem_of [0x61, 0x62, 0]) 10 1 4 = (10, m') \<and> cstr m' 10 [0x61, 0x62] \<and> m' 13 = 0"
proof -
  have c: "cstr (mem_of [0x61, 0x62, 0]) 1 [0x61, 0x62]" by (simp add: mem_of_def)
  obtain m' where "strncpy (mem_of [0x61, 0x62, 0]) 10 1 4 = (10, m')" "cstr m' 10 [0x61, 0x62]"
    "\<forall>i < (4::nat). m' (10 + i) = (if i < 2 then [0x61, 0x62] ! i else 0)"
    using strncpy_spec [OF c, of 10 4] by auto
  then show ?thesis by (auto dest!: spec [of _ 3])
qed

lemma strtok_r_spec:
  assumes "cstr m d ds" and "0 < d" and "cstr m p xs" and "0 < p"
    and "str = p \<and> save = s \<or> str = 0 \<and> save = p"
    and "ys = dropWhile (\<lambda>c. c \<in> set ds) xs" and "tok = takeWhile (\<lambda>c. c \<notin> set ds) ys"
  shows "\<exists>m' save'. strtok_r m str d save = Some (if ys = [] then 0 else p + (length xs - length ys), save', m')
    \<and> (ys \<noteq> [] \<longrightarrow> tok \<noteq> [] \<and> cstr m' (p + (length xs - length ys)) tok)
    \<and> cstr m' save' (drop (length tok + 1) ys)
    \<and> (\<forall>a. a < p \<or> p + length xs \<le> a \<longrightarrow> m' a = m a)"
proof -
  let ?pre = "takeWhile (\<lambda>c. c \<in> set ds) xs" and ?rest = "dropWhile (\<lambda>c. c \<notin> set ds) ys"
  have xs: "xs = ?pre @ ys" "ys = tok @ ?rest" using assms(6,7) by simp_all
  define q where "q = p + length ?pre"
  have len: "p + (length xs - length ys) = q" by (subst xs(1)) (simp add: q_def)
  have cy: "cstr m q ys" using assms(3) by (subst (asm) xs(1)) (simp add: cstr_append q_def)
  have skip: "skip_delims m d p = Some q" using skip_delims_cstr [OF assms(1-3)] by (simp add: q_def)
  have scan: "scan_token m d q = Some (q + length tok)"
    using scan_token_cstr [OF assms(1,2) cy] assms(7) by simp
  have start: "(if str = 0 then save else str) = p" using assms(4,5) by auto
  show ?thesis
  proof (cases "ys = []")
    case True
    then show ?thesis
      using cy skip start by (auto simp: strtok_r_def Let_def)
  next
    case False
    then have "hd ys \<notin> set ds" unfolding assms(6) by (rule hd_dropWhile)
    then have tok: "tok \<noteq> []" using False assms(7) by (cases ys) auto
    have end': "m (q + length tok) = 0 \<longleftrightarrow> ?rest = []"
      by (rule cstr_head) (use cy in \<open>subst (asm) xs(2), simp add: cstr_append\<close>)
    have "\<exists>m' save'. strtok_r m str d save = Some (q, save', m') \<and> cstr m' q tok
        \<and> cstr m' save' (drop (length tok + 1) ys) \<and> (\<forall>a. a < p \<or> p + length xs \<le> a \<longrightarrow> m' a = m a)"
    proof (cases "?rest")
      case Nil
      have ys: "ys = tok" by (subst xs(2)) (simp only: Nil append_Nil2)
      have "strtok_r m str d save = Some (q, q + length tok, m)"
        using False skip scan start end' Nil cstr_head [OF cy] by (simp only: strtok_r_def Let_def) simp
      moreover have "cstr m q tok" "m (q + length tok) = 0" using cy ys by (simp_all add: cstr_iff)
      ultimately show ?thesis using ys by simp
    next
      case (Cons c rest)
      then have ys: "ys = tok @ c # rest" using xs(2) by simp
      have cut: "cstr (m(q + length tok := 0)) q tok" "cstr (m(q + length tok := 0)) (q + length tok + 1) rest"
        using cstr_cut [of m q tok c rest] cy ys by auto
      have "strtok_r m str d save = Some (q, q + length tok + 1, m(q + length tok := 0))"
        using False skip scan start end' Cons cstr_head [OF cy] by (simp only: strtok_r_def Let_def) simp
      moreover have "drop (length tok + 1) ys = rest" using ys by simp
      moreover have "q + length tok < p + length xs" "p \<le> q"
        using ys arg_cong [OF xs(1), of length] by (simp_all add: q_def)
      ultimately show ?thesis using cut by (intro exI conjI) auto
    qed
    then show ?thesis using False tok len by simp
  qed
qed

text \<open>
  C38. One call of \<^verbatim>\<open>strtok_r\<close> on a string, given directly or through the saved
  pointer: it returns NULL exactly when only delimiters are left; otherwise the
  token is the longest run without delimiters after the leading ones, it is
  terminated in place, and the saved pointer addresses the text after the one
  delimiter that was overwritten, so that the next call goes on there.
\<close>

theorem strtok_r_token:
  assumes "cstr m d ds" and "0 < d" and "cstr m p xs" and "0 < p"
    and "str = p \<and> save = s \<or> str = 0 \<and> save = p"
    and "ys = dropWhile (\<lambda>c. c \<in> set ds) xs" and "tok = takeWhile (\<lambda>c. c \<notin> set ds) ys"
  shows "\<exists>m' save'. strtok_r m str d save = Some (if ys = [] then 0 else p + (length xs - length ys), save', m')
    \<and> (ys \<noteq> [] \<longrightarrow> tok \<noteq> [] \<and> cstr m' (p + (length xs - length ys)) tok)
    \<and> cstr m' save' (drop (length tok + 1) ys)
    \<and> (\<forall>a. a < p \<or> p + length xs \<le> a \<longrightarrow> m' a = m a)"
  by (rule strtok_r_spec [OF assms])

theorem strtok_r_token_witness:
  "\<exists>m' save'. strtok_r (mem_of [0x2F, 0x61, 0x2F, 0x62, 0, 0x2F, 0]) 1 6 0 = Some (2, save', m')
    \<and> cstr m' 2 [0x61] \<and> cstr m' save' [0x62]"
proof -
  let ?m = "mem_of [0x2F, 0x61, 0x2F, 0x62, 0, 0x2F, 0]"
  have c: "cstr ?m 6 [0x2F]" "cstr ?m 1 [0x2F, 0x61, 0x2F, 0x62]" by (simp_all add: mem_of_def)
  let ?ys = "[0x61, 0x2F, 0x62] :: u8 list" and ?xs = "[0x2F, 0x61, 0x2F, 0x62] :: u8 list"
  have r: "\<exists>m' save'. strtok_r ?m 1 6 0 = Some (if ?ys = [] then 0 else 1 + (length ?xs - length ?ys), save', m')
    \<and> (?ys \<noteq> [] \<longrightarrow> [0x61] \<noteq> ([] :: u8 list) \<and> cstr m' (1 + (length ?xs - length ?ys)) [0x61])
    \<and> cstr m' save' (drop (length [0x61 :: u8] + 1) ?ys)
    \<and> (\<forall>a. a < 1 \<or> 1 + length ?xs \<le> a \<longrightarrow> m' a = ?m a)"
    by (rule strtok_r_token [OF c(1) _ c(2)]) simp_all
  have n: "1 + (length ?xs - length ?ys) = 2" "drop (length [0x61 :: u8] + 1) ?ys = [0x62]" by simp_all
  from r show ?thesis unfolding n by (elim exE conjE) (intro exI conjI, simp_all)
qed

end
