(* ===== verification/Paging.thy ===== *)
theory Paging
  imports Pmm "HOL-Library.Monad_Syntax"
begin

text \<open>
  The i686 two-level page tables of \<^verbatim>\<open>kernel/src/arch/i686/hal_vmm.c\<close>. The
  machine is the frame allocator with physical memory, byte by byte; page
  directories and page tables are frames of it whose 32-bit entries are read
  and written in place, so that tables, directories and data pages can alias
  as they do on the machine. The kernel reaches all of physical memory through
  a fixed window at \<^verbatim>\<open>KERNEL_BASE\<close>: \<^verbatim>\<open>get_pt_virtual\<close> is that window and the model
  addresses physical memory directly. An address space (\<^verbatim>\<open>arch_vm_t\<close>) is the
  physical address of its page directory.

  \<open>None\<close> means that a call does not return: an assertion failed (the kernel
  panics) or a loop runs forever. TLB flushes and CR3 loads have no effect on
  this state.
\<close>

subsection \<open>Constants and entries\<close>

definition KERNEL_BASE :: u32 where
  "KERNEL_BASE = 0xC0000000"

definition PAGE_SIZE :: u32 where
  "PAGE_SIZE = 4096"

definition PT_ENTRIES :: nat where
  "PT_ENTRIES = 1024"

definition KERNEL_PD_START :: nat where
  "KERNEL_PD_START = 768"

definition ARCH_PD_PT_PRESENT :: u32 where
  "ARCH_PD_PT_PRESENT = 0x1"

definition ARCH_PD_PT_READWRITE :: u32 where
  "ARCH_PD_PT_READWRITE = 0x2"

definition ARCH_PD_PT_USER :: u32 where
  "ARCH_PD_PT_USER = 0x4"

definition PT_COW :: u32 where
  "PT_COW = 0x200"

lemmas page_consts = PAGE_SIZE_def PT_ENTRIES_def KERNEL_PD_START_def ARCH_PD_PT_PRESENT_def
  ARCH_PD_PT_READWRITE_def ARCH_PD_PT_USER_def PT_COW_def

record machine =
  mpmm :: pmm_t
  phys :: bytes

definition get_pd_index :: "u32 \<Rightarrow> nat" where
  "get_pd_index va = unat (drop_bit 22 va)"

definition get_pt_index :: "u32 \<Rightarrow> nat" where
  "get_pt_index va = unat (drop_bit 12 va AND 0x3FF)"

text \<open>The entry with the given index of the table at a physical address.\<close>

definition entry :: "machine \<Rightarrow> u32 \<Rightarrow> nat \<Rightarrow> u32" where
  "entry s tbl i = get32 (phys s) (unat tbl + 4 * i)"

definition set_entry :: "u32 \<Rightarrow> nat \<Rightarrow> u32 \<Rightarrow> machine \<Rightarrow> machine" where
  "set_entry tbl i e s = s\<lparr>phys := put32 (phys s) (unat tbl + 4 * i) e\<rparr>"

abbreviation present :: "u32 \<Rightarrow> bool" where
  "present e \<equiv> e AND ARCH_PD_PT_PRESENT \<noteq> 0"

definition page_of :: "u32 \<Rightarrow> u32" where
  "page_of e = e AND NOT 0xFFF"

definition pt_pages_remaining :: "nat \<Rightarrow> nat" where
  "pt_pages_remaining pt_index = PT_ENTRIES - pt_index"

definition public_flags_to_arch_flags :: "u32 \<Rightarrow> u32" where
  "public_flags_to_arch_flags flags =
     (let a = 0;
          a = (if flags AND 0x1 \<noteq> 0 then a OR ARCH_PD_PT_PRESENT else a);
          a = (if flags AND 0x2 \<noteq> 0 then a OR ARCH_PD_PT_READWRITE else a);
          a = (if flags AND 0x4 \<noteq> 0 then a OR ARCH_PD_PT_USER else a)
      in a)"

definition hal_vm_virt_to_phys :: "machine \<Rightarrow> u32 \<Rightarrow> u32 \<Rightarrow> u32" where
  "hal_vm_virt_to_phys s pd va =
     (let pd_index = get_pd_index va; pt_index = get_pt_index va in
      if \<not> present (entry s pd pd_index) then 0
      else
        (let pt = page_of (entry s pd pd_index) in
         if \<not> present (entry s pt pt_index) then 0
         else page_of (entry s pt pt_index) + (va AND 0xFFF)))"

subsection \<open>Page tables\<close>

definition allocate_page_table :: "machine \<Rightarrow> u32 \<times> machine" where
  "allocate_page_table s =
     (case pmm_frame_alloc (mpmm s) of (a, p) \<Rightarrow>
        (let pt_phys = ucast a; s = s\<lparr>mpmm := p\<rparr> in
         if pt_phys = 0 then (0, s)
         else (pt_phys, s\<lparr>phys := mem_set (phys s) (unat pt_phys) 0 4096\<rparr>)))"

text \<open>
  The flag \<^verbatim>\<open>*created\<close> is the second component; it is not written when the
  allocation fails, and no caller reads it.
\<close>

definition get_or_create_page_table :: "u32 \<Rightarrow> nat \<Rightarrow> u32 \<Rightarrow> machine \<Rightarrow> u32 \<times> bool option \<times> machine" where
  "get_or_create_page_table pd pd_index arch_flags s =
     (if present (entry s pd pd_index) then (page_of (entry s pd pd_index), Some False, s)
      else case allocate_page_table s of (pt_phys, s) \<Rightarrow>
        if pt_phys = 0 then (0, None, s)
        else (pt_phys, Some True,
              set_entry pd pd_index
                (pt_phys OR ARCH_PD_PT_PRESENT OR ARCH_PD_PT_READWRITE OR (arch_flags AND ARCH_PD_PT_USER)) s))"

definition fill_page_table_entries :: "u32 \<Rightarrow> nat \<Rightarrow> nat \<Rightarrow> u32 \<Rightarrow> u32 \<Rightarrow> machine \<Rightarrow> machine" where
  "fill_page_table_entries pt start_index count pa_base arch_flags s =
     for_loop 0 count
       (\<lambda>i. set_entry pt (start_index + i)
              ((pa_base + of_nat i * PAGE_SIZE) OR (arch_flags AND 0xFFF) OR ARCH_PD_PT_PRESENT)) s"

definition map_page_table_range :: "u32 \<Rightarrow> nat \<Rightarrow> nat \<Rightarrow> nat \<Rightarrow> u32 \<Rightarrow> u32 \<Rightarrow> machine \<Rightarrow> bool \<times> machine" where
  "map_page_table_range pd pd_index pt_index page_count pa arch_flags s =
     (case get_or_create_page_table pd pd_index arch_flags s of (pt_phys, _, s) \<Rightarrow>
        if pt_phys = 0 then (False, s)
        else (True, fill_page_table_entries pt_phys pt_index page_count pa arch_flags s))"

definition clear_page_table_entries :: "u32 \<Rightarrow> nat \<Rightarrow> nat \<Rightarrow> machine \<Rightarrow> machine" where
  "clear_page_table_entries pt start_index count s =
     for_loop 0 count
       (\<lambda>i s. if present (entry s pt (start_index + i)) then set_entry pt (start_index + i) 0 s else s) s"

definition frame_free :: "u32 \<Rightarrow> machine \<Rightarrow> machine option" where
  "frame_free a s = map_option (\<lambda>p. s\<lparr>mpmm := p\<rparr>) (pmm_frame_free a (mpmm s))"

definition unmap_page_table_range :: "u32 \<Rightarrow> nat \<Rightarrow> nat \<Rightarrow> nat \<Rightarrow> machine \<Rightarrow> machine option" where
  "unmap_page_table_range pd pd_index pt_index page_count s =
     (if \<not> present (entry s pd pd_index) then Some s
      else
        (let pt_phys = page_of (entry s pd pd_index);
             s = clear_page_table_entries pt_phys pt_index page_count s
         in if pt_index = 0 \<and> page_count = PT_ENTRIES
            then if \<not> pd_index < KERNEL_PD_START then None
                 else map_option (set_entry pd pd_index 0) (frame_free pt_phys s)
            else Some s))"

subsection \<open>Ranges\<close>

partial_function (option) map_chunks :: "u32 \<Rightarrow> u32 \<Rightarrow> u32 \<Rightarrow> u32 \<Rightarrow> u32 \<Rightarrow> machine \<Rightarrow> (bool \<times> machine) option" where
  "map_chunks pd va va_end pa arch_flags s =
     (if va < va_end then
        (let pd_index = get_pd_index va; pt_index = get_pt_index va;
             page_count = min (pt_pages_remaining pt_index) (unat ((va_end - va) div PAGE_SIZE))
         in case map_page_table_range pd pd_index pt_index page_count pa arch_flags s of (ok, s) \<Rightarrow>
              if \<not> ok then Some (False, s)
              else map_chunks pd (va + of_nat page_count * PAGE_SIZE) va_end
                     (pa + of_nat page_count * PAGE_SIZE) arch_flags s)
      else Some (True, s))"

definition hal_vm_map_range :: "u32 \<Rightarrow> u32 \<Rightarrow> u32 \<Rightarrow> u32 \<Rightarrow> u32 \<Rightarrow> machine \<Rightarrow> (bool \<times> machine) option" where
  "hal_vm_map_range pd pa_start va_start sz public_flags s =
     (if pd = 0 then None
      else if sz = 0 then Some (True, s)
      else if \<not> is_aligned va_start PAGE_SIZE \<or> \<not> is_aligned pa_start PAGE_SIZE \<or> \<not> is_aligned sz PAGE_SIZE
      then None
      else map_chunks pd va_start (va_start + sz) pa_start (public_flags_to_arch_flags public_flags) s)"

partial_function (option) unmap_chunks :: "u32 \<Rightarrow> u32 \<Rightarrow> u32 \<Rightarrow> machine \<Rightarrow> machine option" where
  "unmap_chunks pd va va_end s =
     (if va < va_end then
        (let pd_index = get_pd_index va; pt_index = get_pt_index va;
             page_count = min (pt_pages_remaining pt_index) (unat ((va_end - va) div PAGE_SIZE))
         in do { s \<leftarrow> unmap_page_table_range pd pd_index pt_index page_count s;
                 unmap_chunks pd (va + of_nat page_count * PAGE_SIZE) va_end s })
      else Some s)"

definition hal_vm_unmap_range :: "u32 \<Rightarrow> u32 \<Rightarrow> u32 \<Rightarrow> machine \<Rightarrow> (bool \<times> machine) option" where
  "hal_vm_unmap_range pd va_start sz s =
     (if pd = 0 then None
      else if sz = 0 then Some (True, s)
      else if \<not> is_aligned va_start PAGE_SIZE \<or> \<not> is_aligned sz PAGE_SIZE then None
      else map_option (\<lambda>s. (True, s)) (unmap_chunks pd va_start (va_start + sz) s))"

definition hal_vm_map :: "u32 \<Rightarrow> u32 \<Rightarrow> u32 \<Rightarrow> u32 \<Rightarrow> machine \<Rightarrow> (bool \<times> machine) option" where
  "hal_vm_map pd va pa public_flags s = hal_vm_map_range pd pa va PAGE_SIZE public_flags s"

definition hal_vm_unmap :: "u32 \<Rightarrow> u32 \<Rightarrow> machine \<Rightarrow> (bool \<times> machine) option" where
  "hal_vm_unmap pd virt_addr s = hal_vm_unmap_range pd virt_addr PAGE_SIZE s"

subsection \<open>Address spaces\<close>

text \<open>The created address space: its page directory, 0 when memory has run out (result \<^verbatim>\<open>false\<close>).\<close>

definition hal_vm_empty_arch_vm_create :: "machine \<Rightarrow> bool \<times> u32 \<times> machine" where
  "hal_vm_empty_arch_vm_create s =
     (case allocate_page_table s of (pd_phys, s) \<Rightarrow> if pd_phys = 0 then (False, 0, s) else (True, pd_phys, s))"

text \<open>\<open>None\<close> is the panic when memory runs out.\<close>

definition hal_vm_prealloc_kernel_tables :: "u32 \<Rightarrow> machine \<Rightarrow> machine option" where
  "hal_vm_prealloc_kernel_tables pd s =
     for_loop KERNEL_PD_START 1024
       (\<lambda>pd_index r. case r of None \<Rightarrow> None
          | Some s \<Rightarrow> (case get_or_create_page_table pd pd_index 0 s of (pt, _, s) \<Rightarrow>
                         if pt = 0 then None else Some s)) (Some s)"

text \<open>\<^verbatim>\<open>get_pte_ptr\<close> returns the table and the index of the entry.\<close>

definition get_pte_ptr :: "machine \<Rightarrow> u32 \<Rightarrow> u32 \<Rightarrow> (u32 \<times> nat) option" where
  "get_pte_ptr s pd va =
     (let pd_idx = get_pd_index va in
      if \<not> present (entry s pd pd_idx) then None
      else Some (page_of (entry s pd pd_idx), get_pt_index va))"

definition phys_copy :: "u32 \<Rightarrow> u32 \<Rightarrow> machine \<Rightarrow> machine" where
  "phys_copy dst_pa src_pa s = s\<lparr>phys := mem_copy (phys s) (unat dst_pa) (phys s) (unat src_pa) 4096\<rparr>"

definition hal_vmm_handle_cow :: "u32 \<Rightarrow> u32 \<Rightarrow> machine \<Rightarrow> (bool \<times> machine) option" where
  "hal_vmm_handle_cow pd addr s =
     (case get_pte_ptr s pd addr of None \<Rightarrow> Some (False, s)
      | Some (pt, i) \<Rightarrow>
        if entry s pt i AND PT_COW = 0 then Some (False, s)
        else
          (let old_phys = page_of (entry s pt i);
               s = s\<lparr>mpmm := pmm_frame_refcount_inc (mpmm s) old_phys\<rparr>
           in if pmm_frame_refcount_get (mpmm s) old_phys > 1
              then
                (case pmm_frame_alloc (mpmm s) of (a, p) \<Rightarrow>
                   (let new_phys = ucast a;
                        s = phys_copy new_phys old_phys (s\<lparr>mpmm := p\<rparr>);
                        s = set_entry pt i (new_phys OR (entry s pt i AND 0xFFF) OR ARCH_PD_PT_READWRITE) s;
                        s = set_entry pt i (entry s pt i AND NOT PT_COW) s
                    in map_option (\<lambda>s. (True, s)) (frame_free old_phys s)))
              else
                (let s = set_entry pt i (entry s pt i OR ARCH_PD_PT_READWRITE) s;
                     s = set_entry pt i (entry s pt i AND NOT PT_COW) s
                 in Some (True, s))))"

definition hal_vm_arch_destroy :: "u32 \<Rightarrow> machine \<Rightarrow> machine option" where
  "hal_vm_arch_destroy pd s =
     do { s \<leftarrow> for_loop 0 KERNEL_PD_START
            (\<lambda>i r. case r of None \<Rightarrow> None
               | Some s \<Rightarrow> if present (entry s pd i) then frame_free (page_of (entry s pd i)) s else Some s) (Some s);
          frame_free pd s }"

text \<open>One iteration of the inner and of the outer loop of \<^verbatim>\<open>hal_vmm_set_cow\<close>.\<close>

definition set_cow_entry :: "u32 \<Rightarrow> nat \<Rightarrow> machine \<Rightarrow> machine" where
  "set_cow_entry pt j s =
     (if \<not> present (entry s pt j) then s
      else
        (let s = (if entry s pt j AND ARCH_PD_PT_READWRITE \<noteq> 0
                  then (let s = set_entry pt j (entry s pt j OR PT_COW) s
                        in set_entry pt j (entry s pt j AND NOT ARCH_PD_PT_READWRITE) s)
                  else s)
         in s\<lparr>mpmm := pmm_frame_refcount_inc (mpmm s) (page_of (entry s pt j))\<rparr>))"

definition set_cow_table :: "u32 \<Rightarrow> nat \<Rightarrow> machine \<Rightarrow> machine" where
  "set_cow_table pd i s =
     (if \<not> present (entry s pd i) then s
      else for_loop 0 PT_ENTRIES (set_cow_entry (page_of (entry s pd i))) s)"

definition hal_vmm_set_cow :: "u32 \<Rightarrow> machine \<Rightarrow> machine" where
  "hal_vmm_set_cow pd s = for_loop 0 KERNEL_PD_START (set_cow_table pd) s"

definition hal_vm_arch_clone_mapping :: "u32 \<Rightarrow> u32 \<Rightarrow> machine \<Rightarrow> machine" where
  "hal_vm_arch_clone_mapping dst src s = phys_copy dst src s"

definition clone_table :: "u32 \<Rightarrow> u32 \<Rightarrow> nat \<Rightarrow> machine \<Rightarrow> machine" where
  "clone_table dst src i s =
     (if present (entry s src i) then
        (case pmm_frame_alloc (mpmm s) of (a, p) \<Rightarrow>
           (let new_pt_phys = ucast a;
                s = phys_copy new_pt_phys (page_of (entry s src i)) (s\<lparr>mpmm := p\<rparr>)
            in set_entry dst i (new_pt_phys OR (entry s src i AND 0xFFF)) s))
      else s)"

definition hal_vm_arch_clone :: "u32 \<Rightarrow> u32 \<Rightarrow> machine \<Rightarrow> machine" where
  "hal_vm_arch_clone dst src s =
     (let s = hal_vmm_set_cow src s;
          s = for_loop 0 KERNEL_PD_START (clone_table dst src) s
      in s\<lparr>phys := mem_copy (phys s) (unat dst + 4 * KERNEL_PD_START) (phys s) (unat src + 4 * KERNEL_PD_START)
                    ((1024 - KERNEL_PD_START) * 4)\<rparr>)"

subsection \<open>Addresses, pages and entries\<close>

text \<open>The page number of a virtual address, of which the two indices are the parts.\<close>

definition vpage :: "u32 \<Rightarrow> nat" where
  "vpage va = unat va div 4096"

lemma get_pd_index_vpage: "get_pd_index va = vpage va div 1024"
  by (simp add: get_pd_index_def vpage_def drop_bit_eq_div unat_div div_mult2_eq [symmetric])

lemma get_pt_index_vpage: "get_pt_index va = vpage va mod 1024"
proof -
  have "drop_bit 12 va AND 0x3FF = take_bit 10 (drop_bit 12 va)"
    using take_bit_eq_mask [of 10 "drop_bit 12 va"] by (simp add: mask_eq_exp_minus_1)
  then show ?thesis
    by (simp add: get_pt_index_def vpage_def drop_bit_eq_div take_bit_eq_mod unat_div unat_mod)
qed

lemma vpage_bound: "vpage va < 2 ^ 20"
  using u32_bound [of va] by (simp add: vpage_def)

lemma page_index_bounds [simp]: "get_pd_index va < 1024" "get_pt_index va < 1024"
  using vpage_bound [of va] by (auto simp: get_pd_index_vpage get_pt_index_vpage)

lemma offset_split: "unat ((va::u32) AND 0xFFF) = unat va mod 4096"
proof -
  have "va AND 0xFFF = take_bit 12 va"
    using take_bit_eq_mask [of 12 va] by (simp add: mask_eq_exp_minus_1)
  then show ?thesis by (simp add: take_bit_eq_mod unat_mod)
qed

lemma aligned_bits: "is_aligned x 4096 \<longleftrightarrow> (\<forall>n < 12. \<not> bit x n)"
proof -
  have low: "bit (x AND mask 12) n \<longleftrightarrow> n < 12 \<and> bit x n" for n
    using bit_imp_le_length [of x n] by (auto simp: bit_simps)
  have "x AND mask 12 = 0 \<longleftrightarrow> (\<forall>n. \<not> bit (x AND mask 12) n)"
    by (auto intro!: bit_word_eqI) 
  then show ?thesis unfolding low by (auto simp: is_aligned_def mask_eq_exp_minus_1)
qed

lemma mask_12: "(0xFFF :: u32) = mask 12" "(4095 :: u32) = mask 12"
  by (simp_all add: mask_eq_exp_minus_1)

lemma page_of_bit: "bit (page_of e) n \<longleftrightarrow> 12 \<le> n \<and> bit e n"
  using bit_imp_le_length [of e n] by (auto simp: page_of_def mask_12 bit_simps)

lemma is_aligned_page_of [simp]: "is_aligned (page_of e) 4096"
  by (simp add: aligned_bits page_of_bit)

text \<open>An entry made of an aligned address and flag bits, and what it reads back as.\<close>

lemma page_of_or: "is_aligned x 4096 \<Longrightarrow> page_of (x OR (f AND 0xFFF)) = x"
  by (rule bit_word_eqI) (auto simp: page_of_bit aligned_bits mask_12 bit_simps not_less)

lemma small_flags:
  "ARCH_PD_PT_PRESENT = ARCH_PD_PT_PRESENT AND 0xFFF" "ARCH_PD_PT_READWRITE = ARCH_PD_PT_READWRITE AND 0xFFF"
  "f AND ARCH_PD_PT_USER = (f AND ARCH_PD_PT_USER) AND 0xFFF" "PT_COW = PT_COW AND 0xFFF"
  by (simp_all add: page_consts and.assoc)

lemma mapped_entry:
  assumes "is_aligned x 4096"
  shows "page_of (x OR (f AND 0xFFF) OR ARCH_PD_PT_PRESENT) = x"
    and "present (x OR (f AND 0xFFF) OR ARCH_PD_PT_PRESENT)"
proof -
  have "(f AND 0xFFF) OR ARCH_PD_PT_PRESENT = ((f AND 0xFFF) OR ARCH_PD_PT_PRESENT) AND 0xFFF"
    by (rule bit_word_eqI) (auto simp: bit_simps mask_12 page_consts)
  then show "page_of (x OR (f AND 0xFFF) OR ARCH_PD_PT_PRESENT) = x"
    using page_of_or [OF assms] by (metis or.assoc)
  show "present (x OR (f AND 0xFFF) OR ARCH_PD_PT_PRESENT)"
    by (auto simp: page_consts bit_eq_iff bit_simps intro!: exI [of _ 0])
qed

subsection \<open>Frames do not overlap\<close>

lemma frames_apart:
  assumes "is_aligned a 4096" and "is_aligned b 4096" and "a \<noteq> b"
  shows "unat a + 4096 \<le> unat b \<or> unat b + 4096 \<le> unat a"
proof -
  obtain i where "unat a = 4096 * i" using assms(1) unfolding aligned_4096 by (rule dvdE)
  moreover obtain j where "unat b = 4096 * j" using assms(2) unfolding aligned_4096 by (rule dvdE)
  moreover have "unat a \<noteq> unat b" using assms(3) word_unat_eq_iff by blast
  ultimately show ?thesis by (cases "i < j") auto
qed

lemma entry_mpmm [simp]: "entry (s\<lparr>mpmm := p\<rparr>) t i = entry s t i"
  by (simp add: entry_def)

lemma mpmm_set_entry [simp]: "mpmm (set_entry t i e s) = mpmm s"
  by (simp add: set_entry_def)

lemma entry_set_same [simp]: "entry (set_entry t i e s) t j = (if i = j then e else entry s t j)"
  by (simp add: entry_def set_entry_def)

lemma phys_set_entry_out: "a < unat t + 4 * i \<or> unat t + 4 * i + 4 \<le> a \<Longrightarrow> phys (set_entry t i e s) a = phys s a"
  by (simp add: set_entry_def put32_other)

lemma entry_cong:
  assumes "\<And>k. k < 4096 \<Longrightarrow> phys s (unat t + k) = phys s' (unat t + k)" and "i < 1024"
  shows "entry s t i = entry s' t i"
  unfolding entry_def
proof (rule get32_cong)
  fix k assume "unat t + 4 * i \<le> k" "k < unat t + 4 * i + 4"
  then show "phys s k = phys s' k" using assms(1) [of "k - unat t"] assms(2) by simp
qed

lemma frame_bytes_set_entry:
  assumes "is_aligned t 4096" and "is_aligned u 4096" and "t \<noteq> u" and "i < 1024" and "k < 4096"
  shows "phys (set_entry t i e s) (unat u + k) = phys s (unat u + k)"
  using frames_apart [OF assms(1-3)] assms(4,5) by (intro phys_set_entry_out) auto

lemma entry_set_other:
  assumes "is_aligned t 4096" and "is_aligned u 4096" and "t \<noteq> u" and "i < 1024" and "j < 1024"
  shows "entry (set_entry t i e s) u j = entry s u j"
  using assms by (intro entry_cong frame_bytes_set_entry) auto

lemma frame_bytes_mem_set:
  assumes "is_aligned t 4096" and "is_aligned u 4096" and "t \<noteq> u" and "k < 4096"
  shows "mem_set m (unat t) 0 4096 (unat u + k) = m (unat u + k)"
  using frames_apart [OF assms(1-3)] assms(4) by (intro mem_set_out) auto

lemma get32_zero:
  assumes "\<And>k. k < 4 \<Longrightarrow> m (a + k) = 0"
  shows "get32 m a = 0"
  using assms [of 0] assms [of 1] assms [of 2] assms [of 3] by (simp add: get32_def)

lemma entry_zero_page:
  assumes "is_aligned t 4096" and "is_aligned u 4096" and "j < 1024"
  shows "entry (s\<lparr>phys := mem_set (phys s) (unat t) 0 4096\<rparr>) u j = (if u = t then 0 else entry s u j)"
proof (cases "u = t")
  case True
  have "get32 (mem_set (phys s) (unat t) 0 4096) (unat t + 4 * j) = 0"
    using assms(3) by (intro get32_zero) (simp add: mem_set_def)
  then show ?thesis using True by (simp add: entry_def)
next
  case False
  then show ?thesis
    using assms frame_bytes_mem_set [of t u] by (auto intro!: entry_cong)
qed

subsection \<open>Address spaces as functions on page numbers\<close>

text \<open>The entry that governs a page, 0 where there is no page table.\<close>

definition pte :: "machine \<Rightarrow> u32 \<Rightarrow> nat \<Rightarrow> u32" where
  "pte s pd p =
     (if present (entry s pd (p div 1024)) then entry s (page_of (entry s pd (p div 1024))) (p mod 1024) else 0)"

lemma virt_to_phys_pte:
  "hal_vm_virt_to_phys s pd va =
     (if present (pte s pd (vpage va)) then page_of (pte s pd (vpage va)) + (va AND 0xFFF) else 0)"
  by (simp add: hal_vm_virt_to_phys_def pte_def get_pd_index_vpage get_pt_index_vpage Let_def)

definition paging_frames :: "machine \<Rightarrow> u32 \<Rightarrow> u32 set" where
  "paging_frames s pd = insert pd ((\<lambda>i. page_of (entry s pd i)) ` {i. i < 1024 \<and> present (entry s pd i)})"

text \<open>
  A well-formed address space: its directory and its page tables are
  allocated frames, and no frame plays two of these roles.
\<close>

definition vm_wf :: "machine \<Rightarrow> u32 \<Rightarrow> bool" where
  "vm_wf s pd \<longleftrightarrow> pmm_wf (mpmm s) \<and> pmm_inv (mpmm s) \<and> is_aligned pd 4096 \<and> pd \<noteq> 0
     \<and> paging_frames s pd \<subseteq> owned_frames (mpmm s) - {0}
     \<and> (\<forall>i < 1024. present (entry s pd i) \<longrightarrow> page_of (entry s pd i) \<noteq> pd)
     \<and> (\<forall>i < 1024. \<forall>j < 1024. present (entry s pd i) \<longrightarrow> present (entry s pd j)
          \<longrightarrow> page_of (entry s pd i) = page_of (entry s pd j) \<longrightarrow> i = j)"

text \<open>
  What an operation on the tables may do: give the pages the entries \<open>f\<close>,
  allocate frames for tables, and leave every other allocated frame alone.
\<close>

definition vm_upd :: "u32 \<Rightarrow> machine \<Rightarrow> (nat \<Rightarrow> u32) \<Rightarrow> machine \<Rightarrow> bool" where
  "vm_upd pd s f s' \<longleftrightarrow> vm_wf s' pd \<and> (\<forall>p < 2 ^ 20. pte s' pd p = f p)
     \<and> owned_frames (mpmm s) \<subseteq> owned_frames (mpmm s')
     \<and> paging_frames s' pd \<inter> owned_frames (mpmm s) \<subseteq> paging_frames s pd
     \<and> (\<forall>a \<in> owned_frames (mpmm s) - paging_frames s pd. is_aligned a 4096 \<longrightarrow>
          (\<forall>k < 4096. phys s' (unat a + k) = phys s (unat a + k)))"

lemma vm_upd_refl: "vm_wf s pd \<Longrightarrow> \<forall>p < 2 ^ 20. pte s pd p = f p \<Longrightarrow> vm_upd pd s f s"
  by (simp add: vm_upd_def)

lemma vm_upd_trans:
  assumes st: "vm_upd pd s f t" and tu: "vm_upd pd t g u"
  shows "vm_upd pd s g u"
  unfolding vm_upd_def
proof (intro conjI ballI impI allI)
  show "vm_wf u pd" "owned_frames (mpmm s) \<subseteq> owned_frames (mpmm u)"
    "paging_frames u pd \<inter> owned_frames (mpmm s) \<subseteq> paging_frames s pd"
    using st tu by (auto simp: vm_upd_def)
  show "pte u pd p = g p" if "p < 2 ^ 20" for p using tu that by (simp add: vm_upd_def)
  fix a k assume a: "a \<in> owned_frames (mpmm s) - paging_frames s pd" "is_aligned a 4096" "k < (4096::nat)"
  then have "a \<in> owned_frames (mpmm t) - paging_frames t pd" using st by (auto simp: vm_upd_def)
  then show "phys u (unat a + k) = phys s (unat a + k)"
    using st tu a by (simp add: vm_upd_def)
qed

lemma pte_table:
  assumes "vm_wf s pd" and "present (entry s pd i)" and "i < 1024"
  shows "is_aligned (page_of (entry s pd i)) 4096" and "page_of (entry s pd i) \<noteq> pd"
    and "page_of (entry s pd i) \<in> owned_frames (mpmm s)" and "page_of (entry s pd i) \<noteq> 0"
    and "page_of (entry s pd i) \<in> paging_frames s pd"
  using assms by (auto simp: vm_wf_def paging_frames_def)

subsection \<open>Creating and filling a page table\<close>

lemma allocate_page_table_cases:
  assumes "pmm_wf (mpmm s)" and "pmm_inv (mpmm s)"
  obtains (oom) "allocate_page_table s = (0, s)" "fst (pmm_frame_alloc (mpmm s)) = 0"
  | (fresh) pt p where "allocate_page_table s = (pt, s\<lparr>mpmm := p, phys := mem_set (phys s) (unat pt) 0 4096\<rparr>)"
      "pt \<noteq> 0" "is_aligned pt 4096" "pt \<notin> owned_frames (mpmm s)"
      "owned_frames p = insert pt (owned_frames (mpmm s))" "pmm_wf p" "pmm_inv p"
proof (cases "fst (pmm_frame_alloc (mpmm s)) = 0")
  case True
  then have "pmm_frame_alloc (mpmm s) = (0, mpmm s)"
    using pm.alloc_none [of "mpmm s"] assms by (metis prod.collapse)
  then show ?thesis using oom True by (simp add: allocate_page_table_def)
next
  case False
  obtain a p where ap: "pmm_frame_alloc (mpmm s) = (a, p)" by fastforce
  note f = pm.alloc_some [of "mpmm s", OF _ False] pm.alloc_ok [of "mpmm s"]
  have "allocate_page_table s = (ucast a, s\<lparr>mpmm := p, phys := mem_set (phys s) (unat (ucast a :: u32)) 0 4096\<rparr>)"
    using f assms ap by (simp add: allocate_page_table_def Let_def)
  then show ?thesis by (rule fresh) (use f assms ap in auto)
qed

lemma table_entry:
  assumes "is_aligned x 4096"
  shows "page_of (x OR ARCH_PD_PT_PRESENT OR ARCH_PD_PT_READWRITE OR (f AND ARCH_PD_PT_USER)) = x"
    and "present (x OR ARCH_PD_PT_PRESENT OR ARCH_PD_PT_READWRITE OR (f AND ARCH_PD_PT_USER))"
proof -
  let ?g = "ARCH_PD_PT_READWRITE OR (f AND ARCH_PD_PT_USER)"
  have "?g = ?g AND 0xFFF" by (simp add: bit.conj_disj_distrib2 page_consts and.assoc)
  moreover have "x OR ARCH_PD_PT_PRESENT OR ARCH_PD_PT_READWRITE OR (f AND ARCH_PD_PT_USER) = x OR ?g OR ARCH_PD_PT_PRESENT"
    by (simp add: ac_simps)
  ultimately show "page_of (x OR ARCH_PD_PT_PRESENT OR ARCH_PD_PT_READWRITE OR (f AND ARCH_PD_PT_USER)) = x"
    and "present (x OR ARCH_PD_PT_PRESENT OR ARCH_PD_PT_READWRITE OR (f AND ARCH_PD_PT_USER))"
    using mapped_entry [OF assms, of ?g] by simp_all
qed

lemma page_num: "p < (2::nat) ^ 20 \<Longrightarrow> p div 1024 < 1024 \<and> p mod 1024 < 1024"
  by (simp add: less_mult_imp_div_less)

lemma get_or_create_upd:
  assumes wf: "vm_wf s pd" and i: "i < 1024" and r: "get_or_create_page_table pd i fl s = (pt, cr, s')"
  shows "(pt = 0 \<and> s' = s \<and> fst (pmm_frame_alloc (mpmm s)) = 0) \<or> (pt \<noteq> 0 \<and> present (entry s' pd i) \<and> pt = page_of (entry s' pd i)
      \<and> vm_upd pd s (pte s pd) s')"
proof (cases "present (entry s pd i)")
  case True
  then show ?thesis
    using r pte_table [OF wf True i] wf by (auto simp: get_or_create_page_table_def intro: vm_upd_refl)
next
  case False
  have pm: "pmm_wf (mpmm s)" "pmm_inv (mpmm s)" "is_aligned pd 4096" "pd \<in> owned_frames (mpmm s)"
    using wf by (auto simp: vm_wf_def paging_frames_def)
  show ?thesis
  proof (rule allocate_page_table_cases [OF pm(1,2)])
    assume "allocate_page_table s = (0, s)" "fst (pmm_frame_alloc (mpmm s)) = 0"
    then show ?thesis using r False by (simp add: get_or_create_page_table_def)
  next
    fix t p assume t: "allocate_page_table s = (t, s\<lparr>mpmm := p, phys := mem_set (phys s) (unat t) 0 4096\<rparr>)"
      "t \<noteq> 0" "is_aligned t 4096" "t \<notin> owned_frames (mpmm s)"
      "owned_frames p = insert t (owned_frames (mpmm s))" "pmm_wf p" "pmm_inv p"
    let ?e = "t OR ARCH_PD_PT_PRESENT OR ARCH_PD_PT_READWRITE OR (fl AND ARCH_PD_PT_USER)"
    let ?s1 = "s\<lparr>phys := mem_set (phys s) (unat t) 0 4096\<rparr>"
    have s': "pt = t" "s' = (set_entry pd i ?e ?s1)\<lparr>mpmm := p\<rparr>"
      using r False t(1,2) by (auto simp: get_or_create_page_table_def set_entry_def)
    note e = table_entry [OF t(3), of fl]
    have ne: "t \<noteq> pd" using t(4) pm(4) by auto
    have ent_pd: "entry s' pd j = (if j = i then ?e else entry s pd j)" if "j < 1024" for j
      using that ne t(3) pm(3) by (simp add: s' entry_zero_page)
    have ent: "entry s' u j = (if u = t then 0 else entry s u j)" if "j < 1024" "is_aligned u 4096" "u \<noteq> pd" for u j
      using that t(3) pm(3) i by (simp add: s' entry_set_other entry_zero_page)
    have not_t: "page_of (entry s pd j) \<noteq> t" if "present (entry s pd j)" "j < 1024" for j
      using pte_table(3) [OF wf that] t(4) by auto
    have pte': "pte s' pd q = pte s pd q" if "q < 2 ^ 20" for q
      using page_num [OF that] False e not_t pte_table [OF wf] ne
      by (auto simp: pte_def ent_pd ent t(3))
    have "{j. j < 1024 \<and> present (entry s' pd j)} = insert i {j. j < 1024 \<and> present (entry s pd j)}"
      using i e(2) by (auto simp: ent_pd split: if_splits)
    moreover have "(\<lambda>j. page_of (entry s' pd j)) ` {j. j < 1024 \<and> present (entry s pd j)}
        = (\<lambda>j. page_of (entry s pd j)) ` {j. j < 1024 \<and> present (entry s pd j)}"
      using False by (intro image_cong) (auto simp: ent_pd)
    ultimately have fr: "paging_frames s' pd = insert t (paging_frames s pd)"
      by (simp add: paging_frames_def ent_pd i e(1) insert_commute)
    have mp: "mpmm s' = p" by (simp add: s'(2))
    have "vm_wf s' pd"
      unfolding vm_wf_def fr mp
    proof (intro conjI allI impI)
      show "insert t (paging_frames s pd) \<subseteq> owned_frames p - {0}"
        using wf t(2,5) by (auto simp: vm_wf_def)
      show "page_of (entry s' pd j) \<noteq> pd" if "j < 1024" "present (entry s' pd j)" for j
        using that ne e(1) pte_table(2) [OF wf _ that(1)] by (cases "j = i") (simp_all add: ent_pd)
      show "j = k" if "j < 1024" "k < 1024" "present (entry s' pd j)" "present (entry s' pd k)"
          "page_of (entry s' pd j) = page_of (entry s' pd k)" for j k
      proof (cases "j = i \<or> k = i")
        case True
        then show ?thesis using that not_t [of j] not_t [of k] e(1) by (auto simp: ent_pd split: if_splits)
      next
        case False
        then show ?thesis using that wf by (simp add: ent_pd vm_wf_def)
      qed
    qed (use wf t(6,7) in \<open>simp_all add: vm_wf_def\<close>)
    moreover have "phys s' (unat a + k) = phys s (unat a + k)"
      if "a \<in> owned_frames (mpmm s) - paging_frames s pd" "is_aligned a 4096" "k < 4096" for a k
    proof -
      have "a \<noteq> t" "a \<noteq> pd" using that t(4) by (auto simp: paging_frames_def)
      then show ?thesis
        using that frame_bytes_set_entry [of pd a i k ?e ?s1] frame_bytes_mem_set [of t a k "phys s"] pm(3) t(3) i
        by (simp add: s')
    qed
    ultimately have "vm_upd pd s (pte s pd) s'"
      using pte' t(4,5) fr by (auto simp: vm_upd_def s'(2))
    then show ?thesis using t(2) s'(1) e ent_pd i by simp
  qed
qed

text \<open>Writing entries of one page table.\<close>

lemma fold_set_entries:
  "entry (fold (\<lambda>i. set_entry t (j + i) (v i)) [0..<n] s) t k
     = (if j \<le> k \<and> k < j + n then v (k - j) else entry s t k)"
  by (induction n) auto

lemma fold_set_entries_frame:
  assumes "is_aligned t 4096" and "is_aligned u 4096" and "t \<noteq> u" and "j + n \<le> 1024" and "k < 4096"
  shows "phys (fold (\<lambda>i. set_entry t (j + i) (v i)) [0..<n] s) (unat u + k) = phys s (unat u + k)"
  using assms(4)
proof (induction n)
  case (Suc n)
  then show ?case using frame_bytes_set_entry [OF assms(1-3) _ assms(5), of "j + n"] by simp
qed simp

lemma fold_set_entries_mpmm [simp]: "mpmm (fold (\<lambda>i. set_entry t (j + i) (v i)) xs s) = mpmm s"
  by (induction xs arbitrary: s) simp_all

text \<open>
  A step that only writes into the page table of directory slot \<open>i\<close>: the
  pages of that slot follow the table, everything else stays.
\<close>

lemma table_write_upd:
  assumes wf: "vm_wf s pd" and i: "i < 1024" and p: "present (entry s pd i)" and t: "t = page_of (entry s pd i)"
    and pm: "mpmm s' = mpmm s"
    and frame: "\<And>u k. is_aligned u 4096 \<Longrightarrow> u \<noteq> t \<Longrightarrow> k < 4096 \<Longrightarrow> phys s' (unat u + k) = phys s (unat u + k)"
  shows "vm_upd pd s (\<lambda>q. if q div 1024 = i then entry s' t (q mod 1024) else pte s pd q) s'"
    and "entry s' pd k = entry s pd k \<or> \<not> k < 1024"
proof -
  note tt = pte_table [OF wf p i]
  have ent: "entry s' u k = entry s u k" if "is_aligned u 4096" "u \<noteq> t" "k < 1024" for u k
    using that frame by (intro entry_cong) auto
  have pd: "is_aligned pd 4096" "pd \<noteq> t" using wf tt t by (auto simp: vm_wf_def)
  have entpd: "entry s' pd k = entry s pd k" if "k < 1024" for k using ent pd that by simp
  then show "entry s' pd k = entry s pd k \<or> \<not> k < 1024" by blast
  have fr: "paging_frames s' pd = paging_frames s pd"
    unfolding paging_frames_def by (intro arg_cong [of _ _ "insert pd"] image_cong) (auto simp: entpd)
  have wf': "vm_wf s' pd" using wf fr pm by (auto simp: vm_wf_def entpd)
  have "pte s' pd q = (if q div 1024 = i then entry s' t (q mod 1024) else pte s pd q)" if "q < 2 ^ 20" for q
  proof (cases "q div 1024 = i \<or> \<not> present (entry s pd (q div 1024))")
    case True
    then show ?thesis using page_num [OF that] p t by (auto simp: pte_def entpd)
  next
    case False
    then have "page_of (entry s pd (q div 1024)) \<noteq> t"
      using page_num [OF that] wf p i t by (auto simp: vm_wf_def)
    then show ?thesis using False page_num [OF that] by (simp add: pte_def entpd ent)
  qed
  moreover have "t \<in> paging_frames s pd" using tt t by simp
  ultimately show "vm_upd pd s (\<lambda>q. if q div 1024 = i then entry s' t (q mod 1024) else pte s pd q) s'"
    using wf' fr pm frame by (auto simp: vm_upd_def)
qed

lemma chunk_pages:
  assumes "p0 mod 1024 + n \<le> (1024::nat)"
  shows "q div 1024 = p0 div 1024 \<and> p0 mod 1024 \<le> q mod 1024 \<and> q mod 1024 < p0 mod 1024 + n
    \<longleftrightarrow> p0 \<le> q \<and> q < p0 + n"
    and "p0 \<le> q \<Longrightarrow> q < p0 + n \<Longrightarrow> q mod 1024 - p0 mod 1024 = q - p0"
proof -
  define a b c d where "a = q div 1024" "b = q mod 1024" "c = p0 div 1024" "d = p0 mod 1024"
  note defs = this
  have q: "q = 1024 * a + b" "b < 1024" and p: "p0 = 1024 * c + d" "d + n \<le> 1024"
    using assms by (simp_all add: defs)
  have eq: "1024 * c + d \<le> 1024 * a + b \<Longrightarrow> 1024 * a + b < 1024 * c + d + n \<Longrightarrow> a = c"
    using q(2) p(2) by (cases a c rule: linorder_cases) linarith+
  then have "a = c \<and> d \<le> b \<and> b < d + n \<longleftrightarrow> p0 \<le> q \<and> q < p0 + n" using q(1) p(1) by auto
  then show "q div 1024 = p0 div 1024 \<and> p0 mod 1024 \<le> q mod 1024 \<and> q mod 1024 < p0 mod 1024 + n
    \<longleftrightarrow> p0 \<le> q \<and> q < p0 + n"
    by (simp only: defs)
  have "b - d = q - p0" if "p0 \<le> q" "q < p0 + n" using that eq q(1) p(1) by auto
  then show "q mod 1024 - p0 mod 1024 = q - p0" if "p0 \<le> q" "q < p0 + n" using that by (simp only: defs)
qed

lemma if_chunk:
  "(D \<and> lo \<and> hi \<longleftrightarrow> A) \<Longrightarrow> (A \<Longrightarrow> k = m) \<Longrightarrow> (D \<Longrightarrow> x = z) \<Longrightarrow> y = z \<Longrightarrow>
     (if D then (if lo \<and> hi then v k else x) else y) = (if A then v m else z)"
  by auto

lemma map_page_table_range_upd:
  assumes wf: "vm_wf s pd" and p0: "p0 < 2 ^ 20" "p0 mod 1024 + n \<le> 1024" and al: "is_aligned pa 4096"
    and r: "map_page_table_range pd (p0 div 1024) (p0 mod 1024) n pa fl s = (ok, s')"
  shows "if ok then vm_upd pd s (\<lambda>q. if p0 \<le> q \<and> q < p0 + n
        then (pa + of_nat (q - p0) * PAGE_SIZE) OR (fl AND 0xFFF) OR ARCH_PD_PT_PRESENT else pte s pd q) s'
     else s' = s \<and> fst (pmm_frame_alloc (mpmm s)) = 0"
proof -
  obtain pt cr s1 where g: "get_or_create_page_table pd (p0 div 1024) fl s = (pt, cr, s1)"
    by (metis prod_cases3)
  have i: "p0 div 1024 < 1024" using page_num [OF p0(1)] by simp
  show ?thesis
  proof (cases "pt = 0")
    case True
    then show ?thesis using get_or_create_upd [OF wf i g] r g by (auto simp: map_page_table_range_def)
  next
    case False
    then have c: "present (entry s1 pd (p0 div 1024))" "pt = page_of (entry s1 pd (p0 div 1024))"
      "vm_upd pd s (pte s pd) s1"
      using get_or_create_upd [OF wf i g] by auto
    define v where "v = (\<lambda>k. (pa + of_nat k * PAGE_SIZE) OR (fl AND 0xFFF) OR ARCH_PD_PT_PRESENT)"
    have s': "ok" "s' = fold (\<lambda>k. set_entry pt (p0 mod 1024 + k) (v k)) [0..<n] s1"
      using r g False by (auto simp: map_page_table_range_def fill_page_table_entries_def v_def)
    have wf1: "vm_wf s1 pd" using c(3) by (simp add: vm_upd_def)
    have al: "is_aligned pt 4096" using c(2) by simp
    have "vm_upd pd s1 (\<lambda>q. if q div 1024 = p0 div 1024 then entry s' pt (q mod 1024) else pte s1 pd q) s'"
      by (rule table_write_upd [OF wf1 i c(1,2)])
        (simp_all add: s' fold_set_entries_frame [OF al _ _ p0(2)])
    from vm_upd_trans [OF c(3) this] have u:
      "vm_upd pd s (\<lambda>q. if q div 1024 = p0 div 1024 then entry s' pt (q mod 1024) else pte s1 pd q) s'" .
    have "(if q div 1024 = p0 div 1024 then entry s' pt (q mod 1024) else pte s1 pd q)
        = (if p0 \<le> q \<and> q < p0 + n then v (q - p0) else pte s pd q)" if "q < 2 ^ 20" for q
    proof -
      have o: "pte s1 pd q = pte s pd q" using c(3) that by (simp add: vm_upd_def)
      show ?thesis
        unfolding s'(2) fold_set_entries
        by (rule if_chunk [OF chunk_pages(1) [OF p0(2)]])
          (use chunk_pages(2) [OF p0(2)] c(1,2) o in \<open>simp_all add: pte_def\<close>)
    qed
    then show ?thesis using u s'(1) by (simp add: vm_upd_def v_def)
  qed
qed

subsection \<open>Mapping a range\<close>

lemma vm_upd_cong: "vm_upd pd s f s' \<Longrightarrow> (\<And>q. q < 2 ^ 20 \<Longrightarrow> f q = g q) \<Longrightarrow> vm_upd pd s g s'"
  by (simp add: vm_upd_def)

lemma aligned_add_pages: "is_aligned pa 4096 \<Longrightarrow> is_aligned (pa + of_nat c * PAGE_SIZE) 4096"
proof -
  assume "is_aligned pa 4096"
  then have "4096 dvd unat pa" by (simp add: aligned_4096)
  then have "4096 dvd (unat pa + unat (of_nat c * (4096::u32))) mod 2 ^ 32"
    by (intro dvd_mod dvd_add) (auto simp: unat_word_ariths unat_of_nat intro!: dvd_mod)
  then show ?thesis by (simp add: aligned_4096 unat_word_ariths PAGE_SIZE_def)
qed

lemma unat_add_pages:
  assumes "unat va + c * 4096 < 2 ^ 32"
  shows "unat (va + of_nat c * PAGE_SIZE) = unat va + c * 4096"
proof -
  have "unat (of_nat c * (4096::u32)) = c * 4096" using assms by (simp add: unat_word_ariths unat_of_nat)
  then show ?thesis using assms by (simp add: unat_word_ariths PAGE_SIZE_def)
qed

lemma range_pages:
  assumes "is_aligned va 4096" and "unat va_end = unat va + n * 4096"
  shows "unat ((va_end - va) div PAGE_SIZE) = n" and "va < va_end \<longleftrightarrow> 0 < n" and "vpage va + n < 2 ^ 20"
proof -
  have le: "va \<le> va_end" using assms(2) by (simp add: word_le_nat_alt)
  then have "unat (va_end - va) = n * 4096" using assms(2) by (simp add: unat_sub)
  then show "unat ((va_end - va) div PAGE_SIZE) = n" by (simp add: unat_div PAGE_SIZE_def)
  show "va < va_end \<longleftrightarrow> 0 < n" using assms(2) by (simp add: word_less_nat_alt)
  show "vpage va + n < 2 ^ 20" using assms u32_bound [of va_end] by (auto simp: vpage_def aligned_4096)
qed

lemma chunk_fits:
  assumes "c \<le> n" and "unat (va_end::u32) = unat (va::u32) + n * 4096"
  shows "unat va + c * 4096 < 2 ^ 32"
proof -
  have "c * 4096 \<le> n * 4096" using assms(1) by simp
  then show ?thesis using assms(2) u32_bound [of va_end] by linarith
qed

text \<open>The entries of a range of pages that starts at page \<open>p0\<close>.\<close>

definition map_pages :: "nat \<Rightarrow> nat \<Rightarrow> u32 \<Rightarrow> u32 \<Rightarrow> (nat \<Rightarrow> u32) \<Rightarrow> nat \<Rightarrow> u32" where
  "map_pages p0 n pa fl f q =
     (if p0 \<le> q \<and> q < p0 + n
      then (pa + of_nat (q - p0) * PAGE_SIZE) OR (fl AND 0xFFF) OR ARCH_PD_PT_PRESENT else f q)"

lemma map_pages_split:
  "c \<le> n \<Longrightarrow> map_pages (p0 + c) (n - c) (pa + of_nat c * PAGE_SIZE) fl (map_pages p0 c pa fl f) q = map_pages p0 n pa fl f q"
  by (auto simp: map_pages_def algebra_simps of_nat_diff)

lemma map_pages_0 [simp]: "map_pages p0 0 pa fl f = f"
  by (auto simp: map_pages_def fun_eq_iff)

lemma map_chunks_upd:
  assumes "vm_wf s pd" and "is_aligned va 4096" and "is_aligned pa 4096" and "unat va_end = unat va + n * 4096"
  shows "\<exists>ok s' k. map_chunks pd va va_end pa fl s = Some (ok, s')
    \<and> vm_upd pd s (map_pages (vpage va) k pa fl (pte s pd)) s' \<and> k \<le> n \<and> (ok \<longleftrightarrow> k = n)
    \<and> (\<not> ok \<longrightarrow> fst (pmm_frame_alloc (mpmm s')) = 0)"
  using assms
proof (induction n arbitrary: s va pa rule: less_induct)
  case (less n)
  note rp = range_pages [OF less.prems(2,4)]
  show ?case
  proof (cases "n = 0")
    case True
    then have "map_chunks pd va va_end pa fl s = Some (True, s)" using rp(2) by (simp add: map_chunks.simps)
    then show ?thesis using less.prems(1) True by (auto intro: vm_upd_refl)
  next
    case False
    let ?j = "vpage va mod 1024"
    define c where "c = min (1024 - ?j) n"
    have c: "0 < c" "c \<le> n" "?j + c \<le> 1024" using False mod_less_divisor [of 1024 "vpage va"] by (auto simp: c_def)
    obtain ok s1 where m: "map_page_table_range pd (vpage va div 1024) ?j c pa fl s = (ok, s1)" by fastforce
    have step: "map_chunks pd va va_end pa fl s = (if \<not> ok then Some (False, s1)
        else map_chunks pd (va + of_nat c * PAGE_SIZE) va_end (pa + of_nat c * PAGE_SIZE) fl s1)"
      using m rp False
      by (subst map_chunks.simps)
        (simp add: get_pd_index_vpage get_pt_index_vpage pt_pages_remaining_def PT_ENTRIES_def c_def [symmetric] Let_def)
    have u: "if ok then vm_upd pd s (map_pages (vpage va) c pa fl (pte s pd)) s1
        else s1 = s \<and> fst (pmm_frame_alloc (mpmm s)) = 0"
      using map_page_table_range_upd [OF less.prems(1) vpage_bound c(3) less.prems(3) m]
      by (simp add: map_pages_def [abs_def])
    show ?thesis
    proof (cases ok)
      case fail: False
      have "vm_upd pd s (map_pages (vpage va) 0 pa fl (pte s pd)) s" using less.prems(1) by (auto intro: vm_upd_refl)
      then show ?thesis using step u fail False by (intro exI [of _ False] exI [of _ s] exI [of _ "0::nat"]) simp
    next
      case True
      have b: "unat va + c * 4096 < 2 ^ 32"
        by (rule chunk_fits [OF c(2) less.prems(4)])
      let ?va = "va + of_nat c * PAGE_SIZE" and ?pa = "pa + of_nat c * PAGE_SIZE"
      have v: "vpage ?va = vpage va + c" "unat va_end = unat ?va + (n - c) * 4096"
        using c(2) less.prems(4) by (simp_all add: vpage_def unat_add_pages [OF b] diff_mult_distrib)
      have wf1: "vm_wf s1 pd" and old: "\<forall>q < 2 ^ 20. pte s1 pd q = map_pages (vpage va) c pa fl (pte s pd) q"
        using u True by (auto simp: vm_upd_def)
      have "\<exists>ok' s' k. map_chunks pd ?va va_end ?pa fl s1 = Some (ok', s')
          \<and> vm_upd pd s1 (map_pages (vpage ?va) k ?pa fl (pte s1 pd)) s' \<and> k \<le> n - c \<and> (ok' \<longleftrightarrow> k = n - c)
          \<and> (\<not> ok' \<longrightarrow> fst (pmm_frame_alloc (mpmm s')) = 0)"
        using less.IH [of "n - c" s1 ?va ?pa] wf1 c less.prems(2,3) v(2) by (simp add: aligned_add_pages)
      then obtain ok' s' k where r: "map_chunks pd ?va va_end ?pa fl s1 = Some (ok', s')"
        "vm_upd pd s1 (map_pages (vpage ?va) k ?pa fl (pte s1 pd)) s'" "k \<le> n - c" "ok' \<longleftrightarrow> k = n - c"
        "\<not> ok' \<longrightarrow> fst (pmm_frame_alloc (mpmm s')) = 0" by blast
      have "vm_upd pd s (map_pages (vpage ?va) k ?pa fl (pte s1 pd)) s'"
        using u True r(2) by (auto intro: vm_upd_trans)
      then have "vm_upd pd s (map_pages (vpage va) (c + k) pa fl (pte s pd)) s'"
      proof (rule vm_upd_cong)
        fix q :: nat assume "q < 2 ^ 20"
        then have "map_pages (vpage ?va) k ?pa fl (pte s1 pd) q
            = map_pages (vpage va + c) (c + k - c) ?pa fl (map_pages (vpage va) c pa fl (pte s pd)) q"
          using old by (simp add: v(1) map_pages_def)
        then show "map_pages (vpage ?va) k ?pa fl (pte s1 pd) q = map_pages (vpage va) (c + k) pa fl (pte s pd) q"
          by (simp only: map_pages_split [of c "c + k"] le_add1)
      qed
      then show ?thesis using step r True c(2) by (intro exI [of _ ok'] exI [of _ s'] exI [of _ "c + k"]) auto
    qed
  qed
qed

lemma map_range_upd:
  assumes "vm_wf s pd" and "is_aligned va 4096" and "is_aligned pa 4096" and "is_aligned sz 4096"
    and "unat va + unat sz < 2 ^ 32"
  shows "\<exists>ok s' k. hal_vm_map_range pd pa va sz fl s = Some (ok, s')
    \<and> vm_upd pd s (map_pages (vpage va) k pa (public_flags_to_arch_flags fl) (pte s pd)) s'
    \<and> k \<le> unat sz div 4096 \<and> (ok \<longleftrightarrow> k = unat sz div 4096) \<and> (\<not> ok \<longrightarrow> fst (pmm_frame_alloc (mpmm s')) = 0)"
proof -
  have e: "unat (va + sz) = unat va + unat sz div 4096 * 4096"
    using assms(4,5) by (simp add: unat_word_ariths aligned_4096)
  have "pd \<noteq> 0" using assms(1) by (simp add: vm_wf_def)
  then show ?thesis
    using map_chunks_upd [OF assms(1-3) e] assms vm_upd_refl [OF assms(1)]
    by (cases "sz = 0") (auto simp: hal_vm_map_range_def PAGE_SIZE_def)
qed

lemma translate_map_pages:
  assumes "is_aligned va 4096" and "is_aligned pa 4096" and "pte s' pd (vpage v) = map_pages (vpage va) n pa fl (pte s pd) (vpage v)"
  shows "hal_vm_virt_to_phys s' pd v =
    (if unat va \<le> unat v \<and> unat v < unat va + n * 4096 then pa + (v - va) else hal_vm_virt_to_phys s pd v)"
proof -
  obtain a where a: "unat va = 4096 * a" using assms(1) unfolding aligned_4096 by (rule dvdE)
  have split: "unat v = 4096 * vpage v + unat v mod 4096" by (simp add: vpage_def)
  have in_r: "unat va \<le> unat v \<and> unat v < unat va + n * 4096 \<longleftrightarrow> vpage va \<le> vpage v \<and> vpage v < vpage va + n"
    unfolding vpage_def a by (auto simp: less_eq_div_iff_mult_less_eq div_less_iff_less_mult algebra_simps)
  show ?thesis
  proof (cases "vpage va \<le> vpage v \<and> vpage v < vpage va + n")
    case True
    let ?x = "pa + of_nat (vpage v - vpage va) * PAGE_SIZE"
    have "pte s' pd (vpage v) = ?x OR (fl AND 0xFFF) OR ARCH_PD_PT_PRESENT"
      using True assms(3) by (simp add: map_pages_def)
    then have "hal_vm_virt_to_phys s' pd v = ?x + (v AND 0xFFF)"
      using mapped_entry [OF aligned_add_pages [OF assms(2)], of "vpage v - vpage va" fl]
      by (simp add: virt_to_phys_pte)
    moreover have "of_nat (vpage v - vpage va) * PAGE_SIZE + (v AND 0xFFF) = v - va"
    proof -
      have "of_nat (vpage v - vpage va) * PAGE_SIZE + (v AND 0xFFF)
          = (of_nat ((vpage v - vpage va) * 4096 + unat (v AND 0xFFF)) :: u32)"
        by (simp add: PAGE_SIZE_def)
      also have "(vpage v - vpage va) * 4096 + unat (v AND 0xFFF) = unat v - unat va"
        using True a split by (simp add: offset_split vpage_def diff_mult_distrib)
      also have "of_nat (unat v - unat va) = v - va"
        using True in_r by (simp add: of_nat_diff)
      finally show ?thesis .
    qed
    ultimately show ?thesis using True in_r by (simp add: add.assoc)
  next
    case False
    then show ?thesis using in_r assms(3) by (auto simp: map_pages_def virt_to_phys_pte)
  qed
qed

text \<open>
  C3. \<^verbatim>\<open>hal_vm_map_range\<close> on a well-formed address space and an aligned range that
  does not wrap around: it returns without panic, whatever page tables it has
  to create on the way. When it reports success, exactly the addresses of the
  range translate to the physical range and every other address translates as
  before. It reports failure only when physical memory is exhausted, and in
  both cases the address space stays well-formed and no allocated frame other
  than its page tables changes.
\<close>

theorem hal_vm_map_range_translates:
  assumes "vm_wf s pd" and "is_aligned va 4096" and "is_aligned pa 4096" and "is_aligned sz 4096"
    and "unat va + unat sz < 2 ^ 32"
  shows "\<exists>ok s'. hal_vm_map_range pd pa va sz fl s = Some (ok, s') \<and> vm_wf s' pd
    \<and> (\<not> ok \<longrightarrow> fst (pmm_frame_alloc (mpmm s')) = 0)
    \<and> (\<forall>v. (ok \<and> unat va \<le> unat v \<and> unat v < unat va + unat sz \<longrightarrow> hal_vm_virt_to_phys s' pd v = pa + (v - va))
         \<and> (unat v < unat va \<or> unat va + unat sz \<le> unat v \<longrightarrow> hal_vm_virt_to_phys s' pd v = hal_vm_virt_to_phys s pd v))
    \<and> owned_frames (mpmm s) \<subseteq> owned_frames (mpmm s')
    \<and> (\<forall>a \<in> owned_frames (mpmm s) - paging_frames s pd. is_aligned a 4096 \<longrightarrow>
          (\<forall>k < 4096. phys s' (unat a + k) = phys s (unat a + k)))"
proof -
  obtain ok s' k where r: "hal_vm_map_range pd pa va sz fl s = Some (ok, s')"
    "vm_upd pd s (map_pages (vpage va) k pa (public_flags_to_arch_flags fl) (pte s pd)) s'"
    "k \<le> unat sz div 4096" "ok \<longrightarrow> k = unat sz div 4096" "\<not> ok \<longrightarrow> fst (pmm_frame_alloc (mpmm s')) = 0"
    using map_range_upd [OF assms] by blast
  have sz: "unat sz div 4096 * 4096 = unat sz" using assms(4) by (simp add: aligned_4096)
  then have k: "k * 4096 \<le> unat sz" "ok \<longrightarrow> k * 4096 = unat sz" using r(3,4) by auto
  have t: "hal_vm_virt_to_phys s' pd v =
      (if unat va \<le> unat v \<and> unat v < unat va + k * 4096 then pa + (v - va) else hal_vm_virt_to_phys s pd v)" for v
    by (rule translate_map_pages [OF assms(2,3)]) (use r(2) vpage_bound in \<open>auto simp: vm_upd_def\<close>)
  show ?thesis
    using r(1,2,5) k by (intro exI [of _ ok] exI [of _ s']) (auto simp: vm_upd_def t)
qed

text \<open>The machine with the eight frames of the allocator example, frame 1 an empty page directory.\<close>

definition paging_demo :: machine where
  "paging_demo = \<lparr>mpmm = pmm_demo, phys = (\<lambda>_. 0)\<rparr>"

lemma pmm_demo_owned: "f < 8 \<Longrightarrow> f \<in> {1, 3} \<Longrightarrow> of_nat f * 4096 \<in> owned_frames pmm_demo"
  using pmm_demo_used [of f] by (auto simp: owned_frames_def pmm_demo_def intro!: exI [of _ f])

lemma paging_demo_wf: "vm_wf paging_demo 0x1000"
proof -
  have e: "entry paging_demo t i = 0" for t i by (simp add: entry_def paging_demo_def get32_def)
  show ?thesis
    using pmm_demo_ok pmm_demo_owned [of 1]
    by (simp add: vm_wf_def paging_frames_def e) (simp add: paging_demo_def aligned_4096)
qed

theorem hal_vm_map_range_translates_witness:
  "\<exists>ok s'. hal_vm_map_range 0x1000 0x3000 0x400000 0x2000 3 paging_demo = Some (ok, s') \<and> vm_wf s' 0x1000
    \<and> hal_vm_virt_to_phys s' 0x1000 0x500000 = hal_vm_virt_to_phys paging_demo 0x1000 0x500000"
proof -
  have "\<exists>ok s'. hal_vm_map_range 0x1000 0x3000 0x400000 0x2000 3 paging_demo = Some (ok, s') \<and> vm_wf s' 0x1000
    \<and> (\<not> ok \<longrightarrow> fst (pmm_frame_alloc (mpmm s')) = 0)
    \<and> (\<forall>v. (ok \<and> unat (0x400000::u32) \<le> unat v \<and> unat v < unat (0x400000::u32) + unat (0x2000::u32)
           \<longrightarrow> hal_vm_virt_to_phys s' 0x1000 v = 0x3000 + (v - 0x400000))
         \<and> (unat v < unat (0x400000::u32) \<or> unat (0x400000::u32) + unat (0x2000::u32) \<le> unat v
           \<longrightarrow> hal_vm_virt_to_phys s' 0x1000 v = hal_vm_virt_to_phys paging_demo 0x1000 v))
    \<and> owned_frames (mpmm paging_demo) \<subseteq> owned_frames (mpmm s')
    \<and> (\<forall>a \<in> owned_frames (mpmm paging_demo) - paging_frames paging_demo 0x1000. is_aligned a 4096 \<longrightarrow>
          (\<forall>k < 4096. phys s' (unat a + k) = phys paging_demo (unat a + k)))"
    by (rule hal_vm_map_range_translates [OF paging_demo_wf]) (simp_all add: aligned_4096)
  then show ?thesis by (elim exE conjE) (intro exI conjI, assumption, assumption, simp)
qed

end
