(* ===== verification/AddressSpace.thy ===== *)
theory AddressSpace
  imports Paging
begin

text \<open>
  Unmapping and copy-on-write faults on the page tables of theory \<open>Paging\<close>:
  what the operations of \<^verbatim>\<open>hal_vmm.c\<close> do to the translation of an address
  space and to the frames behind it.
\<close>

subsection \<open>Unmapping\<close>

text \<open>An entry as the processor sees it: one that is not present is no entry.\<close>

definition live :: "u32 \<Rightarrow> u32" where
  "live e = (if present e then e else 0)"

lemma present_0 [simp]: "\<not> present 0"
  by simp

lemma live_simps [simp]: "live 0 = 0" "present (live e) = present e" "live (live e) = live e"
  by (simp_all add: live_def)

lemma virt_to_phys_live:
  "live (pte s' pd (vpage v)) = live (pte s pd (vpage v)) \<Longrightarrow> hal_vm_virt_to_phys s' pd v = hal_vm_virt_to_phys s pd v"
  by (simp add: virt_to_phys_pte live_def split: if_splits)

text \<open>
  What an unmapping step may do: give the pages the live entries \<open>f\<close>, release
  frames of page tables, and leave every other allocated frame alone.
\<close>

definition vm_drop :: "u32 \<Rightarrow> machine \<Rightarrow> (nat \<Rightarrow> u32) \<Rightarrow> machine \<Rightarrow> bool" where
  "vm_drop pd s f s' \<longleftrightarrow> vm_wf s' pd \<and> (\<forall>q < 2 ^ 20. live (pte s' pd q) = f q)
     \<and> owned_frames (mpmm s) - paging_frames s pd \<subseteq> owned_frames (mpmm s')
     \<and> owned_frames (mpmm s') \<subseteq> owned_frames (mpmm s) \<and> paging_frames s' pd \<subseteq> paging_frames s pd
     \<and> (\<forall>a \<in> owned_frames (mpmm s) - paging_frames s pd. is_aligned a 4096 \<longrightarrow>
          (\<forall>k < 4096. phys s' (unat a + k) = phys s (unat a + k)))"

lemma vm_drop_refl: "vm_wf s pd \<Longrightarrow> \<forall>q < 2 ^ 20. live (pte s pd q) = f q \<Longrightarrow> vm_drop pd s f s"
  by (simp add: vm_drop_def)

lemma vm_drop_trans:
  assumes st: "vm_drop pd s f t" and tu: "vm_drop pd t g u"
  shows "vm_drop pd s g u"
  unfolding vm_drop_def
proof (intro conjI ballI impI allI)
  have sub: "owned_frames (mpmm s) - paging_frames s pd \<subseteq> owned_frames (mpmm t) - paging_frames t pd"
    using st by (auto simp: vm_drop_def)
  show "vm_wf u pd" "owned_frames (mpmm s) - paging_frames s pd \<subseteq> owned_frames (mpmm u)"
    "owned_frames (mpmm u) \<subseteq> owned_frames (mpmm s)" "paging_frames u pd \<subseteq> paging_frames s pd"
    using st tu sub unfolding vm_drop_def by blast+
  show "live (pte u pd q) = g q" if "q < 2 ^ 20" for q using tu that by (simp add: vm_drop_def)
  fix a k assume a: "a \<in> owned_frames (mpmm s) - paging_frames s pd" "is_aligned a 4096" "k < (4096::nat)"
  then have "a \<in> owned_frames (mpmm t) - paging_frames t pd" using sub by blast
  then show "phys u (unat a + k) = phys s (unat a + k)"
    using st tu a by (simp add: vm_drop_def)
qed

lemma vm_drop_cong: "vm_drop pd s f s' \<Longrightarrow> (\<And>q. q < 2 ^ 20 \<Longrightarrow> f q = g q) \<Longrightarrow> vm_drop pd s g s'"
  by (simp add: vm_drop_def)

lemma vm_upd_drop:
  "vm_wf s pd \<Longrightarrow> vm_upd pd s f s' \<Longrightarrow> owned_frames (mpmm s') = owned_frames (mpmm s)
     \<Longrightarrow> vm_drop pd s (\<lambda>q. live (f q)) s'"
  by (auto simp: vm_upd_def vm_drop_def vm_wf_def)

lemma clear_entries:
  "entry (clear_page_table_entries t j n s) t k
     = (if j \<le> k \<and> k < j + n \<and> present (entry s t k) then 0 else entry s t k)"
  unfolding clear_page_table_entries_def by (induction n) (auto simp: less_Suc_eq)

lemma clear_entries_frame:
  assumes "is_aligned t 4096" and "is_aligned u 4096" and "t \<noteq> u" and "j + n \<le> 1024" and "k < 4096"
  shows "phys (clear_page_table_entries t j n s) (unat u + k) = phys s (unat u + k)"
  using assms(4) unfolding clear_page_table_entries_def
proof (induction n)
  case (Suc n)
  then show ?case using frame_bytes_set_entry [OF assms(1-3) _ assms(5), of "j + n"] by simp
qed simp

lemma clear_entries_mpmm [simp]: "mpmm (clear_page_table_entries t j n s) = mpmm s"
  unfolding clear_page_table_entries_def by (induction n) simp_all

text \<open>Dropping the (emptied) page table of a directory slot.\<close>

lemma drop_table:
  assumes wf: "vm_wf s pd" and i: "i < 1024" and p: "present (entry s pd i)"
    and r: "frame_free (page_of (entry s pd i)) s = Some t"
  shows "vm_drop pd s (\<lambda>q. if q div 1024 = i then 0 else live (pte s pd q)) (set_entry pd i 0 t)"
proof -
  let ?a = "page_of (entry s pd i)"
  define s' where "s' = set_entry pd i 0 t"
  note tt = pte_table [OF wf p i]
  have wfp: "pmm_wf (mpmm s)" "pmm_inv (mpmm s)" "is_aligned pd 4096" using wf by (auto simp: vm_wf_def)
  obtain p' where p': "pmm_frame_free ?a (mpmm s) = Some p'" "t = s\<lparr>mpmm := p'\<rparr>"
    using r by (auto simp: frame_free_def)
  have own: "owned_frames (mpmm s) - {?a} \<subseteq> owned_frames p'" "owned_frames p' \<subseteq> owned_frames (mpmm s)"
    and ok: "pmm_wf p'" "pmm_inv p'"
    using pm.free_owned [OF _ p'(1)] pm.free_ok [of "mpmm s" ?a] wfp p'(1) by auto
  have epd: "entry s' pd k = (if k = i then 0 else entry s pd k)" for k by (simp add: s'_def p')
  have eo: "entry s' u k = entry s u k" if "is_aligned u 4096" "u \<noteq> pd" "k < 1024" for u k
    using entry_set_other [of pd u i k] that wfp(3) i by (simp add: s'_def p')
  have mp: "mpmm s' = p'" by (simp add: s'_def p')
  have fr: "paging_frames s' pd \<subseteq> paging_frames s pd - {?a}"
    using wf i p tt(2) by (auto simp: paging_frames_def epd vm_wf_def)
  have "vm_wf s' pd"
    unfolding vm_wf_def
  proof (intro conjI allI impI)
    show "paging_frames s' pd \<subseteq> owned_frames (mpmm s') - {0}"
      using fr own(1) wf by (auto simp: vm_wf_def mp)
  qed (use wf ok in \<open>auto simp: vm_wf_def mp epd split: if_splits\<close>)
  moreover have "live (pte s' pd q) = (if q div 1024 = i then 0 else live (pte s pd q))" if "q < 2 ^ 20" for q
    using page_num [OF that] pte_table [OF wf, of "q div 1024"] by (auto simp: pte_def epd eo)
  moreover have "phys s' (unat a + k) = phys s (unat a + k)"
    if "a \<in> owned_frames (mpmm s) - paging_frames s pd" "is_aligned a 4096" "k < 4096" for a k
    using frame_bytes_set_entry [of pd a i k 0 t] that wfp(3) i by (auto simp: s'_def p' paging_frames_def)
  ultimately show ?thesis
    using own fr tt(5) unfolding s'_def [symmetric] by (auto simp: vm_drop_def mp)
qed

lemma unmap_page_table_range_drop:
  assumes wf: "vm_wf s pd" and p0: "p0 < 2 ^ 20" "p0 mod 1024 + n \<le> 1024"
    and user: "p0 div 1024 < 768 \<or> n < 1024"
  shows "\<exists>s'. unmap_page_table_range pd (p0 div 1024) (p0 mod 1024) n s = Some s'
    \<and> vm_drop pd s (\<lambda>q. if p0 \<le> q \<and> q < p0 + n then 0 else live (pte s pd q)) s'"
proof (cases "present (entry s pd (p0 div 1024))")
  case False
  have "live (pte s pd q) = (if p0 \<le> q \<and> q < p0 + n then 0 else live (pte s pd q))" for q
    using False chunk_pages(1) [OF p0(2), of q] by (auto simp: pte_def)
  then show ?thesis
    using False wf by (auto simp: unmap_page_table_range_def intro: vm_drop_refl)
next
  case True
  let ?i = "p0 div 1024" and ?j = "p0 mod 1024"
  let ?t = "page_of (entry s pd ?i)" and ?s1 = "clear_page_table_entries (page_of (entry s pd ?i)) ?j n s"
  have i: "?i < 1024" using page_num [OF p0(1)] by simp
  note tt = pte_table [OF wf True i]
  have w: "vm_upd pd s (\<lambda>q. if q div 1024 = ?i then entry ?s1 ?t (q mod 1024) else pte s pd q) ?s1"
    "\<And>k. entry ?s1 pd k = entry s pd k \<or> \<not> k < 1024"
    by (rule table_write_upd [OF wf i True refl]; simp add: clear_entries_frame [OF tt(1) _ _ p0(2)])+
  have "live (if q div 1024 = ?i then entry ?s1 ?t (q mod 1024) else pte s pd q)
      = (if p0 \<le> q \<and> q < p0 + n then 0 else live (pte s pd q))" for q
    using chunk_pages(1) [OF p0(2), of q] True by (auto simp: clear_entries pte_def live_def)
  then have d1: "vm_drop pd s (\<lambda>q. if p0 \<le> q \<and> q < p0 + n then 0 else live (pte s pd q)) ?s1"
    using vm_upd_drop [OF wf w(1)] by simp
  show ?thesis
  proof (cases "?j = 0 \<and> n = 1024")
    case False
    then show ?thesis using d1 True by (auto simp: unmap_page_table_range_def PT_ENTRIES_def Let_def)
  next
    case full: True
    have wf1: "vm_wf ?s1 pd" using d1 by (simp add: vm_drop_def)
    have e1: "entry ?s1 pd ?i = entry s pd ?i" using w(2) [of ?i] i by blast
    obtain t where t: "frame_free ?t ?s1 = Some t"
      using pm.free_ok [of "mpmm s" ?t] wf by (auto simp: frame_free_def vm_wf_def)
    have "vm_drop pd ?s1 (\<lambda>q. if q div 1024 = ?i then 0 else live (pte ?s1 pd q)) (set_entry pd ?i 0 t)"
      by (rule drop_table [OF wf1 i]) (use True t e1 in simp_all)
    then have "vm_drop pd s (\<lambda>q. if q div 1024 = ?i then 0 else live (pte ?s1 pd q)) (set_entry pd ?i 0 t)"
      by (rule vm_drop_trans [OF d1])
    then have "vm_drop pd s (\<lambda>q. if p0 \<le> q \<and> q < p0 + n then 0 else live (pte s pd q)) (set_entry pd ?i 0 t)"
    proof (rule vm_drop_cong)
      fix q :: nat assume q: "q < 2 ^ 20"
      have "live (pte ?s1 pd q) = (if p0 \<le> q \<and> q < p0 + n then 0 else live (pte s pd q))"
        using d1 q by (simp add: vm_drop_def)
      moreover have "q div 1024 = ?i \<longleftrightarrow> p0 \<le> q \<and> q < p0 + n"
        using full chunk_pages(1) [OF p0(2), of q] by auto
      ultimately show "(if q div 1024 = ?i then 0 else live (pte ?s1 pd q))
          = (if p0 \<le> q \<and> q < p0 + n then 0 else live (pte s pd q))" by simp
    qed
    then show ?thesis
      using True full user t by (auto simp: unmap_page_table_range_def PT_ENTRIES_def KERNEL_PD_START_def Let_def)
  qed
qed

lemma unmap_chunks_drop:
  assumes "vm_wf s pd" and "is_aligned va 4096" and "unat va_end = unat va + n * 4096"
    and "vpage va + n \<le> 768 * 1024 \<or> n < 1024"
  shows "\<exists>s'. unmap_chunks pd va va_end s = Some s'
    \<and> vm_drop pd s (\<lambda>q. if vpage va \<le> q \<and> q < vpage va + n then 0 else live (pte s pd q)) s'"
  using assms
proof (induction n arbitrary: s va rule: less_induct)
  case (less n)
  note rp = range_pages [OF less.prems(2,3)]
  show ?case
  proof (cases "n = 0")
    case True
    then have "unmap_chunks pd va va_end s = Some s" using rp(2) by (simp add: unmap_chunks.simps)
    then show ?thesis using less.prems(1) True by (auto intro!: vm_drop_refl)
  next
    case False
    let ?j = "vpage va mod 1024"
    define c where "c = min (1024 - ?j) n"
    have c: "0 < c" "c \<le> n" "?j + c \<le> 1024" using False mod_less_divisor [of 1024 "vpage va"] by (auto simp: c_def)
    have "vpage va div 1024 < 768 \<or> c < 1024"
      using less.prems(4) c(2) False by (auto simp: less_mult_imp_div_less)
    then obtain s1 where s1: "unmap_page_table_range pd (vpage va div 1024) ?j c s = Some s1"
      "vm_drop pd s (\<lambda>q. if vpage va \<le> q \<and> q < vpage va + c then 0 else live (pte s pd q)) s1"
      using unmap_page_table_range_drop [OF less.prems(1) vpage_bound c(3)] by blast
    have step: "unmap_chunks pd va va_end s = unmap_chunks pd (va + of_nat c * PAGE_SIZE) va_end s1"
      using s1(1) rp False
      by (subst unmap_chunks.simps)
        (simp only: if_True get_pd_index_vpage get_pt_index_vpage pt_pages_remaining_def PT_ENTRIES_def
          c_def [symmetric] Let_def rp Option.bind.bind_lunit neq0_conv [symmetric] not_False_eq_True)
    have b: "unat va + c * 4096 < 2 ^ 32"
      by (rule chunk_fits [OF c(2) less.prems(3)])
    let ?va = "va + of_nat c * PAGE_SIZE"
    have v: "vpage ?va = vpage va + c" "unat va_end = unat ?va + (n - c) * 4096"
      using c(2) less.prems(3) by (simp_all add: vpage_def unat_add_pages [OF b] diff_mult_distrib)
    have wf1: "vm_wf s1 pd" and old: "\<forall>q < 2 ^ 20. live (pte s1 pd q)
        = (if vpage va \<le> q \<and> q < vpage va + c then 0 else live (pte s pd q))"
      using s1(2) by (auto simp: vm_drop_def)
    have "\<exists>s'. unmap_chunks pd ?va va_end s1 = Some s'
        \<and> vm_drop pd s1 (\<lambda>q. if vpage ?va \<le> q \<and> q < vpage ?va + (n - c) then 0 else live (pte s1 pd q)) s'"
      using c less.prems(2,4) v by (intro less.IH) (auto simp: aligned_add_pages wf1)
    then obtain s' where r: "unmap_chunks pd ?va va_end s1 = Some s'"
      "vm_drop pd s1 (\<lambda>q. if vpage ?va \<le> q \<and> q < vpage ?va + (n - c) then 0 else live (pte s1 pd q)) s'" by blast
    have "vm_drop pd s (\<lambda>q. if vpage va \<le> q \<and> q < vpage va + n then 0 else live (pte s pd q)) s'"
      by (rule vm_drop_cong [OF vm_drop_trans [OF s1(2) r(2)]]) (use old c(2) in \<open>auto simp: v(1)\<close>)
    then show ?thesis using step r(1) by auto
  qed
qed

lemma vpage_range:
  assumes "is_aligned va 4096"
  shows "vpage va \<le> vpage v \<and> vpage v < vpage va + n \<longleftrightarrow> unat va \<le> unat v \<and> unat v < unat va + n * 4096"
proof -
  obtain a where a: "unat va = 4096 * a" using assms unfolding aligned_4096 by (rule dvdE)
  show ?thesis
    unfolding vpage_def a by (auto simp: less_eq_div_iff_mult_less_eq div_less_iff_less_mult algebra_simps)
qed



subsection \<open>Copy-on-write faults\<close>

lemma phys_copy_other:
  assumes "is_aligned d 4096" and "is_aligned u 4096" and "d \<noteq> u" and "k < 4096"
  shows "phys (phys_copy d a s) (unat u + k) = phys s (unat u + k)"
  using frames_apart [OF assms(1-3)] assms(4) by (auto simp: phys_copy_def intro!: mem_copy_out)

lemma phys_copy_same: "k < 4096 \<Longrightarrow> phys (phys_copy d a s) (unat d + k) = phys s (unat a + k)"
  by (simp add: phys_copy_def mem_copy_def add.commute)

lemma mpmm_phys_copy [simp]: "mpmm (phys_copy d a s) = mpmm s"
  by (simp add: phys_copy_def)

text \<open>A state whose allocated frames hold what they held is as well-formed as before.\<close>

lemma vm_wf_frame:
  assumes wf: "vm_wf s pd" and ok: "pmm_wf (mpmm t)" "pmm_inv (mpmm t)"
    and own: "owned_frames (mpmm s) \<subseteq> owned_frames (mpmm t)"
    and same: "\<And>u k. u \<in> paging_frames s pd \<Longrightarrow> k < 4096 \<Longrightarrow> phys t (unat u + k) = phys s (unat u + k)"
  shows "vm_wf t pd" and "paging_frames t pd = paging_frames s pd" and "\<And>q. q < 2 ^ 20 \<Longrightarrow> pte t pd q = pte s pd q"
    and "\<And>i. i < 1024 \<Longrightarrow> entry t pd i = entry s pd i"
proof -
  have e: "entry t u i = entry s u i" if "u \<in> paging_frames s pd" "i < 1024" for u i
    using same that by (intro entry_cong) auto
  have pd: "pd \<in> paging_frames s pd" by (simp add: paging_frames_def)
  show ent: "entry t pd i = entry s pd i" if "i < 1024" for i using e [OF pd that] .
  show fr: "paging_frames t pd = paging_frames s pd"
    unfolding paging_frames_def by (intro arg_cong [of _ _ "insert pd"] image_cong) (auto simp: ent)
  show "vm_wf t pd" using wf ok own fr by (auto simp: vm_wf_def ent)
  show "pte t pd q = pte s pd q" if "q < 2 ^ 20" for q
    using page_num [OF that] e [OF pte_table(5) [OF wf]] by (auto simp: pte_def ent)
qed

lemma refcount_inc_keeps:
  assumes "pmm_inv p" and "frame_used p (unat (a div 4096))"
  shows "pmm_inv (pmm_frame_refcount_inc p a)" and "pmm_wf (pmm_frame_refcount_inc p a) = pmm_wf p"
    and "owned_frames (pmm_frame_refcount_inc p a) = owned_frames p"
    and "fst (pmm_frame_alloc (pmm_frame_refcount_inc p a)) = fst (pmm_frame_alloc p)"
proof -
  let ?q = "pmm_frame_refcount_inc p a"
  have s: "pmm_bitmap ?q = pmm_bitmap p" "total_frames ?q = total_frames p" "memory_range ?q = memory_range p"
    "used_frames ?q = used_frames p"
    by (simp_all add: pmm_frame_refcount_inc_def Let_def)
  have r: "frame_refcounts ?q f = frame_refcounts p f" if "\<not> frame_used p f" for f
    using that assms(2) by (auto simp: pmm_frame_refcount_inc_def Let_def)
  show "pmm_inv ?q" using assms(1) r by (simp add: pmm_inv_def s)
  show "pmm_wf ?q = pmm_wf p" by (simp add: pmm_wf_def s)
  show "owned_frames ?q = owned_frames p" by (simp add: owned_frames_def s)
  show "fst (pmm_frame_alloc ?q) = fst (pmm_frame_alloc p)"
    by (simp add: pmm_frame_alloc_def s frame_to_aligned_addr_def split: option.split)
qed

text \<open>Adding a reference, allocating another frame and dropping the reference again.\<close>

lemma cow_frames:
  assumes wf: "pmm_wf p" and inv: "pmm_inv p" and base: "range_start (memory_range p) = 0"
    and old: "old \<in> owned_frames p" "old \<noteq> 0"
    and cnt: "0 < unat (frame_refcounts p (unat old div 4096))" "unat (frame_refcounts p (unat old div 4096)) < 65535"
    and mem: "fst (pmm_frame_alloc p) \<noteq> 0"
  obtains new p2 p3 where
    "pmm_frame_alloc (pmm_frame_refcount_inc p old) = (ucast new, p2)" "pmm_frame_free old p2 = Some p3"
    "pmm_frame_refcount_get (pmm_frame_refcount_inc p old) old > 1" "new \<notin> owned_frames p" "is_aligned new 4096"
    "new \<noteq> 0" "owned_frames p3 = insert new (owned_frames p)" "pmm_wf p3" "pmm_inv p3"
    "frame_refcounts p3 (unat old div 4096) = frame_refcounts p (unat old div 4096)"
proof -
  define p1 where "p1 = pmm_frame_refcount_inc p old"
  obtain f where f: "f < total_frames p" "frame_used p f" "old = frame_addr p f"
    using old(1) by (auto simp: owned_frames_def)
  have uf: "unat old = f * 4096" "unat (old div 4096) = f"
    using unat_frame_addr [OF wf f(1)] refcount_index [OF wf f(1)] base f(3) by auto
  then have f0: "0 < f" using old(2) by (metis gr0I mult_0 unat_eq_0)
  have p1: "p1 = p\<lparr>frame_refcounts := (frame_refcounts p)(f := frame_refcounts p f + 1)\<rparr>"
    using refcount_inc_frame [OF wf base f(1)] f(3) by (simp add: p1_def)
  note k = refcount_inc_keeps [OF inv, of old, folded p1_def, unfolded uf, OF f(2)]
  have rc: "unat (frame_refcounts p f + 1) = unat (frame_refcounts p f) + 1"
    using cnt uf by (simp add: unat_word_ariths)
  show ?thesis
  proof (rule pmm_frame_alloc_cases [of p1])
    show "pmm_wf p1" using k wf by simp
  next
    assume "pmm_frame_alloc p1 = (0, p1)"
    then show ?thesis using mem k(4) by simp
  next
    fix g assume g: "1 \<le> g" "g < total_frames p1" "\<not> frame_used p1 g"
      "pmm_frame_alloc p1 = (ucast (frame_addr p1 g), mark_frame_used g p1)"
    let ?new = "frame_addr p1 g" and ?p2 = "mark_frame_used g p1"
    have gf: "g \<noteq> f" using g(3) f(2) by (auto simp: p1)
    have wf1: "pmm_wf p1" "pmm_inv p1" using k wf by auto
    have al: "pmm_wf ?p2" "pmm_inv ?p2" using wf1 g(2) by (simp_all add: pmm_inv_mark_used)
    have fr: "frame_refcounts ?p2 f = frame_refcounts p f + 1" "frame_used ?p2 f" "total_frames ?p2 = total_frames p"
      "frame_addr ?p2 f = old"
      using gf f by (simp_all add: refcount_mark_used frame_used_mark_used p1)
    have free: "pmm_frame_free old ?p2 = Some (mark_frame_free f ?p2)"
      using pmm_frame_free_frame [OF al(1) f0] f(1) fr by simp
    have fresh: "?new \<notin> owned_frames p" "owned_frames ?p2 = insert ?new (owned_frames p)"
      "is_aligned ?new 4096" "?new \<noteq> 0"
      using pmm_alloc_fresh [OF wf1(1)] g(4) frame_addr_managed [OF wf1(1) g(2)] g(1) k(3) by auto
    have gt: "frame_refcounts ?p2 f > 1" using fr(1) rc cnt uf by (simp add: word_less_nat_alt)
    have own: "owned_frames (mark_frame_free f ?p2) = owned_frames ?p2"
      using gt by (auto simp: owned_frames_def frame_used_mark_free)
    have gt0: "pmm_frame_refcount_get p1 old > 1"
      using gt fr(1) f(1) uf by (simp add: pmm_frame_refcount_get_def p1 Let_def)
    have bk: "frame_refcounts (mark_frame_free f ?p2) f = frame_refcounts p f"
      using gt fr by (simp add: refcount_mark_free word_gt_0)
        (metis order.strict_trans word_gt_0 zero_less_one fr(1))
    have iv: "pmm_inv (mark_frame_free f ?p2)" using al(2) f(1) fr(3) by (intro pmm_inv_mark_free) simp_all
    show ?thesis
      by (rule that [of ?new ?p2 "mark_frame_free f ?p2"])
        (use g(4) free gt0 fresh own al f(1) bk uf iv in \<open>simp_all add: p1_def [symmetric] fr\<close>)
  qed
qed

lemma cow_entry:
  assumes "is_aligned new 4096" and "present e"
  defines "e' \<equiv> (new OR (e AND 0xFFF) OR ARCH_PD_PT_READWRITE) AND NOT PT_COW"
  shows "page_of e' = new" and "present e'" and "e' AND ARCH_PD_PT_READWRITE \<noteq> 0" and "e' AND PT_COW = 0"
proof -
  have b: "bit e' n \<longleftrightarrow> n \<noteq> 9 \<and> (bit new n \<or> n < 12 \<and> bit e n \<or> n = 1)" if "n < 32" for n
  proof -
    have "bit (0x200 :: u32) n \<longleftrightarrow> n = 9" "bit (2 :: u32) n \<longleftrightarrow> n = 1"
      using bit_exp_iff [of 9 n, where 'a = "32 word"] bit_exp_iff [of 1 n, where 'a = "32 word"] that by auto
    then show ?thesis using that by (auto simp: e'_def page_consts mask_12 bit_simps)
  qed
  show "page_of e' = new"
    by (rule bit_word_eqI) (use assms(1) b in \<open>auto simp: page_of_bit aligned_bits intro: leI\<close>)
  have p: "present x \<longleftrightarrow> bit x 0" "x AND ARCH_PD_PT_READWRITE \<noteq> 0 \<longleftrightarrow> bit x 1" "x AND PT_COW = 0 \<longleftrightarrow> \<not> bit x 9" for x :: u32
    using and_exp_eq_0_iff_not_bit [of x 0] and_exp_eq_0_iff_not_bit [of x 1] and_exp_eq_0_iff_not_bit [of x 9]
    by (simp_all add: page_consts)
  show "present e'" "e' AND ARCH_PD_PT_READWRITE \<noteq> 0" "e' AND PT_COW = 0"
    using assms(2) unfolding p by (simp_all add: b)
qed

text \<open>
  C18. A write fault on a copy-on-write page, with memory left for the copy:
  \<^verbatim>\<open>hal_vmm_handle_cow\<close> gives the page a fresh frame with the same contents,
  writable and no longer copy-on-write; every other page, and the contents of
  the shared frame, stay as they are. The reference that the faulting address
  space held on the shared frame is not given up: the handler increments the
  count before it tests it, so the final decrement only undoes that, and a
  frame whose last user faults is copied and stays allocated.
\<close>

theorem hal_vmm_handle_cow_copies:
  assumes wf: "vm_wf s pd" and base: "range_start (memory_range (mpmm s)) = 0"
    and e: "e = pte s pd (vpage addr)" "present e" "e AND PT_COW \<noteq> 0"
    and old: "page_of e \<in> owned_frames (mpmm s) - paging_frames s pd" "page_of e \<noteq> 0"
    and cnt: "0 < unat (frame_refcounts (mpmm s) (unat (page_of e) div 4096))"
      "unat (frame_refcounts (mpmm s) (unat (page_of e) div 4096)) < 65535"
    and mem: "fst (pmm_frame_alloc (mpmm s)) \<noteq> 0"
  shows "\<exists>s' new. hal_vmm_handle_cow pd addr s = Some (True, s') \<and> vm_wf s' pd
    \<and> new \<notin> owned_frames (mpmm s) \<and> owned_frames (mpmm s') = insert new (owned_frames (mpmm s))
    \<and> page_of (pte s' pd (vpage addr)) = new \<and> present (pte s' pd (vpage addr))
    \<and> pte s' pd (vpage addr) AND ARCH_PD_PT_READWRITE \<noteq> 0 \<and> pte s' pd (vpage addr) AND PT_COW = 0
    \<and> (\<forall>q < 2 ^ 20. q \<noteq> vpage addr \<longrightarrow> pte s' pd q = pte s pd q)
    \<and> (\<forall>k < 4096. phys s' (unat new + k) = phys s (unat (page_of e) + k)
         \<and> phys s' (unat (page_of e) + k) = phys s (unat (page_of e) + k))
    \<and> frame_refcounts (mpmm s') (unat (page_of e) div 4096) = frame_refcounts (mpmm s) (unat (page_of e) div 4096)"
proof -
  define i where "i = vpage addr div 1024"
  define j where "j = vpage addr mod 1024"
  define t where "t = page_of (entry s pd i)"
  let ?old = "page_of e"
  have ij: "i < 1024" "j < 1024" using page_num [OF vpage_bound] by (auto simp: i_def j_def)
  have p: "present (entry s pd i)" and et: "e = entry s t j"
    using e(1,2) by (auto simp: pte_def i_def j_def t_def split: if_splits)
  note tt = pte_table [OF wf p ij(1), folded t_def]
  have ok: "pmm_wf (mpmm s)" "pmm_inv (mpmm s)" "is_aligned pd 4096" using wf by (auto simp: vm_wf_def)
  obtain new p2 p3 where c: "pmm_frame_alloc (pmm_frame_refcount_inc (mpmm s) ?old) = (ucast new, p2)"
    "pmm_frame_free ?old p2 = Some p3" "pmm_frame_refcount_get (pmm_frame_refcount_inc (mpmm s) ?old) ?old > 1"
    "new \<notin> owned_frames (mpmm s)" "is_aligned new 4096" "new \<noteq> 0"
    "owned_frames p3 = insert new (owned_frames (mpmm s))" "pmm_wf p3" "pmm_inv p3"
    "frame_refcounts p3 (unat ?old div 4096) = frame_refcounts (mpmm s) (unat ?old div 4096)"
    using cow_frames [OF ok(1,2) base _ old(2) cnt mem] old(1) by (metis DiffD1)
  define b where "b = (phys_copy new ?old s)\<lparr>mpmm := p3\<rparr>"
  have np: "new \<notin> paging_frames s pd" using c(4) wf by (auto simp: vm_wf_def)
  have al: "is_aligned u 4096" if "u \<in> paging_frames s pd" for u
    using that ok(3) by (auto simp: paging_frames_def)
  have sameb: "phys b (unat u + k) = phys s (unat u + k)" if "u \<noteq> new" "is_aligned u 4096" "k < 4096" for u k
    using phys_copy_other [OF c(5) that(2) _ that(3), of ?old s] that(1) by (simp add: b_def)
  have mb: "mpmm b = p3" by (simp add: b_def)
  have samep: "phys b (unat u + k) = phys s (unat u + k)" if "u \<in> paging_frames s pd" "k < 4096" for u k
    by (rule sameb) (use that np al in auto)
  have okb: "pmm_wf (mpmm b)" "pmm_inv (mpmm b)" "owned_frames (mpmm s) \<subseteq> owned_frames (mpmm b)"
    using c(7-9) mb by auto
  have bw: "vm_wf b pd" "paging_frames b pd = paging_frames s pd" "\<And>q. q < 2 ^ 20 \<Longrightarrow> pte b pd q = pte s pd q"
    "\<And>i. i < 1024 \<Longrightarrow> entry b pd i = entry s pd i"
    using vm_wf_frame [of s pd b, OF wf okb] samep by blast+
  have eb: "entry b t k = entry s t k" if "k < 1024" for k
    using tt sameb [of t] c(4) that by (intro entry_cong) auto
  define e1 where "e1 = new OR (e AND 0xFFF) OR ARCH_PD_PT_READWRITE"
  define s' where "s' = set_entry t j (e1 AND NOT PT_COW) (set_entry t j e1 b)"
  have run: "hal_vmm_handle_cow pd addr s = Some (True, s')"
  proof -
    have g: "get_pte_ptr s pd addr = Some (t, j)"
      using p by (simp add: get_pte_ptr_def get_pd_index_vpage get_pt_index_vpage i_def j_def t_def Let_def)
    have ec: "entry (phys_copy new ?old (s\<lparr>mpmm := p2\<rparr>)) t j = e"
      using eb [OF ij(2)] et by (simp add: b_def phys_copy_def entry_def)
    show ?thesis
      using c(1-3) e(3) ec
      by (simp add: hal_vmm_handle_cow_def g et [symmetric] Let_def frame_free_def e1_def [symmetric])
        (simp add: s'_def b_def set_entry_def phys_copy_def)
  qed
  have pb: "present (entry b pd i)" "t = page_of (entry b pd i)" using p bw(4) ij by (simp_all add: t_def)
  have u: "vm_upd pd b (\<lambda>q. if q div 1024 = i then entry s' t (q mod 1024) else pte b pd q) s'"
    by (rule table_write_upd [OF bw(1) ij(1) pb]) (use tt(1) ij in \<open>auto simp: s'_def frame_bytes_set_entry\<close>)
  have es: "entry s' t k = (if k = j then e1 AND NOT PT_COW else entry b t k)" for k by (simp add: s'_def)
  have pt': "pte s' pd q = (if q = vpage addr then e1 AND NOT PT_COW else pte s pd q)" if "q < 2 ^ 20" for q
  proof -
    have "q = vpage addr \<longleftrightarrow> q div 1024 = i \<and> q mod 1024 = j"
      unfolding i_def j_def by (metis div_mult_mod_eq)
    moreover have "pte s' pd q = (if q div 1024 = i then entry s' t (q mod 1024) else pte b pd q)"
      using u that by (simp add: vm_upd_def)
    moreover have "pte b pd q = entry b t (q mod 1024)" if "q div 1024 = i" using that pb by (simp add: pte_def)
    ultimately show ?thesis using bw(3) [OF that] by (simp add: es)
  qed
  have pt: "pte s' pd (vpage addr) = e1 AND NOT PT_COW" using pt' [OF vpage_bound] by simp
  note ce = cow_entry [OF c(5) e(2), folded e1_def]
  have far: "phys s' (unat a + k) = phys b (unat a + k)" if "a \<noteq> t" "is_aligned a 4096" "k < 4096" for a k
    using that tt(1) ij by (simp add: s'_def frame_bytes_set_entry)
  have ot: "?old \<noteq> t" "new \<noteq> t" "new \<noteq> ?old" using old(1) tt(3,5) c(4) by auto
  have cp: "phys s' (unat new + k) = phys s (unat ?old + k) \<and> phys s' (unat ?old + k) = phys s (unat ?old + k)"
    if "k < 4096" for k
    using that far [of new k] far [of ?old k] sameb [of ?old k] ot c(5) phys_copy_same [of k new ?old s]
    by (simp add: b_def)
  have ms: "mpmm s' = p3" by (simp add: s'_def mb)
  show ?thesis
    using run u c(4,7,10) pt pt' ce cp ms by (intro exI [of _ s'] exI [of _ new]) (auto simp: vm_upd_def)
qed

text \<open>
  A machine with a page directory in frame 1, one page table in frame 3 and a
  page, shared by two address spaces, in frame 4.
\<close>

definition cow_pmm :: pmm_t where
  "cow_pmm = pmm_statics\<lparr>memory_range := \<lparr>range_start = 0, range_end = 0x8000\<rparr>, total_frames := 8,
     bitmap_size_bytes := 1, pmm_bitmap := (\<lambda>_. 0)(0 := 0x1B), used_frames := 4,
     frame_refcounts := (\<lambda>_. 0)(0 := 1, 1 := 1, 3 := 1, 4 := 2)\<rparr>"

definition cow_demo :: machine where
  "cow_demo = set_entry 0x3000 5 0x4201 (set_entry 0x1000 0 0x3003 \<lparr>mpmm = cow_pmm, phys = (\<lambda>_. 0)\<rparr>)"

lemma cow_pmm_used: "f < 8 \<Longrightarrow> frame_used cow_pmm f \<longleftrightarrow> f \<in> {0, 1, 3, 4}"
proof -
  assume "f < 8"
  then consider "f = 0" | "f = 1" | "f = 2" | "f = 3" | "f = 4" | "f = 5" | "f = 6" | "f = 7" by linarith
  then show ?thesis by cases (simp_all add: cow_pmm_def pmm_statics_def bitmap_test_def)
qed

lemma cow_pmm_ok: "pmm_wf cow_pmm" "pmm_inv cow_pmm"
proof -
  show "pmm_wf cow_pmm" by (simp add: pmm_wf_def cow_pmm_def aligned_4096)
  have t: "total_frames cow_pmm = 8" "used_frames cow_pmm = 4" by (simp_all add: cow_pmm_def)
  have "bm.ones (pmm_bitmap cow_pmm) 8 = {0, 1, 3, 4}" by (auto simp: bm.in_ones cow_pmm_used)
  moreover have "frame_refcounts cow_pmm f = 0" if "f < 8" "\<not> frame_used cow_pmm f" for f
    using that by (simp add: cow_pmm_used) (simp add: cow_pmm_def)
  ultimately show "pmm_inv cow_pmm" by (simp add: pmm_inv_def t MAX_FRAMES_def)
qed

lemma cow_pmm_owned: "f \<in> {1, 3, 4} \<Longrightarrow> of_nat f * 4096 \<in> owned_frames cow_pmm"
  using cow_pmm_used [of f] by (auto simp: owned_frames_def cow_pmm_def intro!: exI [of _ f])

lemma cow_demo_entries:
  "i < 1024 \<Longrightarrow> entry cow_demo 0x1000 i = (if i = 0 then 0x3003 else 0)"
  "i < 1024 \<Longrightarrow> entry cow_demo 0x3000 i = (if i = 5 then 0x4201 else 0)"
proof -
  have z: "entry \<lparr>mpmm = cow_pmm, phys = (\<lambda>_. 0)\<rparr> t i = 0" for t i by (simp add: entry_def get32_def)
  assume i: "i < 1024"
  have o: "entry (set_entry 0x3000 5 e s) 0x1000 i = entry s 0x1000 i"
    "entry (set_entry 0x1000 0 e s) 0x3000 i = entry s 0x3000 i" for e s
    using i by (intro entry_set_other; simp add: aligned_4096)+
  show "entry cow_demo 0x1000 i = (if i = 0 then 0x3003 else 0)"
    "entry cow_demo 0x3000 i = (if i = 5 then 0x4201 else 0)"
    unfolding cow_demo_def o by (auto simp: o z)
qed

lemma cow_demo_wf: "vm_wf cow_demo 0x1000" "paging_frames cow_demo 0x1000 = {0x1000, 0x3000}"
proof -
  have fs: "{i. i < 1024 \<and> present (entry cow_demo 0x1000 i)} = {0}"
    by (auto simp: cow_demo_entries page_consts split: if_splits)
  show pf: "paging_frames cow_demo 0x1000 = {0x1000, 0x3000}"
    unfolding paging_frames_def fs by (auto simp: cow_demo_entries page_of_def)
  have m: "mpmm cow_demo = cow_pmm" by (simp add: cow_demo_def)
  have only: "i < 1024 \<Longrightarrow> present (entry cow_demo 0x1000 i) \<Longrightarrow> i = 0" for i using fs by blast
  show "vm_wf cow_demo 0x1000"
    unfolding vm_wf_def pf m
  proof (intro conjI allI impI)
    show "page_of (entry cow_demo 0x1000 i) \<noteq> 0x1000" if "i < 1024" "present (entry cow_demo 0x1000 i)" for i
      using only [OF that] that(1) by (simp add: cow_demo_entries page_of_def)
    show "i = j" if "i < 1024" "j < 1024" "present (entry cow_demo 0x1000 i)" "present (entry cow_demo 0x1000 j)" for i j
      using only [OF that(1,3)] only [OF that(2,4)] by simp
  qed (use cow_pmm_ok cow_pmm_owned [of 1] cow_pmm_owned [of 3] in \<open>simp_all add: aligned_4096\<close>)
qed

theorem hal_vmm_handle_cow_copies_witness:
  "\<exists>s' new. hal_vmm_handle_cow 0x1000 0x5123 cow_demo = Some (True, s')
    \<and> new \<notin> owned_frames cow_pmm \<and> page_of (pte s' 0x1000 5) = new
    \<and> frame_refcounts (mpmm s') 4 = 2"
proof -
  have v: "vpage 0x5123 = 5" by (simp add: vpage_def)
  have e: "pte cow_demo 0x1000 5 = 0x4201"
    by (simp add: pte_def cow_demo_entries page_of_def page_consts)
  have m: "mpmm cow_demo = cow_pmm" by (simp add: cow_demo_def)
  have pg: "page_of 0x4201 = 0x4000" by (simp add: page_of_def)
  have "frame_used cow_pmm g" if "1 \<le> g" "g < 2" for g using that by (simp add: cow_pmm_used)
  moreover have "\<not> frame_used cow_pmm 2" by (simp add: cow_pmm_used)
  ultimately have "pmm_frame_alloc cow_pmm = (ucast (frame_addr cow_pmm 2), mark_frame_used 2 cow_pmm)"
    by (intro pmm_frame_alloc_Some [OF cow_pmm_ok(1)]) (auto simp: cow_pmm_def)
  then have mem: "fst (pmm_frame_alloc cow_pmm) \<noteq> 0" by (simp add: cow_pmm_def)
  have rc: "frame_refcounts cow_pmm (unat (page_of 0x4201) div 4096) = 2" by (simp add: cow_pmm_def pg)
  have p: "range_start (memory_range (mpmm cow_demo)) = 0" "0x4201 = pte cow_demo 0x1000 (vpage 0x5123)"
    "present 0x4201" "(0x4201::u32) AND PT_COW \<noteq> 0"
    "page_of 0x4201 \<in> owned_frames (mpmm cow_demo) - paging_frames cow_demo 0x1000" "page_of 0x4201 \<noteq> 0"
    "0 < unat (frame_refcounts (mpmm cow_demo) (unat (page_of 0x4201) div 4096))"
    "unat (frame_refcounts (mpmm cow_demo) (unat (page_of 0x4201) div 4096)) < 65535"
    "fst (pmm_frame_alloc (mpmm cow_demo)) \<noteq> 0"
    unfolding m v e rc cow_demo_wf(2) pg using cow_pmm_owned [of 4] mem
    by (simp_all add: cow_pmm_def page_consts)
  have u: "unat (page_of 0x4201) div 4096 = 4" by (simp add: pg)
  note r = hal_vmm_handle_cow_copies [OF cow_demo_wf(1) p]
  show ?thesis
    using r [unfolded m v rc] unfolding u by (elim exE conjE) (intro exI conjI, assumption+)
qed

end
