(* ===== verification/KHeap.thy ===== *)
theory KHeap
  imports Paging
begin

text \<open>
  The kernel heap of \<^verbatim>\<open>kernel/src/mm/kmalloc.c\<close>: the page-granular allocator of
  heap virtual addresses, the slab allocator for small objects and direct page
  allocation for large ones. Slab headers and free lists live in the heap
  pages themselves, so the model keeps the bytes of the heap's virtual pages,
  addressed by virtual address, and reads and writes the C fields at their
  offsets: \<^verbatim>\<open>slab_t\<close> is \<^verbatim>\<open>next\<close>, \<^verbatim>\<open>free_list\<close>, \<^verbatim>\<open>free_count\<close>, \<^verbatim>\<open>total_count\<close> and
  \<^verbatim>\<open>object_size\<close>, five 32-bit words, and \<^verbatim>\<open>large_alloc_hdr_t\<close> four. \<open>None\<close> means
  that a call does not return (panic, or an endless walk along a cyclic list).
\<close>

subsection \<open>State\<close>

definition SIZE_CLASSES :: "u32 list" where
  "SIZE_CLASSES = [8, 16, 32, 64, 128, 256, 512, 1024, 2048]"

definition NUM_SIZE_CLASSES :: nat where
  "NUM_SIZE_CLASSES = length SIZE_CLASSES"

record kmem_cache_t =
  partial_slabs :: u32
  full_slabs :: u32
  empty_slabs :: u32
  cache_object_size :: u32
  objects_per_slab :: u32

definition LARGE_ALLOC_MAGIC :: u32 where
  "LARGE_ALLOC_MAGIC = 0x4C41524B"

record kmalloc_stats_t =
  total_allocated :: u32
  total_freed :: u32
  current_usage :: u32
  failed_allocations :: u32

definition KERNEL_HEAP_START :: u32 where
  "KERNEL_HEAP_START = 0xE0000000"

definition HEAP_PAGES :: nat where
  "HEAP_PAGES = 65536"

record kheap =
  hmach :: machine
  hmem :: bytes
  kernel_arch_vm :: u32
  heap_va_bitmap :: bytes
  heap_va_hint :: nat
  caches :: "nat \<Rightarrow> kmem_cache_t"
  stats :: kmalloc_stats_t

text \<open>The static variables before \<^verbatim>\<open>kmalloc_init\<close>: all zero.\<close>

definition kheap_statics :: "machine \<Rightarrow> bytes \<Rightarrow> kheap" where
  "kheap_statics m mem = \<lparr>hmach = m, hmem = mem, kernel_arch_vm = 0, heap_va_bitmap = (\<lambda>_. 0), heap_va_hint = 0,
     caches = (\<lambda>_. \<lparr>partial_slabs = 0, full_slabs = 0, empty_slabs = 0, cache_object_size = 0, objects_per_slab = 0\<rparr>),
     stats = \<lparr>total_allocated = 0, total_freed = 0, current_usage = 0, failed_allocations = 0\<rparr>\<rparr>"

definition sizeof_slab :: nat where
  "sizeof_slab = 20"

definition sizeof_hdr :: nat where
  "sizeof_hdr = 16"

subsection \<open>Heap virtual addresses\<close>

definition heap_va_test :: "bytes \<Rightarrow> nat \<Rightarrow> bool" where
  "heap_va_test bm page \<longleftrightarrow> bm (page div 8) AND push_bit (page mod 8) 1 \<noteq> 0"

definition heap_va_set :: "bytes \<Rightarrow> nat \<Rightarrow> bytes" where
  "heap_va_set bm page = bm(page div 8 := bm (page div 8) OR push_bit (page mod 8) 1)"

definition heap_va_clear :: "bytes \<Rightarrow> nat \<Rightarrow> bytes" where
  "heap_va_clear bm page = bm(page div 8 := bm (page div 8) AND NOT (push_bit (page mod 8) 1))"

text \<open>
  The scan of one pass: the first page at which a run of \<open>page_count\<close> free
  pages is complete.
\<close>

function heap_va_scan :: "bytes \<Rightarrow> nat \<Rightarrow> nat \<Rightarrow> nat \<Rightarrow> nat \<Rightarrow> nat option" where
  "heap_va_scan bm page_count i hi run =
     (if i < hi then
        if heap_va_test bm i then heap_va_scan bm page_count (i + 1) hi 0
        else if run + 1 < page_count then heap_va_scan bm page_count (i + 1) hi (run + 1)
        else Some i
      else None)"
  by pat_completeness auto
termination by (relation "measure (\<lambda>(bm, page_count, i, hi, run). hi - i)") auto

definition heap_va_take :: "nat \<Rightarrow> nat \<Rightarrow> kheap \<Rightarrow> u32 \<times> kheap" where
  "heap_va_take page_count i s =
     (let first = i + 1 - page_count;
          s = s\<lparr>heap_va_bitmap := for_loop first (i + 1) (\<lambda>j bm. heap_va_set bm j) (heap_va_bitmap s),
                 heap_va_hint := (if i + 1 < HEAP_PAGES then i + 1 else 0)\<rparr>
      in (KERNEL_HEAP_START + of_nat first * PAGE_SIZE, s))"

definition heap_va_alloc :: "nat \<Rightarrow> kheap \<Rightarrow> u32 \<times> kheap" where
  "heap_va_alloc page_count s =
     (if page_count = 0 \<or> page_count > HEAP_PAGES then (0, s)
      else case heap_va_scan (heap_va_bitmap s) page_count (heap_va_hint s) HEAP_PAGES 0 of
        Some i \<Rightarrow> heap_va_take page_count i s
      | None \<Rightarrow>
          (case heap_va_scan (heap_va_bitmap s) page_count 0 (heap_va_hint s) 0 of
             Some i \<Rightarrow> heap_va_take page_count i s
           | None \<Rightarrow> (0, s)))"

definition heap_va_free :: "u32 \<Rightarrow> nat \<Rightarrow> kheap \<Rightarrow> kheap" where
  "heap_va_free va page_count s =
     (let first = unat ((va - KERNEL_HEAP_START) div PAGE_SIZE);
          s = s\<lparr>heap_va_bitmap := for_loop 0 page_count (\<lambda>i bm. heap_va_clear bm (first + i)) (heap_va_bitmap s)\<rparr>
      in if first < heap_va_hint s then s\<lparr>heap_va_hint := first\<rparr> else s)"

subsection \<open>Heap pages\<close>

definition hframe_free :: "u32 \<Rightarrow> kheap \<Rightarrow> kheap option" where
  "hframe_free a s = map_option (\<lambda>m. s\<lparr>hmach := m\<rparr>) (frame_free a (hmach s))"

definition hmap :: "u32 \<Rightarrow> u32 \<Rightarrow> kheap \<Rightarrow> (bool \<times> kheap) option" where
  "hmap va pa s = map_option (\<lambda>(ok, m). (ok, s\<lparr>hmach := m\<rparr>)) (hal_vm_map (kernel_arch_vm s) va pa 0x2 (hmach s))"

definition hunmap :: "u32 \<Rightarrow> kheap \<Rightarrow> kheap option" where
  "hunmap va s = map_option (\<lambda>(_, m). s\<lparr>hmach := m\<rparr>) (hal_vm_unmap (kernel_arch_vm s) va (hmach s))"

definition hframe_alloc :: "kheap \<Rightarrow> u32 \<times> kheap" where
  "hframe_alloc s = (case pmm_frame_alloc (mpmm (hmach s)) of (a, p) \<Rightarrow> (ucast a, s\<lparr>hmach := (hmach s)\<lparr>mpmm := p\<rparr>\<rparr>))"

definition heap_page_alloc :: "kheap \<Rightarrow> (u32 \<times> kheap) option" where
  "heap_page_alloc s =
     (case heap_va_alloc 1 s of (virtual, s) \<Rightarrow>
        if virtual = 0 then Some (0, s)
        else case hframe_alloc s of (physical, s) \<Rightarrow>
          if physical = 0 then Some (0, heap_va_free virtual 1 s)
          else do {
            (ok, s) \<leftarrow> hmap virtual physical s;
            if \<not> ok then do { s \<leftarrow> hframe_free physical s; Some (0, heap_va_free virtual 1 s) }
            else Some (virtual, s) })"

definition heap_page_free :: "u32 \<Rightarrow> kheap \<Rightarrow> kheap option" where
  "heap_page_free virtual s =
     do { let physical = hal_vm_virt_to_phys (hmach s) (kernel_arch_vm s) virtual;
          s \<leftarrow> (if physical \<noteq> 0 then do { s \<leftarrow> hunmap virtual s; hframe_free physical s } else Some s);
          Some (heap_va_free virtual 1 s) }"

subsection \<open>Slabs\<close>

text \<open>The fields of the \<^verbatim>\<open>slab_t\<close> at an address, and a \<^verbatim>\<open>void *\<close> stored at an address.\<close>

definition rd :: "u32 \<Rightarrow> nat \<Rightarrow> bytes \<Rightarrow> u32" where
  "rd p off m = get32 m (unat p + off)"

definition wr :: "u32 \<Rightarrow> nat \<Rightarrow> u32 \<Rightarrow> bytes \<Rightarrow> bytes" where
  "wr p off v m = put32 m (unat p + off) v"

definition slab_next :: nat where "slab_next = 0"

definition slab_free_list :: nat where "slab_free_list = 4"

definition slab_free_count :: nat where "slab_free_count = 8"

definition slab_total_count :: nat where "slab_total_count = 12"

definition slab_object_size :: nat where "slab_object_size = 16"

lemmas slab_offsets = slab_next_def slab_free_list_def slab_free_count_def slab_total_count_def slab_object_size_def

text \<open>The loop that threads the objects of a new slab: memory, list head and next object.\<close>

definition slab_link :: "u32 \<Rightarrow> nat \<Rightarrow> bytes \<times> u32 \<times> u32 \<Rightarrow> bytes \<times> u32 \<times> u32" where
  "slab_link object_size i st = (case st of (m, free_list, obj) \<Rightarrow> (wr obj 0 free_list m, obj, obj + object_size))"

definition slab_init :: "u32 \<Rightarrow> u32 \<Rightarrow> bytes \<Rightarrow> bytes" where
  "slab_init page object_size m =
     (let m = wr page slab_next 0 m;
          m = wr page slab_object_size object_size m;
          available = PAGE_SIZE - of_nat sizeof_slab;
          m = wr page slab_total_count (available div object_size) m;
          m = wr page slab_free_count (rd page slab_total_count m) m;
          (m, free_list, _) = for_loop 0 (unat (rd page slab_total_count m)) (slab_link object_size)
                                (m, 0, page + of_nat sizeof_slab)
      in wr page slab_free_list free_list m)"

definition slab_create :: "u32 \<Rightarrow> kheap \<Rightarrow> (u32 \<times> kheap) option" where
  "slab_create object_size s =
     do { (page, s) \<leftarrow> heap_page_alloc s;
          if page = 0 then Some (0, s)
          else Some (page, s\<lparr>hmem := slab_init page object_size (hmem s)\<rparr>) }"

definition slab_destroy :: "u32 \<Rightarrow> kheap \<Rightarrow> kheap option" where
  "slab_destroy slab s = heap_page_free slab s"

definition slab_alloc :: "u32 \<Rightarrow> bytes \<Rightarrow> u32 \<times> bytes" where
  "slab_alloc slab m =
     (if rd slab slab_free_list m = 0 then (0, m)
      else
        (let obj = rd slab slab_free_list m;
             m = wr slab slab_free_list (rd obj 0 m) m;
             m = wr slab slab_free_count (rd slab slab_free_count m - 1) m
         in (obj, m)))"

definition slab_free :: "u32 \<Rightarrow> u32 \<Rightarrow> bytes \<Rightarrow> bytes" where
  "slab_free slab ptr m =
     (let m = wr ptr 0 (rd slab slab_free_list m) m;
          m = wr slab slab_free_list ptr m
      in wr slab slab_free_count (rd slab slab_free_count m + 1) m)"

definition slab_find :: "u32 \<Rightarrow> u32" where
  "slab_find ptr = ptr AND NOT (PAGE_SIZE - 1)"

definition cache_for_size :: "u32 \<Rightarrow> nat option" where
  "cache_for_size sz = List.find (\<lambda>i. sz \<le> SIZE_CLASSES ! i) [0..<NUM_SIZE_CLASSES]"

definition kmalloc_init :: "u32 \<Rightarrow> kheap \<Rightarrow> kheap" where
  "kmalloc_init arch s =
     (let s = for_loop 0 NUM_SIZE_CLASSES
            (\<lambda>i s. s\<lparr>caches := (caches s)(i := \<lparr>partial_slabs = 0, full_slabs = 0, empty_slabs = 0,
               cache_object_size = SIZE_CLASSES ! i,
               objects_per_slab = (PAGE_SIZE - of_nat sizeof_slab) div SIZE_CLASSES ! i\<rparr>)\<rparr>) s
      in s\<lparr>kernel_arch_vm := arch\<rparr>)"

subsection \<open>Allocation\<close>

abbreviation fail :: "kheap \<Rightarrow> kheap" where
  "fail s \<equiv> s\<lparr>stats := (stats s)\<lparr>failed_allocations := failed_allocations (stats s) + 1\<rparr>\<rparr>"

abbreviation account :: "u32 \<Rightarrow> kheap \<Rightarrow> kheap" where
  "account n s \<equiv> s\<lparr>stats := (stats s)\<lparr>total_allocated := total_allocated (stats s) + n,
     current_usage := current_usage (stats s) + n\<rparr>\<rparr>"

abbreviation unaccount :: "u32 \<Rightarrow> kheap \<Rightarrow> kheap" where
  "unaccount n s \<equiv> s\<lparr>stats := (stats s)\<lparr>total_freed := total_freed (stats s) + n,
     current_usage := current_usage (stats s) - n\<rparr>\<rparr>"

definition large_pages :: "u32 \<Rightarrow> u32" where
  "large_pages sz = (sz + of_nat sizeof_hdr + PAGE_SIZE - 1) div PAGE_SIZE"

text \<open>The mapping loop: the number of pages mapped before the first failure.\<close>

fun large_map :: "u32 \<Rightarrow> nat \<Rightarrow> nat \<Rightarrow> kheap \<Rightarrow> (nat \<times> kheap) option" where
  "large_map va mapped 0 s = Some (mapped, s)"
| "large_map va mapped (Suc n) s =
     (case hframe_alloc s of (pa, s) \<Rightarrow>
        if pa = 0 then Some (mapped, s)
        else do {
          (ok, s) \<leftarrow> hmap (va + of_nat mapped * PAGE_SIZE) pa s;
          if \<not> ok then do { s \<leftarrow> hframe_free pa s; Some (mapped, s) }
          else large_map va (mapped + 1) n s })"

text \<open>Unmapping and releasing the pages \<open>i .. i + n - 1\<close> of a range.\<close>

fun large_unmap :: "u32 \<Rightarrow> nat \<Rightarrow> nat \<Rightarrow> kheap \<Rightarrow> kheap option" where
  "large_unmap va i 0 s = Some s"
| "large_unmap va i (Suc n) s =
     (let v = va + of_nat i * PAGE_SIZE;
          pa = hal_vm_virt_to_phys (hmach s) (kernel_arch_vm s) v
      in do { s \<leftarrow> hunmap v s; s \<leftarrow> hframe_free pa s; large_unmap va (i + 1) n s })"

definition kmalloc_large :: "u32 \<Rightarrow> bool \<Rightarrow> kheap \<Rightarrow> (u32 \<times> kheap) option" where
  "kmalloc_large sz zero s =
     (let pages = large_pages sz in
      case heap_va_alloc (unat pages) s of (va, s) \<Rightarrow>
        if va = 0 then Some (0, fail s)
        else do {
          (mapped, s) \<leftarrow> large_map va 0 (unat pages) s;
          if mapped < unat pages
          then do { s \<leftarrow> large_unmap va 0 mapped s; Some (0, fail (heap_va_free va (unat pages) s)) }
          else
            (let s = s\<lparr>hmem := wr va 4 pages (wr va 0 LARGE_ALLOC_MAGIC (hmem s))\<rparr>;
                 s = account (pages * PAGE_SIZE) s;
                 ptr = va + of_nat sizeof_hdr;
                 s = (if zero then s\<lparr>hmem := mem_set (hmem s) (unat ptr) 0 (unat (pages * PAGE_SIZE - of_nat sizeof_hdr))\<rparr> else s)
             in Some (ptr, s)) })"

definition kmalloc_small :: "u32 \<Rightarrow> bool \<Rightarrow> kheap \<Rightarrow> (u32 \<times> kheap) option" where
  "kmalloc_small sz zero s =
     (case cache_for_size sz of None \<Rightarrow> Some (0, fail s)
      | Some c \<Rightarrow>
        (let slab = partial_slabs (caches s c);
             (slab, s) =
               (if slab = 0 then
                  (let slab = empty_slabs (caches s c) in
                   if slab \<noteq> 0 then
                     (let s = s\<lparr>caches := (caches s)(c := (caches s c)\<lparr>empty_slabs := rd slab slab_next (hmem s)\<rparr>)\<rparr>;
                          s = s\<lparr>hmem := wr slab slab_next (partial_slabs (caches s c)) (hmem s)\<rparr>;
                          s = s\<lparr>caches := (caches s)(c := (caches s c)\<lparr>partial_slabs := slab\<rparr>)\<rparr>
                      in (slab, s))
                   else (slab, s))
                else (slab, s))
         in do {
           (slab, s) \<leftarrow>
             (if slab = 0 then do {
                (slab, s) \<leftarrow> slab_create (cache_object_size (caches s c)) s;
                if slab = 0 then Some (0, fail s)
                else
                  (let s = s\<lparr>hmem := wr slab slab_next (partial_slabs (caches s c)) (hmem s)\<rparr>;
                       s = s\<lparr>caches := (caches s)(c := (caches s c)\<lparr>partial_slabs := slab\<rparr>)\<rparr>
                   in Some (slab, s)) }
              else Some (slab, s));
           if slab = 0 then Some (0, s)
           else
             (case slab_alloc slab (hmem s) of (ptr, m) \<Rightarrow>
                (let s = s\<lparr>hmem := m\<rparr> in
                 if ptr = 0 then Some (0, fail s)
                 else
                   (let s =
                      (if rd slab slab_free_count (hmem s) = 0 then
                         (let s = (if partial_slabs (caches s c) = slab
                                   then s\<lparr>caches := (caches s)(c := (caches s c)\<lparr>partial_slabs := rd slab slab_next (hmem s)\<rparr>)\<rparr>
                                   else s);
                              s = s\<lparr>hmem := wr slab slab_next (full_slabs (caches s c)) (hmem s)\<rparr>
                          in s\<lparr>caches := (caches s)(c := (caches s c)\<lparr>full_slabs := slab\<rparr>)\<rparr>)
                       else s);
                      s = account (cache_object_size (caches s c)) s;
                      s = (if zero then s\<lparr>hmem := mem_set (hmem s) (unat ptr) 0 (unat (cache_object_size (caches s c)))\<rparr> else s)
                    in Some (ptr, s)))) }))"

definition kmalloc_internal :: "u32 \<Rightarrow> bool \<Rightarrow> kheap \<Rightarrow> (u32 \<times> kheap) option" where
  "kmalloc_internal sz zero s =
     (if sz = 0 then Some (0, s)
      else if sz > SIZE_CLASSES ! (NUM_SIZE_CLASSES - 1) then kmalloc_large sz zero s
      else kmalloc_small sz zero s)"

definition kmalloc :: "u32 \<Rightarrow> kheap \<Rightarrow> (u32 \<times> kheap) option" where
  "kmalloc sz s = kmalloc_internal sz False s"

definition kzalloc :: "u32 \<Rightarrow> kheap \<Rightarrow> (u32 \<times> kheap) option" where
  "kzalloc sz s = kmalloc_internal sz True s"

definition kcalloc :: "u32 \<Rightarrow> u32 \<Rightarrow> kheap \<Rightarrow> (u32 \<times> kheap) option" where
  "kcalloc count sz s =
     (if count \<noteq> 0 \<and> sz > 0xFFFFFFFF div count then Some (0, fail s) else kzalloc (count * sz) s)"

subsection \<open>Freeing\<close>

definition large_alloc_hdr :: "u32 \<Rightarrow> bytes \<Rightarrow> u32" where
  "large_alloc_hdr ptr m =
     (let page_start = ptr AND NOT (PAGE_SIZE - 1) in
      if ptr = page_start + of_nat sizeof_hdr \<and> rd page_start 0 m = LARGE_ALLOC_MAGIC then page_start else 0)"

text \<open>
  A pointer to a slab pointer: the list head in the cache, or the \<^verbatim>\<open>next\<close> field
  of a slab. The loop \<^verbatim>\<open>while (*prev && *prev != slab) prev = &(*prev)->next\<close>
  returns the last one.
\<close>

datatype slab_ref = ListHead | NextOf u32

definition deref :: "u32 \<Rightarrow> bytes \<Rightarrow> slab_ref \<Rightarrow> u32" where
  "deref head m r = (case r of ListHead \<Rightarrow> head | NextOf p \<Rightarrow> rd p slab_next m)"

partial_function (option) find_prev :: "u32 \<Rightarrow> bytes \<Rightarrow> u32 \<Rightarrow> slab_ref \<Rightarrow> slab_ref option" where
  "find_prev head m slab prev =
     (if deref head m prev \<noteq> 0 \<and> deref head m prev \<noteq> slab
      then find_prev head m slab (NextOf (deref head m prev)) else Some prev)"

definition kfree_large :: "u32 \<Rightarrow> kheap \<Rightarrow> kheap option" where
  "kfree_large va s =
     (let pages = rd va 4 (hmem s) in
      do { s \<leftarrow> large_unmap va 0 (unat pages) s;
           let s = heap_va_free va (unat pages) s;
           Some (unaccount (pages * PAGE_SIZE) s) })"

text \<open>\<^verbatim>\<open>*prev = slab->next\<close> on the full list (\<open>full\<close>) or on the partial list of a cache.\<close>

definition unlink :: "bool \<Rightarrow> nat \<Rightarrow> slab_ref \<Rightarrow> u32 \<Rightarrow> kheap \<Rightarrow> kheap" where
  "unlink full c prev slab s =
     (let nxt = rd slab slab_next (hmem s) in
      case prev of
        NextOf p \<Rightarrow> s\<lparr>hmem := wr p slab_next nxt (hmem s)\<rparr>
      | ListHead \<Rightarrow> s\<lparr>caches := (caches s)(c := (if full then (caches s c)\<lparr>full_slabs := nxt\<rparr>
                                                else (caches s c)\<lparr>partial_slabs := nxt\<rparr>))\<rparr>)"

definition kfree_small :: "u32 \<Rightarrow> kheap \<Rightarrow> kheap option" where
  "kfree_small ptr s =
     (let slab = slab_find ptr; obj_size = rd slab slab_object_size (hmem s) in
      case cache_for_size obj_size of None \<Rightarrow> Some s
      | Some c \<Rightarrow>
        (let was_full = (rd slab slab_free_count (hmem s) = 0);
             s = s\<lparr>hmem := slab_free slab ptr (hmem s)\<rparr>;
             s = unaccount obj_size s
         in do {
           s \<leftarrow> (if was_full then do {
                    prev \<leftarrow> find_prev (full_slabs (caches s c)) (hmem s) slab ListHead;
                    if deref (full_slabs (caches s c)) (hmem s) prev \<noteq> 0
                    then
                      (let s = unlink True c prev slab s;
                           s = s\<lparr>hmem := wr slab slab_next (partial_slabs (caches s c)) (hmem s)\<rparr>
                       in Some (s\<lparr>caches := (caches s)(c := (caches s c)\<lparr>partial_slabs := slab\<rparr>)\<rparr>))
                    else Some s }
                 else Some s);
           if rd slab slab_free_count (hmem s) = rd slab slab_total_count (hmem s)
           then do {
             prev \<leftarrow> find_prev (partial_slabs (caches s c)) (hmem s) slab ListHead;
             let s = (if deref (partial_slabs (caches s c)) (hmem s) prev = slab then unlink False c prev slab s else s);
             let s = s\<lparr>hmem := wr slab slab_next (empty_slabs (caches s c)) (hmem s)\<rparr>;
             Some (s\<lparr>caches := (caches s)(c := (caches s c)\<lparr>empty_slabs := slab\<rparr>)\<rparr>) }
           else Some s }))"

definition kfree :: "u32 \<Rightarrow> kheap \<Rightarrow> kheap option" where
  "kfree ptr s =
     (if ptr = 0 then Some s
      else
        (let hdr = large_alloc_hdr ptr (hmem s) in
         if hdr \<noteq> 0 then kfree_large hdr s else kfree_small ptr s))"

definition krealloc :: "u32 \<Rightarrow> u32 \<Rightarrow> kheap \<Rightarrow> (u32 \<times> kheap) option" where
  "krealloc ptr sz s =
     (if ptr = 0 then kmalloc sz s
      else if sz = 0 then do { s \<leftarrow> kfree ptr s; Some (0, s) }
      else
        (let hdr = large_alloc_hdr ptr (hmem s);
             old_size = (if hdr \<noteq> 0 then rd hdr 4 (hmem s) * PAGE_SIZE - of_nat sizeof_hdr
                         else rd (slab_find ptr) slab_object_size (hmem s))
         in if hdr \<noteq> 0 \<and> sz > SIZE_CLASSES ! (NUM_SIZE_CLASSES - 1) \<and> sz \<le> old_size then Some (ptr, s)
            else if hdr = 0 \<and> cache_for_size old_size = cache_for_size sz then Some (ptr, s)
            else do {
              (new_ptr, s) \<leftarrow> kmalloc sz s;
              if new_ptr = 0 then Some (0, s)
              else do {
                let copy_size = (if old_size < sz then old_size else sz);
                let s = s\<lparr>hmem := mem_copy (hmem s) (unat new_ptr) (hmem s) (unat ptr) (unat copy_size)\<rparr>;
                s \<leftarrow> kfree ptr s;
                Some (new_ptr, s) } }))"

definition kmalloc_stats_get :: "kheap \<Rightarrow> kmalloc_stats_t" where
  "kmalloc_stats_get s = stats s"

end
