(* ===== verification/KHeapProps.thy ===== *)
theory KHeapProps
  imports KHeap
begin

text \<open>
  Correctness of the kernel heap: the first-fit allocator of heap addresses,
  the slab free lists as stacks of disjoint objects, and the size arithmetic.
\<close>

subsection \<open>Heap addresses\<close>

lemma heap_va_bitmap_ops: "heap_va_test = bitmap_test" "heap_va_set = bitmap_set" "heap_va_clear = bitmap_clear"
  by (simp_all add: fun_eq_iff heap_va_test_def heap_va_set_def heap_va_clear_def
      bitmap_test_def bitmap_set_def bitmap_clear_def)

interpretation hv: bit_array heap_va_test heap_va_set heap_va_clear
  unfolding heap_va_bitmap_ops by (rule bm.bit_array_axioms)

declare heap_va_scan.simps [simp del]

lemma heap_va_scan_Some:
  assumes "heap_va_scan bm n i hi run = Some k" and "run < n" and "run \<le> i"
    and "\<forall>j. i - run \<le> j \<and> j < i \<longrightarrow> \<not> heap_va_test bm j"
  shows "i \<le> k \<and> k < hi \<and> i - run + n \<le> k + 1 \<and> (\<forall>j. k + 1 - n \<le> j \<and> j \<le> k \<longrightarrow> \<not> heap_va_test bm j)"
  using assms
proof (induction bm n i hi run rule: heap_va_scan.induct)
  case (1 bm n i hi run)
  have i: "i < hi" using "1.prems"(1) by (subst (asm) heap_va_scan.simps) (simp split: if_splits)
  consider (used) "heap_va_test bm i" | (more) "\<not> heap_va_test bm i" "run + 1 < n" | (found) "\<not> heap_va_test bm i" "\<not> run + 1 < n"
    by blast
  then show ?case
  proof cases
    case used
    then have "heap_va_scan bm n (i + 1) hi 0 = Some k" using "1.prems"(1) i by (subst (asm) heap_va_scan.simps) simp
    then have "i + 1 \<le> k \<and> k < hi \<and> i + 1 - 0 + n \<le> k + 1 \<and> (\<forall>j. k + 1 - n \<le> j \<and> j \<le> k \<longrightarrow> \<not> heap_va_test bm j)"
      by (rule "1.IH"(1) [OF i used]) (use "1.prems"(2) in auto)
    then show ?thesis by (elim conjE, intro conjI) (linarith | assumption)+
  next
    case more
    then have "heap_va_scan bm n (i + 1) hi (run + 1) = Some k"
      using "1.prems"(1) i by (subst (asm) heap_va_scan.simps) simp
    moreover have "\<forall>j. i + 1 - (run + 1) \<le> j \<and> j < i + 1 \<longrightarrow> \<not> heap_va_test bm j"
      using "1.prems"(4) more(1) by (auto simp: less_Suc_eq)
    ultimately have "i + 1 \<le> k \<and> k < hi \<and> i + 1 - (run + 1) + n \<le> k + 1
        \<and> (\<forall>j. k + 1 - n \<le> j \<and> j \<le> k \<longrightarrow> \<not> heap_va_test bm j)"
      using more(2) "1.prems"(3) by (intro "1.IH"(2) [OF i more]) simp_all
    then show ?thesis by simp
  next
    case found
    then have "k = i" using "1.prems"(1) i by (subst (asm) heap_va_scan.simps) simp
    moreover have "n = run + 1" using found(2) "1.prems"(2) by simp
    ultimately show ?thesis using "1.prems"(3,4) i found(1) by (auto simp: le_less)
  qed
qed

lemma heap_va_scan_None:
  assumes "heap_va_scan bm n i hi run = None" and "run < n" and "run \<le> i" and "i - run \<le> f" and "f + n \<le> hi"
  shows "\<exists>j. f \<le> j \<and> j < f + n \<and> heap_va_test bm j"
  using assms
proof (induction bm n i hi run rule: heap_va_scan.induct)
  case (1 bm n i hi run)
  have i: "i < hi" using "1.prems"(2-5) by linarith
  consider (used) "heap_va_test bm i" | (more) "\<not> heap_va_test bm i" "run + 1 < n" | (found) "\<not> heap_va_test bm i" "\<not> run + 1 < n"
    by blast
  then show ?case
  proof cases
    case used
    then have r: "heap_va_scan bm n (i + 1) hi 0 = None" using "1.prems"(1) i by (subst (asm) heap_va_scan.simps) simp
    show ?thesis
    proof (cases "f \<le> i")
      case True
      then show ?thesis using used "1.prems"(2-4) by (intro exI [of _ i]) linarith
    next
      case False
      then show ?thesis using "1.IH"(1) [OF i used r] "1.prems"(2,5) by auto
    qed
  next
    case more
    then have r: "heap_va_scan bm n (i + 1) hi (run + 1) = None"
      using "1.prems"(1) i by (subst (asm) heap_va_scan.simps) simp
    show ?thesis using "1.IH"(2) [OF i more r] "1.prems" more by auto
  next
    case found
    then show ?thesis using "1.prems"(1) i by (subst (asm) heap_va_scan.simps) simp
  qed
qed

definition heap_addr :: "nat \<Rightarrow> u32" where
  "heap_addr f = KERNEL_HEAP_START + of_nat f * PAGE_SIZE"

lemma unat_heap_addr: "f < HEAP_PAGES \<Longrightarrow> unat (heap_addr f) = 0xE0000000 + f * 4096"
  using unat_add_pages [of KERNEL_HEAP_START f] by (simp add: heap_addr_def KERNEL_HEAP_START_def HEAP_PAGES_def)

lemma heap_addr_page: "f < HEAP_PAGES \<Longrightarrow> unat ((heap_addr f - KERNEL_HEAP_START) div PAGE_SIZE) = f"
proof -
  assume f: "f < HEAP_PAGES"
  have "heap_addr f - KERNEL_HEAP_START = of_nat (f * 4096)" by (simp add: heap_addr_def PAGE_SIZE_def)
  moreover have "unat (of_nat (f * 4096) :: u32) = f * 4096"
    using f by (simp only: unat_of_nat HEAP_PAGES_def) simp
  ultimately show ?thesis by (simp add: unat_div PAGE_SIZE_def)
qed

lemma heap_va_take_eq:
  assumes "n \<le> k + 1" and "k < HEAP_PAGES" and "heap_va_take n k s = (va, s')"
  shows "va = heap_addr (k + 1 - n)" and "heap_va_hint s' < HEAP_PAGES"
    and "heap_va_test (heap_va_bitmap s') j \<longleftrightarrow> (k + 1 - n \<le> j \<and> j \<le> k) \<or> heap_va_test (heap_va_bitmap s) j"
    and "s' = s\<lparr>heap_va_bitmap := heap_va_bitmap s', heap_va_hint := heap_va_hint s'\<rparr>"
proof -
  have s': "s' = s\<lparr>heap_va_bitmap := for_loop (k + 1 - n) (k + 1) (\<lambda>j bm. heap_va_set bm j) (heap_va_bitmap s),
      heap_va_hint := (if k + 1 < HEAP_PAGES then k + 1 else 0)\<rparr>" and va: "va = heap_addr (k + 1 - n)"
    using assms(3) by (auto simp: heap_va_take_def heap_addr_def Let_def)
  show "va = heap_addr (k + 1 - n)" by (rule va)
  show "heap_va_hint s' < HEAP_PAGES" by (auto simp: s' HEAP_PAGES_def)
  show "s' = s\<lparr>heap_va_bitmap := heap_va_bitmap s', heap_va_hint := heap_va_hint s'\<rparr>" by (simp add: s')
  show "heap_va_test (heap_va_bitmap s') j \<longleftrightarrow> (k + 1 - n \<le> j \<and> j \<le> k) \<or> heap_va_test (heap_va_bitmap s) j"
    using hv.tst_set_list [of "[k + 1 - n..<k + 1]" "heap_va_bitmap s" j]
    by (simp only: s' kheap.simps set_upt atLeastLessThan_iff) auto
qed

lemma heap_va_scan_run:
  assumes "heap_va_scan bm n lo hi 0 = Some k" and "0 < n"
  shows "lo + n \<le> k + 1" and "k < hi" and "\<And>j. k + 1 - n \<le> j \<Longrightarrow> j \<le> k \<Longrightarrow> \<not> heap_va_test bm j"
proof -
  have "\<forall>j. lo - 0 \<le> j \<and> j < lo \<longrightarrow> \<not> heap_va_test bm j" by auto
  note r = heap_va_scan_Some [OF assms le0 this]
  show "lo + n \<le> k + 1" using r by linarith
  show "k < hi" "\<And>j. k + 1 - n \<le> j \<Longrightarrow> j \<le> k \<Longrightarrow> \<not> heap_va_test bm j" using r by blast+
qed

lemma heap_va_free_test:
  assumes "f < HEAP_PAGES"
  shows "heap_va_test (heap_va_bitmap (heap_va_free (heap_addr f) n s)) j
    \<longleftrightarrow> \<not> (f \<le> j \<and> j < f + n) \<and> heap_va_test (heap_va_bitmap s) j"
proof -
  have e: "heap_va_bitmap (heap_va_free (heap_addr f) n s)
      = fold (\<lambda>i b. heap_va_clear b i) (map (\<lambda>i. f + i) [0..<n]) (heap_va_bitmap s)"
    by (simp add: heap_va_free_def heap_addr_page [OF assms] Let_def fold_map comp_def)
  have "set (map (\<lambda>i. f + i) [0..<n]) = {f..<f + n}" by (simp add: add.commute)
  then show ?thesis unfolding e hv.tst_clear_list by auto
qed

definition heap_run :: "kheap \<Rightarrow> nat \<Rightarrow> nat \<Rightarrow> bool" where
  "heap_run s n f \<longleftrightarrow> (\<forall>j. f \<le> j \<and> j < f + n \<longrightarrow> \<not> heap_va_test (heap_va_bitmap s) j)"

lemma heap_va_take_run:
  assumes "heap_va_scan (heap_va_bitmap s) n lo hi 0 = Some k" and "hi \<le> HEAP_PAGES" and "0 < n"
  obtains f s' where "heap_va_take n k s = (heap_addr f, s')" "lo \<le> f" "f + n \<le> hi" "heap_va_hint s' < HEAP_PAGES"
    "heap_run s n f"
    "\<And>j. heap_va_test (heap_va_bitmap s') j \<longleftrightarrow> (f \<le> j \<and> j < f + n) \<or> heap_va_test (heap_va_bitmap s) j"
proof -
  note k = heap_va_scan_run [OF assms(1,3)]
  define f where "f = k + 1 - n"
  obtain va s' where t: "heap_va_take n k s = (va, s')" by fastforce
  have nk: "n \<le> k + 1" "k < HEAP_PAGES" using k(1,2) assms(2) by auto
  note e = heap_va_take_eq [OF nk t]
  have f: "f + n = k + 1" using nk(1) by (simp add: f_def)
  have iv: "k + 1 - n \<le> j \<and> j \<le> k \<longleftrightarrow> f \<le> j \<and> j < f + n" for j unfolding f by (auto simp: f_def)
  show ?thesis
  proof (rule that [of f s'])
    show "heap_va_take n k s = (heap_addr f, s')" using t e(1) by (simp add: f_def)
    show "heap_run s n f" unfolding heap_run_def using k(3) iv by blast
    show "heap_va_test (heap_va_bitmap s') j \<longleftrightarrow> (f \<le> j \<and> j < f + n) \<or> heap_va_test (heap_va_bitmap s) j" for j
      using e(3) [of j] iv [of j] by blast
  qed (use k(1,2) f e(2) in auto)
qed

text \<open>
  C29. \<^verbatim>\<open>heap_va_alloc\<close> reserves a run of free heap pages: it fails exactly when no
  run of the wanted length lies wholly above the hint or wholly below it, and
  then changes nothing; otherwise the pages were free, lie inside the heap,
  are marked and no other page is, and the address returned is that of the
  first. \<^verbatim>\<open>heap_va_free\<close> on that range makes exactly these pages free again.
\<close>

theorem heap_va_alloc_spec:
  assumes "heap_va_hint s \<le> HEAP_PAGES" and "0 < n" and "n \<le> HEAP_PAGES"
  shows "if (\<exists>f. (heap_va_hint s \<le> f \<and> f + n \<le> HEAP_PAGES \<or> f + n \<le> heap_va_hint s) \<and> heap_run s n f)
    then \<exists>f s'. heap_va_alloc n s = (heap_addr f, s') \<and> heap_addr f \<noteq> 0 \<and> f + n \<le> HEAP_PAGES
      \<and> heap_run s n f \<and> heap_va_hint s' < HEAP_PAGES
      \<and> (\<forall>j. heap_va_test (heap_va_bitmap s') j \<longleftrightarrow> (f \<le> j \<and> j < f + n) \<or> heap_va_test (heap_va_bitmap s) j)
      \<and> (\<forall>j. heap_va_test (heap_va_bitmap (heap_va_free (heap_addr f) n s')) j \<longleftrightarrow> heap_va_test (heap_va_bitmap s) j)
    else heap_va_alloc n s = (0, s)"
proof -
  let ?b = "heap_va_bitmap s" and ?h = "heap_va_hint s"
  let ?goal = "\<exists>f s'. heap_va_alloc n s = (heap_addr f, s') \<and> heap_addr f \<noteq> 0 \<and> f + n \<le> HEAP_PAGES
      \<and> heap_run s n f \<and> heap_va_hint s' < HEAP_PAGES
      \<and> (\<forall>j. heap_va_test (heap_va_bitmap s') j \<longleftrightarrow> (f \<le> j \<and> j < f + n) \<or> heap_va_test (heap_va_bitmap s) j)
      \<and> (\<forall>j. heap_va_test (heap_va_bitmap (heap_va_free (heap_addr f) n s')) j \<longleftrightarrow> heap_va_test (heap_va_bitmap s) j)"
  have take: ?goal if al: "heap_va_alloc n s = heap_va_take n k s" and sc: "heap_va_scan ?b n lo hi 0 = Some k"
    and hi: "hi \<le> HEAP_PAGES" for k lo hi
  proof -
    obtain f s' where f: "heap_va_take n k s = (heap_addr f, s')" "f + n \<le> hi" "heap_va_hint s' < HEAP_PAGES" "heap_run s n f"
      "\<And>j. heap_va_test (heap_va_bitmap s') j \<longleftrightarrow> (f \<le> j \<and> j < f + n) \<or> heap_va_test ?b j"
      using heap_va_take_run [OF sc hi assms(2)] by metis
    have fH: "f < HEAP_PAGES" using f(2) hi assms(2) by simp
    have "heap_addr f \<noteq> 0" using unat_heap_addr [OF fH] by auto
    moreover have "\<forall>j. heap_va_test (heap_va_bitmap (heap_va_free (heap_addr f) n s')) j \<longleftrightarrow> heap_va_test ?b j"
      using heap_va_free_test [OF fH] f(4,5) by (auto simp: heap_run_def)
    ultimately show ?thesis using f al hi by (intro exI [of _ f] exI [of _ s']) auto
  qed
  have none: "\<not> heap_run s n f" if "heap_va_scan ?b n lo hi 0 = None" "lo \<le> f" "f + n \<le> hi" for lo hi f
    using heap_va_scan_None [OF that(1) assms(2)] that(2,3) by (auto simp: heap_run_def)
  consider (up) k where "heap_va_scan ?b n ?h HEAP_PAGES 0 = Some k"
    | (low) k where "heap_va_scan ?b n ?h HEAP_PAGES 0 = None" "heap_va_scan ?b n 0 ?h 0 = Some k"
    | (full) "heap_va_scan ?b n ?h HEAP_PAGES 0 = None" "heap_va_scan ?b n 0 ?h 0 = None"
    by fastforce
  then show ?thesis
  proof cases
    case up
    obtain f where "?h \<le> f" "f + n \<le> HEAP_PAGES" "heap_run s n f"
      using heap_va_take_run [OF up order_refl assms(2)] by metis
    then show ?thesis using take [OF _ up] assms up by (auto simp: heap_va_alloc_def)
  next
    case low
    obtain f where "f + n \<le> ?h" "heap_run s n f"
      using heap_va_take_run [OF low(2) assms(1,2)] by metis
    then show ?thesis using take [OF _ low(2) assms(1)] assms low by (auto simp: heap_va_alloc_def)
  next
    case full
    then have "\<not> heap_run s n f" if "?h \<le> f \<and> f + n \<le> HEAP_PAGES \<or> f + n \<le> ?h" for f
      using none [OF full(1)] none [OF full(2)] that by blast
    then show ?thesis using full assms by (auto simp: heap_va_alloc_def)
  qed
qed

theorem heap_va_alloc_spec_witness:
  "\<exists>f s'. heap_va_alloc 3 (kheap_statics paging_demo (\<lambda>_. 0)) = (heap_addr f, s') \<and> heap_addr f \<noteq> 0
    \<and> heap_va_test (heap_va_bitmap s') (f + 2)"
proof -
  let ?s = "kheap_statics paging_demo (\<lambda>_. 0)"
  have h: "heap_va_hint ?s = 0" and b: "heap_run ?s 3 0"
    by (simp_all add: kheap_statics_def heap_run_def heap_va_test_def)
  have "\<exists>f. (heap_va_hint ?s \<le> f \<and> f + 3 \<le> HEAP_PAGES \<or> f + 3 \<le> heap_va_hint ?s) \<and> heap_run ?s 3 f"
    using b h by (intro exI [of _ 0]) (simp add: HEAP_PAGES_def)
  then obtain f s' where "heap_va_alloc 3 ?s = (heap_addr f, s')" "heap_addr f \<noteq> 0"
    "\<forall>j. heap_va_test (heap_va_bitmap s') j \<longleftrightarrow> (f \<le> j \<and> j < f + 3) \<or> heap_va_test (heap_va_bitmap ?s) j"
    using heap_va_alloc_spec [of ?s 3] h by (simp add: HEAP_PAGES_def) blast
  then show ?thesis by auto
qed

subsection \<open>Slabs\<close>

lemma rd_wr_same [simp]: "rd p off (wr p off v m) = v"
  by (simp add: rd_def wr_def)

lemma rd_wr_apart:
  "unat q + b + 4 \<le> unat p + a \<or> unat p + a + 4 \<le> unat q + b \<Longrightarrow> rd q b (wr p a v m) = rd q b m"
  unfolding rd_def wr_def by (rule get32_put32_other) auto

lemma rd_wr_field: "b + 4 \<le> a \<or> a + 4 \<le> b \<Longrightarrow> rd p b (wr p a v m) = rd p b m"
  by (rule rd_wr_apart) auto

lemma wr_out: "a < unat p + off \<or> unat p + off + 4 \<le> a \<Longrightarrow> wr p off v m a = m a"
  unfolding wr_def by (rule put32_other) auto

text \<open>The objects of a slab: address, and how many there are.\<close>

definition slab_obj :: "u32 \<Rightarrow> u32 \<Rightarrow> nat \<Rightarrow> u32" where
  "slab_obj slab sz k = slab + 20 + of_nat k * sz"

definition slab_total :: "u32 \<Rightarrow> nat" where
  "slab_total sz = 4076 div unat sz"

definition slab_ok :: "u32 \<Rightarrow> u32 \<Rightarrow> bool" where
  "slab_ok slab sz \<longleftrightarrow> unat slab + 4096 \<le> 2 ^ 32 \<and> 4 \<le> unat sz \<and> unat sz \<le> 2048"

lemma slab_total_mult:
  assumes "k < slab_total sz"
  shows "k * unat sz + unat sz \<le> 4076"
proof -
  have "(k + 1) * unat sz \<le> slab_total sz * unat sz" using assms by (intro mult_le_mono1) simp
  also have "\<dots> \<le> 4076" by (simp add: slab_total_def)
  finally show ?thesis by simp
qed

lemma unat_slab_obj:
  assumes ok: "slab_ok slab sz" and k: "k < slab_total sz"
  shows "unat (slab_obj slab sz k) = unat slab + 20 + k * unat sz"
    and "unat slab + 20 + k * unat sz + unat sz \<le> unat slab + 4096"
proof -
  note b = slab_total_mult [OF k]
  have sz: "4 \<le> unat sz" and top: "unat slab + 4096 \<le> 2 ^ 32" using ok by (simp_all add: slab_ok_def)
  have "k * 1 \<le> k * unat sz" using sz by (intro mult_le_mono2) simp
  then have "k \<le> 4076" using b by linarith
  then have "unat (of_nat k :: u32) = k" by (simp add: unat_of_nat)
  then have m: "unat (of_nat k * sz) = k * unat sz" using b by (simp add: unat_word_ariths)
  have "unat slab + 20 + k * unat sz < 2 ^ 32" using b top sz by linarith
  then show "unat (slab_obj slab sz k) = unat slab + 20 + k * unat sz"
    using m by (simp add: slab_obj_def unat_word_ariths)
  show "unat slab + 20 + k * unat sz + unat sz \<le> unat slab + 4096" using b by simp
qed

lemma slab_obj_apart:
  assumes ok: "slab_ok slab sz" and k: "k < slab_total sz" "l < slab_total sz" "k \<noteq> l"
  shows "unat (slab_obj slab sz k) + unat sz \<le> unat (slab_obj slab sz l)
    \<or> unat (slab_obj slab sz l) + unat sz \<le> unat (slab_obj slab sz k)"
proof -
  have "x * unat sz + unat sz \<le> y * unat sz" if "x < y" for x y :: nat
    using mult_le_mono1 [of "x + 1" y "unat sz"] that by simp
  then show ?thesis
    using k unat_slab_obj(1) [OF ok k(1)] unat_slab_obj(1) [OF ok k(2)]
    by (cases k l rule: linorder_cases) (auto simp: add.assoc)
qed

lemma slab_obj_nonzero: "slab_ok slab sz \<Longrightarrow> k < slab_total sz \<Longrightarrow> slab_obj slab sz k \<noteq> 0"
  using unat_slab_obj(1) [of slab sz k] by (metis add_eq_0_iff_both_eq_0 unat_0 zero_neq_numeral)

text \<open>The free list of a slab in memory: the objects with the numbers \<open>ks\<close>, linked in this order.\<close>

fun flist :: "bytes \<Rightarrow> u32 \<Rightarrow> u32 \<Rightarrow> u32 \<Rightarrow> nat list \<Rightarrow> bool" where
  "flist m slab sz p [] \<longleftrightarrow> p = 0"
| "flist m slab sz p (k # ks) \<longleftrightarrow> k < slab_total sz \<and> p = slab_obj slab sz k \<and> flist m slab sz (rd p 0 m) ks"

definition slab_inv :: "u32 \<Rightarrow> u32 \<Rightarrow> nat list \<Rightarrow> bytes \<Rightarrow> bool" where
  "slab_inv slab sz ks m \<longleftrightarrow> slab_ok slab sz \<and> distinct ks \<and> flist m slab sz (rd slab slab_free_list m) ks
     \<and> rd slab slab_free_count m = of_nat (length ks)
     \<and> rd slab slab_total_count m = of_nat (slab_total sz) \<and> rd slab slab_object_size m = sz"

lemma flist_bound: "flist m slab sz p ks \<Longrightarrow> k \<in> set ks \<Longrightarrow> k < slab_total sz"
  by (induction ks arbitrary: p) auto

lemma flist_cong:
  "flist m slab sz p ks \<Longrightarrow> \<forall>k\<in>set ks. rd (slab_obj slab sz k) 0 m' = rd (slab_obj slab sz k) 0 m
     \<Longrightarrow> flist m' slab sz p ks"
  by (induction ks arbitrary: p) auto

lemma rd_obj_wr_hdr:
  assumes "slab_ok slab sz" and "k < slab_total sz" and "off + 4 \<le> 20"
  shows "rd (slab_obj slab sz k) 0 (wr slab off v m) = rd (slab_obj slab sz k) 0 m"
    and "rd slab off (wr (slab_obj slab sz k) 0 v m) = rd slab off m"
  using unat_slab_obj(1) [OF assms(1,2)] assms(3) by (intro rd_wr_apart; simp)+

lemma rd_obj_wr_obj:
  assumes "slab_ok slab sz" and "k < slab_total sz" and "l < slab_total sz" and "k \<noteq> l"
  shows "rd (slab_obj slab sz k) 0 (wr (slab_obj slab sz l) 0 v m) = rd (slab_obj slab sz k) 0 m"
  using slab_obj_apart [OF assms] assms(1) by (intro rd_wr_apart) (auto simp: slab_ok_def)

lemma slab_alloc_inv:
  assumes inv: "slab_inv slab sz (k # ks) m"
  shows "\<exists>m'. slab_alloc slab m = (slab_obj slab sz k, m') \<and> slab_inv slab sz ks m'
    \<and> (\<forall>a. a < unat slab \<or> unat slab + 20 \<le> a \<longrightarrow> m' a = m a)"
proof -
  have ok: "slab_ok slab sz" and fl: "flist m slab sz (rd slab slab_free_list m) (k # ks)" and d: "distinct (k # ks)"
    using inv unfolding slab_inv_def by blast+
  let ?o = "slab_obj slab sz k"
  have o1: "rd slab slab_free_list m = ?o" using fl by simp
  have o: "rd slab slab_free_list m = ?o" "k < slab_total sz" "flist m slab sz (rd ?o 0 m) ks"
    using fl unfolding o1 by simp_all
  define m1 where "m1 = wr slab slab_free_list (rd ?o 0 m) m"
  define m2 where "m2 = wr slab slab_free_count (rd slab slab_free_count m1 - 1) m1"
  have run: "slab_alloc slab m = (?o, m2)"
    using o(1) slab_obj_nonzero [OF ok o(2)] by (simp add: slab_alloc_def m1_def m2_def Let_def)
  have hdr: "rd slab slab_free_list m2 = rd ?o 0 m" "rd slab slab_free_count m2 = rd slab slab_free_count m - 1"
    "rd slab slab_total_count m2 = rd slab slab_total_count m" "rd slab slab_object_size m2 = rd slab slab_object_size m"
    by (simp_all add: m1_def m2_def rd_wr_field slab_offsets)
  have same: "rd (slab_obj slab sz l) 0 m2 = rd (slab_obj slab sz l) 0 m" if "l < slab_total sz" for l
    using rd_obj_wr_hdr(1) [OF ok that] by (simp add: m1_def m2_def slab_offsets)
  have "flist m2 slab sz (rd ?o 0 m) ks"
    by (rule flist_cong [OF o(3)]) (use flist_bound [OF o(3)] same in auto)
  then have "slab_inv slab sz ks m2" using inv d by (simp add: slab_inv_def hdr)
  moreover have "\<forall>a. a < unat slab \<or> unat slab + 20 \<le> a \<longrightarrow> m2 a = m a"
    by (auto simp: m1_def m2_def slab_offsets wr_out)
  ultimately show ?thesis using run by blast
qed

lemma slab_free_inv:
  assumes inv: "slab_inv slab sz ks m" and k: "k < slab_total sz" "k \<notin> set ks"
  shows "slab_inv slab sz (k # ks) (slab_free slab (slab_obj slab sz k) m)"
    and "a < unat slab \<or> unat slab + 20 \<le> a \<Longrightarrow> a < unat (slab_obj slab sz k) \<or> unat (slab_obj slab sz k) + 4 \<le> a
      \<Longrightarrow> slab_free slab (slab_obj slab sz k) m a = m a"
proof -
  have ok: "slab_ok slab sz" and fl: "flist m slab sz (rd slab slab_free_list m) ks"
    using inv by (simp_all add: slab_inv_def)
  let ?o = "slab_obj slab sz k"
  define m1 where "m1 = wr ?o 0 (rd slab slab_free_list m) m"
  define m2 where "m2 = wr slab slab_free_list ?o m1"
  define m3 where "m3 = wr slab slab_free_count (rd slab slab_free_count m2 + 1) m2"
  have m3: "slab_free slab ?o m = m3" by (simp add: slab_free_def m1_def m2_def m3_def Let_def)
  note h = rd_obj_wr_hdr [OF ok k(1)]
  have hdr: "rd slab slab_free_list m3 = ?o" "rd slab slab_free_count m3 = rd slab slab_free_count m + 1"
    "rd slab slab_total_count m3 = rd slab slab_total_count m" "rd slab slab_object_size m3 = rd slab slab_object_size m"
    using h(2) by (simp_all add: m1_def m2_def m3_def rd_wr_field slab_offsets)
  have o: "rd ?o 0 m3 = rd slab slab_free_list m" using h(1) by (simp add: m1_def m2_def m3_def slab_offsets)
  have same: "rd (slab_obj slab sz l) 0 m3 = rd (slab_obj slab sz l) 0 m" if "l < slab_total sz" "l \<noteq> k" for l
    using rd_obj_wr_hdr(1) [OF ok that(1)] rd_obj_wr_obj [OF ok that(1) k(1) that(2)]
    by (simp add: m1_def m2_def m3_def slab_offsets)
  have "flist m3 slab sz (rd slab slab_free_list m) ks"
    by (rule flist_cong [OF fl]) (use flist_bound [OF fl] same k(2) in auto)
  then show "slab_inv slab sz (k # ks) (slab_free slab ?o m)"
    using inv k unfolding m3 by (simp add: slab_inv_def hdr o)
  show "slab_free slab ?o m a = m a"
    if "a < unat slab \<or> unat slab + 20 \<le> a" "a < unat ?o \<or> unat ?o + 4 \<le> a"
    unfolding m3 using that by (auto simp: m1_def m2_def m3_def slab_offsets wr_out)
qed

text \<open>The loop of \<^verbatim>\<open>slab_create\<close> threads the objects; the last one becomes the list head.\<close>

lemma slab_link_loop:
  assumes ok: "slab_ok slab sz" and i: "i \<le> slab_total sz"
  shows "\<exists>m'. for_loop 0 i (slab_link sz) (m, 0, slab + 20)
      = (m', (if i = 0 then 0 else slab_obj slab sz (i - 1)), slab_obj slab sz i)
    \<and> flist m' slab sz (if i = 0 then 0 else slab_obj slab sz (i - 1)) (rev [0..<i])
    \<and> (\<forall>off. off + 4 \<le> 20 \<longrightarrow> rd slab off m' = rd slab off m)
    \<and> (\<forall>a. a < unat slab + 20 \<or> unat slab + 4096 \<le> a \<longrightarrow> m' a = m a)"
  using i
proof (induction i)
  case 0
  then show ?case by (simp add: slab_obj_def)
next
  case (Suc i)
  let ?fl = "if i = 0 then 0 else slab_obj slab sz (i - 1)"
  have i: "i < slab_total sz" using Suc.prems by simp
  obtain m' where m': "for_loop 0 i (slab_link sz) (m, 0, slab + 20) = (m', ?fl, slab_obj slab sz i)"
    "flist m' slab sz ?fl (rev [0..<i])" "\<forall>off. off + 4 \<le> 20 \<longrightarrow> rd slab off m' = rd slab off m"
    "\<forall>a. a < unat slab + 20 \<or> unat slab + 4096 \<le> a \<longrightarrow> m' a = m a"
    using Suc.IH i by (auto simp: less_imp_le)
  let ?o = "slab_obj slab sz i"
  have "?o + sz = slab_obj slab sz (Suc i)" by (simp add: slab_obj_def algebra_simps)
  then have run: "for_loop 0 (Suc i) (slab_link sz) (m, 0, slab + 20) = (wr ?o 0 ?fl m', ?o, slab_obj slab sz (Suc i))"
    using m'(1) by (simp add: slab_link_def)
  have "flist (wr ?o 0 ?fl m') slab sz ?fl (rev [0..<i])"
    by (rule flist_cong [OF m'(2)]) (use i rd_obj_wr_obj [OF ok _ i] in auto)
  then have fl: "flist (wr ?o 0 ?fl m') slab sz ?o (rev [0..<Suc i])" using i by simp
  have u: "unat ?o = unat slab + 20 + i * unat sz" "unat ?o + 4 \<le> unat slab + 4096"
    using unat_slab_obj [OF ok i] ok by (auto simp: slab_ok_def)
  have out: "wr ?o 0 ?fl m' a = m a" if "a < unat slab + 20 \<or> unat slab + 4096 \<le> a" for a
  proof -
    have "wr ?o 0 ?fl m' a = m' a" by (rule wr_out) (use that u in linarith)
    then show ?thesis using m'(4) that by simp
  qed
  have hdr: "rd slab off (wr ?o 0 ?fl m') = rd slab off m" if "off + 4 \<le> 20" for off
    using rd_obj_wr_hdr(2) [OF ok i that] m'(3) that by simp
  show ?case using run fl out hdr by (intro exI [of _ "wr ?o 0 ?fl m'"]) (simp del: upt_Suc)
qed

lemma slab_total_word:
  assumes "slab_ok slab sz"
  shows "(PAGE_SIZE - of_nat sizeof_slab) div sz = of_nat (slab_total sz)" and "unat (of_nat (slab_total sz) :: u32) = slab_total sz"
proof -
  have "slab_total sz \<le> 4076" by (simp add: slab_total_def)
  then show u: "unat (of_nat (slab_total sz) :: u32) = slab_total sz" by (simp add: unat_of_nat)
  show "(PAGE_SIZE - of_nat sizeof_slab) div sz = of_nat (slab_total sz)"
    unfolding word_unat_eq_iff u by (simp add: unat_div PAGE_SIZE_def sizeof_slab_def slab_total_def)
qed

lemma slab_init_inv:
  assumes ok: "slab_ok page sz"
  shows "slab_inv page sz (rev [0..<slab_total sz]) (slab_init page sz m)"
    and "a < unat page \<or> unat page + 4096 \<le> a \<Longrightarrow> slab_init page sz m a = m a"
proof -
  define m1 where "m1 = wr page slab_object_size sz (wr page slab_next 0 m)"
  define m2 where "m2 = wr page slab_total_count (of_nat (slab_total sz)) m1"
  define m3 where "m3 = wr page slab_free_count (of_nat (slab_total sz)) m2"
  let ?n = "slab_total sz"
  let ?fl = "if ?n = 0 then 0 else slab_obj page sz (?n - 1)"
  obtain m4 where m4: "for_loop 0 ?n (slab_link sz) (m3, 0, page + 20) = (m4, ?fl, slab_obj page sz ?n)"
    "flist m4 page sz ?fl (rev [0..<?n])" "\<forall>off. off + 4 \<le> 20 \<longrightarrow> rd page off m4 = rd page off m3"
    "\<forall>a. a < unat page + 20 \<or> unat page + 4096 \<le> a \<longrightarrow> m4 a = m3 a"
    using slab_link_loop [OF ok order_refl, of m3] by blast
  have r3: "rd page slab_total_count m3 = of_nat ?n" by (simp add: m3_def m2_def rd_wr_field slab_offsets)
  have "slab_init page sz m = wr page slab_free_list ?fl m4"
    using m4(1) slab_total_word [OF ok] r3
    by (simp add: slab_init_def m1_def [symmetric] m2_def [symmetric] m3_def [symmetric] sizeof_slab_def Let_def)
  note e = this
  have h4: "rd page slab_free_count m4 = of_nat ?n" "rd page slab_total_count m4 = of_nat ?n" "rd page slab_object_size m4 = sz"
    using m4(3) by (simp_all add: slab_offsets) (simp_all add: m1_def m2_def m3_def rd_wr_field slab_offsets)
  have "flist (wr page slab_free_list ?fl m4) page sz ?fl (rev [0..<?n])"
    by (rule flist_cong [OF m4(2)]) (use rd_obj_wr_hdr(1) [OF ok] in \<open>auto simp: slab_offsets\<close>)
  then show "slab_inv page sz (rev [0..<?n]) (slab_init page sz m)"
    unfolding e slab_inv_def using ok h4 by (simp add: rd_wr_field slab_offsets)
  show "slab_init page sz m a = m a" if "a < unat page \<or> unat page + 4096 \<le> a"
    unfolding e using that m4(4) by (auto simp: wr_out slab_offsets m1_def m2_def m3_def)
qed

text \<open>
  What the caches rely on in a slab: a stack of the free objects.  \<open>stack s xs\<close> says that the state
  holds the free objects \<open>xs\<close>, the next one to be handed out first.
\<close>

locale object_stack =
  fixes pop :: "'s \<Rightarrow> 'o \<times> 's" and push :: "'o \<Rightarrow> 's \<Rightarrow> 's" and stack :: "'s \<Rightarrow> 'o list \<Rightarrow> bool"
    and null :: 'o and valid :: "'o \<Rightarrow> bool"
  assumes pop_empty: "stack s [] \<Longrightarrow> pop s = (null, s)"
    and pop_first: "stack s (x # xs) \<Longrightarrow> \<exists>s'. pop s = (x, s') \<and> stack s' xs"
    and push_first: "stack s xs \<Longrightarrow> valid x \<Longrightarrow> x \<notin> set xs \<Longrightarrow> stack (push x s) (x # xs)"
    and stack_valid: "stack s xs \<Longrightarrow> distinct xs \<and> (\<forall>x\<in>set xs. valid x) \<and> \<not> valid null"
begin

primrec pops :: "nat \<Rightarrow> 's \<Rightarrow> 'o list \<times> 's" where
  "pops 0 s = ([], s)"
| "pops (Suc n) s = (let (x, s1) = pop s; (xs, s2) = pops n s1 in (x # xs, s2))"

lemma pops_take: "stack s xs \<Longrightarrow> n \<le> length xs \<Longrightarrow> \<exists>s'. pops n s = (take n xs, s') \<and> stack s' (drop n xs)"
proof (induction n arbitrary: s xs)
  case (Suc n)
  then obtain x ys where xs: "xs = x # ys" by (cases xs) auto
  obtain s1 where "pop s = (x, s1)" "stack s1 ys" using pop_first Suc.prems(1) xs by blast
  then show ?case using Suc.IH [of s1 ys] Suc.prems(2) xs by auto
qed simp

lemma pop_all: "stack s xs \<Longrightarrow> \<exists>s'. pops (length xs) s = (xs, s') \<and> pop s' = (null, s')"
  using pops_take [of s xs "length xs"] pop_empty by auto

lemma pop_after_push:
  assumes "stack s xs" and "valid x" and "x \<notin> set xs"
  shows "\<exists>s'. pop (push x s) = (x, s') \<and> stack s' xs"
  using pop_first push_first assms by blast

lemma push_popped:
  assumes "stack s (x # xs)" and "pop s = (y, s')"
  shows "stack (push y s') (x # xs)"
  using pop_first [OF assms(1)] stack_valid [OF assms(1)] push_first assms(2) by fastforce

end

definition slab_stack :: "u32 \<Rightarrow> u32 \<Rightarrow> bytes \<Rightarrow> u32 list \<Rightarrow> bool" where
  "slab_stack slab sz m xs \<longleftrightarrow> (\<exists>ks. xs = map (slab_obj slab sz) ks \<and> slab_inv slab sz ks m)"

definition slab_object :: "u32 \<Rightarrow> u32 \<Rightarrow> u32 \<Rightarrow> bool" where
  "slab_object slab sz x \<longleftrightarrow> slab_ok slab sz \<and> x \<in> slab_obj slab sz ` {..<slab_total sz}"

lemma slab_obj_inj:
  "slab_ok slab sz \<Longrightarrow> k < slab_total sz \<Longrightarrow> l < slab_total sz \<Longrightarrow> slab_obj slab sz k = slab_obj slab sz l \<Longrightarrow> k = l"
  using slab_obj_apart [of slab sz k l] by (cases "k = l") (auto simp: slab_ok_def)

lemma slab_stack_distinct: "slab_stack slab sz m xs \<Longrightarrow> distinct xs \<and> set xs \<subseteq> {x. slab_object slab sz x}"
  using flist_bound slab_obj_inj
  by (auto simp: slab_stack_def slab_inv_def slab_object_def distinct_map intro!: inj_onI)

lemma slab_object_apart:
  assumes "slab_object slab sz x" and "slab_object slab sz y" and "x \<noteq> y"
  shows "unat x + unat sz \<le> unat y \<or> unat y + unat sz \<le> unat x"
  using assms slab_obj_apart [of slab sz] unfolding slab_object_def by blast

lemma slab_object_inside:
  assumes "slab_object slab sz x"
  shows "unat slab + 20 \<le> unat x \<and> unat x + unat sz \<le> unat slab + 4096"
  using assms unat_slab_obj [of slab sz] by (auto simp: slab_object_def)

interpretation sl: object_stack "slab_alloc slab" "slab_free slab" "slab_stack slab sz" 0 "slab_object slab sz" for slab sz
proof unfold_locales
  fix m assume "slab_stack slab sz m []"
  then show "slab_alloc slab m = (0, m)" by (simp add: slab_stack_def slab_inv_def slab_alloc_def)
next
  fix m x xs assume "slab_stack slab sz m (x # xs)"
  then show "\<exists>m'. slab_alloc slab m = (x, m') \<and> slab_stack slab sz m' xs"
    using slab_alloc_inv [of slab sz] by (fastforce simp: slab_stack_def)
next
  fix m xs x assume st: "slab_stack slab sz m xs" and x: "slab_object slab sz x" "x \<notin> set xs"
  then obtain k ks where k: "k < slab_total sz" "x = slab_obj slab sz k" "xs = map (slab_obj slab sz) ks" "slab_inv slab sz ks m"
    by (auto simp: slab_stack_def slab_object_def)
  moreover have "k \<notin> set ks" using k x(2) by auto
  ultimately have "slab_inv slab sz (k # ks) (slab_free slab x m)" using slab_free_inv(1) by blast
  then show "slab_stack slab sz (slab_free slab x m) (x # xs)"
    unfolding slab_stack_def using k by (intro exI [of _ "k # ks"]) simp
next
  fix m xs assume "slab_stack slab sz m xs"
  moreover have "\<not> slab_object slab sz 0" using slab_obj_nonzero by (force simp: slab_object_def)
  ultimately show "distinct xs \<and> (\<forall>x\<in>set xs. slab_object slab sz x) \<and> \<not> slab_object slab sz 0"
    using slab_stack_distinct by blast
qed

text \<open>
  C6. A fresh slab hands out every object exactly once.  After \<^verbatim>\<open>slab_create\<close> has laid out a page
  for objects of \<open>sz\<close> bytes, as many \<^verbatim>\<open>slab_alloc\<close> calls as the page has objects return pairwise
  different pointers, each object lies in the page behind the header and no two overlap, and the
  next call returns NULL.  Giving any of the objects back with \<^verbatim>\<open>slab_free\<close> makes exactly that
  object the next one handed out.  Nothing outside the page is written by the layout.
\<close>

theorem slab_hands_out_each_object_once:
  assumes "slab_ok page sz"
  shows "\<exists>xs m'. object_stack.pops (slab_alloc page) (slab_total sz) (slab_init page sz m) = (xs, m')
      \<and> length xs = slab_total sz \<and> distinct xs
      \<and> (\<forall>x\<in>set xs. unat page + 20 \<le> unat x \<and> unat x + unat sz \<le> unat page + 4096)
      \<and> (\<forall>x\<in>set xs. \<forall>y\<in>set xs. x \<noteq> y \<longrightarrow> unat x + unat sz \<le> unat y \<or> unat y + unat sz \<le> unat x)
      \<and> slab_alloc page m' = (0, m')
      \<and> (\<forall>x\<in>set xs. \<exists>m''. slab_alloc page (slab_free page x m') = (x, m'') \<and> slab_alloc page m'' = (0, m''))
      \<and> (\<forall>a. a < unat page \<or> unat page + 4096 \<le> a \<longrightarrow> slab_init page sz m a = m a)"
proof -
  let ?xs = "map (slab_obj page sz) (rev [0..<slab_total sz])"
  have st: "slab_stack page sz (slab_init page sz m) ?xs"
    unfolding slab_stack_def using slab_init_inv(1) [OF assms] by blast
  obtain m' where p: "object_stack.pops (slab_alloc page) (slab_total sz) (slab_init page sz m) = (?xs, m')" and e: "slab_stack page sz m' []"
    using sl.pops_take [OF st, of "slab_total sz"] by auto
  have again: "\<exists>m''. slab_alloc page (slab_free page x m') = (x, m'') \<and> slab_alloc page m'' = (0, m'')" if "x \<in> set ?xs" for x
    using sl.pop_after_push [OF e, of x] sl.stack_valid [OF st] that sl.pop_empty [of page sz] by fastforce
  have obj: "slab_object page sz x" if "x \<in> set ?xs" for x using sl.stack_valid [OF st] that by blast
  have inside: "\<forall>x\<in>set ?xs. unat page + 20 \<le> unat x \<and> unat x + unat sz \<le> unat page + 4096"
    using obj slab_object_inside by blast
  have apart: "\<forall>x\<in>set ?xs. \<forall>y\<in>set ?xs. x \<noteq> y \<longrightarrow> unat x + unat sz \<le> unat y \<or> unat y + unat sz \<le> unat x"
    using obj slab_object_apart by blast
  have "distinct ?xs" and "length ?xs = slab_total sz" using sl.stack_valid [OF st] by simp_all
  then show ?thesis
    using p again sl.pop_empty [OF e] inside apart slab_init_inv(2) [OF assms] by blast
qed

theorem slab_hands_out_each_object_once_witness:
  "\<exists>xs m'. object_stack.pops (slab_alloc 0xD0000000) 127 (slab_init 0xD0000000 32 (\<lambda>_. 0)) = (xs, m')
    \<and> length xs = 127 \<and> distinct xs \<and> slab_alloc 0xD0000000 m' = (0, m')"
proof -
  have ok: "slab_ok 0xD0000000 32" and t: "slab_total 32 = 127" by (simp_all add: slab_ok_def slab_total_def)
  show ?thesis using slab_hands_out_each_object_once [OF ok, of "\<lambda>_. 0"] unfolding t by blast
qed

subsection \<open>Request sizes\<close>

lemma cache_for_size_least:
  assumes "sz \<le> 2048"
  shows "\<exists>c. cache_for_size sz = Some c \<and> c < NUM_SIZE_CLASSES \<and> sz \<le> SIZE_CLASSES ! c \<and> (\<forall>d < c. SIZE_CLASSES ! d < sz)"
proof (cases "cache_for_size sz")
  case None
  then have "\<forall>i. 0 \<le> i \<and> i < NUM_SIZE_CLASSES \<longrightarrow> \<not> sz \<le> SIZE_CLASSES ! i" unfolding cache_for_size_def find_upt_None by simp
  moreover have "8 < NUM_SIZE_CLASSES" by (simp add: NUM_SIZE_CLASSES_def SIZE_CLASSES_def)
  ultimately have "\<not> sz \<le> SIZE_CLASSES ! 8" by blast
  then show ?thesis using assms by (simp add: SIZE_CLASSES_def)
next
  case (Some c)
  then show ?thesis unfolding cache_for_size_def find_upt_Some by (auto simp: linorder_not_le)
qed

lemma large_pages_nat: "unat (large_pages sz) = (4111 + unat sz) mod 2 ^ 32 div 4096"
  by (simp add: large_pages_def sizeof_hdr_def PAGE_SIZE_def unat_div unat_word_ariths)

text \<open>
  C35. The block chosen for a request is big enough.  A request of at most 2048 bytes gets the
  smallest size class that holds it; a larger one gets the least number of whole pages that hold it
  together with its 16 byte header, as long as the rounding sum fits in 32 bits.  From
  4,294,963,185 bytes on the sum wraps around and the request is given at most one page.
\<close>

theorem kmalloc_block_holds_request:
  "(sz \<le> 2048 \<longrightarrow> (\<exists>c. cache_for_size sz = Some c \<and> c < NUM_SIZE_CLASSES \<and> sz \<le> SIZE_CLASSES ! c
        \<and> (\<forall>d < c. SIZE_CLASSES ! d < sz)))
    \<and> (unat sz + 4111 < 2 ^ 32 \<longrightarrow> unat sz + 16 \<le> unat (large_pages sz) * 4096 \<and> unat (large_pages sz) * 4096 < unat sz + 16 + 4096)
    \<and> (2 ^ 32 \<le> unat sz + 4111 \<longrightarrow> unat (large_pages sz) \<le> 1)"
proof (intro conjI impI)
  assume "unat sz + 4111 < 2 ^ 32"
  then have e: "unat (large_pages sz) = (4111 + unat sz) div 4096" by (simp add: large_pages_nat)
  show "unat sz + 16 \<le> unat (large_pages sz) * 4096" and "unat (large_pages sz) * 4096 < unat sz + 16 + 4096"
    unfolding e by linarith+
next
  assume w: "2 ^ 32 \<le> unat sz + 4111"
  have "unat sz < 2 ^ 32" using unsigned_less [of sz] by simp
  then have "(4111 + unat sz) mod 2 ^ 32 \<le> 4110" using w by (simp add: mod_if) linarith
  then have "(4111 + unat sz) mod 2 ^ 32 div 4096 \<le> 4110 div 4096" by (rule div_le_mono)
  then show "unat (large_pages sz) \<le> 1" unfolding large_pages_nat by simp
qed (rule cache_for_size_least)

theorem kmalloc_block_holds_request_witness:
  "(\<exists>c. cache_for_size 100 = Some c \<and> (100::u32) \<le> SIZE_CLASSES ! c) \<and> 5016 \<le> unat (large_pages 5000) * 4096
    \<and> unat (large_pages 0xFFFFFFFF) \<le> 1"
  using kmalloc_block_holds_request [of 100] kmalloc_block_holds_request [of 5000] kmalloc_block_holds_request [of "0xFFFFFFFF"]
  by auto

text \<open>
  \<^verbatim>\<open>kcalloc\<close> never allocates less than was asked for: when the product of the two
  arguments fits in 32 bits the request goes on with that product, and otherwise the call returns
  NULL, counts one failed allocation and changes nothing else.
\<close>

theorem kcalloc_overflow:
  "kcalloc count sz s =
     (if unat count * unat sz < 2 ^ 32 then kzalloc (of_nat (unat count * unat sz)) s
      else Some (0, s\<lparr>stats := (stats s)\<lparr>failed_allocations := failed_allocations (stats s) + 1\<rparr>\<rparr>))"
proof -
  have u: "unat (0xFFFFFFFF div count) = 4294967295 div unat count" by (simp add: unat_div)
  have "count \<noteq> 0 \<and> sz > 0xFFFFFFFF div count \<longleftrightarrow> \<not> unat count * unat sz < 2 ^ 32"
  proof (cases "count = 0")
    case False
    then have "0 < unat count" by (simp add: unat_gt_0)
    then have "4294967295 div unat count < unat sz \<longleftrightarrow> 4294967295 < unat sz * unat count"
      by (simp add: div_less_iff_less_mult)
    then show ?thesis using False u by (auto simp: word_less_nat_alt mult.commute)
  qed simp
  then show ?thesis by (simp add: kcalloc_def)
qed

end
