(* ===== verification/Errno.thy ===== *)
theory Errno
  imports Main
begin

text \<open>
  The error numbers of \<^verbatim>\<open>kernel/include/klib/errno.h\<close> that the modelled functions
  return, negated, as C \<^verbatim>\<open>int\<close>s.
\<close>

definition EPERM :: int where
  "EPERM = 1"

definition ENOENT :: int where
  "ENOENT = 2"

definition ESRCH :: int where
  "ESRCH = 3"

definition EIO :: int where
  "EIO = 5"

definition E2BIG :: int where
  "E2BIG = 7"

definition ENOEXEC :: int where
  "ENOEXEC = 8"

definition EBADF :: int where
  "EBADF = 9"

definition ECHILD :: int where
  "ECHILD = 10"

definition EAGAIN :: int where
  "EAGAIN = 11"

definition ENOMEM :: int where
  "ENOMEM = 12"

definition EFAULT :: int where
  "EFAULT = 14"

definition EBUSY :: int where
  "EBUSY = 16"

definition EEXIST :: int where
  "EEXIST = 17"

definition ENODEV :: int where
  "ENODEV = 19"

definition ENOTDIR :: int where
  "ENOTDIR = 20"

definition EISDIR :: int where
  "EISDIR = 21"

definition EINVAL :: int where
  "EINVAL = 22"

definition EMFILE :: int where
  "EMFILE = 24"

definition ENOTTY :: int where
  "ENOTTY = 25"

definition ENOSPC :: int where
  "ENOSPC = 28"

definition ERANGE :: int where
  "ERANGE = 34"

definition ENAMETOOLONG :: int where
  "ENAMETOOLONG = 91"

definition ENOTEMPTY :: int where
  "ENOTEMPTY = 90"

lemmas errno_defs = EPERM_def ENOENT_def ESRCH_def EIO_def E2BIG_def ENOEXEC_def EBADF_def ECHILD_def EAGAIN_def
  ENOMEM_def EFAULT_def EBUSY_def EEXIST_def ENODEV_def ENOTDIR_def EISDIR_def EINVAL_def EMFILE_def ENOTTY_def
  ENOSPC_def ERANGE_def ENAMETOOLONG_def ENOTEMPTY_def

end
