(* ===== verification/VmSpace.thy ===== *)
theory VmSpace
  imports AddressSpace KHeap Errno
begin

text \<open>
  Address spaces above the page tables: \<^verbatim>\<open>kernel/src/mm/va_allocation.c\<close> (backing a
  region with frames), \<^verbatim>\<open>kernel/src/mm/vmspace.c\<close> (address-space objects, their list of
  memory areas, copies between spaces), \<^verbatim>\<open>kernel/src/mm/uaccess.c\<close>,
  \<^verbatim>\<open>kernel/src/page_fault_handler.c\<close> and \<^verbatim>\<open>kernel/src/mm/sys_sbrk.c\<close>.

  Functions that only touch page tables and frames work on the \<open>machine\<close>; those
  that allocate objects work on the kernel heap \<open>kheap\<close>, which contains it. An
  object is a record that carries the address \<^verbatim>\<open>kmalloc\<close> returned for it. Memory
  that the kernel reaches by a virtual address goes through the page tables of
  the current space, page faults included; \<open>None\<close> means that the kernel panics or
  a call does not return.
\<close>

subsection \<open>Regions\<close>

text \<open>
  The loop of \<^verbatim>\<open>va_alloc_region\<close>: the flag tells whether the whole range was mapped,
  the address is the value of \<^verbatim>\<open>curr\<close> when the loop is left.
\<close>

partial_function (option) va_map_pages :: "u32 \<Rightarrow> u32 \<Rightarrow> u32 \<Rightarrow> u32 \<Rightarrow> machine \<Rightarrow> (bool \<times> u32 \<times> machine) option" where
  "va_map_pages vm cur end' flags s =
     (if cur < end' then
        (case pmm_frame_alloc (mpmm s) of (a, p) \<Rightarrow>
           (let frame = ucast a; s = s\<lparr>mpmm := p\<rparr> in
            if frame = 0 then Some (False, cur, s)
            else do {
              (ok, s) \<leftarrow> hal_vm_map vm cur frame flags s;
              if \<not> ok then do { s \<leftarrow> frame_free frame s; Some (False, cur, s) }
              else va_map_pages vm (cur + PAGE_SIZE) end' flags s }))
      else Some (True, cur, s))"

partial_function (option) va_unmap_pages :: "u32 \<Rightarrow> u32 \<Rightarrow> u32 \<Rightarrow> machine \<Rightarrow> machine option" where
  "va_unmap_pages vm clean cur s =
     (if clean < cur then
        (let p = hal_vm_virt_to_phys s vm clean in
         do { s \<leftarrow> (if p \<noteq> 0 then frame_free p s else Some s);
              (_, s) \<leftarrow> hal_vm_unmap vm clean s;
              va_unmap_pages vm (clean + PAGE_SIZE) cur s })
      else Some s)"

definition va_alloc_region :: "u32 \<Rightarrow> u32 \<Rightarrow> u32 \<Rightarrow> u32 \<Rightarrow> machine \<Rightarrow> (bool \<times> machine) option" where
  "va_alloc_region vm virt_start sz flags s =
     (if vm = 0 \<or> \<not> is_aligned virt_start PAGE_SIZE \<or> \<not> is_aligned sz PAGE_SIZE then None
      else
        (let start = align_down virt_start PAGE_SIZE;
             end' = align_up (virt_start + sz) PAGE_SIZE
         in do {
              (ok, cur, s) \<leftarrow> va_map_pages vm start end' flags s;
              if ok then Some (True, s)
              else do { s \<leftarrow> va_unmap_pages vm start cur s; Some (False, s) } }))"

fun va_free_frames :: "u32 \<Rightarrow> u32 \<Rightarrow> nat \<Rightarrow> nat \<Rightarrow> machine \<Rightarrow> machine option" where
  "va_free_frames vm virt_start i 0 s = Some s"
| "va_free_frames vm virt_start i (Suc n) s =
     (let va = virt_start + of_nat i * PAGE_SIZE; frame = hal_vm_virt_to_phys s vm va in
      do { s \<leftarrow> (if frame \<noteq> 0 then frame_free frame s else Some s);
           va_free_frames vm virt_start (i + 1) n s })"

definition va_free_region :: "u32 \<Rightarrow> u32 \<Rightarrow> u32 \<Rightarrow> machine \<Rightarrow> machine option" where
  "va_free_region vm virt_start sz s =
     (if vm = 0 \<or> \<not> is_aligned virt_start PAGE_SIZE \<or> \<not> is_aligned sz PAGE_SIZE then None
      else
        (let sz = align_up sz PAGE_SIZE; pages = unat (sz div PAGE_SIZE) in
         do { s \<leftarrow> va_free_frames vm virt_start 0 pages s;
              (_, s) \<leftarrow> hal_vm_unmap_range vm virt_start sz s;
              Some s }))"

subsection \<open>Memory areas\<close>

definition VMA_READ :: u32 where
  "VMA_READ = 0x1"

definition VMA_WRITE :: u32 where
  "VMA_WRITE = 0x2"

definition VMA_EXECUTE :: u32 where
  "VMA_EXECUTE = 0x4"

definition VMA_USER :: u32 where
  "VMA_USER = 0x8"

definition VMA_STACK :: u32 where
  "VMA_STACK = 0x10"

definition VMA_HEAP :: u32 where
  "VMA_HEAP = 0x80"

lemmas vma_flags_defs = VMA_READ_def VMA_WRITE_def VMA_EXECUTE_def VMA_USER_def VMA_STACK_def VMA_HEAP_def

abbreviation PAGE_PRESENT :: u32 where
  "PAGE_PRESENT \<equiv> 0x1"

abbreviation PAGE_READWRITE :: u32 where
  "PAGE_READWRITE \<equiv> 0x2"

abbreviation PAGE_USER :: u32 where
  "PAGE_USER \<equiv> 0x4"

record vma_t =
  vma_ptr :: u32
  vma_start :: u32
  vma_end :: u32
  vma_flags :: u32

text \<open>
  An address-space object: its address, the address of its \<^verbatim>\<open>arch_vm_t\<close>, the page
  directory stored there, and the linked list of areas from its head on.
\<close>

record vmspace_t =
  vm_ptr :: u32
  arch_ptr :: u32
  arch :: u32
  vma_list :: "vma_t list"

abbreviation in_vma :: "u32 \<Rightarrow> vma_t \<Rightarrow> bool" where
  "in_vma addr v \<equiv> addr \<ge> vma_start v \<and> addr < vma_end v"

definition vmspace_find_vma :: "vmspace_t \<Rightarrow> u32 \<Rightarrow> vma_t option" where
  "vmspace_find_vma vm addr = List.find (in_vma addr) (vma_list vm)"

definition vmspace_add_vma :: "vma_t \<Rightarrow> vmspace_t \<Rightarrow> vmspace_t" where
  "vmspace_add_vma v vm = vm\<lparr>vma_list := v # vma_list vm\<rparr>"

definition vma_create :: "u32 \<Rightarrow> u32 \<Rightarrow> u32 \<Rightarrow> kheap \<Rightarrow> (vma_t option \<times> kheap) option" where
  "vma_create va_start mem_size flags s =
     do { (p, s) \<leftarrow> kmalloc 16 s;
          if p = 0 then Some (None, s)
          else Some (Some \<lparr>vma_ptr = p, vma_start = va_start, vma_end = va_start + mem_size, vma_flags = flags\<rparr>, s) }"

subsection \<open>Page faults\<close>

definition PF_ERR_PRESENT :: u32 where
  "PF_ERR_PRESENT = 0x1"

definition PF_ERR_WRITE :: u32 where
  "PF_ERR_WRITE = 0x2"

definition pf_page_flags :: "u32 \<Rightarrow> u32" where
  "pf_page_flags flags =
     (let page_flags = 0;
          page_flags = (if flags AND VMA_READ \<noteq> 0 then page_flags OR PAGE_PRESENT else page_flags);
          page_flags = (if flags AND VMA_WRITE \<noteq> 0 then page_flags OR PAGE_READWRITE else page_flags);
          page_flags = (if flags AND VMA_USER \<noteq> 0 then page_flags OR PAGE_USER else page_flags)
      in page_flags)"

definition pf_handle :: "vmspace_t \<Rightarrow> u32 \<Rightarrow> u32 \<Rightarrow> machine \<Rightarrow> machine option" where
  "pf_handle curr_vm err addr s =
     (case vmspace_find_vma curr_vm addr of
        None \<Rightarrow> None
      | Some addr_vma \<Rightarrow>
          if err AND PF_ERR_WRITE \<noteq> 0 \<and> vma_flags addr_vma AND VMA_WRITE = 0 then None
          else do {
            (cow, s) \<leftarrow> hal_vmm_handle_cow (arch curr_vm) addr s;
            if cow then Some s
            else if err AND PF_ERR_PRESENT = 0 then do {
              (ok, s) \<leftarrow> va_alloc_region (arch curr_vm) (addr AND NOT 0xFFF) PAGE_SIZE (pf_page_flags (vma_flags addr_vma)) s;
              if ok then Some s else None }
            else None })"

text \<open>
  A kernel-mode access of the processor with the write-protect bit set, as
  \<^verbatim>\<open>bringup\<close> sets it: the error code of the fault it raises, \<open>None\<close> when it raises none.
\<close>

definition mmu_fault :: "machine \<Rightarrow> u32 \<Rightarrow> bool \<Rightarrow> u32 \<Rightarrow> u32 option" where
  "mmu_fault s pd wr' va =
     (let pde = entry s pd (get_pd_index va); w = (if wr' then PF_ERR_WRITE else 0) in
      if \<not> present pde then Some w
      else
        (let e = entry s (page_of pde) (get_pt_index va) in
         if \<not> present e then Some w
         else if wr' \<and> (pde AND ARCH_PD_PT_READWRITE = 0 \<or> e AND ARCH_PD_PT_READWRITE = 0)
         then Some (w OR PF_ERR_PRESENT)
         else None))"

text \<open>The access is retried after each fault the handler returns from.\<close>

partial_function (option) mem_access :: "vmspace_t \<Rightarrow> bool \<Rightarrow> u32 \<Rightarrow> machine \<Rightarrow> machine option" where
  "mem_access vm wr' va s =
     (case mmu_fault s (arch vm) wr' va of
        None \<Rightarrow> Some s
      | Some err \<Rightarrow> do { s \<leftarrow> pf_handle vm err va s; mem_access vm wr' va s })"

text \<open>\<^verbatim>\<open>memcpy\<close> between virtual addresses of the current space.\<close>

fun virt_copy :: "vmspace_t \<Rightarrow> u32 \<Rightarrow> u32 \<Rightarrow> nat \<Rightarrow> machine \<Rightarrow> machine option" where
  "virt_copy vm dst src 0 s = Some s"
| "virt_copy vm dst src (Suc n) s =
     do { s \<leftarrow> mem_access vm False src s;
          let b = phys s (unat (hal_vm_virt_to_phys s (arch vm) src));
          s \<leftarrow> mem_access vm True dst s;
          let s = s\<lparr>phys := (phys s)(unat (hal_vm_virt_to_phys s (arch vm) dst) := b)\<rparr>;
          virt_copy vm (dst + 1) (src + 1) n s }"

subsection \<open>Copies between address spaces\<close>

definition KMAPPING_BASE :: u32 where
  "KMAPPING_BASE = 0xF0001000"

definition chunk_size :: "u32 \<Rightarrow> u32 \<Rightarrow> u32" where
  "chunk_size va remaining =
     (let to_copy = PAGE_SIZE - va mod PAGE_SIZE in if to_copy > remaining then remaining else to_copy)"

partial_function (option) copy_from_loop :: "vmspace_t \<Rightarrow> u32 \<Rightarrow> u32 \<Rightarrow> u32 \<Rightarrow> u32 \<Rightarrow> machine \<Rightarrow> (int \<times> machine) option" where
  "copy_from_loop cur src_vm dst_vaddr src_vaddr remaining s =
     (if remaining > 0 then
        (let page_base = src_vaddr AND NOT (PAGE_SIZE - 1);
             offset = src_vaddr mod PAGE_SIZE;
             to_copy = chunk_size src_vaddr remaining;
             src_phys = hal_vm_virt_to_phys s src_vm page_base
         in if src_phys = 0 then Some (- EFAULT, s)
            else do {
              (_, s) \<leftarrow> hal_vm_map (arch cur) KMAPPING_BASE src_phys PAGE_READWRITE s;
              s \<leftarrow> virt_copy cur dst_vaddr (KMAPPING_BASE + offset) (unat to_copy) s;
              (_, s) \<leftarrow> hal_vm_unmap (arch cur) KMAPPING_BASE s;
              copy_from_loop cur src_vm (dst_vaddr + to_copy) (src_vaddr + to_copy) (remaining - to_copy) s })
      else Some (0, s))"

definition vmspace_copy_from :: "vmspace_t \<Rightarrow> u32 \<Rightarrow> u32 \<Rightarrow> u32 \<Rightarrow> u32 \<Rightarrow> machine \<Rightarrow> (int \<times> machine) option" where
  "vmspace_copy_from cur src_vm dst_vaddr src_vaddr sz s =
     (if src_vm = 0 then Some (- EINVAL, s) else copy_from_loop cur src_vm dst_vaddr src_vaddr sz s)"

partial_function (option) copy_to_loop :: "vmspace_t \<Rightarrow> u32 \<Rightarrow> u32 \<Rightarrow> u32 \<Rightarrow> u32 \<Rightarrow> machine \<Rightarrow> (int \<times> machine) option" where
  "copy_to_loop cur dst_vm dst_vaddr src_vaddr remaining s =
     (if remaining > 0 then
        (let page_base = dst_vaddr AND NOT (PAGE_SIZE - 1);
             offset = dst_vaddr mod PAGE_SIZE;
             to_copy = chunk_size dst_vaddr remaining;
             dst_phys = hal_vm_virt_to_phys s dst_vm page_base
         in if dst_phys = 0 then Some (- EFAULT, s)
            else do {
              (_, s) \<leftarrow> hal_vm_map (arch cur) KMAPPING_BASE dst_phys PAGE_READWRITE s;
              s \<leftarrow> virt_copy cur (KMAPPING_BASE + offset) src_vaddr (unat to_copy) s;
              (_, s) \<leftarrow> hal_vm_unmap (arch cur) KMAPPING_BASE s;
              copy_to_loop cur dst_vm (dst_vaddr + to_copy) (src_vaddr + to_copy) (remaining - to_copy) s })
      else Some (0, s))"

definition vmspace_copy_to :: "vmspace_t \<Rightarrow> u32 \<Rightarrow> u32 \<Rightarrow> u32 \<Rightarrow> u32 \<Rightarrow> machine \<Rightarrow> (int \<times> machine) option" where
  "vmspace_copy_to cur dst_vm dst_vaddr src_vaddr sz s =
     (if dst_vm = 0 then Some (- EINVAL, s) else copy_to_loop cur dst_vm dst_vaddr src_vaddr sz s)"

definition uaccess_copy_to_user :: "vmspace_t \<Rightarrow> u32 \<Rightarrow> u32 \<Rightarrow> u32 \<Rightarrow> machine \<Rightarrow> (int \<times> machine) option" where
  "uaccess_copy_to_user cur user_dst kernel_src sz s = vmspace_copy_to cur (arch cur) user_dst kernel_src sz s"

definition uaccess_copy_from_user :: "vmspace_t \<Rightarrow> u32 \<Rightarrow> u32 \<Rightarrow> u32 \<Rightarrow> machine \<Rightarrow> (int \<times> machine) option" where
  "uaccess_copy_from_user cur kernel_dst user_src sz s = vmspace_copy_from cur (arch cur) kernel_dst user_src sz s"

subsection \<open>Address-space objects\<close>

definition VGA_SCREEN_BUF_PHYS :: u32 where
  "VGA_SCREEN_BUF_PHYS = 0xB8000"

definition kernel_vmspace_create :: "vmspace_t \<Rightarrow> range_t \<Rightarrow> machine \<Rightarrow> (vmspace_t \<times> machine) option" where
  "kernel_vmspace_create vmspace memory s =
     (case hal_vm_empty_arch_vm_create s of (_, pd, s) \<Rightarrow>
        (let vmspace = vmspace\<lparr>arch := pd, vma_list := []\<rparr> in
         do { (_, s) \<leftarrow> hal_vm_map_range pd (range_start memory) (range_start memory + KERNEL_BASE) (range_end memory - range_start memory) PAGE_READWRITE s;
              (_, s) \<leftarrow> hal_vm_map pd (KERNEL_BASE + VGA_SCREEN_BUF_PHYS) VGA_SCREEN_BUF_PHYS PAGE_READWRITE s;
              Some (vmspace, s) }))"

text \<open>
  The kernel's own space is the one the heap maps its pages in (\<^const>\<open>kernel_arch_vm\<close>).
  \<^verbatim>\<open>vmspace_create\<close> does not test the second \<^verbatim>\<open>kmalloc\<close>; a NULL result is then written
  through.
\<close>

definition vmspace_create :: "kheap \<Rightarrow> (vmspace_t option \<times> kheap) option" where
  "vmspace_create s =
     do { (p, s) \<leftarrow> kmalloc 8 s;
          if p = 0 then Some (None, s)
          else do {
            (a, s) \<leftarrow> kmalloc 8 s;
            if a = 0 then None
            else case hal_vm_empty_arch_vm_create (hmach s) of (res, pd, m) \<Rightarrow>
              (let s = s\<lparr>hmach := m\<rparr> in
               if \<not> res then do { s \<leftarrow> kfree a s; s \<leftarrow> kfree p s; Some (None, s) }
               else
                 (let s = s\<lparr>hmach := hal_vm_arch_clone_mapping pd (kernel_arch_vm s) (hmach s)\<rparr>
                  in Some (Some \<lparr>vm_ptr = p, arch_ptr = a, arch = pd, vma_list = []\<rparr>, s))) } }"

text \<open>
  The list loop of \<^verbatim>\<open>vmspace_clone\<close>: the new list, and whether \<^verbatim>\<open>prev_new_vma\<close> points at its
  last element (it is NULL at the start and after a failed \<^verbatim>\<open>vma_create\<close>).
\<close>

fun clone_vmas :: "vma_t list \<Rightarrow> vma_t list \<Rightarrow> bool \<Rightarrow> kheap \<Rightarrow> (vma_t list \<times> kheap) option" where
  "clone_vmas [] new prev s = Some (new, s)"
| "clone_vmas (v # vs) new prev s =
     do { (new_vma, s) \<leftarrow> vma_create (vma_start v) (vma_end v - vma_start v) (vma_flags v) s;
          (case new_vma of
             Some n \<Rightarrow> clone_vmas vs (if prev then new @ [n] else [n]) True s
           | None \<Rightarrow> clone_vmas vs (if prev then new else []) False s) }"

definition vmspace_clone :: "vmspace_t \<Rightarrow> kheap \<Rightarrow> (vmspace_t \<times> kheap) option" where
  "vmspace_clone original s =
     do { (c, s) \<leftarrow> vmspace_create s;
          (case c of
             None \<Rightarrow> None
           | Some c \<Rightarrow>
               do { (vs, s) \<leftarrow> clone_vmas (vma_list original) [] False s;
                    let s = s\<lparr>hmach := hal_vm_arch_clone (arch c) (arch original) (hmach s)\<rparr>;
                    Some (c\<lparr>vma_list := vs\<rparr>, s) }) }"

fun free_vmas :: "vma_t list \<Rightarrow> kheap \<Rightarrow> kheap option" where
  "free_vmas [] s = Some s"
| "free_vmas (v # vs) s = do { s \<leftarrow> kfree (vma_ptr v) s; free_vmas vs s }"

definition vmspace_destroy :: "vmspace_t \<Rightarrow> kheap \<Rightarrow> kheap option" where
  "vmspace_destroy vm s =
     (if arch vm = kernel_arch_vm s then Some s
      else do {
        s \<leftarrow> free_vmas (vma_list vm) s;
        m \<leftarrow> hal_vm_arch_destroy (arch vm) (hmach s);
        s \<leftarrow> kfree (arch_ptr vm) (s\<lparr>hmach := m\<rparr>);
        kfree (vm_ptr vm) s })"

definition vm_back_region :: "vmspace_t \<Rightarrow> u32 \<Rightarrow> u32 \<Rightarrow> kheap \<Rightarrow> (bool \<times> kheap) option" where
  "vm_back_region vm start sz s =
     map_option (\<lambda>(ok, m). (ok, s\<lparr>hmach := m\<rparr>))
       (va_alloc_region (arch vm) start sz (PAGE_PRESENT OR PAGE_READWRITE OR PAGE_USER) (hmach s))"

definition vmspace_map_stack :: "vmspace_t \<Rightarrow> u32 \<Rightarrow> u32 \<Rightarrow> kheap \<Rightarrow> (bool \<times> vmspace_t \<times> kheap) option" where
  "vmspace_map_stack vm stack_top sz s =
     (if \<not> is_aligned stack_top PAGE_SIZE \<or> \<not> is_aligned sz PAGE_SIZE then None
      else
        (let stack_start = stack_top - sz in
         do { (v, s) \<leftarrow> vma_create stack_start sz (VMA_READ OR VMA_WRITE OR VMA_USER OR VMA_STACK) s;
              (case v of
                 None \<Rightarrow> Some (False, vm, s)
               | Some v \<Rightarrow>
                   do { let vm = vmspace_add_vma v vm;
                        (ok, s) \<leftarrow> vm_back_region vm stack_start sz s;
                        Some (ok, vm, s) }) }))"

definition vmspace_map_heap :: "vmspace_t \<Rightarrow> u32 \<Rightarrow> u32 \<Rightarrow> kheap \<Rightarrow> (bool \<times> vmspace_t \<times> kheap) option" where
  "vmspace_map_heap vm heap_start initial_size s =
     (if \<not> is_aligned heap_start PAGE_SIZE \<or> \<not> is_aligned initial_size PAGE_SIZE then None
      else
        do { (v, s) \<leftarrow> vma_create heap_start initial_size (VMA_READ OR VMA_WRITE OR VMA_USER OR VMA_HEAP) s;
             (case v of
                None \<Rightarrow> Some (False, vm, s)
              | Some v \<Rightarrow>
                  do { let vm = vmspace_add_vma v vm;
                       (ok, s) \<leftarrow> vm_back_region vm heap_start initial_size s;
                       Some (ok, vm, s) }) })"

text \<open>The walk to the heap area: its position in the list.\<close>

definition find_heap_vma :: "vma_t list \<Rightarrow> nat option" where
  "find_heap_vma vs = List.find (\<lambda>i. vma_flags (vs ! i) AND VMA_HEAP \<noteq> 0) [0..<length vs]"

definition vmspace_extend_heap :: "vmspace_t \<Rightarrow> u32 \<Rightarrow> u32 \<Rightarrow> machine \<Rightarrow> (bool \<times> vmspace_t \<times> machine) option" where
  "vmspace_extend_heap vm old_brk new_brk s =
     (if \<not> is_aligned old_brk PAGE_SIZE \<or> \<not> is_aligned new_brk PAGE_SIZE then None
      else if new_brk \<le> old_brk then Some (True, vm, s)
      else
        (case find_heap_vma (vma_list vm) of
           None \<Rightarrow> Some (False, vm, s)
         | Some i \<Rightarrow>
             do { (ok, s) \<leftarrow> va_alloc_region (arch vm) old_brk (new_brk - old_brk) (PAGE_PRESENT OR PAGE_READWRITE OR PAGE_USER) s;
                  if \<not> ok then Some (False, vm, s)
                  else Some (True, vm\<lparr>vma_list := (vma_list vm)[i := (vma_list vm ! i)\<lparr>vma_end := new_brk\<rparr>]\<rparr>, s) }))"

text \<open>\<^verbatim>\<open>sys_sbrk\<close> on the break and the address space of the calling process: the result and both after it.\<close>

definition sys_sbrk :: "u32 \<Rightarrow> u32 \<Rightarrow> vmspace_t \<Rightarrow> machine \<Rightarrow> (u32 \<times> u32 \<times> vmspace_t \<times> machine) option" where
  "sys_sbrk increment brk vm s =
     (let old_brk = brk in
      if increment = 0 then Some (old_brk, brk, vm, s)
      else
        (let new_brk = old_brk + increment;
             old_brk_aligned = align_up old_brk PAGE_SIZE;
             new_brk_aligned = align_up new_brk PAGE_SIZE
         in if new_brk_aligned > old_brk_aligned
            then do {
              (ok, vm, s) \<leftarrow> vmspace_extend_heap vm old_brk_aligned new_brk_aligned s;
              if \<not> ok then Some (- 1, brk, vm, s) else Some (old_brk, new_brk, vm, s) }
            else Some (old_brk, new_brk, vm, s)))"

end
