(* ===== verification/VmSpaceProps.thy ===== *)
theory VmSpaceProps
  imports VmSpace
begin

text \<open>
  What the functions of theory \<open>VmSpace\<close> do to an address space: regions are backed by
  fresh frames or left unmapped, the break moves with the pages behind it, faults
  outside the memory areas never return, and copies into another space.
\<close>

subsection \<open>Backing a region\<close>

lemma map_page_upd:
  assumes "vm_wf s pd" and "is_aligned va 4096" and "is_aligned pa 4096" and "unat va + 4096 < 2 ^ 32"
  shows "\<exists>ok s'. hal_vm_map pd va pa fl s = Some (ok, s')
    \<and> vm_upd pd s (\<lambda>q. if ok \<and> q = vpage va then pa OR (public_flags_to_arch_flags fl AND 0xFFF) OR ARCH_PD_PT_PRESENT
        else pte s pd q) s'"
proof -
  have sz: "is_aligned PAGE_SIZE 4096" "unat PAGE_SIZE = 4096" by (simp_all add: PAGE_SIZE_def aligned_4096)
  obtain ok s' k where r: "hal_vm_map_range pd pa va PAGE_SIZE fl s = Some (ok, s')"
    "vm_upd pd s (map_pages (vpage va) k pa (public_flags_to_arch_flags fl) (pte s pd)) s'" "k \<le> 1" "ok \<longleftrightarrow> k = 1"
    using map_range_upd [OF assms(1-3) sz(1), of fl] assms(4) sz(2) by auto
  moreover have "map_pages (vpage va) k pa (public_flags_to_arch_flags fl) (pte s pd) q
      = (if ok \<and> q = vpage va then pa OR (public_flags_to_arch_flags fl AND 0xFFF) OR ARCH_PD_PT_PRESENT else pte s pd q)" for q
    using r(3,4) by (auto simp: map_pages_def le_Suc_eq)
  ultimately show ?thesis using vm_upd_cong [OF r(2)] by (auto simp: hal_vm_map_def)
qed

text \<open>The pages from \<open>p0\<close> on backed by the frames \<open>fs\<close>.\<close>

definition back_pages :: "nat \<Rightarrow> u32 list \<Rightarrow> u32 \<Rightarrow> (nat \<Rightarrow> u32) \<Rightarrow> nat \<Rightarrow> u32" where
  "back_pages p0 fs fl f q =
     (if p0 \<le> q \<and> q < p0 + length fs then (fs ! (q - p0)) OR (fl AND 0xFFF) OR ARCH_PD_PT_PRESENT else f q)"

lemma back_pages_Nil [simp]: "back_pages p0 [] fl f = f"
  by (auto simp: back_pages_def fun_eq_iff)

lemma back_pages_Cons:
  "back_pages (p0 + 1) fs fl (\<lambda>q. if q = p0 then a OR (fl AND 0xFFF) OR ARCH_PD_PT_PRESENT else f q) q = back_pages p0 (a # fs) fl f q"
proof (cases "q \<le> p0")
  case False
  then obtain d where "q = p0 + 1 + d" by (metis less_eq_Suc_le not_le le_Suc_ex Suc_eq_plus1)
  then show ?thesis by (simp add: back_pages_def)
qed (auto simp: back_pages_def)

text \<open>What a run of the loop has done after mapping the frames \<open>fs\<close>.\<close>

definition backed :: "u32 \<Rightarrow> nat \<Rightarrow> u32 list \<Rightarrow> u32 \<Rightarrow> machine \<Rightarrow> machine \<Rightarrow> bool" where
  "backed vm p0 fs fl s s' \<longleftrightarrow> vm_wf s' vm \<and> (\<forall>q < 2 ^ 20. pte s' vm q = back_pages p0 fs fl (pte s vm) q)
     \<and> distinct fs \<and> set fs \<inter> owned_frames (mpmm s) = {} \<and> set fs \<subseteq> owned_frames (mpmm s') - paging_frames s' vm
     \<and> (\<forall>a\<in>set fs. is_aligned a 4096 \<and> a \<noteq> 0)
     \<and> owned_frames (mpmm s) \<subseteq> owned_frames (mpmm s')
     \<and> paging_frames s' vm \<inter> owned_frames (mpmm s) \<subseteq> paging_frames s vm
     \<and> (\<forall>a \<in> owned_frames (mpmm s) - paging_frames s vm. is_aligned a 4096 \<longrightarrow>
          (\<forall>k < 4096. phys s' (unat a + k) = phys s (unat a + k)))"

lemma backed_Nil: "vm_wf s vm \<Longrightarrow> backed vm p0 [] fl s s"
  by (simp add: backed_def)

lemma backed_Cons:
  assumes "backed vm p0 [a] fl s t" and "backed vm (p0 + 1) fs fl t u"
  shows "backed vm p0 (a # fs) fl s u"
proof -
  have st: "owned_frames (mpmm s) \<subseteq> owned_frames (mpmm t)" "paging_frames t vm \<inter> owned_frames (mpmm s) \<subseteq> paging_frames s vm"
    using assms(1) by (simp_all add: backed_def)
  have tu: "owned_frames (mpmm t) \<subseteq> owned_frames (mpmm u)" "paging_frames u vm \<inter> owned_frames (mpmm t) \<subseteq> paging_frames t vm"
    "set fs \<inter> owned_frames (mpmm t) = {}" "set fs \<subseteq> owned_frames (mpmm u) - paging_frames u vm"
    using assms(2) by (simp_all add: backed_def)
  have sub: "owned_frames (mpmm s) - paging_frames s vm \<subseteq> owned_frames (mpmm t) - paging_frames t vm" using st by blast
  have a: "a \<in> owned_frames (mpmm t) - paging_frames t vm" "a \<notin> owned_frames (mpmm s)" "is_aligned a 4096 \<and> a \<noteq> 0"
    using assms(1) by (simp_all add: backed_def)
  have au: "a \<in> owned_frames (mpmm u) - paging_frames u vm" using a(1) tu(1,2) by blast
  have pt: "pte u vm q = back_pages p0 (a # fs) fl (pte s vm) q" if "q < 2 ^ 20" for q
  proof -
    have "pte t vm q = (if q = p0 then a OR (fl AND 0xFFF) OR ARCH_PD_PT_PRESENT else pte s vm q)" if "q < 2 ^ 20" for q
      using assms(1) that by (auto simp: backed_def back_pages_def)
    then have "back_pages (p0 + 1) fs fl (pte t vm) q
        = back_pages (p0 + 1) fs fl (\<lambda>q. if q = p0 then a OR (fl AND 0xFFF) OR ARCH_PD_PT_PRESENT else pte s vm q) q"
      using that by (simp add: back_pages_def)
    then show ?thesis using assms(2) that back_pages_Cons [of p0 fs fl a "pte s vm" q] by (simp add: backed_def)
  qed
  have ph: "phys u (unat b + k) = phys s (unat b + k)"
    if "b \<in> owned_frames (mpmm s) - paging_frames s vm" "is_aligned b 4096" "k < 4096" for b k
  proof -
    have "phys t (unat b + k) = phys s (unat b + k)" using that assms(1) by (simp add: backed_def)
    moreover have "b \<in> owned_frames (mpmm t) - paging_frames t vm" using that(1) sub by blast
    then have "phys u (unat b + k) = phys t (unat b + k)" using that assms(2) by (simp add: backed_def)
    ultimately show ?thesis by simp
  qed
  have "set fs \<inter> owned_frames (mpmm s) = {}" "a \<notin> set fs" "owned_frames (mpmm s) \<subseteq> owned_frames (mpmm u)"
    "paging_frames u vm \<inter> owned_frames (mpmm s) \<subseteq> paging_frames s vm"
    using a(1) st tu by blast+
  moreover have "vm_wf u vm" "distinct fs" "\<forall>a\<in>set fs. is_aligned a 4096 \<and> a \<noteq> 0" using assms(2) by (simp_all add: backed_def)
  ultimately show ?thesis using pt ph a(2,3) au tu(4) unfolding backed_def by simp
qed

text \<open>One round of the loop.\<close>

lemma vm_wf_alloc:
  assumes wf: "vm_wf s vm" and al: "pmm_frame_alloc (mpmm s) = (a, p)" and nz: "a \<noteq> 0"
  shows "vm_wf (s\<lparr>mpmm := p\<rparr>) vm" and "owned_frames p = insert (ucast a) (owned_frames (mpmm s))"
    and "ucast a \<notin> owned_frames (mpmm s)" and "is_aligned (ucast a :: u32) 4096" and "(ucast a :: u32) \<noteq> 0"
    and "paging_frames (s\<lparr>mpmm := p\<rparr>) vm = paging_frames s vm"
proof -
  have ok: "pmm_wf (mpmm s) \<and> pmm_inv (mpmm s)" using wf by (simp add: vm_wf_def)
  show f: "owned_frames p = insert (ucast a) (owned_frames (mpmm s))"
    "ucast a \<notin> owned_frames (mpmm s)" "is_aligned (ucast a :: u32) 4096" "(ucast a :: u32) \<noteq> 0"
    using pm.alloc_some [OF ok] al nz by simp_all
  show fr: "paging_frames (s\<lparr>mpmm := p\<rparr>) vm = paging_frames s vm" by (simp add: paging_frames_def)
  show "vm_wf (s\<lparr>mpmm := p\<rparr>) vm"
    using wf pm.alloc_ok [OF ok] f(1) unfolding vm_wf_def fr by (auto simp: al)
qed

lemma pte_mpmm [simp]: "pte (s\<lparr>mpmm := p\<rparr>) vm q = pte s vm q"
  by (simp add: pte_def)

lemma back_one:
  assumes wf: "vm_wf s vm" and al: "pmm_frame_alloc (mpmm s) = (a, p)" and nz: "a \<noteq> 0"
    and cur: "is_aligned cur 4096" "unat cur + 4096 < 2 ^ 32"
  shows "\<exists>ok t. hal_vm_map vm cur (ucast a) flags (s\<lparr>mpmm := p\<rparr>) = Some (ok, t)
    \<and> (if ok then backed vm (vpage cur) [ucast a] (public_flags_to_arch_flags flags) s t
       else \<exists>t'. frame_free (ucast a) t = Some t' \<and> backed vm (vpage cur) [] (public_flags_to_arch_flags flags) s t')"
proof -
  note w = vm_wf_alloc [OF wf al nz]
  obtain ok t where t: "hal_vm_map vm cur (ucast a) flags (s\<lparr>mpmm := p\<rparr>) = Some (ok, t)"
    "vm_upd vm (s\<lparr>mpmm := p\<rparr>) (\<lambda>q. if ok \<and> q = vpage cur
        then ucast a OR (public_flags_to_arch_flags flags AND 0xFFF) OR ARCH_PD_PT_PRESENT else pte s vm q) t"
    using map_page_upd [OF w(1) cur(1) w(4) cur(2), of flags] unfolding pte_mpmm by blast
  have wft: "vm_wf t vm" and own: "insert (ucast a) (owned_frames (mpmm s)) \<subseteq> owned_frames (mpmm t)"
    and pf: "paging_frames t vm \<inter> insert (ucast a) (owned_frames (mpmm s)) \<subseteq> paging_frames s vm"
    and ph: "\<forall>b \<in> insert (ucast a) (owned_frames (mpmm s)) - paging_frames s vm. is_aligned b 4096 \<longrightarrow>
          (\<forall>k < 4096. phys t (unat b + k) = phys s (unat b + k))"
    using t(2) by (simp_all add: vm_upd_def w(2,6))
  have na: "ucast a \<notin> paging_frames s vm" using wf w(3) by (auto simp: vm_wf_def)
  show ?thesis
  proof (cases ok)
    case True
    then have "backed vm (vpage cur) [ucast a] (public_flags_to_arch_flags flags) s t"
      using t(2) wft own pf ph na w by (auto simp: backed_def vm_upd_def back_pages_def)
    then show ?thesis using t(1) True by auto
  next
    case False
    have okt: "pmm_wf (mpmm t) \<and> pmm_inv (mpmm t)" using wft by (simp add: vm_wf_def)
    obtain p' where p': "pmm_frame_free (ucast a) (mpmm t) = Some p'" "pmm_wf p' \<and> pmm_inv p'"
      using pm.free_ok [OF okt] by blast
    note fo = pm.free_owned [OF okt p'(1)]
    have nt: "ucast a \<notin> paging_frames t vm" using pf na by blast
    have fr: "paging_frames (t\<lparr>mpmm := p'\<rparr>) vm = paging_frames t vm" by (simp add: paging_frames_def)
    have "vm_wf (t\<lparr>mpmm := p'\<rparr>) vm"
      using wft p'(2) fo nt unfolding vm_wf_def fr by auto
    then have "backed vm (vpage cur) [] (public_flags_to_arch_flags flags) s (t\<lparr>mpmm := p'\<rparr>)"
      using t(2) False own pf ph na w(3) fo unfolding backed_def fr by (auto simp: vm_upd_def)
    then show ?thesis using t(1) False p'(1) by (auto simp: frame_free_def)
  qed
qed

lemma next_page:
  assumes "is_aligned cur 4096" and "unat end' = unat cur + Suc n * 4096"
  shows "cur < end'" and "is_aligned (cur + PAGE_SIZE) 4096" and "unat end' = unat (cur + PAGE_SIZE) + n * 4096"
    and "unat cur + 4096 < 2 ^ 32" and "vpage (cur + PAGE_SIZE) = vpage cur + 1" and "unat (cur + PAGE_SIZE) = unat cur + 4096"
proof -
  have b: "unat cur + 4096 \<le> unat end'" using assms(2) by simp
  show lt: "unat cur + 4096 < 2 ^ 32"
  proof (cases "n = 0")
    case True
    then show ?thesis using assms(2) u32_bound [of end'] by simp
  next
    case False
    then show ?thesis using assms(2) u32_bound [of end'] by simp
  qed
  show "cur < end'" using b by (simp add: word_less_nat_alt)
  show u: "unat (cur + PAGE_SIZE) = unat cur + 4096" using lt by (simp add: unat_word_ariths PAGE_SIZE_def)
  show "is_aligned (cur + PAGE_SIZE) 4096" using aligned_add_pages [OF assms(1), of 1] by simp
  show "unat end' = unat (cur + PAGE_SIZE) + n * 4096" using assms(2) u by simp
  show "vpage (cur + PAGE_SIZE) = vpage cur + 1" by (simp add: vpage_def u)
qed

lemma va_map_pages_backed:
  assumes "vm_wf s vm" and "is_aligned cur 4096" and "unat end' = unat cur + n * 4096"
  shows "\<exists>ok fs s'. va_map_pages vm cur end' flags s = Some (ok, cur + of_nat (length fs) * PAGE_SIZE, s')
    \<and> backed vm (vpage cur) fs (public_flags_to_arch_flags flags) s s' \<and> length fs \<le> n \<and> (ok \<longleftrightarrow> length fs = n)"
  using assms
proof (induction n arbitrary: s cur)
  case 0
  then have "va_map_pages vm cur end' flags s = Some (True, cur, s)"
    by (simp add: va_map_pages.simps word_less_nat_alt)
  then show ?case using backed_Nil [OF 0(1)] by (intro exI [of _ True] exI [of _ "[]"] exI [of _ s]) simp
next
  case (Suc n)
  note np = next_page [OF Suc.prems(2,3)]
  obtain a p where al: "pmm_frame_alloc (mpmm s) = (a, p)" by fastforce
  let ?fl = "public_flags_to_arch_flags flags"
  have ok: "pmm_wf (mpmm s) \<and> pmm_inv (mpmm s)" using Suc.prems(1) by (simp add: vm_wf_def)
  show ?case
  proof (cases "a = 0")
    case True
    then have "p = mpmm s" using pm.alloc_none [OF ok] al by simp
    then have "va_map_pages vm cur end' flags s = Some (False, cur, s)"
      using al True np(1) by (simp add: va_map_pages.simps)
    then show ?thesis using backed_Nil [OF Suc.prems(1)] by (intro exI [of _ False] exI [of _ "[]"] exI [of _ s]) simp
  next
    case False
    obtain okm t where t: "hal_vm_map vm cur (ucast a) flags (s\<lparr>mpmm := p\<rparr>) = Some (okm, t)"
      "if okm then backed vm (vpage cur) [ucast a] ?fl s t
       else \<exists>t'. frame_free (ucast a) t = Some t' \<and> backed vm (vpage cur) [] ?fl s t'"
      using back_one [OF Suc.prems(1) al False Suc.prems(2) np(4)] by blast
    note nz = vm_wf_alloc(5) [OF Suc.prems(1) al False]
    show ?thesis
    proof (cases okm)
      case True
      then have b: "backed vm (vpage cur) [ucast a] ?fl s t" using t(2) by simp
      then have "vm_wf t vm" by (simp add: backed_def)
      then obtain ok' fs s' where r: "va_map_pages vm (cur + PAGE_SIZE) end' flags t
          = Some (ok', cur + PAGE_SIZE + of_nat (length fs) * PAGE_SIZE, s')"
        "backed vm (vpage cur + 1) fs ?fl t s'" "length fs \<le> n" "ok' \<longleftrightarrow> length fs = n"
        using Suc.IH [of t "cur + PAGE_SIZE"] np by auto
      have "va_map_pages vm cur end' flags s = Some (ok', cur + of_nat (length (ucast a # fs)) * PAGE_SIZE, s')"
        using al nz t(1) True r(1) np(1) by (subst va_map_pages.simps) (simp add: algebra_simps)
      then show ?thesis
        using backed_Cons [OF b r(2)] r(3,4) by (intro exI [of _ ok'] exI [of _ "ucast a # fs"] exI [of _ s']) simp
    next
      case no: False
      then obtain t' where t': "frame_free (ucast a) t = Some t'" "backed vm (vpage cur) [] ?fl s t'" using t(2) by auto
      have "va_map_pages vm cur end' flags s = Some (False, cur, t')"
        using al nz t(1) no t'(1) np(1) by (subst va_map_pages.simps) simp
      then show ?thesis using t'(2) by (intro exI [of _ False] exI [of _ "[]"] exI [of _ t']) simp
    qed
  qed
qed

lemma unmap_page_drop:
  assumes "vm_wf s pd" and "is_aligned va 4096" and "unat va + 4096 < 2 ^ 32"
  shows "\<exists>s'. hal_vm_unmap pd va s = Some (True, s') \<and> vm_drop pd s (\<lambda>q. if q = vpage va then 0 else live (pte s pd q)) s'"
proof -
  have e: "unat (va + PAGE_SIZE) = unat va + 1 * 4096" using assms(3) by (simp add: unat_word_ariths PAGE_SIZE_def)
  obtain s' where s': "unmap_chunks pd va (va + PAGE_SIZE) s = Some s'"
    "vm_drop pd s (\<lambda>q. if vpage va \<le> q \<and> q < vpage va + 1 then 0 else live (pte s pd q)) s'"
    using unmap_chunks_drop [OF assms(1,2) e] by auto
  have "vm_drop pd s (\<lambda>q. if q = vpage va then 0 else live (pte s pd q)) s'"
    by (rule vm_drop_cong [OF s'(2)]) auto
  moreover have "hal_vm_unmap pd va s = Some (True, s')"
    using s'(1) assms(1,2) by (simp add: hal_vm_unmap_def hal_vm_unmap_range_def vm_wf_def PAGE_SIZE_def aligned_4096)
  ultimately show ?thesis by blast
qed

text \<open>
  The clean-up loop on pages whose frames are neither tables nor among the frames
  \<open>keep\<close>: it unmaps exactly these pages.
\<close>

definition cleaned :: "u32 \<Rightarrow> nat \<Rightarrow> nat \<Rightarrow> u32 set \<Rightarrow> machine \<Rightarrow> machine \<Rightarrow> bool" where
  "cleaned vm p0 n keep t u \<longleftrightarrow> vm_wf u vm \<and> keep \<subseteq> owned_frames (mpmm u) \<and> paging_frames u vm \<subseteq> paging_frames t vm
     \<and> (\<forall>q < 2 ^ 20. live (pte u vm q) = (if p0 \<le> q \<and> q < p0 + n then 0 else live (pte t vm q)))
     \<and> (\<forall>a \<in> keep. is_aligned a 4096 \<longrightarrow> (\<forall>k < 4096. phys u (unat a + k) = phys t (unat a + k)))"

definition foreign :: "u32 \<Rightarrow> nat \<Rightarrow> nat \<Rightarrow> u32 set \<Rightarrow> machine \<Rightarrow> bool" where
  "foreign vm p0 n keep t \<longleftrightarrow> keep \<subseteq> owned_frames (mpmm t) - paging_frames t vm
     \<and> (\<forall>q. p0 \<le> q \<longrightarrow> q < p0 + n \<longrightarrow> present (pte t vm q) \<longrightarrow> page_of (pte t vm q) \<notin> keep \<union> paging_frames t vm)"

lemma cleaned_step:
  assumes wf: "vm_wf t vm" and fo: "foreign vm (vpage cur) 1 keep t" and al: "is_aligned cur 4096" "unat cur + 4096 < 2 ^ 32"
  shows "\<exists>t1 u. (if hal_vm_virt_to_phys t vm cur \<noteq> 0 then frame_free (hal_vm_virt_to_phys t vm cur) t else Some t) = Some t1
    \<and> hal_vm_unmap vm cur t1 = Some (True, u) \<and> cleaned vm (vpage cur) 1 keep t u"
proof -
  let ?a = "hal_vm_virt_to_phys t vm cur"
  have off: "cur AND 0xFFF = 0" using al(1) offset_split [of cur] by (simp add: aligned_4096 word_unat_eq_iff)
  have a: "?a \<notin> keep \<union> paging_frames t vm" if "?a \<noteq> 0"
    using fo that off by (auto simp: foreign_def virt_to_phys_pte split: if_splits)
  have ok: "pmm_wf (mpmm t) \<and> pmm_inv (mpmm t)" using wf by (simp add: vm_wf_def)
  obtain t1 where t1: "(if ?a \<noteq> 0 then frame_free ?a t else Some t) = Some t1" "vm_wf t1 vm" "keep \<subseteq> owned_frames (mpmm t1)"
    "phys t1 = phys t"
  proof (cases "?a = 0")
    case True
    then show ?thesis using that [of t] wf fo by (auto simp: foreign_def)
  next
    case False
    obtain p' where p': "pmm_frame_free ?a (mpmm t) = Some p'" "pmm_wf p' \<and> pmm_inv p'" using pm.free_ok [OF ok] by blast
    note o = pm.free_owned [OF ok p'(1)]
    have fr: "paging_frames (t\<lparr>mpmm := p'\<rparr>) vm = paging_frames t vm" by (simp add: paging_frames_def)
    have "vm_wf (t\<lparr>mpmm := p'\<rparr>) vm" using wf p'(2) o a [OF False] unfolding vm_wf_def fr by auto
    then show ?thesis using that [of "t\<lparr>mpmm := p'\<rparr>"] False p'(1) o a fo by (auto simp: frame_free_def foreign_def)
  qed
  have e: "entry t1 x i = entry t x i" for x i by (simp add: entry_def t1(4))
  have p: "pte t1 vm q = pte t vm q" for q by (simp add: pte_def e)
  have fr: "paging_frames t1 vm = paging_frames t vm" by (simp add: paging_frames_def e)
  obtain u where u: "hal_vm_unmap vm cur t1 = Some (True, u)"
    "vm_drop vm t1 (\<lambda>q. if q = vpage cur then 0 else live (pte t1 vm q)) u"
    using unmap_page_drop [OF t1(2) al] by blast
  have "cleaned vm (vpage cur) 1 keep t u"
    unfolding cleaned_def
  proof (intro conjI allI impI ballI)
    show "vm_wf u vm" "paging_frames u vm \<subseteq> paging_frames t vm" using u(2) by (simp_all add: vm_drop_def fr)
    show "keep \<subseteq> owned_frames (mpmm u)" using u(2) t1(3) fo by (auto simp: vm_drop_def fr foreign_def)
    show "live (pte u vm q) = (if vpage cur \<le> q \<and> q < vpage cur + 1 then 0 else live (pte t vm q))" if "q < 2 ^ 20" for q
      using u(2) that by (auto simp: vm_drop_def p)
    show "phys u (unat a + k) = phys t (unat a + k)" if "a \<in> keep" "is_aligned a 4096" "k < 4096" for a k
      using u(2) that t1(3,4) fo by (auto simp: vm_drop_def fr foreign_def)
  qed
  then show ?thesis using t1(1) u(1) by blast
qed

lemma live_0: "live e = 0 \<longleftrightarrow> \<not> present e"
  by (auto simp: live_def)

lemma live_page: "live e = live e' \<Longrightarrow> present e \<Longrightarrow> present e' \<and> e = e'"
  by (auto simp: live_def split: if_splits)

lemma foreign_step:
  assumes fo: "foreign vm p0 (Suc n) keep t" and cl: "cleaned vm p0 1 keep t u" and n: "p0 + Suc n \<le> 2 ^ 20"
  shows "foreign vm (p0 + 1) n keep u"
proof -
  have pf: "paging_frames u vm \<subseteq> paging_frames t vm" and k: "keep \<subseteq> owned_frames (mpmm u)" using cl by (simp_all add: cleaned_def)
  have same: "present (pte t vm q) \<and> pte u vm q = pte t vm q" if "p0 + 1 \<le> q" "q < p0 + 1 + n" "present (pte u vm q)" for q
  proof -
    have "live (pte u vm q) = live (pte t vm q)" using cl that n by (simp add: cleaned_def)
    then show ?thesis using live_page that(3) by blast
  qed
  show ?thesis
    unfolding foreign_def
  proof (intro conjI allI impI)
    show "keep \<subseteq> owned_frames (mpmm u) - paging_frames u vm" using fo pf k unfolding foreign_def by blast
    fix q assume q: "p0 + 1 \<le> q" "q < p0 + 1 + n" "present (pte u vm q)"
    have "page_of (pte t vm q) \<notin> keep \<union> paging_frames t vm" using fo q same [OF q] by (simp add: foreign_def)
    then show "page_of (pte u vm q) \<notin> keep \<union> paging_frames u vm" using same [OF q] pf by auto
  qed
qed

lemma va_unmap_pages_cleaned:
  assumes "vm_wf t vm" and "is_aligned cur 4096" and "unat end' = unat cur + n * 4096" and "foreign vm (vpage cur) n keep t"
  shows "\<exists>u. va_unmap_pages vm cur end' t = Some u \<and> cleaned vm (vpage cur) n keep t u"
  using assms
proof (induction n arbitrary: t cur)
  case 0
  then have "va_unmap_pages vm cur end' t = Some t" by (simp add: va_unmap_pages.simps word_less_nat_alt)
  then show ?case using 0 by (auto simp: cleaned_def foreign_def)
next
  case (Suc n)
  note np = next_page [OF Suc.prems(2,3)]
  have "foreign vm (vpage cur) 1 keep t" using Suc.prems(4) by (simp add: foreign_def)
  then obtain t1 u where st: "(if hal_vm_virt_to_phys t vm cur \<noteq> 0 then frame_free (hal_vm_virt_to_phys t vm cur) t else Some t) = Some t1"
    "hal_vm_unmap vm cur t1 = Some (True, u)" "cleaned vm (vpage cur) 1 keep t u"
    using cleaned_step [OF Suc.prems(1) _ Suc.prems(2) np(4)] by blast
  have step: "va_unmap_pages vm cur end' t = va_unmap_pages vm (cur + PAGE_SIZE) end' u"
    by (subst va_unmap_pages.simps, unfold Let_def) (simp only: st(1,2) np(1) if_True Option.bind.bind_lunit prod.case)
  have b: "vpage cur + Suc n \<le> 2 ^ 20" using range_pages(3) [OF Suc.prems(2,3)] by simp
  have "vm_wf u vm" using st(3) by (simp add: cleaned_def)
  then obtain w where w: "va_unmap_pages vm (cur + PAGE_SIZE) end' u = Some w" "cleaned vm (vpage cur + 1) n keep u w"
    using Suc.IH [OF _ np(2,3)] foreign_step [OF Suc.prems(4) st(3) b] np(5) by auto
  have "cleaned vm (vpage cur) (Suc n) keep t w"
    unfolding cleaned_def
  proof (intro conjI allI impI ballI)
    show "live (pte w vm q) = (if vpage cur \<le> q \<and> q < vpage cur + Suc n then 0 else live (pte t vm q))" if "q < 2 ^ 20" for q
      using st(3) w(2) that by (auto simp: cleaned_def)
  qed (use st(3) w(2) in \<open>auto simp: cleaned_def\<close>)
  then show ?case using step w(1) by auto
qed

lemma translate_backed:
  assumes b: "backed vm (vpage va) fs fl s t" and al: "is_aligned va 4096"
  shows "hal_vm_virt_to_phys t vm v =
    (if unat va \<le> unat v \<and> unat v < unat va + length fs * 4096
     then fs ! ((unat v - unat va) div 4096) + (v AND 0xFFF) else hal_vm_virt_to_phys s vm v)"
proof -
  note r = vpage_range [OF al, of v "length fs"]
  have p: "pte t vm (vpage v) = back_pages (vpage va) fs fl (pte s vm) (vpage v)"
    using b vpage_bound [of v] by (simp add: backed_def)
  show ?thesis
  proof (cases "vpage va \<le> vpage v \<and> vpage v < vpage va + length fs")
    case True
    have i: "vpage v - vpage va = (unat v - unat va) div 4096" using al True by (auto simp: vpage_def aligned_4096)
    have "is_aligned (fs ! (vpage v - vpage va)) 4096" using b True nth_mem [of "vpage v - vpage va" fs] by (auto simp: backed_def)
    then have "hal_vm_virt_to_phys t vm v = fs ! (vpage v - vpage va) + (v AND 0xFFF)"
      using mapped_entry [of "fs ! (vpage v - vpage va)" fl] True by (simp add: virt_to_phys_pte p back_pages_def)
    then show ?thesis using True r i by simp
  next
    case False
    then show ?thesis using r by (auto simp: virt_to_phys_pte p back_pages_def)
  qed
qed

lemma translate_cleaned:
  assumes cl: "cleaned vm (vpage va) n keep t u" and al: "is_aligned va 4096"
  shows "hal_vm_virt_to_phys u vm v =
    (if unat va \<le> unat v \<and> unat v < unat va + n * 4096 then 0 else hal_vm_virt_to_phys t vm v)"
proof -
  have l: "live (pte u vm (vpage v)) = (if unat va \<le> unat v \<and> unat v < unat va + n * 4096 then 0 else live (pte t vm (vpage v)))"
    using cl vpage_bound [of v] vpage_range [OF al, of v n] by (simp add: cleaned_def)
  show ?thesis
  proof (cases "unat va \<le> unat v \<and> unat v < unat va + n * 4096")
    case True
    then have "\<not> present (pte u vm (vpage v))" using l unfolding live_0 [symmetric] by (simp only: if_True simp_thms)
    then show ?thesis using True by (simp add: virt_to_phys_pte)
  next
    case False
    then show ?thesis using l virt_to_phys_live [of u vm v t] by auto
  qed
qed

lemma region_arith:
  assumes "is_aligned va 4096" and "is_aligned sz 4096" and "unat va + unat sz < 2 ^ 32"
  shows "align_down va PAGE_SIZE = va" and "align_up (va + sz) PAGE_SIZE = va + sz"
    and "unat (va + sz) = unat va + unat sz div 4096 * 4096"
proof -
  have u: "unat (va + sz) = unat va + unat sz" using assms(3) by (simp add: unat_word_ariths)
  then show "unat (va + sz) = unat va + unat sz div 4096 * 4096" using assms(2) by (simp add: aligned_4096)
  have "unat (align_down va (2 ^ 12)) = unat va" using unat_align_down [of 12 va] assms(1) by (simp add: aligned_4096)
  then show "align_down va PAGE_SIZE = va" by (simp add: PAGE_SIZE_def word_unat_eq_iff)
  obtain k where k: "unat (va + sz) = 4096 * k" using assms(1,2) u by (metis aligned_4096 dvd_add dvdE)
  have b: "unat (va + sz) \<le> 2 ^ 32 - 4096"
  proof -
    have "4096 * k < 4096 * 2 ^ 20" using k u32_bound [of "va + sz"] by simp
    then show ?thesis using k by simp
  qed
  then have "unat (align_up (va + sz) (2 ^ 12)) = 2 ^ 12 * ((unat (va + sz) + (2 ^ 12 - 1)) div 2 ^ 12)"
    by (intro unat_align_up) auto
  also have "\<dots> = unat (va + sz)" unfolding k by simp
  finally show "align_up (va + sz) PAGE_SIZE = va + sz" by (simp add: PAGE_SIZE_def word_unat_eq_iff)
qed

lemma va_alloc_region_spec:
  assumes "vm_wf s vm" and "is_aligned va 4096" and "is_aligned sz 4096" and "unat va + unat sz < 2 ^ 32"
  shows "\<exists>ok s'. va_alloc_region vm va sz flags s = Some (ok, s') \<and> vm_wf s' vm
    \<and> owned_frames (mpmm s) - paging_frames s vm \<subseteq> owned_frames (mpmm s')
    \<and> (\<forall>a \<in> owned_frames (mpmm s) - paging_frames s vm. is_aligned a 4096 \<longrightarrow>
         (\<forall>k < 4096. phys s' (unat a + k) = phys s (unat a + k)))
    \<and> (if ok
       then \<exists>fs. length fs = unat sz div 4096 \<and> distinct fs \<and> set fs \<inter> owned_frames (mpmm s) = {} \<and> set fs \<subseteq> owned_frames (mpmm s')
         \<and> (\<forall>a\<in>set fs. is_aligned a 4096 \<and> a \<noteq> 0)
         \<and> (\<forall>v. hal_vm_virt_to_phys s' vm v = (if unat va \<le> unat v \<and> unat v < unat va + unat sz
              then fs ! ((unat v - unat va) div 4096) + (v AND 0xFFF) else hal_vm_virt_to_phys s vm v))
       else \<exists>k < unat sz div 4096. \<forall>v. hal_vm_virt_to_phys s' vm v =
              (if unat va \<le> unat v \<and> unat v < unat va + k * 4096 then 0 else hal_vm_virt_to_phys s vm v))"
proof -
  note ar = region_arith [OF assms(2-4)]
  let ?n = "unat sz div 4096" and ?fl = "public_flags_to_arch_flags flags"
  obtain ok fs t where r: "va_map_pages vm va (va + sz) flags s = Some (ok, va + of_nat (length fs) * PAGE_SIZE, t)"
    "backed vm (vpage va) fs ?fl s t" "length fs \<le> ?n" "ok \<longleftrightarrow> length fs = ?n"
    using va_map_pages_backed [OF assms(1,2) ar(3)] by blast
  have run: "va_alloc_region vm va sz flags s = (if ok then Some (True, t)
      else do { u \<leftarrow> va_unmap_pages vm va (va + of_nat (length fs) * PAGE_SIZE) t; Some (False, u) })"
    using assms(1-3) by (simp add: va_alloc_region_def vm_wf_def ar(1,2) r(1) Let_def) (simp add: PAGE_SIZE_def)
  let ?keep = "owned_frames (mpmm s) - paging_frames s vm"
  have wt: "vm_wf t vm" and kt: "?keep \<subseteq> owned_frames (mpmm t) - paging_frames t vm"
    and ph: "\<forall>a \<in> ?keep. is_aligned a 4096 \<longrightarrow> (\<forall>k < 4096. phys t (unat a + k) = phys s (unat a + k))"
    using r(2) by (auto simp: backed_def)
  show ?thesis
  proof (cases ok)
    case True
    have n: "?n * 4096 = unat sz" using assms(3) by (simp add: aligned_4096)
    have "length fs = ?n" "distinct fs" "set fs \<inter> owned_frames (mpmm s) = {}" "set fs \<subseteq> owned_frames (mpmm t)"
      "\<forall>a\<in>set fs. is_aligned a 4096 \<and> a \<noteq> 0"
      using True r(2,4) by (auto simp: backed_def)
    then show ?thesis
      using run True wt kt ph translate_backed [OF r(2) assms(2)] n by (intro exI [of _ True] exI [of _ t]) auto
  next
    case False
    have lt: "length fs < ?n" using False r(3,4) by simp
    have e: "unat (va + of_nat (length fs) * PAGE_SIZE) = unat va + length fs * 4096"
      by (rule unat_add_pages [OF chunk_fits [OF r(3) ar(3)]])
    have f: "page_of (pte t vm q) = fs ! (q - vpage va)" if "vpage va \<le> q" "q < vpage va + length fs" for q
    proof -
      have "q < 2 ^ 20" using that lt range_pages(3) [OF assms(2) ar(3)] by linarith
      then have "pte t vm q = fs ! (q - vpage va) OR (?fl AND 0xFFF) OR ARCH_PD_PT_PRESENT"
        using r(2) that by (simp add: backed_def back_pages_def)
      moreover have "is_aligned (fs ! (q - vpage va)) 4096"
        using r(2) that nth_mem [of "q - vpage va" fs] by (auto simp: backed_def)
      ultimately show ?thesis using mapped_entry(1) by simp
    qed
    have "foreign vm (vpage va) (length fs) ?keep t"
      unfolding foreign_def
    proof (intro conjI allI impI)
      fix q assume q: "vpage va \<le> q" "q < vpage va + length fs"
      then have "fs ! (q - vpage va) \<in> set fs" by simp
      then show "page_of (pte t vm q) \<notin> ?keep \<union> paging_frames t vm"
        using f [OF q] r(2) by (auto simp: backed_def)
    qed (rule kt)
    then obtain u where u: "va_unmap_pages vm va (va + of_nat (length fs) * PAGE_SIZE) t = Some u"
      "cleaned vm (vpage va) (length fs) ?keep t u"
      using va_unmap_pages_cleaned [OF wt assms(2) e] by blast
    have "hal_vm_virt_to_phys u vm v =
        (if unat va \<le> unat v \<and> unat v < unat va + length fs * 4096 then 0 else hal_vm_virt_to_phys s vm v)" for v
      using translate_cleaned [OF u(2) assms(2)] translate_backed [OF r(2) assms(2)] by auto
    moreover have "\<forall>a \<in> ?keep. is_aligned a 4096 \<longrightarrow> (\<forall>k < 4096. phys u (unat a + k) = phys s (unat a + k))"
      using u(2) ph by (auto simp: cleaned_def)
    ultimately show ?thesis
      using run False u(1) u(2) lt by (intro exI [of _ False] exI [of _ u]) (auto simp: cleaned_def)
  qed
qed

text \<open>
  C10. \<^verbatim>\<open>va_alloc_region\<close> backs a region with memory of its own or leaves it unmapped.  On a
  well-formed address space and an aligned region that ends below the top of the address space it
  returns.  On success there is one frame for each page of the region, all different and none of
  them allocated before, the addresses of the region translate into these frames page by page and
  every other address translates as before.  On failure the pages mapped so far translate to
  nothing again and every other address translates as before.  In both cases no frame that was
  allocated before the call and is not a page table is released or written.
\<close>

theorem va_alloc_region_all_or_nothing:
  assumes "vm_wf s vm" and "is_aligned va 4096" and "is_aligned sz 4096" and "unat va + unat sz < 2 ^ 32"
  shows "\<exists>ok s'. va_alloc_region vm va sz flags s = Some (ok, s') \<and> vm_wf s' vm
    \<and> owned_frames (mpmm s) - paging_frames s vm \<subseteq> owned_frames (mpmm s')
    \<and> (\<forall>a \<in> owned_frames (mpmm s) - paging_frames s vm. is_aligned a 4096 \<longrightarrow>
         (\<forall>k < 4096. phys s' (unat a + k) = phys s (unat a + k)))
    \<and> (if ok
       then \<exists>fs. length fs = unat sz div 4096 \<and> distinct fs \<and> set fs \<inter> owned_frames (mpmm s) = {} \<and> set fs \<subseteq> owned_frames (mpmm s')
         \<and> (\<forall>a\<in>set fs. is_aligned a 4096 \<and> a \<noteq> 0)
         \<and> (\<forall>v. hal_vm_virt_to_phys s' vm v = (if unat va \<le> unat v \<and> unat v < unat va + unat sz
              then fs ! ((unat v - unat va) div 4096) + (v AND 0xFFF) else hal_vm_virt_to_phys s vm v))
       else \<exists>k < unat sz div 4096. \<forall>v. hal_vm_virt_to_phys s' vm v =
              (if unat va \<le> unat v \<and> unat v < unat va + k * 4096 then 0 else hal_vm_virt_to_phys s vm v))"
  by (rule va_alloc_region_spec [OF assms])

theorem va_alloc_region_all_or_nothing_witness:
  "\<exists>ok s'. va_alloc_region 0x1000 0x400000 0x2000 7 paging_demo = Some (ok, s') \<and> vm_wf s' 0x1000"
proof -
  have h: "is_aligned (0x400000::u32) 4096" "is_aligned (0x2000::u32) 4096" "unat (0x400000::u32) + unat (0x2000::u32) < 2 ^ 32"
    by (simp_all add: aligned_4096)
  show ?thesis using va_alloc_region_all_or_nothing [OF paging_demo_wf h, of 7] by (elim exE conjE) (intro exI conjI)
qed

subsection \<open>The program break\<close>

lemma page_aligned_add_nonzero:
  assumes "is_aligned a 4096" and "(a::u32) \<noteq> 0"
  shows "a + (v AND 0xFFF) \<noteq> 0"
proof -
  obtain k where k: "unat a = 4096 * k" using assms(1) unfolding aligned_4096 by (rule dvdE)
  have "0 < k" using k assms(2) by (cases k) (auto simp: word_unat_eq_iff)
  have "4096 * k < 4096 * 2 ^ 20" using k u32_bound [of a] by simp
  then have "unat a + unat (v AND 0xFFF) < 2 ^ 32" using k mod_less_divisor [of 4096 "unat v"] by (simp add: offset_split)
  then have "unat (a + (v AND 0xFFF)) = unat a + unat (v AND 0xFFF)" by (simp add: unat_word_ariths)
  then show ?thesis using k \<open>0 < k\<close> by (auto simp: word_unat_eq_iff)
qed

text \<open>The pages from \<open>lo\<close> up to the break are backed.\<close>

definition heap_backed :: "machine \<Rightarrow> u32 \<Rightarrow> u32 \<Rightarrow> u32 \<Rightarrow> bool" where
  "heap_backed s vm lo brk \<longleftrightarrow> (\<forall>v. lo \<le> v \<longrightarrow> unat v < unat (align_up brk PAGE_SIZE) \<longrightarrow> hal_vm_virt_to_phys s vm v \<noteq> 0)"

lemma align_up_page:
  assumes "unat b \<le> 2 ^ 32 - 4096"
  shows "is_aligned (align_up b PAGE_SIZE) 4096" and "unat b \<le> unat (align_up b PAGE_SIZE)"
    and "unat (align_up b PAGE_SIZE) \<le> 2 ^ 32 - 4096"
proof -
  have u: "unat (align_up b PAGE_SIZE) = 4096 * ((unat b + 4095) div 4096)"
    using unat_align_up [of 12 b] assms by (simp add: PAGE_SIZE_def)
  then show "is_aligned (align_up b PAGE_SIZE) 4096" by (simp add: aligned_4096)
  show "unat b \<le> unat (align_up b PAGE_SIZE)" unfolding u by linarith
  have "(unat b + 4095) div 4096 \<le> 4294967295 div 4096" by (rule div_le_mono) (use assms in simp)
  then show "unat (align_up b PAGE_SIZE) \<le> 2 ^ 32 - 4096" unfolding u by simp
qed

lemma extend_heap_backed:
  assumes wf: "vm_wf s (arch vm)" and hp: "find_heap_vma (vma_list vm) = Some i"
    and al: "is_aligned lo 4096" "is_aligned hi 4096" and lt: "lo < hi"
  shows "\<exists>ok vm' s'. vmspace_extend_heap vm lo hi s = Some (ok, vm', s') \<and> vm_wf s' (arch vm)
    \<and> (if ok then vm' = vm\<lparr>vma_list := (vma_list vm)[i := (vma_list vm ! i)\<lparr>vma_end := hi\<rparr>]\<rparr>
            \<and> (\<forall>v. unat lo \<le> unat v \<longrightarrow> unat v < unat hi \<longrightarrow> hal_vm_virt_to_phys s' (arch vm) v \<noteq> 0) else vm' = vm)
    \<and> (\<forall>v. unat v < unat lo \<longrightarrow> hal_vm_virt_to_phys s' (arch vm) v = hal_vm_virt_to_phys s (arch vm) v)"
proof -
  let ?sz = "hi - lo"
  have sz: "unat ?sz = unat hi - unat lo" using lt by (simp add: unat_sub word_less_nat_alt word_le_nat_alt)
  have le: "unat lo < unat hi" using lt by (simp add: word_less_nat_alt)
  have a: "is_aligned ?sz 4096" using al sz by (simp add: aligned_4096 dvd_diff_nat)
  have b: "unat lo + unat ?sz < 2 ^ 32" using sz le u32_bound [of hi] by simp
  have e: "unat lo + unat ?sz = unat hi" using sz le by simp
  obtain ok s' where r: "va_alloc_region (arch vm) lo ?sz 7 s = Some (ok, s')" "vm_wf s' (arch vm)"
    "if ok then \<exists>fs. length fs = unat ?sz div 4096 \<and> distinct fs \<and> set fs \<inter> owned_frames (mpmm s) = {} \<and> set fs \<subseteq> owned_frames (mpmm s')
         \<and> (\<forall>a\<in>set fs. is_aligned a 4096 \<and> a \<noteq> 0)
         \<and> (\<forall>v. hal_vm_virt_to_phys s' (arch vm) v = (if unat lo \<le> unat v \<and> unat v < unat lo + unat ?sz
              then fs ! ((unat v - unat lo) div 4096) + (v AND 0xFFF) else hal_vm_virt_to_phys s (arch vm) v))
       else \<exists>k < unat ?sz div 4096. \<forall>v. hal_vm_virt_to_phys s' (arch vm) v =
              (if unat lo \<le> unat v \<and> unat v < unat lo + k * 4096 then 0 else hal_vm_virt_to_phys s (arch vm) v)"
    using va_alloc_region_spec [OF wf al(1) a b, of 7] by (elim exE conjE) rule
  have run: "vmspace_extend_heap vm lo hi s = Some (ok, if ok then vm\<lparr>vma_list := (vma_list vm)[i := (vma_list vm ! i)\<lparr>vma_end := hi\<rparr>]\<rparr> else vm, s')"
    using al lt hp r(1) by (simp add: vmspace_extend_heap_def PAGE_SIZE_def not_le [symmetric])
  have low: "hal_vm_virt_to_phys s' (arch vm) v = hal_vm_virt_to_phys s (arch vm) v" if "unat v < unat lo" for v
    using r(3) that by (cases ok) (simp, metis not_le)+
  have "hal_vm_virt_to_phys s' (arch vm) v \<noteq> 0" if h: "ok" "unat lo \<le> unat v" "unat v < unat hi" for v
  proof -
    obtain fs where fs: "length fs = unat ?sz div 4096" "\<forall>a\<in>set fs. is_aligned a 4096 \<and> a \<noteq> 0"
      "\<forall>v. hal_vm_virt_to_phys s' (arch vm) v = (if unat lo \<le> unat v \<and> unat v < unat lo + unat ?sz
              then fs ! ((unat v - unat lo) div 4096) + (v AND 0xFFF) else hal_vm_virt_to_phys s (arch vm) v)"
      using r(3) h(1) by (simp only: if_True) blast
    have "unat v - unat lo < length fs * 4096" using h fs(1) a sz by (auto simp: aligned_4096)
    then have "(unat v - unat lo) div 4096 < length fs" by (simp add: div_less_iff_less_mult)
    then have "fs ! ((unat v - unat lo) div 4096) \<in> set fs" by simp
    then show ?thesis using fs(2,3) h e page_aligned_add_nonzero by simp
  qed
  then show ?thesis using run r(2) low by (intro exI [of _ ok] exI [of _ "if ok then _ else _"] exI [of _ s']) auto
qed

text \<open>
  C28. \<^verbatim>\<open>sys_sbrk\<close> keeps the heap backed: when every page from the start of the heap up to the
  break is backed by memory and neither the old nor the new break lies in the last page of the
  address space, the call returns.  Either it returns the old break, moves the break by the
  increment and every page up to the new break is backed again; or it returns -1, and break and
  areas are unchanged and the pages up to the old break are still backed.
\<close>

theorem sys_sbrk_keeps_heap_backed:
  assumes "vm_wf s (arch vm)" and "find_heap_vma (vma_list vm) = Some i" and "heap_backed s (arch vm) lo brk"
    and "unat brk \<le> 2 ^ 32 - 4096" and "unat (brk + inc) \<le> 2 ^ 32 - 4096"
  shows "\<exists>r brk' vm' s'. sys_sbrk inc brk vm s = Some (r, brk', vm', s') \<and> vm_wf s' (arch vm) \<and> heap_backed s' (arch vm) lo brk'
    \<and> (r = brk \<and> brk' = brk + inc \<or> r = - 1 \<and> brk' = brk \<and> vm' = vm)"
proof -
  let ?lo = "align_up brk PAGE_SIZE" and ?hi = "align_up (brk + inc) PAGE_SIZE"
  note a = align_up_page [OF assms(4)] and b = align_up_page [OF assms(5)]
  consider (zero) "inc = 0" | (grow) "inc \<noteq> 0" "?lo < ?hi" | (shrink) "inc \<noteq> 0" "\<not> ?lo < ?hi" by blast
  then show ?thesis
  proof cases
    case zero
    then show ?thesis using assms(1,3) by (simp add: sys_sbrk_def)
  next
    case shrink
    then have "heap_backed s (arch vm) lo (brk + inc)"
      using assms(3) by (auto simp: heap_backed_def word_less_nat_alt)
    then show ?thesis using shrink assms(1) by (simp add: sys_sbrk_def Let_def)
  next
    case grow
    obtain ok vm' s' where r: "vmspace_extend_heap vm ?lo ?hi s = Some (ok, vm', s')" "vm_wf s' (arch vm)"
      "if ok then vm' = vm\<lparr>vma_list := (vma_list vm)[i := (vma_list vm ! i)\<lparr>vma_end := ?hi\<rparr>]\<rparr>
            \<and> (\<forall>v. unat ?lo \<le> unat v \<longrightarrow> unat v < unat ?hi \<longrightarrow> hal_vm_virt_to_phys s' (arch vm) v \<noteq> 0) else vm' = vm"
      "\<forall>v. unat v < unat ?lo \<longrightarrow> hal_vm_virt_to_phys s' (arch vm) v = hal_vm_virt_to_phys s (arch vm) v"
      using extend_heap_backed [OF assms(1,2) a(1) b(1) grow(2)] by (elim exE conjE) rule
    have old: "heap_backed s' (arch vm) lo brk" using assms(3) r(4) by (simp add: heap_backed_def)
    show ?thesis
    proof (cases ok)
      case True
      then have "heap_backed s' (arch vm) lo (brk + inc)"
        using old r(3) unfolding heap_backed_def by (metis not_le)
      then show ?thesis using r(1,2) grow True by (simp add: sys_sbrk_def Let_def)
    next
      case False
      then show ?thesis using old r(1,2,3) grow by (simp add: sys_sbrk_def Let_def)
    qed
  qed
qed

text \<open>A space with an empty heap at \<^verbatim>\<open>USER_HEAP_START\<close>.\<close>

definition heap_space :: vmspace_t where
  "heap_space = \<lparr>vm_ptr = 0, arch_ptr = 0, arch = 0x1000,
     vma_list = [\<lparr>vma_ptr = 0, vma_start = 0x20000000, vma_end = 0x20000000, vma_flags = 0x8B\<rparr>]\<rparr>"

theorem sys_sbrk_keeps_heap_backed_witness:
  "\<exists>r brk' vm' s'. sys_sbrk 5000 0x20000000 heap_space paging_demo = Some (r, brk', vm', s')
    \<and> heap_backed s' 0x1000 0x20000000 brk' \<and> (r = 0x20000000 \<and> brk' = 0x20001388 \<or> r = - 1 \<and> brk' = 0x20000000)"
proof -
  have a: "align_up 0x20000000 PAGE_SIZE = 0x20000000" by (simp add: align_up_def align_down_def PAGE_SIZE_def)
  have h: "vm_wf paging_demo (arch heap_space)" "find_heap_vma (vma_list heap_space) = Some 0"
    "heap_backed paging_demo (arch heap_space) 0x20000000 0x20000000"
    "unat (0x20000000::u32) \<le> 2 ^ 32 - 4096" "unat ((0x20000000::u32) + 5000) \<le> 2 ^ 32 - 4096"
    using paging_demo_wf
    by (simp_all add: heap_space_def find_heap_vma_def VMA_HEAP_def heap_backed_def a word_le_nat_alt)
  show ?thesis using sys_sbrk_keeps_heap_backed [OF h] by (simp add: heap_space_def) blast
qed

end
