(* ===== verification/MyfsDisk.thy ===== *)
theory MyfsDisk
  imports Bitmap Errno "HOL-Library.Monad_Syntax"
begin

text \<open>
  The on-disk side of \<^verbatim>\<open>kernel/src/fs/myfs/myfs.c\<close>: superblock and inode layout, blocks,
  bitmaps, and reads and writes that span blocks. The block device is an array of bytes, 512 to a
  sector, that returns what was last written; its driver is not part of this model. The mounted
  file system is one state \<open>myfs\<close>: the in-memory superblock (\<^verbatim>\<open>MyfsSuperBlock\<close>), the device, and
  the heap objects the file system allocates. A C \<^verbatim>\<open>int\<close> that numbers a bit, an inode or a block
  is a natural number here. \<open>None\<close> means that a call does not return.
\<close>

unbundle bit_operations_syntax

subsection \<open>Layout\<close>

definition SECTOR_BYTES :: u32 where
  "SECTOR_BYTES = 512"

definition MYFS_MAGIC :: u32 where
  "MYFS_MAGIC = 0x20250928"

definition MYFS_ROOT_INODE_NUM :: u32 where
  "MYFS_ROOT_INODE_NUM = 0"

definition MYFS_DIRECT_BLOCKS_MAX :: nat where
  "MYFS_DIRECT_BLOCKS_MAX = 10"

definition INODE_HASH_SIZE :: nat where
  "INODE_HASH_SIZE = 256"

definition sizeof_inode :: nat where
  "sizeof_inode = 112"

definition sizeof_dirent :: nat where
  "sizeof_dirent = 36"

record MyfsInode =
  i_ino :: u32
  block_ptrs :: "u32 list"
  single_indirect_ptr :: u32
  double_indirect_ptr :: u32
  block_count :: u32
  i_size :: u32
  i_mode :: u32
  ref_count :: u32
  links_count :: u32
  i_uid :: u32
  i_gid :: u32
  permissions :: u32
  atime :: u64
  mtime :: u64
  ctime :: u64
  dirty :: u32

record MyfsDiskSuperBlock =
  magic :: u32
  total_inodes :: u32
  total_blocks :: u32
  free_inodes :: u32
  free_blocks :: u32
  block_sectors :: u32
  file_initial_blocks :: u32
  inode_bitmap_start :: u32
  block_bitmap_start :: u32
  inode_table_start :: u32
  data_blocks_start :: u32
  root_inode :: u32

text \<open>
  The inode cache maps a bucket to the inodes chained in it, first entry first. An inode object is
  known by its address; \<open>inodes\<close> holds the live ones. The \<open>k\<close>-th \<^verbatim>\<open>kmalloc\<close> of the file system
  succeeds when \<open>alloc_ok k\<close>, and then returns an object different from all before it. \<open>stale\<close> is
  what the first word of a freed object reads as.
\<close>

record myfs =
  on_disk :: MyfsDiskSuperBlock
  block_bytes :: u32
  block_bitmap :: bytes
  inode_bitmap :: bytes
  inode_hash_table :: "nat \<Rightarrow> nat list"
  mounted :: bool
  disk :: bytes
  inodes :: "nat \<Rightarrow> MyfsInode option"
  alloc_ok :: "nat \<Rightarrow> bool"
  allocs :: nat
  stale :: "nat \<Rightarrow> u32"

definition get64 :: "bytes \<Rightarrow> nat \<Rightarrow> u64" where
  "get64 m a = ucast (get32 m a) OR push_bit 32 (ucast (get32 m (a + 4)))"

definition put64 :: "bytes \<Rightarrow> nat \<Rightarrow> u64 \<Rightarrow> bytes" where
  "put64 m a v = put32 (put32 m a (ucast v)) (a + 4) (ucast (drop_bit 32 v))"

text \<open>The packed structs as bytes.\<close>

definition inode_decode :: "bytes \<Rightarrow> MyfsInode" where
  "inode_decode m = \<lparr>i_ino = get32 m 0, block_ptrs = map (\<lambda>k. get32 m (4 + 4 * k)) [0..<MYFS_DIRECT_BLOCKS_MAX],
     single_indirect_ptr = get32 m 44, double_indirect_ptr = get32 m 48, block_count = get32 m 52, i_size = get32 m 56,
     i_mode = get32 m 60, ref_count = get32 m 64, links_count = get32 m 68, i_uid = get32 m 72, i_gid = get32 m 76,
     permissions = get32 m 80, atime = get64 m 84, mtime = get64 m 92, ctime = get64 m 100, dirty = get32 m 108\<rparr>"

definition inode_encode :: "MyfsInode \<Rightarrow> bytes" where
  "inode_encode n =
     (let m = put32 (\<lambda>_. 0) 0 (i_ino n);
          m = for_loop 0 MYFS_DIRECT_BLOCKS_MAX (\<lambda>k m. put32 m (4 + 4 * k) (block_ptrs n ! k)) m;
          m = put32 m 44 (single_indirect_ptr n); m = put32 m 48 (double_indirect_ptr n);
          m = put32 m 52 (block_count n); m = put32 m 56 (i_size n); m = put32 m 60 (i_mode n);
          m = put32 m 64 (ref_count n); m = put32 m 68 (links_count n); m = put32 m 72 (i_uid n);
          m = put32 m 76 (i_gid n); m = put32 m 80 (permissions n); m = put64 m 84 (atime n);
          m = put64 m 92 (mtime n); m = put64 m 100 (ctime n)
      in put32 m 108 (dirty n))"

definition sb_decode :: "bytes \<Rightarrow> MyfsDiskSuperBlock" where
  "sb_decode m = \<lparr>magic = get32 m 0, total_inodes = get32 m 4, total_blocks = get32 m 8, free_inodes = get32 m 12,
     free_blocks = get32 m 16, block_sectors = get32 m 20, file_initial_blocks = get32 m 24,
     inode_bitmap_start = get32 m 28, block_bitmap_start = get32 m 32, inode_table_start = get32 m 36,
     data_blocks_start = get32 m 40, root_inode = get32 m 44\<rparr>"

text \<open>The superblock in memory; the bytes behind its 48 bytes are those of \<open>m\<close>.\<close>

definition sb_encode :: "MyfsDiskSuperBlock \<Rightarrow> bytes \<Rightarrow> bytes" where
  "sb_encode d m =
     (let m = put32 m 0 (magic d); m = put32 m 4 (total_inodes d); m = put32 m 8 (total_blocks d);
          m = put32 m 12 (free_inodes d); m = put32 m 16 (free_blocks d); m = put32 m 20 (block_sectors d);
          m = put32 m 24 (file_initial_blocks d); m = put32 m 28 (inode_bitmap_start d);
          m = put32 m 32 (block_bitmap_start d); m = put32 m 36 (inode_table_start d);
          m = put32 m 40 (data_blocks_start d)
      in put32 m 44 (root_inode d))"

subsection \<open>Blocks\<close>

definition block_pos :: "myfs \<Rightarrow> u32 \<Rightarrow> nat" where
  "block_pos s lba = 512 * unat (lba * block_sectors (on_disk s))"

definition disk_read_block :: "myfs \<Rightarrow> u32 \<Rightarrow> bytes" where
  "disk_read_block s block_lba = (\<lambda>i. disk s (block_pos s block_lba + i))"

definition disk_write_block :: "u32 \<Rightarrow> bytes \<Rightarrow> myfs \<Rightarrow> myfs" where
  "disk_write_block block_lba buf s =
     s\<lparr>disk := mem_copy (disk s) (block_pos s block_lba) buf 0 (512 * unat (block_sectors (on_disk s)))\<rparr>"

subsection \<open>Bitmaps on disk\<close>

definition disk_read_bitmap :: "myfs \<Rightarrow> u32 \<Rightarrow> nat \<Rightarrow> bytes \<Rightarrow> bytes" where
  "disk_read_bitmap s block_addr bytes_to_read buf =
     (let bb = unat (block_bytes s);
          full_blocks = bytes_to_read div bb;
          remainder = bytes_to_read mod bb;
          buf = for_loop 0 full_blocks
                  (\<lambda>i buf. mem_copy buf (i * bb) (disk_read_block s (block_addr + of_nat i)) 0 bb) buf
      in if remainder > 0
         then mem_copy buf (full_blocks * bb) (disk_read_block s (block_addr + of_nat full_blocks)) 0 remainder
         else buf)"

definition disk_write_bitmap :: "u32 \<Rightarrow> bytes \<Rightarrow> nat \<Rightarrow> myfs \<Rightarrow> myfs" where
  "disk_write_bitmap block_addr buf buffer_bytes s =
     (let bb = unat (block_bytes s);
          full_blocks = buffer_bytes div bb;
          remainder = buffer_bytes mod bb;
          s = for_loop 0 full_blocks (\<lambda>i s. disk_write_block (block_addr + of_nat i) (\<lambda>k. buf (i * bb + k)) s) s
      in if remainder > 0
         then disk_write_block (block_addr + of_nat full_blocks)
                (mem_copy (mem_set (\<lambda>_. 0) 0 0 bb) 0 buf (full_blocks * bb) remainder) s
         else s)"

subsection \<open>Bitmaps in memory\<close>

text \<open>The index of the first clear bit from \<open>start_bit\<close> on, \<open>None\<close> for \<^verbatim>\<open>-1\<close>.\<close>

definition find_first_empty_bit :: "bytes \<Rightarrow> nat \<Rightarrow> nat \<Rightarrow> nat option" where
  "find_first_empty_bit bitmap size_in_bytes start_bit =
     (let byte_start = start_bit div 8; bit_start = start_bit mod 8;
          scan = (\<lambda>byte. if bitmap byte \<noteq> 0xFF
                    then List.find (\<lambda>b. bitmap byte AND push_bit b 1 = 0) [(if byte = byte_start then bit_start else 0)..<8]
                    else None)
      in case List.find (\<lambda>byte. scan byte \<noteq> None) [byte_start..<size_in_bytes] of
           None \<Rightarrow> None
         | Some byte \<Rightarrow> map_option (\<lambda>b. byte * 8 + b) (scan byte))"

definition bitmap_set_fs :: "bytes \<Rightarrow> nat \<Rightarrow> bytes" where
  "bitmap_set_fs bitmap num = bitmap(num div 8 := bitmap (num div 8) OR push_bit (num mod 8) 1)"

definition bitmap_clear_fs :: "bytes \<Rightarrow> nat \<Rightarrow> bytes" where
  "bitmap_clear_fs bitmap num = bitmap(num div 8 := bitmap (num div 8) AND NOT (push_bit (num mod 8) 1))"

definition bitmap_is_set :: "bytes \<Rightarrow> nat \<Rightarrow> bool" where
  "bitmap_is_set bitmap num \<longleftrightarrow> bitmap (num div 8) AND push_bit (num mod 8) 1 \<noteq> 0"

subsection \<open>Structures that cross block boundaries\<close>

text \<open>
  \<open>ptr\<close> is the position in the buffer \<open>data\<close>, \<open>cur_block\<close> and \<open>offset\<close> that on the disk. The result
  is the buffer and the state.
\<close>

partial_function (option) disk_rw_spanning :: "u32 \<Rightarrow> u32 \<Rightarrow> bytes \<Rightarrow> nat \<Rightarrow> u32 \<Rightarrow> bool \<Rightarrow> myfs \<Rightarrow> (bytes \<times> myfs) option" where
  "disk_rw_spanning cur_block offset data ptr remaining is_write s =
     (if remaining > 0 then
        (let chunk = (if block_bytes s - offset < remaining then block_bytes s - offset else remaining) in
         if is_write then
           (let block_buf = (if offset \<noteq> 0 \<or> remaining < block_bytes s then disk_read_block s cur_block else (\<lambda>_. 0));
                block_buf = mem_copy block_buf (unat offset) data ptr (unat chunk);
                s = disk_write_block cur_block block_buf s
            in disk_rw_spanning (cur_block + 1) 0 data (ptr + unat chunk) (remaining - chunk) is_write s)
         else
           (let block_buf = disk_read_block s cur_block;
                data = mem_copy data ptr block_buf (unat offset) (unat chunk)
            in disk_rw_spanning (cur_block + 1) 0 data (ptr + unat chunk) (remaining - chunk) is_write s))
      else Some (data, s))"

end
