(* ===== verification/MyfsInode.thy ===== *)
theory MyfsInode
  imports MyfsDisk
begin

text \<open>
  Inodes of \<^verbatim>\<open>kernel/src/fs/myfs/myfs.c\<close>: the cache, reference counts, block allocation, the map
  from file blocks to disk blocks, and reading, writing, truncating and freeing a file. An inode
  object is addressed by a number, 0 being NULL. \<open>None\<close> means that a call does not return, or that
  it uses an object that has been freed.
\<close>

subsection \<open>Objects\<close>

definition fs_alloc :: "myfs \<Rightarrow> nat \<times> myfs" where
  "fs_alloc s = ((if alloc_ok s (allocs s) then allocs s + 1 else 0), s\<lparr>allocs := allocs s + 1\<rparr>)"

definition set_inode :: "nat \<Rightarrow> MyfsInode \<Rightarrow> myfs \<Rightarrow> myfs" where
  "set_inode p n s = s\<lparr>inodes := (inodes s)(p := Some n)\<rparr>"

definition free_inode :: "nat \<Rightarrow> myfs \<Rightarrow> myfs" where
  "free_inode p s = s\<lparr>inodes := (inodes s)(p := None)\<rparr>"

subsection \<open>Inode cache\<close>

definition inode_hash :: "u32 \<Rightarrow> nat" where
  "inode_hash ino = unat ino mod INODE_HASH_SIZE"

text \<open>The first inode of a chain with the given number, 0 when there is none.\<close>

fun chain_find :: "(nat \<Rightarrow> MyfsInode option) \<Rightarrow> nat list \<Rightarrow> u32 \<Rightarrow> nat option" where
  "chain_find h [] ino = Some 0"
| "chain_find h (p # ps) ino = do { n \<leftarrow> h p; if i_ino n = ino then Some p else chain_find h ps ino }"

definition myfs_cache_find :: "u32 \<Rightarrow> myfs \<Rightarrow> nat option" where
  "myfs_cache_find ino s = chain_find (inodes s) (inode_hash_table s (inode_hash ino)) ino"

definition myfs_inode_cache_add :: "nat \<Rightarrow> myfs \<Rightarrow> myfs option" where
  "myfs_inode_cache_add p s =
     do { n \<leftarrow> inodes s p;
          let h = inode_hash (i_ino n);
          let (e, s) = fs_alloc s;
          if e = 0 then Some s
          else Some (s\<lparr>inode_hash_table := (inode_hash_table s)(h := p # inode_hash_table s h)\<rparr>) }"

definition myfs_inode_cache_remove :: "u32 \<Rightarrow> myfs \<Rightarrow> myfs option" where
  "myfs_inode_cache_remove ino s =
     do { p \<leftarrow> myfs_cache_find ino s;
          if p = 0 then Some s
          else
            (let h = inode_hash ino
             in Some (free_inode p (s\<lparr>inode_hash_table := (inode_hash_table s)(h := remove1 p (inode_hash_table s h))\<rparr>))) }"

subsection \<open>Reading and writing inodes\<close>

definition inode_block :: "myfs \<Rightarrow> u32 \<Rightarrow> u32" where
  "inode_block s ino = inode_table_start (on_disk s) + of_nat (unat ino * sizeof_inode div unat (block_bytes s))"

definition inode_offset :: "myfs \<Rightarrow> u32 \<Rightarrow> u32" where
  "inode_offset s ino = of_nat (unat ino * sizeof_inode mod unat (block_bytes s))"

definition myfs_disk_inode_read :: "u32 \<Rightarrow> myfs \<Rightarrow> (nat \<times> myfs) option" where
  "myfs_disk_inode_read ino s =
     (case fs_alloc s of (p, s) \<Rightarrow>
        if p = 0 then Some (0, s)
        else do {
          (data, s) \<leftarrow> disk_rw_spanning (inode_block s ino) (inode_offset s ino) (\<lambda>_. 0) 0 (of_nat sizeof_inode) False s;
          Some (p, set_inode p (inode_decode data) s) })"

definition myfs_iget :: "u32 \<Rightarrow> myfs \<Rightarrow> (nat \<times> myfs) option" where
  "myfs_iget ino s =
     (if \<not> bitmap_is_set (inode_bitmap s) (unat ino) then Some (0, s)
      else do {
        p \<leftarrow> myfs_cache_find ino s;
        if p \<noteq> 0 then do { n \<leftarrow> inodes s p; Some (p, set_inode p (n\<lparr>ref_count := ref_count n + 1\<rparr>) s) }
        else do {
          (p, s) \<leftarrow> myfs_disk_inode_read ino s;
          if p = 0 then Some (0, s)
          else do {
            n \<leftarrow> inodes s p;
            s \<leftarrow> myfs_inode_cache_add p (set_inode p (n\<lparr>ref_count := 1, dirty := 1\<rparr>) s);
            Some (p, s) } } })"

text \<open>
  \<^verbatim>\<open>myfs_iput\<close> and \<^verbatim>\<open>myfs_disk_inode_write\<close> call each other, but the inner \<^verbatim>\<open>myfs_iput\<close> always finds
  the inode clean and does not write it again: \<open>iput_clean\<close> is that case.
\<close>

definition iput_clean :: "nat \<Rightarrow> myfs \<Rightarrow> myfs option" where
  "iput_clean p s =
     do { n \<leftarrow> inodes s p;
          let n = n\<lparr>ref_count := ref_count n - 1\<rparr>;
          let s = set_inode p n s;
          if ref_count n = 0 then myfs_inode_cache_remove (i_ino n) s else Some s }"

definition myfs_disk_inode_write :: "u32 \<Rightarrow> myfs \<Rightarrow> (int \<times> myfs) option" where
  "myfs_disk_inode_write ino s =
     do { (p, s) \<leftarrow> myfs_iget ino s;
          if p = 0 then Some (- 1, s)
          else do {
            n \<leftarrow> inodes s p;
            if dirty n = 0 then do { s \<leftarrow> iput_clean p s; Some (0, s) }
            else do {
              (_, s) \<leftarrow> disk_rw_spanning (inode_block s (i_ino n)) (inode_offset s (i_ino n)) (inode_encode n) 0
                          (of_nat sizeof_inode) True s;
              s \<leftarrow> iput_clean p (set_inode p (n\<lparr>dirty := 0\<rparr>) s);
              Some (0, s) } } }"

text \<open>After the write the inode may be gone: its number is then read from freed memory.\<close>

definition myfs_iput :: "nat \<Rightarrow> myfs \<Rightarrow> myfs option" where
  "myfs_iput p s =
     (if p = 0 then Some s
      else do {
        n \<leftarrow> inodes s p;
        let n = n\<lparr>ref_count := ref_count n - 1\<rparr>;
        let s = set_inode p n s;
        if ref_count n = 0 then do {
          s \<leftarrow> (if dirty n \<noteq> 0 then do { (_, s) \<leftarrow> myfs_disk_inode_write (i_ino n) s; Some s } else Some s);
          myfs_inode_cache_remove (case inodes s p of Some n \<Rightarrow> i_ino n | None \<Rightarrow> stale s p) s }
        else Some s })"

text \<open>Only the first inode of each bucket is looked at.\<close>

definition inodes_flush :: "myfs \<Rightarrow> myfs option" where
  "inodes_flush s =
     for_loop 0 INODE_HASH_SIZE
       (\<lambda>i r. do { s \<leftarrow> r;
                 (case inode_hash_table s i of
                    [] \<Rightarrow> Some s
                  | p # _ \<Rightarrow> do { n \<leftarrow> inodes s p;
                                if dirty n \<noteq> 0 then do { (_, s) \<leftarrow> myfs_disk_inode_write (i_ino n) s; Some s }
                                else Some s }) }) (Some s)"

subsection \<open>Blocks of a file\<close>

definition ptrs_per_block :: "myfs \<Rightarrow> u32" where
  "ptrs_per_block s = block_bytes s div 4"

definition read_ptr_from_block :: "myfs \<Rightarrow> u32 \<Rightarrow> u32 \<Rightarrow> u32" where
  "read_ptr_from_block s block_lba slot = get32 (disk_read_block s block_lba) (4 * unat slot)"

definition write_ptr_to_block :: "u32 \<Rightarrow> u32 \<Rightarrow> u32 \<Rightarrow> myfs \<Rightarrow> myfs" where
  "write_ptr_to_block block_lba slot ptr s =
     disk_write_block block_lba (put32 (disk_read_block s block_lba) (4 * unat slot) ptr) s"

definition myfs_block_lba_get :: "myfs \<Rightarrow> MyfsInode \<Rightarrow> u32 \<Rightarrow> u32" where
  "myfs_block_lba_get s n logical_block_idx =
     (let ppb = ptrs_per_block s in
      if unat logical_block_idx < MYFS_DIRECT_BLOCKS_MAX then block_ptrs n ! unat logical_block_idx
      else
        (let relative_idx = logical_block_idx - of_nat MYFS_DIRECT_BLOCKS_MAX in
         if relative_idx < ppb then
           if single_indirect_ptr n = 0 then 0 else read_ptr_from_block s (single_indirect_ptr n) relative_idx
         else
           (let relative_idx = relative_idx - ppb in
            if relative_idx < ppb * ppb then
              if double_indirect_ptr n = 0 then 0
              else
                (let sub_table_ptr = read_ptr_from_block s (double_indirect_ptr n) (relative_idx div ppb) in
                 if sub_table_ptr = 0 then 0 else read_ptr_from_block s sub_table_ptr (relative_idx mod ppb))
            else 0)))"

definition myfs_bitmap_alloc :: "myfs \<Rightarrow> u32 \<times> myfs" where
  "myfs_bitmap_alloc s =
     (case find_first_empty_bit (block_bitmap s) (unat ((total_blocks (on_disk s) + 7) div 8)) (unat (data_blocks_start (on_disk s))) of
        None \<Rightarrow> (0, s)
      | Some n \<Rightarrow> (of_nat n, s\<lparr>block_bitmap := bitmap_set_fs (block_bitmap s) n\<rparr>))"

definition myfs_bitmap_alloc_zeroed :: "myfs \<Rightarrow> u32 \<times> myfs" where
  "myfs_bitmap_alloc_zeroed s =
     (case myfs_bitmap_alloc s of (lba, s) \<Rightarrow>
        if lba = 0 then (0, s) else (lba, disk_write_block lba (\<lambda>_. 0) s))"

definition clear_block :: "u32 \<Rightarrow> myfs \<Rightarrow> myfs" where
  "clear_block lba s = s\<lparr>block_bitmap := bitmap_clear_fs (block_bitmap s) (unat lba)\<rparr>"

text \<open>The result \<open>True\<close> stands for 0, \<open>False\<close> for -1.\<close>

definition myfs_map_block_to_inode :: "u32 \<Rightarrow> u32 \<Rightarrow> MyfsInode \<Rightarrow> myfs \<Rightarrow> bool \<times> MyfsInode \<times> myfs" where
  "myfs_map_block_to_inode logical_idx phys_lba n s =
     (let ppb = ptrs_per_block s in
      if unat logical_idx < MYFS_DIRECT_BLOCKS_MAX
      then (True, n\<lparr>block_ptrs := (block_ptrs n)[unat logical_idx := phys_lba]\<rparr>, s)
      else
        (let rel_idx = logical_idx - of_nat MYFS_DIRECT_BLOCKS_MAX in
         if rel_idx < ppb then
           (let (n, s) = (if single_indirect_ptr n = 0
                          then (case myfs_bitmap_alloc_zeroed s of (t, s) \<Rightarrow> (n\<lparr>single_indirect_ptr := t\<rparr>, s))
                          else (n, s))
            in if single_indirect_ptr n = 0 then (False, n, s)
               else (True, n, write_ptr_to_block (single_indirect_ptr n) rel_idx phys_lba s))
         else
           (let rel_idx = rel_idx - ppb in
            if rel_idx < ppb * ppb then
              (let (n, s) = (if double_indirect_ptr n = 0
                             then (case myfs_bitmap_alloc_zeroed s of (t, s) \<Rightarrow> (n\<lparr>double_indirect_ptr := t\<rparr>, s))
                             else (n, s))
               in if double_indirect_ptr n = 0 then (False, n, s)
                  else
                    (let master_idx = rel_idx div ppb; sub_idx = rel_idx mod ppb;
                         sub = read_ptr_from_block s (double_indirect_ptr n) master_idx;
                         (sub, s) = (if sub = 0
                                     then (case myfs_bitmap_alloc_zeroed s of (t, s) \<Rightarrow>
                                             (t, if t = 0 then s else write_ptr_to_block (double_indirect_ptr n) master_idx t s))
                                     else (sub, s))
                     in if sub = 0 then (False, n, s) else (True, n, write_ptr_to_block sub sub_idx phys_lba s)))
            else (False, n, s))))"

text \<open>The allocation loop: \<open>k\<close> rounds to go, the next one for file block \<open>i\<close>.\<close>

fun blocks_alloc_loop :: "nat \<Rightarrow> u32 \<Rightarrow> MyfsInode \<Rightarrow> myfs \<Rightarrow> bool \<times> MyfsInode \<times> myfs" where
  "blocks_alloc_loop 0 i n s = (True, n, s)"
| "blocks_alloc_loop (Suc k) i n s =
     (case myfs_bitmap_alloc s of (b, s) \<Rightarrow>
        if b = 0 then (False, n, s)
        else (case myfs_map_block_to_inode i b n s of (ok, n, s) \<Rightarrow>
                if \<not> ok then (False, n, clear_block b s)
                else blocks_alloc_loop k (i + 1) (n\<lparr>block_count := block_count n + 1\<rparr>) s))"

definition myfs_blocks_alloc :: "u32 \<Rightarrow> MyfsInode \<Rightarrow> myfs \<Rightarrow> bool \<times> MyfsInode \<times> myfs" where
  "myfs_blocks_alloc count n s =
     (let new_total = block_count n + count in
      case blocks_alloc_loop (unat new_total - unat (block_count n)) (block_count n) n s of (ok, n, s) \<Rightarrow>
        if ok then (True, n\<lparr>dirty := 1\<rparr>, s) else (False, n, s))"

text \<open>\<^verbatim>\<open>myfs_inode_grow\<close> does not give the block back when it cannot be mapped.\<close>

fun inode_grow_loop :: "nat \<Rightarrow> u32 \<Rightarrow> MyfsInode \<Rightarrow> myfs \<Rightarrow> bool \<times> MyfsInode \<times> myfs" where
  "inode_grow_loop 0 i n s = (True, n, s)"
| "inode_grow_loop (Suc k) i n s =
     (case myfs_bitmap_alloc s of (b, s) \<Rightarrow>
        if b = 0 then (False, n, s)
        else (case myfs_map_block_to_inode i b n s of (ok, n, s) \<Rightarrow>
                if \<not> ok then (False, n, s)
                else inode_grow_loop k (i + 1) (n\<lparr>block_count := block_count n + 1\<rparr>) s))"

definition myfs_inode_grow :: "u32 \<Rightarrow> MyfsInode \<Rightarrow> myfs \<Rightarrow> bool \<times> MyfsInode \<times> myfs" where
  "myfs_inode_grow new_total_blocks n s =
     (case inode_grow_loop (unat new_total_blocks - unat (block_count n)) (block_count n) n s of (ok, n, s) \<Rightarrow>
        if ok then (True, n\<lparr>dirty := 1\<rparr>, s) else (False, n, s))"

definition myfs_blocks_free :: "nat \<Rightarrow> MyfsInode \<Rightarrow> myfs \<Rightarrow> myfs" where
  "myfs_blocks_free count n s = for_loop 0 count (\<lambda>i s. clear_block (myfs_block_lba_get s n (of_nat i)) s) s"

subsection \<open>Reading and writing files\<close>

abbreviation min32 :: "u32 \<Rightarrow> u32 \<Rightarrow> u32" where
  "min32 a b \<equiv> (if a < b then a else b)"

text \<open>The loop of \<^verbatim>\<open>myfs_node_write\<close>: \<open>False\<close> for the early return, and the final \<^verbatim>\<open>offset\<close>.\<close>

partial_function (option) node_write_loop ::
  "MyfsInode \<Rightarrow> u32 \<Rightarrow> bytes \<Rightarrow> u32 \<Rightarrow> u32 \<Rightarrow> myfs \<Rightarrow> (bool \<times> u32 \<times> myfs) option" where
  "node_write_loop n offset buf bytes_written count s =
     (if bytes_written < count then
        (let block_idx = offset div block_bytes s;
             block_offset = offset mod block_bytes s;
             to_write = min32 (block_bytes s - block_offset) (count - bytes_written);
             block_lba = myfs_block_lba_get s n block_idx
         in if block_lba = 0 then Some (False, offset, s)
            else
              (let block_buf = (if to_write < block_bytes s then disk_read_block s block_lba else (\<lambda>_. 0));
                   block_buf = mem_copy block_buf (unat block_offset) buf (unat bytes_written) (unat to_write);
                   s = disk_write_block block_lba block_buf s
               in node_write_loop n (offset + to_write) buf (bytes_written + to_write) count s))
      else Some (True, offset, s))"

definition myfs_node_write :: "nat \<Rightarrow> u32 \<Rightarrow> bytes \<Rightarrow> u32 \<Rightarrow> myfs \<Rightarrow> (int \<times> myfs) option" where
  "myfs_node_write p offset buf count s =
     (if p = 0 \<or> count = 0 then Some (0, s)
      else do {
        n \<leftarrow> inodes s p;
        let target_blocks = (offset + count + block_bytes s - 1) div block_bytes s;
        let (ok, n, s) = (if target_blocks > block_count n then myfs_blocks_alloc (target_blocks - block_count n) n s
                          else (True, n, s));
        let s = set_inode p n s;
        if \<not> ok then Some (- 1, s)
        else do {
          (ok, offset, s) \<leftarrow> node_write_loop n offset buf 0 count s;
          if \<not> ok then Some (- 1, s)
          else do {
            let s = set_inode p (n\<lparr>i_size := (if offset > i_size n then offset else i_size n), dirty := 1\<rparr>) s;
            (_, s) \<leftarrow> myfs_disk_inode_write (i_ino n) s;
            Some (int (unat count), s) } } })"

partial_function (option) node_read_loop ::
  "myfs \<Rightarrow> MyfsInode \<Rightarrow> u32 \<Rightarrow> bytes \<Rightarrow> u32 \<Rightarrow> u32 \<Rightarrow> (u32 \<times> bytes) option" where
  "node_read_loop s n offset out total_read count =
     (if total_read < count then
        (let logical_block = offset div block_bytes s;
             internal_offset = offset mod block_bytes s;
             chunk_size = min32 (block_bytes s - internal_offset) (count - total_read);
             physical_lba = myfs_block_lba_get s n logical_block;
             out = (if physical_lba = 0 then mem_set out (unat total_read) 0 (unat chunk_size)
                    else mem_copy out (unat total_read) (disk_read_block s physical_lba) (unat internal_offset) (unat chunk_size))
         in node_read_loop s n (offset + chunk_size) out (total_read + chunk_size) count)
      else Some (total_read, out))"

definition myfs_node_read :: "nat \<Rightarrow> u32 \<Rightarrow> bytes \<Rightarrow> u32 \<Rightarrow> myfs \<Rightarrow> (int \<times> bytes) option" where
  "myfs_node_read p offset buf count s =
     (if p = 0 then Some (0, buf)
      else do {
        n \<leftarrow> inodes s p;
        if offset \<ge> i_size n then Some (0, buf)
        else do {
          let count = (if offset + count > i_size n then i_size n - offset else count);
          (total_read, out) \<leftarrow> node_read_loop s n offset buf 0 count;
          Some (int (unat total_read), out) } })"

subsection \<open>Freeing, truncating, allocating\<close>

definition free_data_blocks :: "MyfsInode \<Rightarrow> myfs \<Rightarrow> myfs" where
  "free_data_blocks n s =
     for_loop 0 (unat (block_count n))
       (\<lambda>i s. let lba = myfs_block_lba_get s n (of_nat i) in if lba \<noteq> 0 then clear_block lba s else s) s"

definition free_tables :: "MyfsInode \<Rightarrow> myfs \<Rightarrow> myfs" where
  "free_tables n s =
     (let s = (if single_indirect_ptr n \<noteq> 0 then clear_block (single_indirect_ptr n) s else s)
      in if double_indirect_ptr n \<noteq> 0
         then
           (let master = disk_read_block s (double_indirect_ptr n);
                s = for_loop 0 (unat (ptrs_per_block s))
                      (\<lambda>i s. if get32 master (4 * i) \<noteq> 0 then clear_block (get32 master (4 * i)) s else s) s
            in clear_block (double_indirect_ptr n) s)
         else s)"

definition myfs_inode_free :: "nat \<Rightarrow> myfs \<Rightarrow> myfs option" where
  "myfs_inode_free p s =
     (if p = 0 then Some s
      else do {
        n \<leftarrow> inodes s p;
        let s = free_tables n (free_data_blocks n s);
        let s = set_inode p (n\<lparr>single_indirect_ptr := 0, double_indirect_ptr := 0\<rparr>) s;
        let s = s\<lparr>inode_bitmap := bitmap_clear_fs (inode_bitmap s) (unat (i_ino n))\<rparr>;
        myfs_inode_cache_remove (i_ino n) s })"

definition truncate_block :: "nat \<Rightarrow> MyfsInode \<times> myfs \<Rightarrow> MyfsInode \<times> myfs" where
  "truncate_block i = (\<lambda>(n, s).
     (let lba = myfs_block_lba_get s n (of_nat i);
          s = (if lba \<noteq> 0 then clear_block lba s else s);
          (_, n, s) = myfs_map_block_to_inode (of_nat i) 0 n s
      in (n, s)))"

definition myfs_inode_truncate :: "nat \<Rightarrow> u32 \<Rightarrow> myfs \<Rightarrow> (int \<times> myfs) option" where
  "myfs_inode_truncate p new_size s =
     (if p = 0 then Some (- 1, s)
      else do {
        n \<leftarrow> inodes s p;
        let (n, s) = (if new_size < i_size n
          then (let new_blocks = (new_size + block_bytes s - 1) div block_bytes s;
                    (n, s) = for_loop (unat new_blocks) (unat (block_count n)) truncate_block (n, s)
                in (n\<lparr>block_count := new_blocks\<rparr>, s))
          else (n, s));
        Some (0, set_inode p (n\<lparr>i_size := new_size, mtime := 0, dirty := 1\<rparr>) s) })"

definition S_IFMT :: u32 where
  "S_IFMT = 0xF000"

definition S_IFLNK :: u32 where
  "S_IFLNK = 0xA000"

definition S_IFREG :: u32 where
  "S_IFREG = 0x8000"

definition S_IFDIR :: u32 where
  "S_IFDIR = 0x4000"

definition S_ISDIR :: "u32 \<Rightarrow> bool" where
  "S_ISDIR m \<longleftrightarrow> m AND S_IFMT = S_IFDIR"

definition S_ISREG :: "u32 \<Rightarrow> bool" where
  "S_ISREG m \<longleftrightarrow> m AND S_IFMT = S_IFREG"

definition S_ISLNK :: "u32 \<Rightarrow> bool" where
  "S_ISLNK m \<longleftrightarrow> m AND S_IFMT = S_IFLNK"

definition zero_inode :: MyfsInode where
  "zero_inode = \<lparr>i_ino = 0, block_ptrs = replicate MYFS_DIRECT_BLOCKS_MAX 0, single_indirect_ptr = 0,
     double_indirect_ptr = 0, block_count = 0, i_size = 0, i_mode = 0, ref_count = 0, links_count = 0, i_uid = 0,
     i_gid = 0, permissions = 0, atime = 0, mtime = 0, ctime = 0, dirty = 0\<rparr>"

text \<open>The status and the new inode, which is only meaningful when the status is 0.\<close>

definition myfs_inode_alloc :: "u32 \<Rightarrow> myfs \<Rightarrow> (int \<times> nat \<times> myfs) option" where
  "myfs_inode_alloc mode s =
     (let bitmap_size_bytes = unat ((total_inodes (on_disk s) + 7) div 8) in
      case find_first_empty_bit (inode_bitmap s) bitmap_size_bytes 0 of
        None \<Rightarrow> Some (- 1, 0, s)
      | Some inode_num \<Rightarrow>
          (let s = s\<lparr>inode_bitmap := bitmap_set_fs (inode_bitmap s) inode_num\<rparr>;
               bb = unat (block_bytes s);
               bitmap_block_idx = inode_num div (bb * 8);
               bytes_to_write = min (bitmap_size_bytes - bitmap_block_idx * bb) bb;
               s = disk_write_bitmap (inode_bitmap_start (on_disk s) + of_nat bitmap_block_idx)
                     (\<lambda>k. inode_bitmap s (bitmap_block_idx * bb + k)) bytes_to_write s;
               undo = (\<lambda>s. s\<lparr>inode_bitmap := bitmap_clear_fs (inode_bitmap s) inode_num\<rparr>)
           in case fs_alloc s of (p, s) \<Rightarrow>
                if p = 0 then Some (- 1, 0, undo s)
                else
                  (case myfs_blocks_alloc (file_initial_blocks (on_disk s))
                          (zero_inode\<lparr>i_ino := of_nat inode_num, i_mode := mode\<rparr>) s of (ok, n, s) \<Rightarrow>
                     if \<not> ok then Some (- 1, 0, undo s)
                     else do {
                       let n = n\<lparr>block_count := (if S_ISREG mode then file_initial_blocks (on_disk s)
                                   else if S_ISDIR mode then 1 else if S_ISLNK mode then 0 else 1),
                                 ref_count := 1, links_count := 1,
                                 permissions := (if S_ISDIR mode then 0x1ED else 0x1A4), dirty := 1,
                                 atime := 0, mtime := 0, ctime := 0\<rparr>;
                       s \<leftarrow> myfs_inode_cache_add p (set_inode p n s);
                       (_, s) \<leftarrow> myfs_disk_inode_write (i_ino n) s;
                       Some (0, p, s) })))"

end
