(* ===== verification/Myfs.thy ===== *)
theory Myfs
  imports MyfsInode KString
begin

text \<open>
  Directories of \<^verbatim>\<open>kernel/src/fs/myfs/myfs.c\<close> and the operations on them, symbolic links, and making,
  mounting and unmounting a file system. A name is the list of its bytes without the terminator.
\<close>

subsection \<open>Directory entries\<close>

text \<open>The entry at position \<open>i\<close> of a buffer has the given name: its \<^verbatim>\<open>strcmp\<close> with the name is 0.\<close>

definition name_matches :: "bytes \<Rightarrow> nat \<Rightarrow> u8 list \<Rightarrow> bool" where
  "name_matches m a name \<longleftrightarrow> list_all (\<lambda>i. m (a + i) = name ! i) [0..<length name] \<and> m (a + length name) = 0"

definition myfs_entry_idx_find :: "bytes \<Rightarrow> nat \<Rightarrow> u8 list \<Rightarrow> nat option" where
  "myfs_entry_idx_find entries entries_count name =
     List.find (\<lambda>i. name_matches entries (i * sizeof_dirent) name) [0..<entries_count]"

text \<open>A buffer of \<open>sz\<close> bytes from \<^verbatim>\<open>kmalloc\<close>: whether there is one.\<close>

definition buf_alloc :: "u32 \<Rightarrow> myfs \<Rightarrow> bool \<times> myfs" where
  "buf_alloc sz s = (case fs_alloc s of (p, s) \<Rightarrow> (sz \<noteq> 0 \<and> p \<noteq> 0, s))"

definition myfs_lookup :: "nat \<Rightarrow> u8 list \<Rightarrow> myfs \<Rightarrow> (u32 option \<times> myfs) option" where
  "myfs_lookup dir name s =
     (if dir = 0 then Some (None, s)
      else do {
        d \<leftarrow> inodes s dir;
        if \<not> S_ISDIR (i_mode d) \<or> i_size d = 0 then Some (None, s)
        else do {
          let entries_count = unat (i_size d) div sizeof_dirent;
          let (ok, s) = buf_alloc (i_size d) s;
          if \<not> ok then Some (None, s)
          else do {
            (r, entries) \<leftarrow> myfs_node_read dir 0 (\<lambda>_. 0) (i_size d) s;
            if r < 0 then Some (None, s)
            else Some (map_option (\<lambda>idx. get32 entries (idx * sizeof_dirent + 32)) (myfs_entry_idx_find entries entries_count name), s) } } })"

definition dirent :: "u8 list \<Rightarrow> u32 \<Rightarrow> bytes" where
  "dirent name inode_num = put32 (\<lambda>i. if i < 31 \<and> i < length name then name ! i else 0) 32 inode_num"

definition myfs_dir_add_entry :: "nat \<Rightarrow> u8 list \<Rightarrow> u32 \<Rightarrow> myfs \<Rightarrow> (int \<times> myfs) option" where
  "myfs_dir_add_entry dir name inode_num s =
     (if dir = 0 then Some (- 1, s)
      else do {
        d \<leftarrow> inodes s dir;
        if \<not> S_ISDIR (i_mode d) then Some (- 1, s)
        else do {
          (existing, s) \<leftarrow> myfs_lookup dir name s;
          if existing \<noteq> None then Some (- 1, s)
          else myfs_node_write dir (i_size d) (dirent name inode_num) (of_nat sizeof_dirent) s } })"

definition myfs_dir_rm_entry :: "nat \<Rightarrow> u8 list \<Rightarrow> myfs \<Rightarrow> (int \<times> myfs) option" where
  "myfs_dir_rm_entry dir name s =
     (if dir = 0 then Some (- 1, s)
      else do {
        d \<leftarrow> inodes s dir;
        if \<not> S_ISDIR (i_mode d) then Some (- 1, s)
        else do {
          let entries_count = unat (i_size d) div sizeof_dirent;
          let (ok, s) = buf_alloc (i_size d) s;
          if \<not> ok then Some (- 1, s)
          else do {
            (r, entries) \<leftarrow> myfs_node_read dir 0 (\<lambda>_. 0) (i_size d) s;
            if r < 0 then Some (- 1, s)
            else
              (case myfs_entry_idx_find entries entries_count name of
                 None \<Rightarrow> Some (- 1, s)
               | Some idx \<Rightarrow>
                   do { let entries = for_loop idx (entries_count - 1)
                              (\<lambda>i e. mem_copy e (i * sizeof_dirent) e ((i + 1) * sizeof_dirent) sizeof_dirent) entries;
                        let new_size = of_nat ((entries_count - 1) * sizeof_dirent);
                        (_, s) \<leftarrow> myfs_node_write dir 0 entries new_size s;
                        (_, s) \<leftarrow> myfs_inode_truncate dir new_size s;
                        Some (0, s) }) } } })"

definition myfs_readdir :: "nat \<Rightarrow> u32 \<Rightarrow> bytes \<Rightarrow> myfs \<Rightarrow> (int \<times> bytes) option" where
  "myfs_readdir dir offset entry s =
     (if dir = 0 then Some (- 1, entry)
      else do {
        d \<leftarrow> inodes s dir;
        if \<not> S_ISDIR (i_mode d) then Some (- 1, entry)
        else if offset \<ge> i_size d then Some (0, entry)
        else myfs_node_read dir offset entry (of_nat sizeof_dirent) s })"

subsection \<open>Creating, removing, renaming\<close>

text \<open>The shared part of the three create operations: a fresh inode entered in the directory.\<close>

definition create_entry :: "nat \<Rightarrow> u8 list \<Rightarrow> nat \<Rightarrow> myfs \<Rightarrow> (bool \<times> myfs) option" where
  "create_entry parent_dir name new_inode s =
     do { n \<leftarrow> inodes s new_inode;
          (r, s) \<leftarrow> myfs_dir_add_entry parent_dir name (i_ino n) s;
          if r < 0 then do { s \<leftarrow> myfs_inode_free new_inode s; Some (False, s) } else Some (True, s) }"

definition myfs_create_file :: "nat \<Rightarrow> u8 list \<Rightarrow> myfs \<Rightarrow> (int \<times> u32 option \<times> myfs) option" where
  "myfs_create_file parent_dir name s =
     do { (existing, s) \<leftarrow> myfs_lookup parent_dir name s;
          if existing \<noteq> None then Some (- EEXIST, None, s)
          else do {
            (r, new_inode, s) \<leftarrow> myfs_inode_alloc S_IFREG s;
            if r < 0 then Some (- 1, None, s)
            else do {
              (ok, s) \<leftarrow> create_entry parent_dir name new_inode s;
              if \<not> ok then Some (- 1, None, s)
              else do {
                n \<leftarrow> inodes s new_inode;
                s \<leftarrow> myfs_iput new_inode s;
                Some (0, Some (i_ino n), s) } } } }"

definition myfs_create_dir :: "nat \<Rightarrow> u8 list \<Rightarrow> myfs \<Rightarrow> (int \<times> u32 option \<times> myfs) option" where
  "myfs_create_dir parent_dir name s =
     do { (existing, s) \<leftarrow> myfs_lookup parent_dir name s;
          if existing \<noteq> None then Some (- EEXIST, None, s)
          else do {
            (r, new_inode, s) \<leftarrow> myfs_inode_alloc S_IFDIR s;
            if r < 0 then Some (- 1, None, s)
            else do {
              (ok, s) \<leftarrow> create_entry parent_dir name new_inode s;
              if \<not> ok then Some (- 1, None, s)
              else do {
                n \<leftarrow> inodes s new_inode;
                (_, s) \<leftarrow> myfs_dir_add_entry new_inode [0x2E] (i_ino n) s;
                d \<leftarrow> inodes s parent_dir;
                (_, s) \<leftarrow> myfs_dir_add_entry new_inode [0x2E, 0x2E] (i_ino d) s;
                n \<leftarrow> inodes s new_inode;
                s \<leftarrow> myfs_iput new_inode s;
                Some (0, Some (i_ino n), s) } } } }"

definition myfs_unlink :: "nat \<Rightarrow> u8 list \<Rightarrow> myfs \<Rightarrow> (int \<times> myfs) option" where
  "myfs_unlink parent_dir name s =
     do { (target_ino, s) \<leftarrow> myfs_lookup parent_dir name s;
          (case target_ino of
             None \<Rightarrow> Some (- ENOENT, s)
           | Some target_ino \<Rightarrow>
               do { (target, s) \<leftarrow> myfs_iget target_ino s;
                    s \<leftarrow> myfs_inode_free target s;
                    myfs_dir_rm_entry parent_dir name s }) }"

definition myfs_remove_dir :: "nat \<Rightarrow> u8 list \<Rightarrow> myfs \<Rightarrow> (int \<times> myfs) option" where
  "myfs_remove_dir parent_dir name s =
     do { (target_ino, s) \<leftarrow> myfs_lookup parent_dir name s;
          (case target_ino of
             None \<Rightarrow> Some (- ENOENT, s)
           | Some target_ino \<Rightarrow>
               do { (target, s) \<leftarrow> myfs_iget target_ino s;
                    if target = 0 then Some (- ENOENT, s)
                    else do {
                      t \<leftarrow> inodes s target;
                      if \<not> S_ISDIR (i_mode t) then do { s \<leftarrow> myfs_iput target s; Some (- ENOTDIR, s) }
                      else if unat (i_size t) div sizeof_dirent > 2
                      then do { s \<leftarrow> myfs_iput target s; Some (- ENOTEMPTY, s) }
                      else do { s \<leftarrow> myfs_inode_free target s; myfs_dir_rm_entry parent_dir name s } } }) }"

definition myfs_rename :: "nat \<Rightarrow> u8 list \<Rightarrow> nat \<Rightarrow> u8 list \<Rightarrow> myfs \<Rightarrow> (int \<times> myfs) option" where
  "myfs_rename old_parent old_name new_parent new_name s =
     do { (found_ino, s) \<leftarrow> myfs_lookup old_parent old_name s;
          (case found_ino of
             None \<Rightarrow> Some (- 1, s)
           | Some found_ino \<Rightarrow>
               do { (r, s) \<leftarrow> myfs_dir_rm_entry old_parent old_name s;
                    if r = - 1 then Some (- 1, s)
                    else do {
                      (_, s) \<leftarrow> myfs_unlink new_parent new_name s;
                      myfs_dir_add_entry new_parent new_name found_ino s } }) }"

subsection \<open>Symbolic links\<close>

definition myfs_symlink_read :: "nat \<Rightarrow> bytes \<Rightarrow> u32 \<Rightarrow> myfs \<Rightarrow> (int \<times> bytes) option" where
  "myfs_symlink_read p buf bufsize s =
     do { n \<leftarrow> inodes s p;
          if \<not> S_ISLNK (i_mode n) then Some (- 1, buf)
          else myfs_node_read p 0 buf (min32 (i_size n) bufsize) s }"

definition myfs_create_symlink :: "nat \<Rightarrow> u8 list \<Rightarrow> u8 list \<Rightarrow> myfs \<Rightarrow> (int \<times> myfs) option" where
  "myfs_create_symlink parent_dir name target s =
     do { (existing, s) \<leftarrow> myfs_lookup parent_dir name s;
          if existing \<noteq> None then Some (- 1, s)
          else do {
            (r, new_inode, s) \<leftarrow> myfs_inode_alloc S_IFLNK s;
            if r < 0 then Some (- 1, s)
            else do {
              (r, s) \<leftarrow> myfs_node_write new_inode 0 (\<lambda>i. if i < length target then target ! i else 0) (of_nat (length target)) s;
              if r < 0 then do { s \<leftarrow> myfs_inode_free new_inode s; Some (- 1, s) }
              else do {
                (ok, s) \<leftarrow> create_entry parent_dir name new_inode s;
                if \<not> ok then Some (- 1, s)
                else do { s \<leftarrow> myfs_iput new_inode s; Some (0, s) } } } } }"

subsection \<open>Making, mounting and unmounting\<close>

definition MYFS_BLOCK_SECTORS :: u32 where
  "MYFS_BLOCK_SECTORS = 4"

definition MYFS_FILE_INIT_BLOCK_COUNT :: u32 where
  "MYFS_FILE_INIT_BLOCK_COUNT = 1"

definition MYFS_BLOCK_BYTES :: u32 where
  "MYFS_BLOCK_BYTES = SECTOR_BYTES * MYFS_BLOCK_SECTORS"

definition format_layout :: "u32 \<Rightarrow> MyfsDiskSuperBlock" where
  "format_layout max_sectors =
     (let total_blocks = max_sectors div MYFS_BLOCK_SECTORS;
          total_inodes = total_blocks div 4;
          block_bitmap_start = 1;
          inode_bitmap_start = block_bitmap_start + (total_blocks + MYFS_BLOCK_BYTES - 1) div MYFS_BLOCK_BYTES;
          inode_table_start = inode_bitmap_start + (total_inodes + MYFS_BLOCK_BYTES - 1) div MYFS_BLOCK_BYTES;
          data_blocks_start = inode_table_start + (total_inodes * of_nat sizeof_inode + MYFS_BLOCK_BYTES - 1) div MYFS_BLOCK_BYTES
      in \<lparr>magic = MYFS_MAGIC, total_inodes = total_inodes, total_blocks = total_blocks, free_inodes = 0, free_blocks = 0,
          block_sectors = MYFS_BLOCK_SECTORS, file_initial_blocks = MYFS_FILE_INIT_BLOCK_COUNT,
          inode_bitmap_start = inode_bitmap_start, block_bitmap_start = block_bitmap_start,
          inode_table_start = inode_table_start, data_blocks_start = data_blocks_start, root_inode = MYFS_ROOT_INODE_NUM\<rparr>)"

text \<open>
  The temporary superblock of \<^verbatim>\<open>myfs_format\<close> on a device \<open>d\<close>. \<^verbatim>\<open>disk_write_block\<close> writes a whole
  block from the 48 byte struct; \<open>stack\<close> are the bytes behind it.
\<close>

definition format_state :: "MyfsDiskSuperBlock \<Rightarrow> bytes \<Rightarrow> (nat \<Rightarrow> bool) \<Rightarrow> (nat \<Rightarrow> u32) \<Rightarrow> myfs" where
  "format_state l d oom junk = \<lparr>on_disk = l, block_bytes = MYFS_BLOCK_BYTES, block_bitmap = (\<lambda>_. 0), inode_bitmap = (\<lambda>_. 0),
     inode_hash_table = (\<lambda>_. []), mounted = False, disk = d, inodes = (\<lambda>_. None), alloc_ok = oom, allocs = 0, stale = junk\<rparr>"

definition myfs_format :: "u32 \<Rightarrow> bytes \<Rightarrow> (nat \<Rightarrow> bool) \<Rightarrow> (nat \<Rightarrow> u32) \<Rightarrow> bytes \<Rightarrow> (int \<times> bytes) option" where
  "myfs_format max_sectors d oom junk stack =
     (let l = format_layout max_sectors;
          s = disk_write_block 0 (sb_encode l stack) (format_state l d oom junk);
          inode_bitmap_bytes = (total_inodes l + 7) div 8;
          block_bitmap_bytes = (total_blocks l + 7) div 8;
          (ok1, s) = buf_alloc inode_bitmap_bytes s;
          (ok2, s) = buf_alloc block_bitmap_bytes s
      in if \<not> ok1 \<or> \<not> ok2 then Some (- 1, disk s)
         else
           (let s = s\<lparr>block_bitmap := for_loop 0 (unat (data_blocks_start l)) (\<lambda>i b. bitmap_set_fs b i) (block_bitmap s)\<rparr>
            in do {
              (r, root, s) \<leftarrow> myfs_inode_alloc S_IFDIR s;
              if r < 0 then Some (- 1, disk s)
              else do {
                n \<leftarrow> inodes s root;
                (_, s) \<leftarrow> myfs_dir_add_entry root [0x2E] (i_ino n) s;
                (_, s) \<leftarrow> myfs_dir_add_entry root [0x2E, 0x2E] (i_ino n) s;
                s \<leftarrow> myfs_iput root s;
                let s = disk_write_bitmap (block_bitmap_start l) (block_bitmap s) (unat block_bitmap_bytes) s;
                let s = disk_write_bitmap (inode_bitmap_start l) (inode_bitmap s) (unat inode_bitmap_bytes) s;
                Some (0, disk s) } }))"

text \<open>Mounting: \<open>None\<close> in the result is NULL; a device whose block size is 0 divides by zero.\<close>

definition myfs_sb_read :: "bytes \<Rightarrow> (nat \<Rightarrow> bool) \<Rightarrow> (nat \<Rightarrow> u32) \<Rightarrow> myfs option option" where
  "myfs_sb_read d oom junk =
     (let l = sb_decode d;
          s = (format_state l d oom junk)\<lparr>block_bytes := block_sectors l * SECTOR_BYTES\<rparr>;
          (ok0, s) = buf_alloc 1 s
      in if \<not> ok0 \<or> magic l \<noteq> MYFS_MAGIC then Some None
         else
           (let block_bitmap_bytes = (total_blocks l + 7) div 8;
                inode_bitmap_bytes = (total_inodes l + 7) div 8;
                (ok1, s) = buf_alloc block_bitmap_bytes s;
                (ok2, s) = buf_alloc inode_bitmap_bytes s
            in if \<not> ok1 \<or> \<not> ok2 then Some None
               else if block_bytes s = 0 then None
               else
                 (let s = s\<lparr>block_bitmap := disk_read_bitmap s (block_bitmap_start l) (unat block_bitmap_bytes) (\<lambda>_. 0)\<rparr>;
                      s = s\<lparr>inode_bitmap := disk_read_bitmap s (inode_bitmap_start l) (unat inode_bitmap_bytes) (\<lambda>_. 0)\<rparr>
                  in Some (Some (s\<lparr>mounted := True\<rparr>)))))"

text \<open>Unmounting: what is left is the device.\<close>

definition myfs_sb_kill :: "myfs \<Rightarrow> bytes option" where
  "myfs_sb_kill s =
     do { s \<leftarrow> inodes_flush s;
          let l = on_disk s;
          let s = disk_write_bitmap (block_bitmap_start l) (block_bitmap s) (unat ((total_blocks l + 7) div 8)) s;
          let s = disk_write_bitmap (inode_bitmap_start l) (inode_bitmap s) (unat ((total_inodes l + 7) div 8)) s;
          Some (disk s) }"

end
