(* ===== verification/MyfsProps.thy ===== *)
theory MyfsProps
  imports Myfs
begin

text \<open>
  Correctness of the on-disk structures of MyFS: the bitmap search, structures that span blocks,
  the inode table, and the map from file blocks to disk blocks.
\<close>

subsection \<open>Bitmaps\<close>

lemma myfs_bitmap_ops:
  "bitmap_is_set = bitmap_test" "bitmap_set_fs = bitmap_set" "bitmap_clear_fs = bitmap_clear"
  by (simp_all add: fun_eq_iff bitmap_is_set_def bitmap_test_def bitmap_set_fs_def bitmap_set_def bitmap_clear_fs_def bitmap_clear_def)

interpretation fb: bit_array bitmap_is_set bitmap_set_fs bitmap_clear_fs
  unfolding myfs_bitmap_ops by (rule bm.bit_array_axioms)

lemma bitmap_is_set_bit: "bitmap_is_set b i \<longleftrightarrow> bit (b (i div 8)) (i mod 8)"
  by (simp add: myfs_bitmap_ops bitmap_test_bit)

text \<open>The scan of one byte, which skips bytes without a clear bit.\<close>

lemma byte_scan:
  fixes v :: u8
  shows "(if v \<noteq> 0xFF then List.find (\<lambda>b. v AND push_bit b 1 = 0) [lo..<8] else None) = List.find (\<lambda>b. \<not> bit v b) [lo..<8]"
proof (cases "v = 0xFF")
  case True
  have "bit v k" if "k < 8" for k unfolding True using that by (auto simp: numeral_eq_Suc less_Suc_eq bit_simps bit_Suc)
  then have "List.find (\<lambda>b. \<not> bit v b) [lo..<8] = None" unfolding find_upt_None by blast
  then show ?thesis using True by simp
next
  case False
  have "List.find (\<lambda>b. v AND push_bit b 1 = 0) [lo..<8] = List.find (\<lambda>b. \<not> bit v b) [lo..<8]"
    by (rule find_cong [OF refl]) (use bit_and_push_iff in auto)
  then show ?thesis using False by simp
qed

lemma byte_bit: "k < 8 \<Longrightarrow> bitmap_is_set b (byte * 8 + k) \<longleftrightarrow> bit (b byte) k"
  by (simp add: bitmap_is_set_bit)

lemma find_first_empty_bit_find:
  "find_first_empty_bit b nbytes start = List.find (\<lambda>i. \<not> bitmap_is_set b i) [start..<nbytes * 8]"
proof -
  let ?lo = "\<lambda>byte. if byte = start div 8 then start mod 8 else 0"
  let ?scan = "\<lambda>byte. List.find (\<lambda>k. \<not> bit (b byte) k) [?lo byte..<8]"
  have ffb: "find_first_empty_bit b nbytes start =
      (case List.find (\<lambda>byte. ?scan byte \<noteq> None) [start div 8..<nbytes] of None \<Rightarrow> None
       | Some byte \<Rightarrow> map_option (\<lambda>k. byte * 8 + k) (?scan byte))"
    unfolding find_first_empty_bit_def byte_scan Let_def ..
  have lo: "?lo (i div 8) \<le> i mod 8 \<and> i mod 8 < 8 \<and> start div 8 \<le> i div 8" if "start \<le> i" for i
    using that div_le_mono [of start i 8] by (auto simp: modulo_nat_def)
  have bit: "bitmap_is_set b i \<longleftrightarrow> bit (b (i div 8)) (i mod 8)" for i by (rule bitmap_is_set_bit)
  have none: "bitmap_is_set b i" if "start \<le> i" "?scan (i div 8) = None" for i
    using that lo [OF that(1)] unfolding find_upt_None bit by blast
  show ?thesis
  proof (cases "List.find (\<lambda>byte. ?scan byte \<noteq> None) [start div 8..<nbytes]")
    case None
    then have "bitmap_is_set b i" if "start \<le> i" "i < nbytes * 8" for i
      using none [OF that(1)] that lo [OF that(1)] unfolding find_upt_None by (auto simp: less_mult_imp_div_less)
    then have "List.find (\<lambda>i. \<not> bitmap_is_set b i) [start..<nbytes * 8] = None" unfolding find_upt_None by blast
    then show ?thesis unfolding ffb None by simp
  next
    case (Some byte)
    then have bb: "start div 8 \<le> byte" "byte < nbytes" "?scan byte \<noteq> None"
      and before: "\<And>j. start div 8 \<le> j \<Longrightarrow> j < byte \<Longrightarrow> ?scan j = None"
      unfolding find_upt_Some by blast+
    then obtain k where k: "?scan byte = Some k" by blast
    then have kk: "?lo byte \<le> k" "k < 8" "\<not> bit (b byte) k" "\<And>j. ?lo byte \<le> j \<Longrightarrow> j < k \<Longrightarrow> bit (b byte) j"
      unfolding find_upt_Some by blast+
    have "List.find (\<lambda>i. \<not> bitmap_is_set b i) [start..<nbytes * 8] = Some (byte * 8 + k)"
      unfolding find_upt_Some
    proof (intro conjI allI impI)
      show "start \<le> byte * 8 + k"
      proof (cases "byte = start div 8")
        case True
        then have "start mod 8 \<le> k" using kk(1) by simp
        then show ?thesis using True div_mult_mod_eq [of start 8] by linarith
      next
        case False
        then have "Suc (start div 8) * 8 \<le> byte * 8" using bb(1) by (intro mult_le_mono1) simp
        then show ?thesis using mod_less_divisor [of 8 start] div_mult_mod_eq [of start 8] by simp
      qed
      show "byte * 8 + k < nbytes * 8" using bb(2) kk(2) by linarith
      show "\<not> bitmap_is_set b (byte * 8 + k)" using byte_bit [OF kk(2)] kk(3) by blast
      fix j assume j: "start \<le> j" "j < byte * 8 + k"
      have jb: "j div 8 \<le> byte" using j(2) kk(2) by (simp add: less_mult_imp_div_less div_le_mono)
      show "\<not> \<not> bitmap_is_set b j"
      proof (cases "j div 8 = byte")
        case True
        have "j = byte * 8 + j mod 8" using True div_mult_mod_eq [of j 8] by simp
        then have "j mod 8 < k" using j(2) by linarith
        then show ?thesis using kk(4) [of "j mod 8"] lo [OF j(1)] True unfolding bit by auto
      next
        case False
        then show ?thesis using none [OF j(1)] before [of "j div 8"] lo [OF j(1)] jb by simp
      qed
    qed
    then show ?thesis unfolding ffb Some using k by simp
  qed
qed

text \<open>
  The bitmap search of MyFS, which starts inside a byte and skips full bytes, is a plain search:
  \<^verbatim>\<open>find_first_empty_bit\<close> returns the first clear bit from \<^verbatim>\<open>start_bit\<close> on among the bits of the
  given bytes, and -1 when they are all set.
\<close>

theorem find_first_empty_bit_is_plain_search:
  "find_first_empty_bit b nbytes start = List.find (\<lambda>i. \<not> bitmap_is_set b i) [start..<nbytes * 8]"
  by (rule find_first_empty_bit_find)

subsection \<open>Structures that span blocks\<close>

text \<open>The block size of a mounted file system, and the disk addresses that 32-bit sector numbers reach.\<close>

definition bsz :: "myfs \<Rightarrow> nat" where
  "bsz s = unat (block_bytes s)"

definition geo :: "myfs \<Rightarrow> bool" where
  "geo s \<longleftrightarrow> bsz s = 512 * unat (block_sectors (on_disk s)) \<and> 0 < bsz s"

definition DISK_MAX :: nat where
  "DISK_MAX = 512 * 2 ^ 32"

lemma block_pos_eq:
  assumes "geo s" and "unat lba * bsz s < DISK_MAX"
  shows "block_pos s lba = unat lba * bsz s"
proof -
  have "unat lba * unat (block_sectors (on_disk s)) < 2 ^ 32" using assms by (simp add: geo_def DISK_MAX_def)
  then have "unat (lba * block_sectors (on_disk s)) = unat lba * unat (block_sectors (on_disk s))"
    by (simp add: unat_word_ariths)
  then show ?thesis using assms(1) by (simp add: block_pos_def geo_def)
qed

lemma mem_copy_join:
  "mem_copy (mem_copy d a x p c) (a + c) x (p + c) r = mem_copy d a x p (c + r)"
  by (auto simp: mem_copy_def fun_eq_iff)

lemma write_part_of_block:
  assumes "geo s" and "unat lba * bsz s < DISK_MAX" and "off + c \<le> bsz s"
    and buf: "\<And>i. i < bsz s \<Longrightarrow> i < off \<or> off + c \<le> i \<Longrightarrow> buf i = disk s (unat lba * bsz s + i)"
  shows "disk_write_block lba (mem_copy buf off data ptr c) s = s\<lparr>disk := mem_copy (disk s) (unat lba * bsz s + off) data ptr c\<rparr>"
proof -
  let ?a = "unat lba * bsz s"
  have "mem_copy (disk s) ?a (mem_copy buf off data ptr c) 0 (bsz s) k = mem_copy (disk s) (?a + off) data ptr c k" for k
  proof (cases "?a \<le> k \<and> k < ?a + bsz s")
    case True
    then have "mem_copy (disk s) ?a (mem_copy buf off data ptr c) 0 (bsz s) k = mem_copy buf off data ptr c (k - ?a)" by simp
    also have "\<dots> = mem_copy (disk s) (?a + off) data ptr c k"
    proof (cases "off \<le> k - ?a \<and> k - ?a < off + c")
      case in_c: True
      then show ?thesis using True by (auto simp: mem_copy_def)
    next
      case False
      then have "mem_copy buf off data ptr c (k - ?a) = buf (k - ?a)" by (auto simp: mem_copy_def)
      also have "\<dots> = disk s k" using buf [of "k - ?a"] True False by auto
      finally show ?thesis using True False by (auto simp: mem_copy_def)
    qed
    finally show ?thesis .
  next
    case False
    then show ?thesis using assms(3) by (auto simp: mem_copy_def)
  qed
  moreover have "512 * unat (block_sectors (on_disk s)) = bsz s" using assms(1) by (simp add: geo_def)
  ultimately show ?thesis by (simp add: disk_write_block_def block_pos_eq [OF assms(1,2)] fun_eq_iff)
qed

lemma geo_disk [simp]: "geo (s\<lparr>disk := d\<rparr>) = geo s" "bsz (s\<lparr>disk := d\<rparr>) = bsz s"
  by (simp_all add: geo_def bsz_def)

lemma read_block_eq:
  "geo s \<Longrightarrow> unat lba * bsz s < DISK_MAX \<Longrightarrow> disk_read_block s lba = (\<lambda>i. disk s (unat lba * bsz s + i))"
  by (simp add: disk_read_block_def block_pos_eq)

text \<open>One round of the loop: the first chunk, and what is left.\<close>

lemma spanning_arith:
  assumes g: "geo s" and off: "unat off < bsz s" and r: "0 < rem" and b: "unat (cur::u32) * bsz s + unat off + unat rem \<le> DISK_MAX"
  defines "chunk \<equiv> (if block_bytes s - off < rem then block_bytes s - off else rem)"
  shows "unat chunk = min (bsz s - unat off) (unat rem)" and "unat (rem - chunk) = unat rem - unat chunk" and "0 < unat chunk"
    and "unat cur * bsz s < DISK_MAX"
    and "unat chunk < unat rem \<Longrightarrow> unat (cur + 1) * bsz s = unat cur * bsz s + unat off + unat chunk"
proof -
  have le: "off \<le> block_bytes s" using off by (simp add: bsz_def word_le_nat_alt)
  have u: "unat (block_bytes s - off) = bsz s - unat off" using le by (simp add: unat_sub bsz_def)
  show c: "unat chunk = min (bsz s - unat off) (unat rem)" using u by (auto simp: chunk_def word_less_nat_alt min_def)
  then have "chunk \<le> rem" by (simp add: word_le_nat_alt)
  then show "unat (rem - chunk) = unat rem - unat chunk" by (simp add: unat_sub)
  show "0 < unat chunk" using c off r by (simp add: word_less_nat_alt)
  show lt: "unat cur * bsz s < DISK_MAX" using b r by (simp add: word_less_nat_alt)
  show "unat (cur + 1) * bsz s = unat cur * bsz s + unat off + unat chunk" if "unat chunk < unat rem"
  proof -
    have ch: "unat chunk = bsz s - unat off" using that c by simp
    have "(unat cur + 1) * bsz s < DISK_MAX" using that ch b off by (simp add: word_less_nat_alt)
    then have "(unat cur + 1) * 512 < 512 * 2 ^ 32"
      using g mult_le_mono2 [of 512 "bsz s" "unat cur + 1"] by (simp add: geo_def DISK_MAX_def)
    then have "unat (cur + 1) = unat cur + 1" by (simp add: unat_word_ariths)
    then show ?thesis using ch off by simp
  qed
qed

lemma disk_write_spanning:
  assumes "geo s" and "unat off < bsz s" and "unat cur * bsz s + unat off + unat rem \<le> DISK_MAX"
  shows "disk_rw_spanning cur off data ptr rem True s
    = Some (data, s\<lparr>disk := mem_copy (disk s) (unat cur * bsz s + unat off) data ptr (unat rem)\<rparr>)"
  using assms
proof (induction "unat rem" arbitrary: cur off ptr rem s rule: less_induct)
  case less
  show ?case
  proof (cases "rem = 0")
    case True
    then show ?thesis by (simp add: disk_rw_spanning.simps)
  next
    case False
    then have r: "0 < rem" by (simp add: word_gt_0)
    define chunk where "chunk = (if block_bytes s - off < rem then block_bytes s - off else rem)"
    note ar = spanning_arith [OF less.prems(1,2) r less.prems(3), folded chunk_def]
    let ?buf = "if off \<noteq> 0 \<or> rem < block_bytes s then disk_read_block s cur else (\<lambda>_. 0)"
    let ?p = "unat cur * bsz s + unat off"
    define t where "t = s\<lparr>disk := mem_copy (disk s) ?p data ptr (unat chunk)\<rparr>"
    have oc: "unat off + unat chunk \<le> bsz s" using ar(1) less.prems(2) by simp
    have w: "disk_write_block cur (mem_copy ?buf (unat off) data ptr (unat chunk)) s = t"
      unfolding t_def
    proof (rule write_part_of_block [OF less.prems(1) ar(4) oc])
      fix i assume i: "i < bsz s" "i < unat off \<or> unat off + unat chunk \<le> i"
      have "off \<noteq> 0 \<or> rem < block_bytes s"
      proof (rule ccontr)
        assume "\<not> (off \<noteq> 0 \<or> rem < block_bytes s)"
        then have "off = 0" "bsz s \<le> unat rem" by (simp_all add: word_less_nat_alt bsz_def)
        then show False using i ar(1) by simp
      qed
      then show "?buf i = disk s (unat cur * bsz s + i)" by (simp add: read_block_eq [OF less.prems(1) ar(4)])
    qed
    have step: "disk_rw_spanning cur off data ptr rem True s = disk_rw_spanning (cur + 1) 0 data (ptr + unat chunk) (rem - chunk) True t"
      using r w by (subst disk_rw_spanning.simps) (simp add: chunk_def [symmetric] Let_def)
    show ?thesis
    proof (cases "unat chunk < unat rem")
      case False
      then have "unat chunk = unat rem" "rem - chunk = 0" using ar(1,2) by (simp_all add: word_unat_eq_iff)
      then show ?thesis unfolding step by (simp add: disk_rw_spanning.simps t_def)
    next
      case True
      have nb: "unat (cur + 1) * bsz t = ?p + unat chunk" "geo t" "bsz t = bsz s"
        using ar(5) [OF True] less.prems(1) by (simp_all add: t_def)
      have "disk_rw_spanning (cur + 1) 0 data (ptr + unat chunk) (rem - chunk) True t
          = Some (data, t\<lparr>disk := mem_copy (disk t) (unat (cur + 1) * bsz t + unat (0::u32)) data (ptr + unat chunk) (unat (rem - chunk))\<rparr>)"
        by (rule less.hyps) (use ar less.prems nb True in \<open>simp_all add: geo_def\<close>)
      then show ?thesis
        unfolding step nb(1) using True by (simp add: t_def mem_copy_join ar(2))
    qed
  qed
qed

lemma disk_read_spanning:
  assumes "geo s" and "unat off < bsz s" and "unat cur * bsz s + unat off + unat rem \<le> DISK_MAX"
  shows "disk_rw_spanning cur off data ptr rem False s
    = Some (mem_copy data ptr (disk s) (unat cur * bsz s + unat off) (unat rem), s)"
  using assms
proof (induction "unat rem" arbitrary: cur off ptr rem data rule: less_induct)
  case less
  show ?case
  proof (cases "rem = 0")
    case True
    then show ?thesis by (simp add: disk_rw_spanning.simps)
  next
    case False
    then have r: "0 < rem" by (simp add: word_gt_0)
    define chunk where "chunk = (if block_bytes s - off < rem then block_bytes s - off else rem)"
    note ar = spanning_arith [OF less.prems(1,2) r less.prems(3), folded chunk_def]
    let ?p = "unat cur * bsz s + unat off"
    define d where "d = mem_copy data ptr (disk s) ?p (unat chunk)"
    have "mem_copy data ptr (disk_read_block s cur) (unat off) (unat chunk) = d"
      by (auto simp: d_def mem_copy_def fun_eq_iff read_block_eq [OF less.prems(1) ar(4)] ac_simps)
    then have step: "disk_rw_spanning cur off data ptr rem False s = disk_rw_spanning (cur + 1) 0 d (ptr + unat chunk) (rem - chunk) False s"
      using r by (subst disk_rw_spanning.simps) (simp add: chunk_def [symmetric] Let_def)
    show ?thesis
    proof (cases "unat chunk < unat rem")
      case False
      then have "unat chunk = unat rem" "rem - chunk = 0" using ar(1,2) by (simp_all add: word_unat_eq_iff)
      then show ?thesis unfolding step by (simp add: disk_rw_spanning.simps d_def)
    next
      case True
      have nb: "unat (cur + 1) * bsz s = ?p + unat chunk" using ar(5) [OF True] .
      have "disk_rw_spanning (cur + 1) 0 d (ptr + unat chunk) (rem - chunk) False s
          = Some (mem_copy d (ptr + unat chunk) (disk s) (unat (cur + 1) * bsz s + unat (0::u32)) (unat (rem - chunk)), s)"
        by (rule less.hyps) (use ar less.prems nb True in \<open>simp_all add: geo_def\<close>)
      then show ?thesis unfolding step nb using True mem_copy_join [of data ptr "disk s" ?p "unat chunk" "unat rem - unat chunk"]
        by (simp add: d_def ar(2))
    qed
  qed
qed

subsection \<open>The inode table\<close>

lemma get64_put64_same [simp]: "get64 (put64 m a v) a = v"
proof -
  have l: "get32 (put64 m a v) a = ucast v" by (simp add: put64_def get32_put32_other)
  have h: "get32 (put64 m a v) (a + 4) = ucast (drop_bit 32 v)" by (simp add: put64_def)
  show ?thesis unfolding get64_def l h by (rule bit_word_eqI) (auto simp: bit_simps not_less)
qed

lemma get64_put32_other: "b + 8 \<le> a \<or> a + 4 \<le> b \<Longrightarrow> get64 (put32 m a v) b = get64 m b"
  by (auto simp: get64_def get32_put32_other)

lemma get32_put64_other: "b + 4 \<le> a \<or> a + 8 \<le> b \<Longrightarrow> get32 (put64 m a v) b = get32 m b"
  by (auto simp: put64_def get32_put32_other)

lemma get64_put64_other: "b + 8 \<le> a \<or> a + 8 \<le> b \<Longrightarrow> get64 (put64 m a v) b = get64 m b"
  by (auto simp: get64_def get32_put64_other)

lemma get32_put_ptrs:
  "get32 (for_loop 0 k (\<lambda>k m. put32 m (4 + 4 * k) (f k)) m) a
     = (if \<exists>j < k. a = 4 + 4 * j then f ((a - 4) div 4) else get32 m a)" if "a mod 4 = 0"
proof (induction k)
  case (Suc k)
  show ?case
  proof (cases "a = 4 + 4 * k")
    case True
    then show ?thesis by auto
  next
    case False
    then have "a + 4 \<le> 4 + 4 * k \<or> 4 + 4 * k + 4 \<le> a" using that by presburger
    then show ?thesis using False Suc.IH by (auto simp: get32_put32_other less_Suc_eq)
  qed
qed simp

lemmas inode_codec = get32_put32_other get64_put32_other get32_put64_other get64_put64_other

lemma inode_decode_encode:
  assumes "length (block_ptrs n) = MYFS_DIRECT_BLOCKS_MAX"
  shows "inode_decode (inode_encode n) = n"
proof -
  have p: "map (\<lambda>k. get32 (inode_encode n) (4 + 4 * k)) [0..<MYFS_DIRECT_BLOCKS_MAX] = block_ptrs n"
    using assms
    by (intro nth_equalityI)
      (auto simp: inode_encode_def Let_def inode_codec get32_put_ptrs MYFS_DIRECT_BLOCKS_MAX_def mod_simps)
  show ?thesis
    unfolding inode_decode_def p
    by (simp add: inode_encode_def Let_def inode_codec get32_put_ptrs MYFS_DIRECT_BLOCKS_MAX_def)
qed

lemma inode_decode_cong:
  assumes "\<And>i. i < sizeof_inode \<Longrightarrow> m i = m' i"
  shows "inode_decode m = inode_decode m'"
proof -
  have g: "get32 m a = get32 m' a" if "a + 4 \<le> 112" for a
    by (rule get32_cong) (use assms that in \<open>simp add: sizeof_inode_def\<close>)
  show ?thesis by (simp add: inode_decode_def get64_def g MYFS_DIRECT_BLOCKS_MAX_def)
qed

text \<open>The inode with a given number as it is on disk.\<close>

definition inode_pos :: "myfs \<Rightarrow> u32 \<Rightarrow> nat" where
  "inode_pos s ino = unat (inode_table_start (on_disk s)) * bsz s + unat ino * sizeof_inode"

definition disk_inode :: "myfs \<Rightarrow> u32 \<Rightarrow> MyfsInode" where
  "disk_inode s ino = inode_decode (\<lambda>i. disk s (inode_pos s ino + i))"

lemma inode_place:
  assumes g: "geo s" and b: "inode_pos s ino + sizeof_inode \<le> DISK_MAX"
  shows "unat (inode_offset s ino) < bsz s"
    and "unat (inode_block s ino) * bsz s + unat (inode_offset s ino) = inode_pos s ino"
proof -
  let ?k = "unat ino * sizeof_inode" and ?t = "unat (inode_table_start (on_disk s))"
  have pos: "0 < bsz s" "512 \<le> bsz s" using g by (auto simp: geo_def)
  have lt: "?k mod bsz s < 2 ^ 32" using mod_less_divisor [OF pos(1), of ?k] u32_bound [of "block_bytes s"] by (simp add: bsz_def)
  have o: "unat (inode_offset s ino) = ?k mod bsz s"
    using lt by (simp add: inode_offset_def bsz_def unat_of_nat)
  then show "unat (inode_offset s ino) < bsz s" using pos(1) by simp
  have "(?t + ?k div bsz s) * bsz s \<le> inode_pos s ino"
    by (simp add: inode_pos_def algebra_simps)
  then have "(?t + ?k div bsz s) * bsz s < DISK_MAX" using b by (simp add: sizeof_inode_def)
  then have "(?t + ?k div bsz s) * 512 < 512 * 2 ^ 32"
    using mult_le_mono2 [OF pos(2), of "?t + ?k div bsz s"] by (simp add: DISK_MAX_def)
  then have q: "?t + ?k div bsz s < 2 ^ 32" by simp
  then have "unat (inode_block s ino) = ?t + ?k div bsz s"
    by (simp add: inode_block_def bsz_def unat_word_ariths unat_of_nat)
  then show "unat (inode_block s ino) * bsz s + unat (inode_offset s ino) = inode_pos s ino"
    by (simp add: o inode_pos_def algebra_simps)
qed

lemma inode_pos_apart: "i \<noteq> j \<Longrightarrow> inode_pos s i + sizeof_inode \<le> inode_pos s j \<or> inode_pos s j + sizeof_inode \<le> inode_pos s i"
proof -
  assume "i \<noteq> j"
  then have "unat i \<noteq> unat j" by (simp add: word_unat_eq_iff)
  then show ?thesis by (cases "unat i < unat j") (auto simp: inode_pos_def sizeof_inode_def)
qed

lemma myfs_disk_inode_read_eq:
  assumes "geo s" and "inode_pos s ino + sizeof_inode \<le> DISK_MAX"
  shows "myfs_disk_inode_read ino s =
    (case fs_alloc s of (p, s) \<Rightarrow> if p = 0 then Some (0, s) else Some (p, set_inode p (disk_inode s ino) s))"
proof -
  let ?s = "s\<lparr>allocs := allocs s + 1\<rparr>"
  have g: "geo ?s" "inode_pos ?s ino = inode_pos s ino" "bsz ?s = bsz s"
    "inode_block ?s ino = inode_block s ino" "inode_offset ?s ino = inode_offset s ino"
    using assms(1) by (simp_all add: geo_def bsz_def inode_pos_def inode_block_def inode_offset_def)
  note pl = inode_place [OF assms]
  have "disk_rw_spanning (inode_block ?s ino) (inode_offset ?s ino) (\<lambda>_. 0) 0 (of_nat sizeof_inode) False ?s
      = Some (mem_copy (\<lambda>_. 0) 0 (disk ?s) (inode_pos s ino) sizeof_inode, ?s)"
    using disk_read_spanning [of ?s "inode_offset s ino" "inode_block s ino" "of_nat sizeof_inode" "\<lambda>_. 0" 0] pl assms(2) g
    by (simp add: sizeof_inode_def)
  moreover have "inode_decode (mem_copy (\<lambda>_. 0) 0 (disk ?s) (inode_pos s ino) sizeof_inode) = disk_inode ?s ino"
    unfolding disk_inode_def by (rule inode_decode_cong) (simp add: inode_pos_def bsz_def add.commute)
  ultimately show ?thesis by (simp add: myfs_disk_inode_read_def fs_alloc_def)
qed

lemma write_inode:
  assumes "geo s" and "inode_pos s (i_ino n) + sizeof_inode \<le> DISK_MAX"
  shows "disk_rw_spanning (inode_block s (i_ino n)) (inode_offset s (i_ino n)) (inode_encode n) 0 (of_nat sizeof_inode) True s
    = Some (inode_encode n, s\<lparr>disk := mem_copy (disk s) (inode_pos s (i_ino n)) (inode_encode n) 0 sizeof_inode\<rparr>)"
  using disk_write_spanning [OF assms(1) inode_place(1) [OF assms], of "inode_block s (i_ino n)" "of_nat sizeof_inode" "inode_encode n" 0]
    inode_place(2) [OF assms] assms(2) by (simp add: sizeof_inode_def)

lemma disk_inode_written:
  assumes "length (block_ptrs n) = MYFS_DIRECT_BLOCKS_MAX"
    and d: "disk t = mem_copy (disk s) (inode_pos s (i_ino n)) (inode_encode n) 0 sizeof_inode"
    and p: "\<And>j. inode_pos t j = inode_pos s j"
  shows "disk_inode t j = (if j = i_ino n then n else disk_inode s j)"
proof (cases "j = i_ino n")
  case True
  have "disk_inode t j = inode_decode (inode_encode n)"
    unfolding disk_inode_def p d True by (rule inode_decode_cong) simp
  then show ?thesis using True inode_decode_encode [OF assms(1)] by simp
next
  case False
  have "disk_inode t j = disk_inode s j"
    unfolding disk_inode_def p d
    by (rule inode_decode_cong) (use inode_pos_apart [OF False, of s] in \<open>auto simp: mem_copy_def\<close>)
  then show ?thesis using False by simp
qed

lemma inode_write_cached:
  assumes "geo s" and "inode_pos s ino + sizeof_inode \<le> DISK_MAX" and "bitmap_is_set (inode_bitmap s) (unat ino)"
    and "myfs_cache_find ino s = Some p" and "p \<noteq> 0" and "inodes s p = Some n" and "i_ino n = ino" and "dirty n \<noteq> 0"
    and "ref_count n \<noteq> 0"
  shows "myfs_disk_inode_write ino s = Some (0, set_inode p (n\<lparr>dirty := 0\<rparr>)
    (s\<lparr>disk := mem_copy (disk s) (inode_pos s ino) (inode_encode (n\<lparr>ref_count := ref_count n + 1\<rparr>)) 0 sizeof_inode\<rparr>))"
proof -
  define n1 where "n1 = n\<lparr>ref_count := ref_count n + 1\<rparr>"
  define t where "t = set_inode p n1 s"
  have t: "geo t" "\<And>j. inode_pos t j = inode_pos s j" "disk t = disk s" "i_ino n1 = ino" "inodes t p = Some n1"
    using assms(1,7) by (simp_all add: t_def n1_def set_inode_def geo_def bsz_def inode_pos_def)
  define u where "u = t\<lparr>disk := mem_copy (disk s) (inode_pos s ino) (inode_encode n1) 0 sizeof_inode\<rparr>"
  have w: "disk_rw_spanning (inode_block t (i_ino n1)) (inode_offset t (i_ino n1)) (inode_encode n1) 0 (of_nat sizeof_inode) True t
      = Some (inode_encode n1, u)"
    using write_inode [of t n1] t assms(2) by (simp add: u_def)
  have get: "myfs_iget ino s = Some (p, t)" using assms(3-6) by (simp add: myfs_iget_def t_def n1_def)
  have d1: "dirty n1 \<noteq> 0" using assms(8) by (simp add: n1_def)
  have put: "iput_clean p (set_inode p (n1\<lparr>dirty := 0\<rparr>) u) = Some (set_inode p (n\<lparr>dirty := 0\<rparr>) u)"
    using assms(9) by (simp add: iput_clean_def set_inode_def n1_def)
  have "myfs_disk_inode_write ino s = Some (0, set_inode p (n\<lparr>dirty := 0\<rparr>) u)"
    using get assms(5) t(5) d1 w put by (simp add: myfs_disk_inode_write_def)
  then show ?thesis by (simp add: u_def t_def set_inode_def n1_def)
qed

text \<open>
  C34. The inode table keeps inodes.  When the cached inode with number \<open>ino\<close> is dirty and someone
  holds a reference to it, \<^verbatim>\<open>myfs_disk_inode_write\<close> returns 0, the object in the cache is clean and
  otherwise unchanged, and reading the inode from disk afterwards gives it back field by field (with
  the reference the call itself held).  Every other inode on disk, the bitmaps and the cache are as
  they were, even though inodes cross block boundaries.
\<close>

theorem inode_table_roundtrip:
  assumes "geo s" and "inode_pos s ino + sizeof_inode \<le> DISK_MAX" and "bitmap_is_set (inode_bitmap s) (unat ino)"
    and "myfs_cache_find ino s = Some p" and "p \<noteq> 0" and "inodes s p = Some n" and "i_ino n = ino" and "dirty n \<noteq> 0"
    and "ref_count n \<noteq> 0" and "length (block_ptrs n) = MYFS_DIRECT_BLOCKS_MAX"
  shows "\<exists>s'. myfs_disk_inode_write ino s = Some (0, s') \<and> inodes s' = (inodes s)(p := Some (n\<lparr>dirty := 0\<rparr>))
    \<and> (\<forall>j. disk_inode s' j = (if j = ino then n\<lparr>ref_count := ref_count n + 1\<rparr> else disk_inode s j))
    \<and> block_bitmap s' = block_bitmap s \<and> inode_bitmap s' = inode_bitmap s \<and> inode_hash_table s' = inode_hash_table s"
proof -
  let ?n = "n\<lparr>ref_count := ref_count n + 1\<rparr>"
  let ?s = "set_inode p (n\<lparr>dirty := 0\<rparr>) (s\<lparr>disk := mem_copy (disk s) (inode_pos s ino) (inode_encode ?n) 0 sizeof_inode\<rparr>)"
  have "disk_inode ?s j = (if j = ino then ?n else disk_inode s j)" for j
    using disk_inode_written [of ?n ?s s j] assms(7,10) by (simp add: set_inode_def inode_pos_def bsz_def)
  then show ?thesis using inode_write_cached [OF assms(1-9)] by (simp add: set_inode_def)
qed

text \<open>A small mounted file system with inode 5 in the cache.\<close>

definition inode_demo :: MyfsInode where
  "inode_demo = zero_inode\<lparr>i_ino := 5, i_size := 100, ref_count := 1, dirty := 1\<rparr>"

definition fs_demo :: myfs where
  "fs_demo = (format_state (format_layout 4096) (\<lambda>_. 0) (\<lambda>_. True) (\<lambda>_. 0))
     \<lparr>inode_bitmap := bitmap_set_fs (\<lambda>_. 0) 5, inode_hash_table := (\<lambda>_. [])(5 := [1]), inodes := (\<lambda>_. None)(1 := Some inode_demo)\<rparr>"

lemmas layout_defs = format_state_def format_layout_def MYFS_BLOCK_BYTES_def MYFS_BLOCK_SECTORS_def SECTOR_BYTES_def

lemma fs_demo_geo: "geo fs_demo" "bsz fs_demo = 2048" "inode_pos fs_demo 5 + sizeof_inode \<le> DISK_MAX"
  by (simp_all add: geo_def bsz_def inode_pos_def fs_demo_def layout_defs DISK_MAX_def sizeof_inode_def)

theorem inode_table_roundtrip_witness:
  "\<exists>s'. myfs_disk_inode_write 5 fs_demo = Some (0, s') \<and> disk_inode s' 5 = inode_demo\<lparr>ref_count := 2\<rparr>"
proof -
  have b: "bitmap_is_set (inode_bitmap fs_demo) (unat (5::u32))" by (simp add: fs_demo_def fb.tst_st)
  have c: "myfs_cache_find 5 fs_demo = Some 1" "inodes fs_demo 1 = Some inode_demo" "i_ino inode_demo = 5"
    "dirty inode_demo \<noteq> 0" "ref_count inode_demo \<noteq> 0" "length (block_ptrs inode_demo) = MYFS_DIRECT_BLOCKS_MAX"
    by (simp_all add: myfs_cache_find_def inode_hash_def INODE_HASH_SIZE_def fs_demo_def inode_demo_def zero_inode_def)
  have r: "ref_count inode_demo + 1 = 2" by (simp add: inode_demo_def)
  show ?thesis
    using inode_table_roundtrip [OF fs_demo_geo(1,3) b c(1) _ c(2-6)] unfolding r by auto
qed

end
