(* ===== verification/MyfsFile.thy ===== *)
theory MyfsFile
  imports MyfsProps
begin

text \<open>
  Files of MyFS: the map from file blocks to disk blocks through direct, single and double indirect
  pointers, and reading back what was written. Every block of a file plays one role: it is the
  single or double indirect table, a second-level table, or a data block.
\<close>

subsection \<open>Blocks and their roles\<close>

definition used :: "myfs \<Rightarrow> u32 \<Rightarrow> bool" where
  "used s b \<longleftrightarrow> bitmap_is_set (block_bitmap s) (unat b)"

definition blk_ok :: "myfs \<Rightarrow> u32 \<Rightarrow> bool" where
  "blk_ok s b \<longleftrightarrow> unat (data_blocks_start (on_disk s)) \<le> unat b \<and> unat b * bsz s + bsz s \<le> DISK_MAX \<and> used s b"

definition fs_ok :: "myfs \<Rightarrow> bool" where
  "fs_ok s \<longleftrightarrow> geo s \<and> bsz s < 2 ^ 18 \<and> 0 < unat (data_blocks_start (on_disk s))
     \<and> unat (data_blocks_start (on_disk s)) \<le> unat (total_blocks (on_disk s))
     \<and> (unat (total_blocks (on_disk s)) + 8) * bsz s \<le> DISK_MAX"

text \<open>Pointers per block, and the pointer in slot \<open>k\<close> of a table.\<close>

definition ppb :: "myfs \<Rightarrow> nat" where
  "ppb s = bsz s div 4"

definition ptr :: "myfs \<Rightarrow> u32 \<Rightarrow> nat \<Rightarrow> u32" where
  "ptr s b k = get32 (disk s) (unat b * bsz s + 4 * k)"

datatype role = Single | Double | Sub nat | Data nat

definition sub_table :: "myfs \<Rightarrow> MyfsInode \<Rightarrow> nat \<Rightarrow> u32" where
  "sub_table s n k = (if double_indirect_ptr n = 0 then 0 else ptr s (double_indirect_ptr n) k)"

definition lba :: "myfs \<Rightarrow> MyfsInode \<Rightarrow> nat \<Rightarrow> u32" where
  "lba s n i =
     (if i < 10 then block_ptrs n ! i
      else if i - 10 < ppb s then (if single_indirect_ptr n = 0 then 0 else ptr s (single_indirect_ptr n) (i - 10))
      else if i - 10 - ppb s < ppb s * ppb s
      then (let t = sub_table s n ((i - 10 - ppb s) div ppb s)
            in if t = 0 then 0 else ptr s t ((i - 10 - ppb s) mod ppb s))
      else 0)"

fun blk :: "myfs \<Rightarrow> MyfsInode \<Rightarrow> role \<Rightarrow> u32" where
  "blk s n Single = single_indirect_ptr n"
| "blk s n Double = double_indirect_ptr n"
| "blk s n (Sub k) = sub_table s n k"
| "blk s n (Data i) = lba s n i"

definition max_blocks :: "myfs \<Rightarrow> nat" where
  "max_blocks s = 10 + ppb s + ppb s * ppb s"

fun valid_role :: "myfs \<Rightarrow> role \<Rightarrow> bool" where
  "valid_role s (Sub k) \<longleftrightarrow> k < ppb s"
| "valid_role s (Data i) \<longleftrightarrow> i < max_blocks s"
| "valid_role s _ \<longleftrightarrow> True"

text \<open>A well-formed file: its blocks are allocated data blocks, and no block plays two roles.\<close>

definition file_wf :: "myfs \<Rightarrow> MyfsInode \<Rightarrow> bool" where
  "file_wf s n \<longleftrightarrow> length (block_ptrs n) = 10
     \<and> (\<forall>r. valid_role s r \<longrightarrow> blk s n r \<noteq> 0 \<longrightarrow> blk_ok s (blk s n r))
     \<and> (\<forall>r r'. valid_role s r \<longrightarrow> valid_role s r' \<longrightarrow> blk s n r \<noteq> 0 \<longrightarrow> blk s n r = blk s n r' \<longrightarrow> r = r')"

definition fresh :: "myfs \<Rightarrow> MyfsInode \<Rightarrow> u32 \<Rightarrow> bool" where
  "fresh s n b \<longleftrightarrow> blk_ok s b \<and> b \<noteq> 0 \<and> (\<forall>r. valid_role s r \<longrightarrow> blk s n r \<noteq> b)"

text \<open>The superblock geometry that the steps below leave alone.\<close>

definition same_fs :: "myfs \<Rightarrow> myfs \<Rightarrow> bool" where
  "same_fs s s' \<longleftrightarrow> on_disk s' = on_disk s \<and> block_bytes s' = block_bytes s"

lemma same_fs_simps:
  assumes "same_fs s s'"
  shows "bsz s' = bsz s" "ppb s' = ppb s" "geo s' = geo s" "fs_ok s' = fs_ok s" "valid_role s' r = valid_role s r"
    "max_blocks s' = max_blocks s"
proof -
  show b: "bsz s' = bsz s" "ppb s' = ppb s" "geo s' = geo s" "fs_ok s' = fs_ok s" "max_blocks s' = max_blocks s"
    using assms by (simp_all add: same_fs_def bsz_def ppb_def geo_def fs_ok_def max_blocks_def)
  show "valid_role s' r = valid_role s r" by (cases r) (simp_all add: b)
qed

lemma blk_ok_mono: "same_fs s s' \<Longrightarrow> blk_ok s b \<Longrightarrow> (used s b \<Longrightarrow> used s' b) \<Longrightarrow> blk_ok s' b"
  by (auto simp: blk_ok_def same_fs_simps same_fs_def bsz_def)

text \<open>A step that gives one role a fresh block and changes no other role.\<close>

lemma file_wf_update:
  assumes wf: "file_wf s n" and sf: "same_fs s s'" and len: "length (block_ptrs n') = 10"
    and upd: "\<And>r. valid_role s r \<Longrightarrow> blk s' n' r = (if r = r0 then v else blk s n r)"
    and v: "\<And>r. valid_role s r \<Longrightarrow> blk s n r \<noteq> v" "blk_ok s' v"
    and mono: "\<And>b. used s b \<Longrightarrow> used s' b"
  shows "file_wf s' n'"
  unfolding file_wf_def same_fs_simps(5) [OF sf]
proof (intro conjI allI impI)
  show "length (block_ptrs n') = 10" by (rule len)
  fix r assume r: "valid_role s r" "blk s' n' r \<noteq> 0"
  then show "blk_ok s' (blk s' n' r)"
    using upd [OF r(1)] v(2) wf blk_ok_mono [OF sf _ mono] by (auto simp: file_wf_def split: if_splits)
next
  fix r r' assume r: "valid_role s r" "valid_role s r'" "blk s' n' r \<noteq> 0" "blk s' n' r = blk s' n' r'"
  then show "r = r'"
    using upd [OF r(1)] upd [OF r(2)] v(1) [OF r(1)] v(1) [OF r(2)] wf by (auto simp: file_wf_def split: if_splits)
qed

subsection \<open>Writing tables\<close>

lemma fs_ok_facts:
  assumes "fs_ok s"
  shows "geo s" "0 < bsz s" "4 * ppb s = bsz s" "ppb s < 2 ^ 16" "0 < ppb s"
proof -
  show g: "geo s" "0 < bsz s" using assms by (simp_all add: fs_ok_def geo_def)
  have "4 dvd bsz s" using g(1) by (simp add: geo_def)
  then show p: "4 * ppb s = bsz s" by (simp add: ppb_def)
  have "bsz s < 2 ^ 18" using assms by (simp add: fs_ok_def)
  then show "ppb s < 2 ^ 16" using p by simp
  show "0 < ppb s" using p g(2) by linarith
qed

lemma blocks_apart:
  assumes "(b::u32) \<noteq> c"
  shows "unat b * w + w \<le> unat c * w \<or> unat c * w + w \<le> unat b * w"
proof -
  have "unat b \<noteq> unat c" using assms by (simp add: word_unat_eq_iff)
  then show ?thesis
    using mult_le_mono1 [of "unat b + 1" "unat c" w] mult_le_mono1 [of "unat c + 1" "unat b" w]
    by (cases "unat b < unat c") auto
qed

lemma blk_ok_pos: "fs_ok s \<Longrightarrow> blk_ok s b \<Longrightarrow> unat b * bsz s < DISK_MAX"
  using fs_ok_facts(2) [of s] by (simp add: blk_ok_def)

lemma write_ptr_eq:
  assumes "fs_ok s" and "blk_ok s b" and "unat slot < ppb s"
  shows "write_ptr_to_block b slot v s = s\<lparr>disk := put32 (disk s) (unat b * bsz s + 4 * unat slot) v\<rparr>"
proof -
  note f = fs_ok_facts [OF assms(1)] and pos = blk_ok_pos [OF assms(1,2)]
  let ?a = "unat b * bsz s" and ?k = "4 * unat slot"
  let ?buf = "put32 (\<lambda>i. disk s (?a + i)) ?k v"
  have k: "?k + 4 \<le> bsz s" using assms(3) f(3) by linarith
  have sec: "512 * unat (block_sectors (on_disk s)) = bsz s" using f(1) by (simp add: geo_def)
  have "mem_copy (disk s) ?a ?buf 0 (bsz s) i = put32 (disk s) (?a + ?k) v i" for i
  proof (cases "?a \<le> i \<and> i < ?a + bsz s")
    case True
    then show ?thesis by (auto simp: mem_copy_def put32_def)
  next
    case False
    then show ?thesis using k put32_other [of i "?a + ?k" "disk s" v] by (auto simp: mem_copy_def)
  qed
  then show ?thesis
    by (simp add: write_ptr_to_block_def disk_write_block_def block_pos_eq [OF f(1) pos] read_block_eq [OF f(1) pos] sec fun_eq_iff)
qed

lemma ptr_write_ptr:
  assumes "fs_ok s" and "k < ppb s" and "j < ppb s" and s': "s' = s\<lparr>disk := put32 (disk s) (unat b * bsz s + 4 * k) v\<rparr>"
  shows "ptr s' c j = (if c = b \<and> j = k then v else ptr s c j)"
proof (cases "c = b")
  case True
  then show ?thesis by (simp add: ptr_def s')
next
  case False
  have "4 * k + 4 \<le> bsz s" "4 * j + 4 \<le> bsz s" using assms(2,3) fs_ok_facts(3) [OF assms(1)] by linarith+
  then have "unat c * bsz s + 4 * j + 4 \<le> unat b * bsz s + 4 * k \<or> unat b * bsz s + 4 * k + 4 \<le> unat c * bsz s + 4 * j"
    using blocks_apart [OF False, of "bsz s"] by linarith
  then show ?thesis using False by (simp add: ptr_def s' get32_put32_other)
qed

lemma write_zero_block:
  assumes "fs_ok s" and "blk_ok s b"
  shows "disk_write_block b (\<lambda>_. 0) s = s\<lparr>disk := mem_set (disk s) (unat b * bsz s) 0 (bsz s)\<rparr>"
proof -
  note f = fs_ok_facts [OF assms(1)] and pos = blk_ok_pos [OF assms(1,2)]
  have sec: "512 * unat (block_sectors (on_disk s)) = bsz s" using f(1) by (simp add: geo_def)
  show ?thesis by (simp add: disk_write_block_def block_pos_eq [OF f(1) pos] sec mem_copy_def mem_set_def)
qed

lemma ptr_zero_block:
  assumes "fs_ok s" and "j < ppb s" and s': "disk s' = mem_set (disk s) (unat b * bsz s) 0 (bsz s)" "bsz s' = bsz s"
  shows "ptr s' c j = (if c = b then 0 else ptr s c j)"
proof -
  have j: "4 * j + 4 \<le> bsz s" using assms(2) fs_ok_facts(3) [OF assms(1)] by linarith
  show ?thesis
  proof (cases "c = b")
    case True
    have "get32 (mem_set (disk s) (unat b * bsz s) 0 (bsz s)) (unat b * bsz s + 4 * j) = 0"
      using j by (simp add: get32_def)
    then show ?thesis using True by (simp add: ptr_def s')
  next
    case False
    have "get32 (mem_set (disk s) (unat b * bsz s) 0 (bsz s)) (unat c * bsz s + 4 * j) = get32 (disk s) (unat c * bsz s + 4 * j)"
      by (rule get32_cong, rule mem_set_out) (use blocks_apart [OF False, of "bsz s"] j in linarith)
    then show ?thesis using False by (simp add: ptr_def s')
  qed
qed

subsection \<open>Allocating blocks\<close>

lemma bitmap_alloc_cases:
  assumes ok: "fs_ok s"
  obtains (full) "myfs_bitmap_alloc s = (0, s)"
  | (block) b where "myfs_bitmap_alloc s = (b, s\<lparr>block_bitmap := bitmap_set_fs (block_bitmap s) (unat b)\<rparr>)"
      "b \<noteq> 0" "\<not> used s b" "blk_ok (s\<lparr>block_bitmap := bitmap_set_fs (block_bitmap s) (unat b)\<rparr>) b"
proof (cases "find_first_empty_bit (block_bitmap s) (unat ((total_blocks (on_disk s) + 7) div 8)) (unat (data_blocks_start (on_disk s)))")
  case None
  then show ?thesis using full by (simp add: myfs_bitmap_alloc_def)
next
  case (Some k)
  let ?T = "unat (total_blocks (on_disk s))"
  have g: "512 \<le> bsz s" "0 < unat (data_blocks_start (on_disk s))" "(?T + 8) * bsz s \<le> DISK_MAX"
    using ok by (auto simp: fs_ok_def geo_def)
  have "(?T + 8) * 512 \<le> 512 * 2 ^ 32" using mult_le_mono2 [OF g(1), of "?T + 8"] g(3) by (simp add: DISK_MAX_def)
  then have T: "?T + 8 \<le> 2 ^ 32" by simp
  then have u: "unat ((total_blocks (on_disk s) + 7) div 8) = (?T + 7) div 8" by (simp add: unat_div unat_word_ariths)
  have k: "unat (data_blocks_start (on_disk s)) \<le> k" "k < (?T + 7) div 8 * 8" "\<not> bitmap_is_set (block_bitmap s) k"
    using Some unfolding find_first_empty_bit_find find_upt_Some u by auto
  then have kT: "k < ?T + 7" by linarith
  then have ku: "unat (of_nat k :: u32) = k" using T by (simp add: unat_of_nat)
  have "(k + 1) * bsz s \<le> (?T + 8) * bsz s" using kT by (intro mult_le_mono1) simp
  then have "blk_ok (s\<lparr>block_bitmap := bitmap_set_fs (block_bitmap s) k\<rparr>) (of_nat k)"
    using k(1) g(3) by (simp add: blk_ok_def ku used_def fb.tst_st bsz_def)
  then show ?thesis
    using block [of "of_nat k"] Some k g(2) ku by (simp add: myfs_bitmap_alloc_def used_def word_unat_eq_iff)
qed

subsection \<open>Looking up a block\<close>

lemma unat_ppb: "fs_ok s \<Longrightarrow> unat (ptrs_per_block s) = ppb s"
  by (simp add: ptrs_per_block_def unat_div ppb_def bsz_def)

lemma max_blocks_bound: "fs_ok s \<Longrightarrow> max_blocks s < 2 ^ 32"
proof -
  assume "fs_ok s"
  then have p: "ppb s \<le> 2 ^ 16 - 1" using fs_ok_facts(4) by fastforce
  then have "ppb s * ppb s \<le> (2 ^ 16 - 1) * (2 ^ 16 - 1)" by (intro mult_le_mono)
  then show ?thesis using p by (simp add: max_blocks_def)
qed

lemma read_ptr_eq: "fs_ok s \<Longrightarrow> blk_ok s b \<Longrightarrow> read_ptr_from_block s b slot = ptr s b (unat slot)"
  using read_block_eq [OF fs_ok_facts(1) blk_ok_pos, of s b]
  by (simp add: read_ptr_from_block_def ptr_def get32_def ac_simps)

text \<open>The index arithmetic of the two-level walk, in 32 bits and in natural numbers.\<close>

lemma walk_arith:
  assumes ok: "fs_ok s" and i: "i < max_blocks s"
  defines "w \<equiv> (of_nat i :: u32)" and "q \<equiv> ptrs_per_block s"
  shows "unat w = i" "10 \<le> i \<Longrightarrow> unat (w - 10) = i - 10" "10 \<le> i \<Longrightarrow> w - 10 < q \<longleftrightarrow> i - 10 < ppb s"
    "10 + ppb s \<le> i \<Longrightarrow> unat (w - 10 - q) = i - 10 - ppb s"
    "10 + ppb s \<le> i \<Longrightarrow> w - 10 - q < q * q"
    "10 + ppb s \<le> i \<Longrightarrow> unat ((w - 10 - q) div q) = (i - 10 - ppb s) div ppb s"
    "10 + ppb s \<le> i \<Longrightarrow> unat ((w - 10 - q) mod q) = (i - 10 - ppb s) mod ppb s"
    "10 + ppb s \<le> i \<Longrightarrow> (i - 10 - ppb s) div ppb s < ppb s"
proof -
  note p = fs_ok_facts(4,5) [OF ok] and mb = max_blocks_bound [OF ok] and uq = unat_ppb [OF ok, folded q_def]
  show u: "unat w = i" using i mb by (simp add: w_def unat_of_nat)
  show a: "unat (w - 10) = i - 10" if "10 \<le> i" using that u by (simp add: unat_sub word_le_nat_alt)
  show "w - 10 < q \<longleftrightarrow> i - 10 < ppb s" if "10 \<le> i" using a [OF that] uq by (simp add: word_less_nat_alt)
  assume ge: "10 + ppb s \<le> i"
  show b: "unat (w - 10 - q) = i - 10 - ppb s" using ge a uq by (simp add: unat_sub word_le_nat_alt)
  have "ppb s * ppb s < 2 ^ 32" using mb by (simp add: max_blocks_def)
  then have "unat (q * q) = ppb s * ppb s" by (simp add: unat_word_ariths uq)
  then show "w - 10 - q < q * q" using b i ge by (simp add: word_less_nat_alt max_blocks_def)
  show "unat ((w - 10 - q) div q) = (i - 10 - ppb s) div ppb s" "unat ((w - 10 - q) mod q) = (i - 10 - ppb s) mod ppb s"
    by (simp_all add: unat_div unat_mod b uq)
  have "i - 10 - ppb s < ppb s * ppb s" using i ge by (simp add: max_blocks_def)
  then show "(i - 10 - ppb s) div ppb s < ppb s" by (simp add: less_mult_imp_div_less)
qed

lemma table_ok:
  "file_wf s n \<Longrightarrow> valid_role s r \<Longrightarrow> blk s n r \<noteq> 0 \<Longrightarrow> blk_ok s (blk s n r)"
  by (simp add: file_wf_def)

lemma sub_table_read:
  assumes "fs_ok s" and "file_wf s n"
  shows "(if double_indirect_ptr n = 0 then 0 else read_ptr_from_block s (double_indirect_ptr n) k) = sub_table s n (unat k)"
  using table_ok [OF assms(2), of Double] read_ptr_eq [OF assms(1)] by (simp add: sub_table_def)

lemma lba_get_eq:
  assumes ok: "fs_ok s" and wf: "file_wf s n" and i: "i < max_blocks s"
  shows "myfs_block_lba_get s n (of_nat i) = lba s n i"
proof -
  note w = walk_arith [OF ok i]
  consider "i < 10" | "10 \<le> i" "i - 10 < ppb s" | "10 + ppb s \<le> i" by linarith
  then show ?thesis
  proof cases
    case 1
    then show ?thesis using w(1) by (simp add: myfs_block_lba_get_def lba_def MYFS_DIRECT_BLOCKS_MAX_def)
  next
    case 2
    have "read_ptr_from_block s (single_indirect_ptr n) (of_nat i - 10) = ptr s (single_indirect_ptr n) (i - 10)" if "single_indirect_ptr n \<noteq> 0"
      using read_ptr_eq [OF ok] table_ok [OF wf, of Single] that w(2) 2 by simp
    then show ?thesis using w 2 by (simp add: myfs_block_lba_get_def lba_def MYFS_DIRECT_BLOCKS_MAX_def Let_def)
  next
    case 3
    let ?t = "sub_table s n ((i - 10 - ppb s) div ppb s)"
    let ?r = "(of_nat i :: u32) - 10 - ptrs_per_block s"
    have t: "double_indirect_ptr n \<noteq> 0 \<Longrightarrow> read_ptr_from_block s (double_indirect_ptr n) (?r div ptrs_per_block s) = ?t"
      and t0: "double_indirect_ptr n = 0 \<Longrightarrow> ?t = 0"
      using sub_table_read [OF ok wf, of "?r div ptrs_per_block s"] w(6) 3 by (simp_all add: sub_table_def)
    have l: "?t \<noteq> 0 \<Longrightarrow> read_ptr_from_block s ?t (?r mod ptrs_per_block s) = ptr s ?t ((i - 10 - ppb s) mod ppb s)"
      using read_ptr_eq [OF ok] table_ok [OF wf, of "Sub ((i - 10 - ppb s) div ppb s)"] w(7,8) 3 by simp
    have far: "i - 10 - ppb s < ppb s * ppb s" "\<not> i - 10 < ppb s" "\<not> i < 10" using i 3 by (auto simp: max_blocks_def)
    then have "lba s n i = (if ?t = 0 then 0 else ptr s ?t ((i - 10 - ppb s) mod ppb s))"
      by (simp only: lba_def Let_def if_True if_False)
    moreover have "myfs_block_lba_get s n (of_nat i) = (if double_indirect_ptr n = 0 then 0
        else (let t = read_ptr_from_block s (double_indirect_ptr n) (?r div ptrs_per_block s)
              in if t = 0 then 0 else read_ptr_from_block s t (?r mod ptrs_per_block s)))"
      using w(1,3,5) 3 far by (simp add: myfs_block_lba_get_def MYFS_DIRECT_BLOCKS_MAX_def Let_def)
    ultimately show ?thesis using t t0 l by (auto simp: Let_def)
  qed
qed

text \<open>The table and the slot that hold the pointer to a file block behind the direct ones.\<close>

definition loc :: "myfs \<Rightarrow> nat \<Rightarrow> role \<times> nat" where
  "loc s i = (if i - 10 < ppb s then (Single, i - 10)
     else (Sub ((i - 10 - ppb s) div ppb s), (i - 10 - ppb s) mod ppb s))"

fun is_table :: "role \<Rightarrow> bool" where
  "is_table (Data i) \<longleftrightarrow> False"
| "is_table _ \<longleftrightarrow> True"

lemma loc_facts:
  assumes ok: "fs_ok s" and i: "10 \<le> i" "i < max_blocks s"
  shows "valid_role s (fst (loc s i))" "is_table (fst (loc s i))" "fst (loc s i) \<noteq> Double" "snd (loc s i) < ppb s"
    and "lba s n i = (if blk s n (fst (loc s i)) = 0 then 0 else ptr s (blk s n (fst (loc s i))) (snd (loc s i)))"
proof -
  note w = walk_arith [OF ok i(2)] and p = fs_ok_facts(5) [OF ok]
  show "valid_role s (fst (loc s i))" using w(8) i by (auto simp: loc_def)
  show "is_table (fst (loc s i))" "fst (loc s i) \<noteq> Double" by (simp_all add: loc_def)
  show "snd (loc s i) < ppb s" using p by (simp add: loc_def)
  have "\<not> i - 10 < ppb s \<Longrightarrow> i - 10 - ppb s < ppb s * ppb s" using i by (simp add: max_blocks_def)
  then show "lba s n i = (if blk s n (fst (loc s i)) = 0 then 0 else ptr s (blk s n (fst (loc s i))) (snd (loc s i)))"
    using i(1) by (simp add: lba_def loc_def Let_def)
qed

lemma loc_inj:
  assumes "10 \<le> i" and "10 \<le> j" and "loc s i = loc s j"
  shows "i = j"
proof (cases "i - 10 < ppb s")
  case True
  then show ?thesis using assms by (auto simp: loc_def split: if_splits)
next
  case False
  then have "\<not> j - 10 < ppb s" "(i - 10 - ppb s) div ppb s = (j - 10 - ppb s) div ppb s"
    "(i - 10 - ppb s) mod ppb s = (j - 10 - ppb s) mod ppb s"
    using assms(3) by (auto simp: loc_def split: if_splits)
  moreover from this have "i - 10 - ppb s = j - 10 - ppb s" by (metis div_mult_mod_eq)
  ultimately show ?thesis using False assms(1,2) by linarith
qed

lemma role_cases:
  assumes "valid_role s r"
  obtains "is_table r" | i where "r = Data i" "i < 10" | i where "r = Data i" "10 \<le> i" "i < max_blocks s"
  using assms by (cases r) (auto simp: not_less [symmetric])

text \<open>
  Giving an empty table role a zeroed block: data blocks are looked up as before. Giving a file block
  a pointer in its table: only that block changes.
\<close>

lemma new_table_update:
  assumes ok: "fs_ok s" and wf: "file_wf s n" and sf: "same_fs s s'" and R: "is_table R" "blk s n R = 0"
    and bp: "block_ptrs n' = block_ptrs n"
    and tab: "\<And>r. valid_role s r \<Longrightarrow> is_table r \<Longrightarrow> blk s' n' r = (if r = R then t else blk s n r)"
    and ptr0: "\<And>j. j < ppb s \<Longrightarrow> ptr s' t j = 0"
    and ptrs: "\<And>r j. valid_role s r \<Longrightarrow> is_table r \<Longrightarrow> r \<noteq> Double \<Longrightarrow> blk s n r \<noteq> 0 \<Longrightarrow> j < ppb s
        \<Longrightarrow> ptr s' (blk s n r) j = ptr s (blk s n r) j"
    and r: "valid_role s r"
  shows "blk s' n' r = (if r = R then t else blk s n r)"
proof -
  have ok': "fs_ok s'" using ok sf by (simp add: same_fs_simps)
  have lc: "loc s' i = loc s i" for i using sf by (simp add: loc_def same_fs_simps)
  show ?thesis
    using r
  proof (cases rule: role_cases)
    case 1
    then show ?thesis using tab r by simp
  next
    case (2 i)
    then show ?thesis using R(1) bp by (auto simp: lba_def)
  next
    case (3 i)
    have i': "i < max_blocks s'" using 3 sf by (simp add: same_fs_simps)
    note f = loc_facts [OF ok 3(2,3)] and f' = loc_facts(5) [OF ok' 3(2) i', unfolded lc]
    have "lba s' n' i = lba s n i"
    proof (cases "fst (loc s i) = R")
      case True
      then show ?thesis using f' [of n'] f(5) [of n] tab [OF f(1,2)] R(2) ptr0 [OF f(4)] by simp
    next
      case False
      then show ?thesis
        using f' [of n'] f(5) [of n] tab [OF f(1,2)] ptrs [OF f(1,2,3) _ f(4)] by simp
    qed
    then show ?thesis using 3(1) R(1) by auto
  qed
qed

lemma new_pointer_update:
  assumes ok: "fs_ok s" and wf: "file_wf s n" and idx: "10 \<le> idx" "idx < max_blocks s" and x: "blk s n (fst (loc s idx)) = x" "x \<noteq> 0"
    and s': "s' = s\<lparr>disk := put32 (disk s) (unat x * bsz s + 4 * snd (loc s idx)) b\<rparr>"
    and r: "valid_role s r"
  shows "blk s' n r = (if r = Data idx then b else blk s n r)"
proof -
  note f = loc_facts [OF ok idx]
  have sf: "same_fs s s'" by (simp add: s' same_fs_def)
  have ok': "fs_ok s'" using ok sf by (simp add: same_fs_simps)
  have lc: "loc s' i = loc s i" for i using sf by (simp add: loc_def same_fs_simps)
  have pt: "ptr s' c j = (if c = x \<and> j = snd (loc s idx) then b else ptr s c j)" if "j < ppb s" for c j
    by (rule ptr_write_ptr [OF ok f(4) that s'])
  have xr: "r' = fst (loc s idx)" if "valid_role s r'" "blk s n r' = x" for r'
    using wf that x f(1) by (auto simp: file_wf_def)
  have tab: "blk s' n q = blk s n q" if "valid_role s q" "is_table q" for q
  proof (cases q)
    case (Sub k)
    have "double_indirect_ptr n \<noteq> x" using xr [of Double] f(3) by auto
    then show ?thesis using Sub that(1) pt [of k "double_indirect_ptr n"] by (simp add: sub_table_def)
  qed (use that in auto)
  show ?thesis
    using r
  proof (cases rule: role_cases)
    case 1
    then show ?thesis using tab [OF r] by auto
  next
    case (2 i)
    then show ?thesis using idx(1) by (auto simp: lba_def)
  next
    case (3 i)
    have i': "i < max_blocks s'" using 3 sf by (simp add: same_fs_simps)
    note g = loc_facts [OF ok 3(2,3)] and g' = loc_facts(5) [OF ok' 3(2) i', unfolded lc, of n]
    have t: "blk s' n (fst (loc s i)) = blk s n (fst (loc s i))" by (rule tab [OF g(1,2)])
    have same: "blk s n (fst (loc s i)) = x \<and> snd (loc s i) = snd (loc s idx) \<longleftrightarrow> i = idx"
      using xr [OF g(1)] x(1) loc_inj [OF 3(2) idx(1), of s] by (auto simp: prod_eq_iff)
    show ?thesis using g' g(5) [of n] t pt [OF g(4)] same 3(1) x(2) by auto
  qed
qed

subsection \<open>Steps that extend a file\<close>

text \<open>
  What extending a file may change: pointers and tables of this file. Blocks that were in use and are
  not tables of the file keep their contents, as does the part of the disk below the data blocks.
\<close>

definition keep_block :: "myfs \<Rightarrow> myfs \<Rightarrow> u32 \<Rightarrow> bool" where
  "keep_block s s' b \<longleftrightarrow> (\<forall>i < bsz s. disk s' (unat b * bsz s + i) = disk s (unat b * bsz s + i))"

definition frame :: "myfs \<Rightarrow> MyfsInode \<Rightarrow> myfs \<Rightarrow> MyfsInode \<Rightarrow> bool" where
  "frame s n s' n' \<longleftrightarrow> same_fs s s' \<and> (\<forall>b. used s b \<longrightarrow> used s' b)
     \<and> s' = s\<lparr>disk := disk s', block_bitmap := block_bitmap s'\<rparr>
     \<and> n' = n\<lparr>block_ptrs := block_ptrs n', single_indirect_ptr := single_indirect_ptr n', double_indirect_ptr := double_indirect_ptr n'\<rparr>
     \<and> (\<forall>r. valid_role s r \<longrightarrow> is_table r \<longrightarrow> blk s' n' r = blk s n r \<or> \<not> used s (blk s' n' r))
     \<and> (\<forall>b. used s b \<longrightarrow> (\<forall>r. valid_role s r \<longrightarrow> is_table r \<longrightarrow> blk s n r \<noteq> b) \<longrightarrow> keep_block s s' b)
     \<and> (\<forall>a < unat (data_blocks_start (on_disk s)) * bsz s. disk s' a = disk s a)"

definition no_table :: "myfs \<Rightarrow> MyfsInode \<Rightarrow> u32 \<Rightarrow> bool" where
  "no_table s n b \<longleftrightarrow> (\<forall>r. valid_role s r \<longrightarrow> is_table r \<longrightarrow> blk s n r \<noteq> b)"

lemma frame_same: "frame s n s' n' \<Longrightarrow> same_fs s s'"
  and frame_used: "frame s n s' n' \<Longrightarrow> used s b \<Longrightarrow> used s' b"
  and frame_tables: "frame s n s' n' \<Longrightarrow> valid_role s r \<Longrightarrow> is_table r \<Longrightarrow> blk s' n' r = blk s n r \<or> \<not> used s (blk s' n' r)"
  and frame_keep: "frame s n s' n' \<Longrightarrow> used s b \<Longrightarrow> no_table s n b \<Longrightarrow> keep_block s s' b"
  and frame_low: "frame s n s' n' \<Longrightarrow> a < unat (data_blocks_start (on_disk s)) * bsz s \<Longrightarrow> disk s' a = disk s a"
  and frame_rest: "frame s n s' n' \<Longrightarrow> s' = s\<lparr>disk := disk s', block_bitmap := block_bitmap s'\<rparr>"
    "frame s n s' n' \<Longrightarrow> n' = n\<lparr>block_ptrs := block_ptrs n', single_indirect_ptr := single_indirect_ptr n', double_indirect_ptr := double_indirect_ptr n'\<rparr>"
  by (simp_all add: frame_def no_table_def)

lemma frameI:
  assumes "same_fs s s'" and "\<And>b. used s b \<Longrightarrow> used s' b" and "s' = s\<lparr>disk := disk s', block_bitmap := block_bitmap s'\<rparr>"
    and "n' = n\<lparr>block_ptrs := block_ptrs n', single_indirect_ptr := single_indirect_ptr n', double_indirect_ptr := double_indirect_ptr n'\<rparr>"
    and "\<And>r. valid_role s r \<Longrightarrow> is_table r \<Longrightarrow> blk s' n' r = blk s n r \<or> \<not> used s (blk s' n' r)"
    and "\<And>b. used s b \<Longrightarrow> no_table s n b \<Longrightarrow> keep_block s s' b"
    and "\<And>a. a < unat (data_blocks_start (on_disk s)) * bsz s \<Longrightarrow> disk s' a = disk s a"
  shows "frame s n s' n'"
  using assms unfolding frame_def no_table_def by blast

lemma frame_refl: "frame s n s n"
  by (simp add: frame_def same_fs_def keep_block_def)

lemma frame_no_table:
  assumes "frame s n s' n'" and "used s b" and "no_table s n b"
  shows "no_table s' n' b"
  using frame_tables [OF assms(1)] assms(2,3) unfolding no_table_def same_fs_simps(5) [OF frame_same [OF assms(1)]] by metis

lemma frame_trans:
  assumes st: "frame s n t m" and tu: "frame t m u k"
  shows "frame s n u k"
proof (rule frameI)
  note sf = same_fs_simps [OF frame_same [OF st]]
  have od: "on_disk t = on_disk s" using frame_same [OF st] by (simp add: same_fs_def)
  show "same_fs s u" using frame_same [OF st] frame_same [OF tu] by (simp add: same_fs_def)
  show "used u b" if "used s b" for b using that frame_used [OF st] frame_used [OF tu] by blast
  show "u = s\<lparr>disk := disk u, block_bitmap := block_bitmap u\<rparr>"
    by (subst frame_rest(1) [OF tu], subst frame_rest(1) [OF st]) simp
  show "k = n\<lparr>block_ptrs := block_ptrs k, single_indirect_ptr := single_indirect_ptr k, double_indirect_ptr := double_indirect_ptr k\<rparr>"
    by (subst frame_rest(2) [OF tu], subst frame_rest(2) [OF st]) simp
  show "blk u k r = blk s n r \<or> \<not> used s (blk u k r)" if "valid_role s r" "is_table r" for r
    using frame_tables [OF st that] frame_tables [OF tu _ that(2)] frame_used [OF st] that(1) unfolding sf by metis
  show "keep_block s u b" if "used s b" "no_table s n b" for b
    using frame_keep [OF st that] frame_keep [OF tu frame_used [OF st that(1)] frame_no_table [OF st that]]
    by (simp add: keep_block_def sf)
  show "disk u a = disk s a" if "a < unat (data_blocks_start (on_disk s)) * bsz s" for a
    using frame_low [OF st that] frame_low [OF tu, of a] that by (simp add: sf od)
qed

text \<open>A fresh table for an empty role.\<close>

definition zero_alloc :: "myfs \<Rightarrow> u32 \<Rightarrow> myfs" where
  "zero_alloc s t = s\<lparr>block_bitmap := bitmap_set_fs (block_bitmap s) (unat t), disk := mem_set (disk s) (unat t * bsz s) 0 (bsz s)\<rparr>"

lemma alloc_zeroed_cases:
  assumes ok: "fs_ok s"
  obtains (full) "myfs_bitmap_alloc_zeroed s = (0, s)"
  | (block) t where "myfs_bitmap_alloc_zeroed s = (t, zero_alloc s t)" "t \<noteq> 0" "\<not> used s t" "blk_ok (zero_alloc s t) t"
  using ok
proof (cases rule: bitmap_alloc_cases)
  case full
  then show ?thesis using that(1) by (simp add: myfs_bitmap_alloc_zeroed_def)
next
  case (block b)
  let ?s = "s\<lparr>block_bitmap := bitmap_set_fs (block_bitmap s) (unat b)\<rparr>"
  have "same_fs s ?s" by (simp add: same_fs_def)
  then have ok': "fs_ok ?s" using ok by (simp add: same_fs_simps(4))
  have "myfs_bitmap_alloc_zeroed s = (b, zero_alloc s b)"
    using block(1,2) write_zero_block [OF ok' block(4)] by (simp add: myfs_bitmap_alloc_zeroed_def zero_alloc_def bsz_def)
  moreover have "blk_ok (zero_alloc s b) b" using block(4) by (simp add: blk_ok_def used_def bsz_def zero_alloc_def)
  ultimately show ?thesis using that(2) block(2,3) by blast
qed

lemma zero_alloc_simps:
  assumes "fs_ok s"
  shows "same_fs s (zero_alloc s t)" "used (zero_alloc s t) b \<longleftrightarrow> b = t \<or> used s b"
    "j < ppb s \<Longrightarrow> ptr (zero_alloc s t) c j = (if c = t then 0 else ptr s c j)"
    "c \<noteq> t \<Longrightarrow> keep_block s (zero_alloc s t) c"
proof -
  show "same_fs s (zero_alloc s t)" by (simp add: same_fs_def zero_alloc_def)
  show "used (zero_alloc s t) b \<longleftrightarrow> b = t \<or> used s b"
    by (auto simp: used_def zero_alloc_def fb.tst_st word_unat_eq_iff)
  show "ptr (zero_alloc s t) c j = (if c = t then 0 else ptr s c j)" if "j < ppb s"
    by (rule ptr_zero_block [OF assms that]) (simp_all add: zero_alloc_def bsz_def)
  show "keep_block s (zero_alloc s t) c" if "c \<noteq> t"
    unfolding keep_block_def zero_alloc_def
    by (auto intro!: mem_set_out) (use blocks_apart [OF that, of "bsz s"] in linarith)
qed

definition extended :: "myfs \<Rightarrow> MyfsInode \<Rightarrow> myfs \<Rightarrow> MyfsInode \<Rightarrow> bool" where
  "extended s n s' n' \<longleftrightarrow> frame s n s' n' \<and> file_wf s' n' \<and> (\<forall>i < max_blocks s. lba s' n' i = lba s n i)
     \<and> (\<forall>b. fresh s n b \<longrightarrow> fresh s' n' b)"

lemma extended_refl: "file_wf s n \<Longrightarrow> extended s n s n"
  by (simp add: extended_def frame_refl)

lemma fresh_used: "fresh s n b \<Longrightarrow> used s b"
  by (simp add: fresh_def blk_ok_def)

lemma table_step:
  assumes ok: "fs_ok s" and wf: "file_wf s n" and R: "is_table R"
    and upd: "\<And>r. valid_role s r \<Longrightarrow> blk s' n' r = (if r = R then t else blk s n r)"
    and t: "t \<noteq> 0" "\<not> used s t" "blk_ok s' t" and us: "\<And>b. used s' b \<longleftrightarrow> b = t \<or> used s b"
    and sf: "same_fs s s'" and s': "s' = s\<lparr>disk := disk s', block_bitmap := block_bitmap s'\<rparr>"
    and n': "n' = n\<lparr>block_ptrs := block_ptrs n', single_indirect_ptr := single_indirect_ptr n', double_indirect_ptr := double_indirect_ptr n'\<rparr>"
    and len: "length (block_ptrs n') = 10"
    and keep: "\<And>b. b \<noteq> t \<Longrightarrow> no_table s n b \<Longrightarrow> keep_block s s' b"
    and low: "\<And>a. a < unat (data_blocks_start (on_disk s)) * bsz s \<Longrightarrow> disk s' a = disk s a"
  shows "extended s n s' n'"
proof -
  have nt: "blk s n r \<noteq> t" if "valid_role s r" for r
    using table_ok [OF wf that] t(1,2) by (auto simp: blk_ok_def)
  have "frame s n s' n'"
  proof (rule frameI [OF sf _ s' n'])
    show "keep_block s s' b" if "used s b" "no_table s n b" for b using that keep [of b] t(2) by blast
  qed (use us upd t low in auto)
  moreover have "file_wf s' n'"
    by (rule file_wf_update [OF wf sf len upd nt t(3)]) (use us in auto)
  moreover have "lba s' n' i = lba s n i" if "i < max_blocks s" for i
    using upd [of "Data i"] that R by auto
  moreover have "fresh s' n' b" if "fresh s n b" for b
    using that fresh_used [OF that] blk_ok_mono [OF sf] us t(2) upd
    by (auto simp: fresh_def same_fs_simps(5) [OF sf])
  ultimately show ?thesis by (simp add: extended_def)
qed

lemma low_zero_alloc:
  assumes "blk_ok (zero_alloc s t) t" and "a < unat (data_blocks_start (on_disk s)) * bsz s"
  shows "disk (zero_alloc s t) a = disk s a"
proof -
  have "unat (data_blocks_start (on_disk s)) * bsz s \<le> unat t * bsz s"
    using assms(1) by (intro mult_le_mono1) (simp add: blk_ok_def zero_alloc_def)
  then have "a < unat t * bsz s" using assms(2) by linarith
  then show ?thesis by (simp add: zero_alloc_def mem_set_out)
qed

lemma file_ptrs_len: "file_wf s n \<Longrightarrow> length (block_ptrs n) = 10"
  by (simp add: file_wf_def)

lemma table_not_fresh: "file_wf s n \<Longrightarrow> valid_role s r \<Longrightarrow> blk s n r \<noteq> 0 \<Longrightarrow> \<not> used s t \<Longrightarrow> blk s n r \<noteq> t"
  using table_ok [of s n r] by (auto simp: blk_ok_def)

lemma single_step:
  assumes ok: "fs_ok s" and wf: "file_wf s n" and z: "single_indirect_ptr n = 0"
    and t: "t \<noteq> 0" "\<not> used s t" "blk_ok (zero_alloc s t) t"
  shows "extended s n (zero_alloc s t) (n\<lparr>single_indirect_ptr := t\<rparr>)"
proof (rule table_step [OF ok wf, where R = Single and t = t])
  note za = zero_alloc_simps [OF ok]
  have sub: "sub_table (zero_alloc s t) (n\<lparr>single_indirect_ptr := t\<rparr>) k = sub_table s n k" if "k < ppb s" for k
    using za(3) [OF that] table_not_fresh [OF wf, of Double t] t(2) by (auto simp: sub_table_def)
  show "blk (zero_alloc s t) (n\<lparr>single_indirect_ptr := t\<rparr>) r = (if r = Single then t else blk s n r)" if "valid_role s r" for r
  proof (rule new_table_update [OF ok wf za(1) _ _ _ _ _ _ that])
    show "blk (zero_alloc s t) (n\<lparr>single_indirect_ptr := t\<rparr>) r = (if r = Single then t else blk s n r)"
      if "valid_role s r" "is_table r" for r using that sub by (cases r) auto
    show "ptr (zero_alloc s t) (blk s n r) j = ptr s (blk s n r) j"
      if "valid_role s r" "blk s n r \<noteq> 0" "j < ppb s" for r j
      using za(3) [OF that(3)] table_not_fresh [OF wf that(1,2) t(2)] by simp
  qed (use z za(3) in simp_all)
  show "keep_block s (zero_alloc s t) b" if "b \<noteq> t" for b using za(4) [OF that] .
  show "disk (zero_alloc s t) a = disk s a" if "a < unat (data_blocks_start (on_disk s)) * bsz s" for a
    by (rule low_zero_alloc [OF t(3) that])
  show "used (zero_alloc s t) b \<longleftrightarrow> b = t \<or> used s b" for b by (rule za(2))
qed (use t zero_alloc_simps(1) [OF ok] file_ptrs_len [OF wf] in \<open>simp_all add: zero_alloc_def\<close>)

lemma double_step:
  assumes ok: "fs_ok s" and wf: "file_wf s n" and z: "double_indirect_ptr n = 0"
    and t: "t \<noteq> 0" "\<not> used s t" "blk_ok (zero_alloc s t) t"
  shows "extended s n (zero_alloc s t) (n\<lparr>double_indirect_ptr := t\<rparr>)"
proof (rule table_step [OF ok wf, where R = Double and t = t])
  note za = zero_alloc_simps [OF ok]
  have sub: "sub_table (zero_alloc s t) (n\<lparr>double_indirect_ptr := t\<rparr>) k = sub_table s n k" if "k < ppb s" for k
    using za(3) [OF that] z by (auto simp: sub_table_def)
  show "blk (zero_alloc s t) (n\<lparr>double_indirect_ptr := t\<rparr>) r = (if r = Double then t else blk s n r)" if "valid_role s r" for r
  proof (rule new_table_update [OF ok wf za(1) _ _ _ _ _ _ that])
    show "blk (zero_alloc s t) (n\<lparr>double_indirect_ptr := t\<rparr>) r = (if r = Double then t else blk s n r)"
      if "valid_role s r" "is_table r" for r using that sub by (cases r) auto
    show "ptr (zero_alloc s t) (blk s n r) j = ptr s (blk s n r) j"
      if "valid_role s r" "blk s n r \<noteq> 0" "j < ppb s" for r j
      using za(3) [OF that(3)] table_not_fresh [OF wf that(1,2) t(2)] by simp
  qed (use z za(3) in simp_all)
  show "keep_block s (zero_alloc s t) b" if "b \<noteq> t" for b using za(4) [OF that] .
  show "disk (zero_alloc s t) a = disk s a" if "a < unat (data_blocks_start (on_disk s)) * bsz s" for a
    by (rule low_zero_alloc [OF t(3) that])
  show "used (zero_alloc s t) b \<longleftrightarrow> b = t \<or> used s b" for b by (rule za(2))
qed (use t zero_alloc_simps(1) [OF ok] file_ptrs_len [OF wf] in \<open>simp_all add: zero_alloc_def\<close>)

text \<open>Writing one pointer.\<close>

definition put_ptr :: "myfs \<Rightarrow> u32 \<Rightarrow> nat \<Rightarrow> u32 \<Rightarrow> myfs" where
  "put_ptr s x k v = s\<lparr>disk := put32 (disk s) (unat x * bsz s + 4 * k) v\<rparr>"

lemma put_ptr_simps:
  assumes "fs_ok s" and "k < ppb s"
  shows "same_fs s (put_ptr s x k v)" "used (put_ptr s x k v) b = used s b" "bsz (put_ptr s x k v) = bsz s"
    "j < ppb s \<Longrightarrow> ptr (put_ptr s x k v) c j = (if c = x \<and> j = k then v else ptr s c j)"
    "c \<noteq> x \<Longrightarrow> keep_block s (put_ptr s x k v) c"
    "blk_ok s x \<Longrightarrow> a < unat (data_blocks_start (on_disk s)) * bsz s \<Longrightarrow> disk (put_ptr s x k v) a = disk s a"
proof -
  have k: "4 * k + 4 \<le> bsz s" using assms(2) fs_ok_facts(3) [OF assms(1)] by linarith
  show "same_fs s (put_ptr s x k v)" "used (put_ptr s x k v) b = used s b" "bsz (put_ptr s x k v) = bsz s"
    by (simp_all add: same_fs_def put_ptr_def used_def bsz_def)
  show "ptr (put_ptr s x k v) c j = (if c = x \<and> j = k then v else ptr s c j)" if "j < ppb s"
    by (rule ptr_write_ptr [OF assms that]) (simp add: put_ptr_def)
  show "keep_block s (put_ptr s x k v) c" if "c \<noteq> x"
    unfolding keep_block_def put_ptr_def
    by (auto intro!: put32_other) (use blocks_apart [OF that, of "bsz s"] k in linarith)
  show "disk (put_ptr s x k v) a = disk s a" if "blk_ok s x" "a < unat (data_blocks_start (on_disk s)) * bsz s"
  proof -
    have "unat (data_blocks_start (on_disk s)) * bsz s \<le> unat x * bsz s"
      using that(1) by (intro mult_le_mono1) (simp add: blk_ok_def)
    then have "a < unat x * bsz s + 4 * k" using that(2) by linarith
    then show ?thesis by (simp add: put_ptr_def put32_other)
  qed
qed

lemma write_put_ptr: "fs_ok s \<Longrightarrow> blk_ok s b \<Longrightarrow> unat slot < ppb s \<Longrightarrow> write_ptr_to_block b slot v s = put_ptr s b (unat slot) v"
  by (simp add: write_ptr_eq put_ptr_def)

lemma sub_step:
  assumes ok: "fs_ok s" and wf: "file_wf s n" and d: "double_indirect_ptr n \<noteq> 0" and m: "m < ppb s" "sub_table s n m = 0"
    and t: "t \<noteq> 0" "\<not> used s t" "blk_ok (zero_alloc s t) t"
  shows "extended s n (put_ptr (zero_alloc s t) (double_indirect_ptr n) m t) n"
proof (rule table_step [OF ok wf, where R = "Sub m" and t = t])
  let ?d = "double_indirect_ptr n" and ?s1 = "zero_alloc s t"
  let ?s2 = "put_ptr ?s1 ?d m t"
  note za = zero_alloc_simps [OF ok]
  note sf = same_fs_simps [OF za(1)]
  have ok1: "fs_ok ?s1" and m1: "m < ppb ?s1" using ok m(1) by (simp_all add: sf)
  note pp = put_ptr_simps [OF ok1 m1]
  have dt: "?d \<noteq> t" using table_not_fresh [OF wf, of Double t] d t(2) by simp
  have d1: "blk_ok ?s1 ?d" using table_ok [OF wf, of Double] d blk_ok_mono [OF za(1)] za(2) by simp
  show sf2: "same_fs s ?s2" using za(1) pp(1) [of ?d t] by (simp add: same_fs_def)
  have p2: "ptr ?s2 c j = (if c = ?d \<and> j = m then t else if c = t then 0 else ptr s c j)" if "j < ppb s" for c j
    using pp(4) [of j ?d t c] za(3) [OF that, of t c] that by (auto simp: sf)
  have tab: "blk ?s2 n r = (if r = Sub m then t else blk s n r)" if "valid_role s r" "is_table r" for r
    using that p2 [of _ ?d] d dt by (cases r) (auto simp: sub_table_def)
  have inj: "blk s n r \<noteq> ?d" if "valid_role s r" "r \<noteq> Double" for r
    using wf that d by (auto simp: file_wf_def dest: spec [of _ Double])
  show "blk ?s2 n r = (if r = Sub m then t else blk s n r)" if "valid_role s r" for r
  proof (rule new_table_update [OF ok wf sf2 _ _ _ tab _ _ that])
    show "ptr ?s2 t j = 0" if "j < ppb s" for j using p2 [OF that, of t] dt by simp
    show "ptr ?s2 (blk s n r) j = ptr s (blk s n r) j"
      if "valid_role s r" "r \<noteq> Double" "blk s n r \<noteq> 0" "j < ppb s" for r j
      using p2 [OF that(4)] table_not_fresh [OF wf that(1,3) t(2)] inj [OF that(1,2)] by simp
  qed (use m in simp_all)
  show "blk_ok ?s2 t" using t(3) pp(2) blk_ok_mono [OF pp(1)] by blast
  show "used ?s2 b \<longleftrightarrow> b = t \<or> used s b" for b using pp(2) za(2) by blast
  show "keep_block s ?s2 b" if "b \<noteq> t" "no_table s n b" for b
  proof -
    have "b \<noteq> ?d" using that(2) by (auto simp: no_table_def dest: spec [of _ Double])
    then show ?thesis using za(4) [OF that(1)] pp(5) [of b ?d t] by (simp add: keep_block_def sf)
  qed
  show "disk ?s2 a = disk s a" if "a < unat (data_blocks_start (on_disk s)) * bsz s" for a
    using pp(6) [OF d1, of a t] low_zero_alloc [OF t(3) that] that za(1) by (simp add: sf same_fs_def)
qed (use t file_ptrs_len [OF wf] in \<open>simp_all add: zero_alloc_def put_ptr_def\<close>)

text \<open>Entering the new data block: \<open>entered\<close> is what a successful map leaves.\<close>

definition entered :: "nat \<Rightarrow> u32 \<Rightarrow> myfs \<Rightarrow> MyfsInode \<Rightarrow> myfs \<Rightarrow> MyfsInode \<Rightarrow> bool" where
  "entered idx b s n s' n' \<longleftrightarrow> frame s n s' n' \<and> file_wf s' n'
     \<and> (\<forall>i < max_blocks s. lba s' n' i = (if i = idx then b else lba s n i))"

lemma enteredI:
  assumes wf: "file_wf s n" and fr: "frame s n s' n'" and b: "fresh s n b" and idx: "idx < max_blocks s"
    and upd: "\<And>r. valid_role s r \<Longrightarrow> blk s' n' r = (if r = Data idx then b else blk s n r)" and len: "length (block_ptrs n') = 10"
  shows "entered idx b s n s' n'"
proof -
  have "file_wf s' n'"
    by (rule file_wf_update [OF wf frame_same [OF fr] len upd])
      (use b frame_used [OF fr] blk_ok_mono [OF frame_same [OF fr]] in \<open>auto simp: fresh_def\<close>)
  moreover have "lba s' n' i = (if i = idx then b else lba s n i)" if "i < max_blocks s" for i
    using upd [of "Data i"] that by auto
  ultimately show ?thesis using fr by (simp add: entered_def)
qed

lemma direct_step:
  assumes wf: "file_wf s n" and b: "fresh s n b" and idx: "idx < 10"
  shows "entered idx b s n s (n\<lparr>block_ptrs := (block_ptrs n)[idx := b]\<rparr>)"
proof (rule enteredI [OF wf _ b])
  let ?n = "n\<lparr>block_ptrs := (block_ptrs n)[idx := b]\<rparr>"
  show upd: "blk s ?n r = (if r = Data idx then b else blk s n r)" if "valid_role s r" for r
    using idx file_ptrs_len [OF wf] by (cases r) (auto simp: sub_table_def lba_def nth_list_update Let_def)
  show "frame s n s ?n"
    by (rule frameI) (use upd in \<open>auto simp: same_fs_def keep_block_def\<close>)
qed (use idx file_ptrs_len [OF wf] in \<open>simp_all add: max_blocks_def\<close>)

lemma pointer_step:
  assumes ok: "fs_ok s" and wf: "file_wf s n" and b: "fresh s n b" and idx: "10 \<le> idx" "idx < max_blocks s"
    and x: "blk s n (fst (loc s idx)) = x" "x \<noteq> 0"
  shows "entered idx b s n (put_ptr s x (snd (loc s idx)) b) n"
proof (rule enteredI [OF wf _ b idx(2)])
  note f = loc_facts [OF ok idx]
  note pp = put_ptr_simps [OF ok f(4)]
  show upd: "blk (put_ptr s x (snd (loc s idx)) b) n r = (if r = Data idx then b else blk s n r)" if "valid_role s r" for r
    by (rule new_pointer_update [OF ok wf idx x _ that]) (simp add: put_ptr_def)
  have xo: "blk_ok s x" using table_ok [OF wf f(1)] x by simp
  show "frame s n (put_ptr s x (snd (loc s idx)) b) n"
  proof (rule frameI [OF pp(1)])
    show "keep_block s (put_ptr s x (snd (loc s idx)) b) c" if "no_table s n c" for c
      using pp(5) [of c x b] that x(1) f(1,2) by (auto simp: no_table_def)
  qed (use pp(2) pp(6) [OF xo] upd in \<open>auto simp: put_ptr_def\<close>)
qed (use file_ptrs_len [OF wf] in simp)

lemma extended_entered:
  assumes "extended s n t m" and "entered idx b t m u k"
  shows "entered idx b s n u k"
  using assms same_fs_simps(6) [OF frame_same, of s n t m]
  by (auto simp: extended_def entered_def intro: frame_trans)

lemma extended_trans:
  assumes "extended s n t m" and "extended t m u k"
  shows "extended s n u k"
  using assms same_fs_simps(6) [OF frame_same, of s n t m]
  by (auto simp: extended_def intro: frame_trans)

lemma extended_facts:
  assumes "extended s n t m"
  shows "fs_ok s \<Longrightarrow> fs_ok t" "file_wf t m" "fresh s n b \<Longrightarrow> fresh t m b" "loc t i = loc s i" "ppb t = ppb s"
    "max_blocks t = max_blocks s" "ptrs_per_block t = ptrs_per_block s"
proof -
  have sf: "same_fs s t" using assms by (auto simp: extended_def dest: frame_same)
  show "fs_ok s \<Longrightarrow> fs_ok t" "file_wf t m" "fresh s n b \<Longrightarrow> fresh t m b" "loc t i = loc s i" "ppb t = ppb s"
    "max_blocks t = max_blocks s" "ptrs_per_block t = ptrs_per_block s"
    using assms sf by (simp_all add: extended_def same_fs_simps loc_def) (simp add: ptrs_per_block_def same_fs_def)
qed

text \<open>The last write of the map: the pointer goes into the table that \<open>loc\<close> names.\<close>

lemma final_write:
  assumes ex: "extended s n t m" and ok: "fs_ok s" and b: "fresh s n b" and idx: "10 \<le> idx" "idx < max_blocks s"
    and x: "blk t m (fst (loc s idx)) = x" "x \<noteq> 0" and slot: "unat slot = snd (loc s idx)"
  shows "entered idx b s n (write_ptr_to_block x slot b t) m"
proof -
  note e = extended_facts [OF ex]
  have ok': "fs_ok t" using e(1) ok .
  have idx': "idx < max_blocks t" using idx(2) e(6) by simp
  note f = loc_facts [OF ok' idx(1) idx', unfolded e(4)]
  have xo: "blk_ok t x" using table_ok [OF e(2) f(1)] x by simp
  have "write_ptr_to_block x slot b t = put_ptr t x (snd (loc t idx)) b"
    using write_put_ptr [OF ok' xo] f(4) by (simp add: slot e(4))
  moreover have "entered idx b t m (put_ptr t x (snd (loc t idx)) b) m"
    by (rule pointer_step [OF ok' e(2,3) idx(1) idx']) (use b x in \<open>simp_all add: e(4)\<close>)
  ultimately show ?thesis using extended_entered [OF ex] by simp
qed

lemma get_single:
  assumes ok: "fs_ok s" and wf: "file_wf s n"
  shows "\<exists>m t. (if single_indirect_ptr n = 0
          then (case myfs_bitmap_alloc_zeroed s of (t, s) \<Rightarrow> (n\<lparr>single_indirect_ptr := t\<rparr>, s)) else (n, s)) = (m, t) \<and> extended s n t m"
proof (cases "single_indirect_ptr n = 0")
  case True
  from ok show ?thesis
  proof (cases rule: alloc_zeroed_cases)
    case full
    have same: "n\<lparr>single_indirect_ptr := 0\<rparr> = n" using True by simp
    then show ?thesis using full True extended_refl [OF wf] by (simp add: same)
  next
    case (block t)
    then show ?thesis using True single_step [OF ok wf True block(2,3,4)] by simp
  qed
qed (use extended_refl [OF wf] in simp)

lemma get_double:
  assumes ok: "fs_ok s" and wf: "file_wf s n"
  shows "\<exists>m t. (if double_indirect_ptr n = 0
          then (case myfs_bitmap_alloc_zeroed s of (t, s) \<Rightarrow> (n\<lparr>double_indirect_ptr := t\<rparr>, s)) else (n, s)) = (m, t) \<and> extended s n t m"
proof (cases "double_indirect_ptr n = 0")
  case True
  from ok show ?thesis
  proof (cases rule: alloc_zeroed_cases)
    case full
    have same: "n\<lparr>double_indirect_ptr := 0\<rparr> = n" using True by simp
    then show ?thesis using full True extended_refl [OF wf] by (simp add: same)
  next
    case (block t)
    then show ?thesis using True double_step [OF ok wf True block(2,3,4)] by simp
  qed
qed (use extended_refl [OF wf] in simp)

lemma get_sub:
  assumes ok: "fs_ok s" and wf: "file_wf s n" and d: "double_indirect_ptr n \<noteq> 0" and mi: "unat mi < ppb s"
  shows "\<exists>t. (let sub = read_ptr_from_block s (double_indirect_ptr n) mi in
       if sub = 0 then (case myfs_bitmap_alloc_zeroed s of (t, s) \<Rightarrow>
                          (t, if t = 0 then s else write_ptr_to_block (double_indirect_ptr n) mi t s))
       else (sub, s)) = (sub_table t n (unat mi), t) \<and> extended s n t n"
proof -
  have dok: "blk_ok s (double_indirect_ptr n)" using table_ok [OF wf, of Double] d by simp
  have sub: "read_ptr_from_block s (double_indirect_ptr n) mi = sub_table s n (unat mi)"
    using sub_table_read [OF ok wf, of mi] d by simp
  show ?thesis
  proof (cases "sub_table s n (unat mi) = 0")
    case False
    then show ?thesis using sub extended_refl [OF wf] by (intro exI [of _ s]) simp
  next
    case True
    from ok show ?thesis
    proof (cases rule: alloc_zeroed_cases)
      case full
      then show ?thesis using sub True extended_refl [OF wf] by (intro exI [of _ s]) simp
    next
      case (block t)
      note za = zero_alloc_simps [OF ok]
      have ok1: "fs_ok (zero_alloc s t)" "unat mi < ppb (zero_alloc s t)" using ok mi by (simp_all add: same_fs_simps [OF za(1)])
      have d1: "blk_ok (zero_alloc s t) (double_indirect_ptr n)" using dok blk_ok_mono [OF za(1)] za(2) by blast
      let ?t = "put_ptr (zero_alloc s t) (double_indirect_ptr n) (unat mi) t"
      have w: "write_ptr_to_block (double_indirect_ptr n) mi t (zero_alloc s t) = ?t"
        by (rule write_put_ptr [OF ok1(1) d1 ok1(2)])
      have "sub_table ?t n (unat mi) = t"
        using put_ptr_simps(4) [OF ok1 ok1(2)] d by (simp add: sub_table_def)
      then show ?thesis
        using block sub True w sub_step [OF ok wf d mi True block(2,3,4)] by (intro exI [of _ ?t]) simp
    qed
  qed
qed

lemma map_block_spec:
  assumes ok: "fs_ok s" and wf: "file_wf s n" and b: "fresh s n b" and idx: "idx < max_blocks s"
  shows "\<exists>r n' s'. myfs_map_block_to_inode (of_nat idx) b n s = (r, n', s')
    \<and> (if r then entered idx b s n s' n' else extended s n s' n')"
proof -
  note w = walk_arith [OF ok idx]
  consider "idx < 10" | "10 \<le> idx" "idx - 10 < ppb s" | "10 + ppb s \<le> idx" by linarith
  then show ?thesis
  proof cases
    case 1
    have "myfs_map_block_to_inode (of_nat idx) b n s = (True, n\<lparr>block_ptrs := (block_ptrs n)[idx := b]\<rparr>, s)"
      using 1 w(1) by (simp add: myfs_map_block_to_inode_def MYFS_DIRECT_BLOCKS_MAX_def)
    then show ?thesis using direct_step [OF wf b 1] by auto
  next
    case 2
    obtain m t where g: "(if single_indirect_ptr n = 0
          then (case myfs_bitmap_alloc_zeroed s of (t, s) \<Rightarrow> (n\<lparr>single_indirect_ptr := t\<rparr>, s)) else (n, s)) = (m, t)"
      "extended s n t m" using get_single [OF ok wf] by blast
    have l: "loc s idx = (Single, idx - 10)" using 2 by (simp add: loc_def)
    have run: "myfs_map_block_to_inode (of_nat idx) b n s = (if single_indirect_ptr m = 0 then (False, m, t)
        else (True, m, write_ptr_to_block (single_indirect_ptr m) (of_nat idx - 10) b t))"
      using w(1,3) 2 g(1) by (simp add: myfs_map_block_to_inode_def MYFS_DIRECT_BLOCKS_MAX_def Let_def)
    show ?thesis
    proof (cases "single_indirect_ptr m = 0")
      case True
      then show ?thesis using run g(2) by auto
    next
      case False
      have "entered idx b s n (write_ptr_to_block (single_indirect_ptr m) (of_nat idx - 10) b t) m"
        by (rule final_write [OF g(2) ok b 2(1) idx]) (use False w(2) 2 in \<open>simp_all add: l\<close>)
      then show ?thesis using run False by auto
    qed
  next
    case 3
    let ?r = "(of_nat idx :: u32) - 10 - ptrs_per_block s"
    let ?mi = "?r div ptrs_per_block s" and ?si = "?r mod ptrs_per_block s"
    obtain m t where g: "(if double_indirect_ptr n = 0
          then (case myfs_bitmap_alloc_zeroed s of (t, s) \<Rightarrow> (n\<lparr>double_indirect_ptr := t\<rparr>, s)) else (n, s)) = (m, t)"
      "extended s n t m" using get_double [OF ok wf] by blast
    note e = extended_facts [OF g(2)]
    have far: "\<not> idx - 10 < ppb s" "\<not> idx < 10" using 3 by auto
    have l: "loc s idx = (Sub (unat ?mi), unat ?si)" using far w(6,7) 3 by (simp add: loc_def)
    define body where "body = (let sub = read_ptr_from_block t (double_indirect_ptr m) ?mi in
       if sub = 0 then (case myfs_bitmap_alloc_zeroed t of (x, s) \<Rightarrow>
                          (x, if x = 0 then s else write_ptr_to_block (double_indirect_ptr m) ?mi x s))
       else (sub, t))"
    have run: "myfs_map_block_to_inode (of_nat idx) b n s = (if double_indirect_ptr m = 0 then (False, m, t)
        else (case body of (sub, u) \<Rightarrow> if sub = 0 then (False, m, u) else (True, m, write_ptr_to_block sub ?si b u)))"
      using w(1,3,5) 3 far g(1) unfolding body_def
      by (simp add: myfs_map_block_to_inode_def MYFS_DIRECT_BLOCKS_MAX_def Let_def)
    show ?thesis
    proof (cases "double_indirect_ptr m = 0")
      case True
      then show ?thesis using run g(2) by auto
    next
      case False
      have mi: "unat ?mi < ppb t" using w(6,8) 3 e(5) by simp
      obtain u where u: "body = (sub_table u m (unat ?mi), u)" "extended t m u m"
        using get_sub [OF e(1) [OF ok] e(2) False mi] unfolding body_def by blast
      note su = extended_trans [OF g(2) u(2)]
      show ?thesis
      proof (cases "sub_table u m (unat ?mi) = 0")
        case True
        then show ?thesis using run False u(1) su by auto
      next
        case sub: False
        have "entered idx b s n (write_ptr_to_block (sub_table u m (unat ?mi)) ?si b u) m"
          by (rule final_write [OF su ok b _ idx]) (use sub 3 in \<open>simp_all add: l\<close>)
        then show ?thesis using run False u(1) sub by auto
      qed
    qed
  qed
qed

lemma map_block_no_alloc:
  assumes ok: "fs_ok s" and wf: "file_wf s n" and i: "idx < max_blocks s"
    and t: "idx < 10 \<or> blk s n (fst (loc s idx)) \<noteq> 0"
  shows "fst (myfs_map_block_to_inode (of_nat idx) b n s)"
proof -
  note w = walk_arith [OF ok i]
  consider "idx < 10" | "10 \<le> idx" "idx - 10 < ppb s" | "10 + ppb s \<le> idx" "\<not> idx - 10 < ppb s" "\<not> idx < 10" by linarith
  then show ?thesis
  proof cases
    case 1
    then show ?thesis using w(1) by (simp add: myfs_map_block_to_inode_def MYFS_DIRECT_BLOCKS_MAX_def)
  next
    case 2
    then show ?thesis using w t by (simp add: myfs_map_block_to_inode_def MYFS_DIRECT_BLOCKS_MAX_def Let_def loc_def)
  next
    case 3
    let ?r = "(of_nat idx :: u32) - 10 - ptrs_per_block s"
    have t': "sub_table s n ((idx - 10 - ppb s) div ppb s) \<noteq> 0" using t 3 by (simp add: loc_def)
    then have d: "double_indirect_ptr n \<noteq> 0" by (auto simp: sub_table_def)
    have "read_ptr_from_block s (double_indirect_ptr n) (?r div ptrs_per_block s) \<noteq> 0"
      using sub_table_read [OF ok wf, of "?r div ptrs_per_block s"] w(6) 3(1) d t' by simp
    then show ?thesis
      using w(1,3,5) 3 d by (simp add: myfs_map_block_to_inode_def MYFS_DIRECT_BLOCKS_MAX_def Let_def)
  qed
qed

text \<open>
  C27. The block map of a file is a map.  On a well-formed file, when \<^verbatim>\<open>myfs_map_block_to_inode\<close>
  succeeds for a fresh block, looking up the file block gives that disk block and every other file
  block is looked up as before, whether the pointer is direct, in the single indirect table or in
  one of the second-level tables, and whichever tables had to be created on the way.  It can only
  fail when the table for the pointer does not exist yet, and then every file block is looked up as
  before.  The file stays well-formed: no block gets two roles.
\<close>

theorem block_map_roundtrip:
  assumes "fs_ok s" and "file_wf s n" and "fresh s n b" and "idx < max_blocks s"
  shows "\<exists>ok n' s'. myfs_map_block_to_inode (of_nat idx) b n s = (ok, n', s') \<and> file_wf s' n'
    \<and> (\<forall>i < max_blocks s. myfs_block_lba_get s' n' (of_nat i)
          = (if ok \<and> i = idx then b else myfs_block_lba_get s n (of_nat i)))
    \<and> (idx < 10 \<or> blk s n (fst (loc s idx)) \<noteq> 0 \<longrightarrow> ok)"
proof -
  obtain r n' s' where m: "myfs_map_block_to_inode (of_nat idx) b n s = (r, n', s')"
    "if r then entered idx b s n s' n' else extended s n s' n'"
    using map_block_spec [OF assms] by blast
  then have fr: "frame s n s' n'" and wf: "file_wf s' n'"
    and l: "\<forall>i < max_blocks s. lba s' n' i = (if r \<and> i = idx then b else lba s n i)"
    by (auto simp: entered_def extended_def split: if_splits)
  have ok: "fs_ok s'" "max_blocks s' = max_blocks s"
    using assms(1) by (simp_all add: same_fs_simps [OF frame_same [OF fr]])
  have "\<forall>i < max_blocks s. myfs_block_lba_get s' n' (of_nat i)
      = (if r \<and> i = idx then b else myfs_block_lba_get s n (of_nat i))"
    using l lba_get_eq [OF ok(1) wf] lba_get_eq [OF assms(1,2)] by (simp add: ok(2))
  moreover have "idx < 10 \<or> blk s n (fst (loc s idx)) \<noteq> 0 \<longrightarrow> r"
    using map_block_no_alloc [OF assms(1,2,4), of b] m(1) by simp
  ultimately show ?thesis using m(1) wf by blast
qed

text \<open>The demo file system with one block taken and not yet in a file.\<close>

definition fs_demo_block :: myfs where
  "fs_demo_block = fs_demo\<lparr>block_bitmap := bitmap_set_fs (\<lambda>_. 0) 900\<rparr>"

lemma fs_demo_ok: "fs_ok fs_demo" "max_blocks fs_demo = 262666"
  by (simp_all add: fs_ok_def geo_def bsz_def max_blocks_def ppb_def fs_demo_def layout_defs DISK_MAX_def sizeof_inode_def)

lemma no_blocks:
  assumes "block_ptrs n = replicate 10 0" and "single_indirect_ptr n = 0" and "double_indirect_ptr n = 0"
  shows "blk s n r = 0" "file_wf s n"
proof -
  show b: "blk s n r = 0" for r using assms by (cases r) (simp_all add: lba_def sub_table_def Let_def)
  show "file_wf s n" using assms(1) by (simp add: file_wf_def b)
qed

lemma inode_demo_wf: "file_wf s inode_demo" "blk s inode_demo r = 0"
  by (rule no_blocks; simp add: inode_demo_def zero_inode_def MYFS_DIRECT_BLOCKS_MAX_def)+

theorem block_map_roundtrip_witness:
  "\<exists>n' s'. myfs_map_block_to_inode (of_nat 7) 900 inode_demo fs_demo_block = (True, n', s') \<and> file_wf s' n'
    \<and> myfs_block_lba_get s' n' (of_nat 7) = 900 \<and> myfs_block_lba_get s' n' (of_nat 6) = 0"
proof -
  have sf: "same_fs fs_demo fs_demo_block" by (simp add: same_fs_def fs_demo_block_def)
  have ok: "fs_ok fs_demo_block" "max_blocks fs_demo_block = 262666"
    using fs_demo_ok same_fs_simps [OF sf] by simp_all
  have b: "blk_ok fs_demo_block 900"
    by (simp add: blk_ok_def used_def bsz_def fs_demo_block_def fs_demo_def layout_defs DISK_MAX_def sizeof_inode_def fb.tst_st)
  have fr: "fresh fs_demo_block inode_demo 900" using b by (simp add: fresh_def inode_demo_wf)
  have z: "myfs_block_lba_get fs_demo_block inode_demo (of_nat 6) = 0"
    using lba_get_eq [OF ok(1) inode_demo_wf(1), of 6] inode_demo_wf(2) [of fs_demo_block "Data 6"] ok(2) by simp
  obtain r n' s' where m: "myfs_map_block_to_inode (of_nat 7) 900 inode_demo fs_demo_block = (r, n', s')" "file_wf s' n'"
    and l: "\<forall>i < max_blocks fs_demo_block. myfs_block_lba_get s' n' (of_nat i)
          = (if r \<and> i = 7 then 900 else myfs_block_lba_get fs_demo_block inode_demo (of_nat i))" and r: "r"
    using block_map_roundtrip [OF ok(1) inode_demo_wf(1) fr, of 7] ok(2) by auto
  have "myfs_block_lba_get s' n' (of_nat 7) = 900" using l [rule_format, of 7] r ok(2) by simp
  moreover have "myfs_block_lba_get s' n' (of_nat 6) = 0" using l [rule_format, of 6] z ok(2) by simp
  ultimately show ?thesis using m r by (intro exI [of _ n'] exI [of _ s']) simp
qed

subsection \<open>Growing a file\<close>

lemma role_count [simp]:
  "lba s (n\<lparr>block_count := c\<rparr>) i = lba s n i" "blk s (n\<lparr>block_count := c\<rparr>) r = blk s n r"
  "file_wf s (n\<lparr>block_count := c\<rparr>) = file_wf s n"
proof -
  show l: "lba s (n\<lparr>block_count := c\<rparr>) i = lba s n i" for i by (simp add: lba_def sub_table_def)
  show b: "blk s (n\<lparr>block_count := c\<rparr>) r = blk s n r" for r by (cases r) (simp_all add: l sub_table_def)
  show "file_wf s (n\<lparr>block_count := c\<rparr>) = file_wf s n" by (simp add: file_wf_def b)
qed

lemma role_bitmap [simp]:
  "ptr (s\<lparr>block_bitmap := m\<rparr>) b k = ptr s b k" "bsz (s\<lparr>block_bitmap := m\<rparr>) = bsz s" "ppb (s\<lparr>block_bitmap := m\<rparr>) = ppb s"
  "sub_table (s\<lparr>block_bitmap := m\<rparr>) n j = sub_table s n j" "lba (s\<lparr>block_bitmap := m\<rparr>) n i = lba s n i"
  "blk (s\<lparr>block_bitmap := m\<rparr>) n r = blk s n r" "valid_role (s\<lparr>block_bitmap := m\<rparr>) r = valid_role s r"
proof -
  show p: "ptr (s\<lparr>block_bitmap := m\<rparr>) b k = ptr s b k" "bsz (s\<lparr>block_bitmap := m\<rparr>) = bsz s" "ppb (s\<lparr>block_bitmap := m\<rparr>) = ppb s" for b k
    by (simp_all add: ptr_def bsz_def ppb_def)
  show u: "sub_table (s\<lparr>block_bitmap := m\<rparr>) n j = sub_table s n j" for j by (simp add: sub_table_def p)
  show l: "lba (s\<lparr>block_bitmap := m\<rparr>) n i = lba s n i" for i by (simp add: lba_def p u Let_def)
  show "blk (s\<lparr>block_bitmap := m\<rparr>) n r = blk s n r" by (cases r) (simp_all add: l u)
  show "valid_role (s\<lparr>block_bitmap := m\<rparr>) r = valid_role s r" by (cases r) (simp_all add: p max_blocks_def)
qed

lemma alloc_frame:
  assumes ok: "fs_ok s" and wf: "file_wf s n" and b: "\<not> used s b" "b \<noteq> 0"
  defines "t \<equiv> s\<lparr>block_bitmap := bitmap_set_fs (block_bitmap s) (unat b)\<rparr>"
  assumes bt: "blk_ok t b"
  shows "frame s n t n" "file_wf t n" "fresh t n b" "fs_ok t"
proof -
  have sf: "same_fs s t" by (simp add: t_def same_fs_def)
  have us: "used t c \<longleftrightarrow> c = b \<or> used s c" for c by (auto simp: used_def t_def fb.tst_st word_unat_eq_iff)
  have bl: "blk t n r = blk s n r" for r by (simp add: t_def)
  show "frame s n t n"
    by (rule frameI [OF sf]) (use us bl in \<open>auto simp: t_def keep_block_def\<close>)
  show "file_wf t n"
    using wf us blk_ok_mono [OF sf] by (auto simp: file_wf_def bl same_fs_simps(5) [OF sf])
  show "fresh t n b"
    using bt b(2) table_not_fresh [OF wf _ _ b(1)] by (auto simp: fresh_def bl same_fs_simps(5) [OF sf])
  show "fs_ok t" using ok by (simp add: same_fs_simps(4) [OF sf])
qed

lemma clear_frame:
  assumes fr: "frame s n t m" and wf: "file_wf t m" and b: "fresh t m b" "\<not> used s b"
  shows "frame s n (clear_block b t) m" "file_wf (clear_block b t) m"
proof -
  let ?u = "clear_block b t"
  have us: "used ?u c \<longleftrightarrow> c \<noteq> b \<and> used t c" for c by (auto simp: used_def clear_block_def fb.tst_cl word_unat_eq_iff)
  have sf: "same_fs t ?u" by (simp add: clear_block_def same_fs_def)
  have bl: "blk ?u m r = blk t m r" "disk ?u = disk t" for r by (simp_all add: clear_block_def)
  note st = frame_same [OF fr]
  show "frame s n ?u m"
  proof (rule frameI)
    show "same_fs s ?u" using sf st by (simp add: same_fs_def)
    show "used ?u c" if "used s c" for c using that us frame_used [OF fr] b(2) by auto
    show "?u = s\<lparr>disk := disk ?u, block_bitmap := block_bitmap ?u\<rparr>"
      unfolding clear_block_def by (subst frame_rest(1) [OF fr]) simp
    show "keep_block s ?u c" if "used s c" "no_table s n c" for c
      using frame_keep [OF fr that] by (simp add: keep_block_def bl)
  qed (use frame_rest(2) [OF fr] frame_tables [OF fr] frame_low [OF fr] in \<open>simp_all add: bl\<close>)
  show "file_wf ?u m"
    using wf b(1) us blk_ok_mono [OF sf]
    by (auto simp: file_wf_def bl same_fs_simps(5) [OF sf] fresh_def blk_ok_def)
qed

lemma map_block_beyond:
  assumes ok: "fs_ok s" and idx: "max_blocks s \<le> idx" "idx < 2 ^ 32"
  shows "myfs_map_block_to_inode (of_nat idx) b n s = (False, n, s)"
proof -
  have u: "unat (of_nat idx :: u32) = idx" using idx(2) by (simp add: unat_of_nat)
  have q: "unat (ptrs_per_block s) = ppb s" by (rule unat_ppb [OF ok])
  have ge: "10 + ppb s \<le> idx" "ppb s * ppb s \<le> idx - 10 - ppb s" "\<not> idx - 10 < ppb s" "\<not> idx < 10"
    using idx(1) by (auto simp: max_blocks_def)
  have a: "unat ((of_nat idx :: u32) - 10) = idx - 10" using ge u by (simp add: unat_sub word_le_nat_alt)
  then have c: "unat ((of_nat idx :: u32) - 10 - ptrs_per_block s) = idx - 10 - ppb s"
    using ge q by (simp add: unat_sub word_le_nat_alt)
  have "ppb s * ppb s < 2 ^ 32" using max_blocks_bound [OF ok] by (simp add: max_blocks_def)
  then have "unat (ptrs_per_block s * ptrs_per_block s) = ppb s * ppb s" by (simp add: unat_word_ariths q)
  then show ?thesis
    using ge a c q u by (simp add: myfs_map_block_to_inode_def MYFS_DIRECT_BLOCKS_MAX_def Let_def word_less_nat_alt)
qed

text \<open>
  The loop allocates blocks for the file blocks from \<open>i\<close> on; the blocks before keep theirs, and all
  blocks up to the new count are there. The count is kept out of \<open>frame\<close>.
\<close>

definition grown :: "nat \<Rightarrow> nat \<Rightarrow> myfs \<Rightarrow> MyfsInode \<Rightarrow> myfs \<Rightarrow> MyfsInode \<Rightarrow> bool" where
  "grown i j s n s' n' \<longleftrightarrow> frame s n s' (n'\<lparr>block_count := block_count n\<rparr>) \<and> file_wf s' n'
     \<and> block_count n' = block_count n + of_nat j
     \<and> (\<forall>q < max_blocks s. q < i \<longrightarrow> lba s' n' q = lba s n q) \<and> (\<forall>q. i \<le> q \<longrightarrow> q < i + j \<longrightarrow> q < max_blocks s \<and> lba s' n' q \<noteq> 0)"

lemma grown_0: "file_wf s n \<Longrightarrow> grown i 0 s n s n"
  by (simp add: grown_def frame_refl)

lemma frame_count: "frame s (n\<lparr>block_count := c\<rparr>) t m \<longleftrightarrow> frame s n t (m\<lparr>block_count := block_count n\<rparr>) \<and> block_count m = c"
proof -
  have eq: "m = n\<lparr>block_count := c, block_ptrs := block_ptrs m, single_indirect_ptr := single_indirect_ptr m, double_indirect_ptr := double_indirect_ptr m\<rparr>
    \<longleftrightarrow> m\<lparr>block_count := block_count n\<rparr> = n\<lparr>block_ptrs := block_ptrs m, single_indirect_ptr := single_indirect_ptr m,
          double_indirect_ptr := double_indirect_ptr m\<rparr> \<and> block_count m = c"
    by (cases m; cases n) auto
  then show ?thesis by (auto simp: frame_def)
qed

lemma grown_Suc:
  assumes g1: "frame s n t m" "file_wf t m" "\<And>q. q < max_blocks s \<Longrightarrow> lba t m q = (if q = i then b else lba s n q)"
    "b \<noteq> 0" "i < max_blocks s"
    and g2: "grown (i + 1) j t (m\<lparr>block_count := block_count m + 1\<rparr>) u k"
  shows "grown i (Suc j) s n u k"
proof -
  note sf = same_fs_simps [OF frame_same [OF g1(1)]]
  have bm: "block_count m = block_count n" by (subst frame_rest(2) [OF g1(1)]) simp
  have "frame t m u (k\<lparr>block_count := block_count m\<rparr>)"
    using g2 by (simp add: grown_def frame_count)
  then have fr: "frame s n u (k\<lparr>block_count := block_count n\<rparr>)" using frame_trans [OF g1(1)] bm by simp
  have lb: "lba u k q = lba t m q" if "q < max_blocks s" "q < i + 1" for q
    using g2 that by (simp add: grown_def sf)
  have new: "q < max_blocks s \<and> lba u k q \<noteq> 0" if "i \<le> q" "q < i + Suc j" for q
  proof (cases "q = i")
    case True
    then show ?thesis using g1(3-5) lb by simp
  next
    case False
    then show ?thesis using g2 that by (simp add: grown_def sf)
  qed
  have "block_count k = block_count n + of_nat (Suc j)" using g2 bm by (simp add: grown_def ac_simps)
  then show ?thesis using fr g2 lb new g1(3) by (auto simp: grown_def)
qed

lemma blocks_alloc_loop_spec:
  assumes "fs_ok s" and "file_wf s n" and "i + k < 2 ^ 32"
  shows "\<exists>ok n' s' j. blocks_alloc_loop k (of_nat i) n s = (ok, n', s') \<and> grown i j s n s' n' \<and> j \<le> k \<and> (ok \<longrightarrow> j = k)"
  using assms
proof (induction k arbitrary: i n s)
  case 0
  then show ?case using grown_0 [OF 0(2)] by auto
next
  case (Suc k)
  note ok = Suc.prems(1) and wf = Suc.prems(2)
  from ok show ?case
  proof (cases rule: bitmap_alloc_cases)
    case full
    then show ?thesis using grown_0 [OF wf] by (auto intro!: exI [of _ "0::nat"])
  next
    case (block b)
    let ?t = "s\<lparr>block_bitmap := bitmap_set_fs (block_bitmap s) (unat b)\<rparr>"
    note a = alloc_frame [OF ok wf block(3,2,4)]
    note st = same_fs_simps [OF frame_same [OF a(1)]]
    have "\<exists>r m u. myfs_map_block_to_inode (of_nat i) b n ?t = (r, m, u) \<and> (if r then i < max_blocks s \<and> entered i b ?t n u m else extended ?t n u m)"
    proof (cases "i < max_blocks s")
      case True
      then show ?thesis using map_block_spec [OF a(4,2,3), of i] st(6) by (auto split: if_splits)
    next
      case False
      then have "myfs_map_block_to_inode (of_nat i) b n ?t = (False, n, ?t)"
        using map_block_beyond [OF a(4), of i b n] st(6) Suc.prems(3) by simp
      then show ?thesis using extended_refl [OF a(2)] by auto
    qed
    then obtain r m u where m: "myfs_map_block_to_inode (of_nat i) b n ?t = (r, m, u)"
      "if r then i < max_blocks s \<and> entered i b ?t n u m else extended ?t n u m" by blast
    show ?thesis
    proof (cases r)
      case False
      then have ex: "extended ?t n u m" using m(2) by simp
      then have fr: "frame s n u m" "file_wf u m" "fresh u m b" "\<forall>q < max_blocks s. lba u m q = lba s n q"
        using frame_trans [OF a(1)] a(3) st(6) by (auto simp: extended_def)
      have bm: "block_count m = block_count n" by (subst frame_rest(2) [OF fr(1)]) simp
      have mm: "m\<lparr>block_count := block_count n\<rparr> = m" using bm by simp
      have "grown i 0 s n (clear_block b u) m"
        using clear_frame [OF fr(1,2,3) block(3)] fr(4) bm unfolding grown_def mm by (simp add: clear_block_def)
      then show ?thesis using block(1,2) m(1) False by (auto intro!: exI [of _ "0::nat"])
    next
      case True
      then have e: "i < max_blocks s" "entered i b ?t n u m" using m(2) by simp_all
      have fr: "frame s n u m" "file_wf u m" using e(2) frame_trans [OF a(1)] by (auto simp: entered_def)
      have l: "lba u m q = (if q = i then b else lba s n q)" if "q < max_blocks s" for q
        using e(2) that st(6) by (simp add: entered_def)
      have oku: "fs_ok u" using ok by (simp add: same_fs_simps(4) [OF frame_same [OF fr(1)]])
      let ?m = "m\<lparr>block_count := block_count m + 1\<rparr>"
      obtain ok' n' s' j where r: "blocks_alloc_loop k (of_nat (i + 1)) ?m u = (ok', n', s')"
        "grown (i + 1) j u ?m s' n'" "j \<le> k" "ok' \<longrightarrow> j = k"
        using Suc.IH [OF oku, of ?m "i + 1"] fr(2) Suc.prems(3) by auto
      have "blocks_alloc_loop (Suc k) (of_nat i) n s = (ok', n', s')"
        using block(1,2) m(1) True r(1) by (simp add: add.commute)
      moreover have "grown i (Suc j) s n s' n'" by (rule grown_Suc [OF fr l block(2) e(1) r(2)])
      ultimately show ?thesis using r(3,4) by auto
    qed
  qed
qed

end
