(* ===== verification/MyfsData.thy ===== *)
theory MyfsData
  imports MyfsFile
begin

text \<open>
  Reading and writing the bytes of a file of MyFS, and that \<^verbatim>\<open>myfs_node_read\<close> returns what
  \<^verbatim>\<open>myfs_node_write\<close> wrote.
\<close>

subsection \<open>The bytes of a file\<close>

definition file_byte :: "myfs \<Rightarrow> MyfsInode \<Rightarrow> nat \<Rightarrow> u8" where
  "file_byte s n a =
     (if lba s n (a div bsz s) = 0 then 0 else disk s (unat (lba s n (a div bsz s)) * bsz s + a mod bsz s))"

lemma role_inj:
  "file_wf s n \<Longrightarrow> valid_role s r \<Longrightarrow> valid_role s r' \<Longrightarrow> blk s n r \<noteq> 0 \<Longrightarrow> blk s n r = blk s n r' \<Longrightarrow> r = r'"
  unfolding file_wf_def by blast

text \<open>Writing into a data block changes no table, hence no role.\<close>

lemma data_write:
  assumes ok: "fs_ok s" and wf: "file_wf s n" and idx: "idx < max_blocks s" and x: "lba s n idx = x" "x \<noteq> 0"
    and s': "s' = s\<lparr>disk := mem_copy (disk s) (unat x * bsz s + off) buf p c\<rparr>" and oc: "off + c \<le> bsz s"
  shows "\<And>r. valid_role s r \<Longrightarrow> blk s' n r = blk s n r" and "file_wf s' n" and "fs_ok s'"
    and "\<And>a. a div bsz s < max_blocks s \<Longrightarrow> file_byte s' n a =
      (if idx * bsz s + off \<le> a \<and> a < idx * bsz s + off + c then buf (a - (idx * bsz s + off) + p) else file_byte s n a)"
    and "\<And>a. a < unat (data_blocks_start (on_disk s)) * bsz s \<Longrightarrow> disk s' a = disk s a"
proof -
  have sf: "same_fs s s'" by (simp add: s' same_fs_def)
  note sfs = same_fs_simps [OF sf]
  note f = fs_ok_facts [OF ok]
  show ok': "fs_ok s'" using ok sfs by simp
  have same: "disk s' a = disk s a" if "\<not> (unat x * bsz s + off \<le> a \<and> a < unat x * bsz s + off + c)" for a
    using that by (auto simp: s' mem_copy_def)
  have out: "disk s' (unat b * bsz s + i) = disk s (unat b * bsz s + i)" if "b \<noteq> x" "i < bsz s" for b i
    by (rule same) (use blocks_apart [OF that(1), of "bsz s"] that(2) oc in linarith)
  have pt: "ptr s' b j = ptr s b j" if "b \<noteq> x" "j < ppb s" for b j
  proof -
    have "4 * j + 4 \<le> bsz s" using that(2) f(3) by linarith
    then have "get32 (disk s') (unat b * bsz s + 4 * j) = get32 (disk s) (unat b * bsz s + 4 * j)"
      by (intro get32_cong same) (use blocks_apart [OF that(1), of "bsz s"] oc in linarith)
    then show ?thesis by (simp add: ptr_def sfs)
  qed
  have nx: "blk s n r \<noteq> x" if "valid_role s r" "is_table r" for r
    using role_inj [OF wf, of "Data idx" r] that x idx by auto
  have tab: "blk s' n r = blk s n r" if "valid_role s r" "is_table r" for r
    using that pt nx [of Double] by (cases r) (auto simp: sub_table_def)
  show bl: "blk s' n r = blk s n r" if v: "valid_role s r" for r
    using v
  proof (cases rule: role_cases)
    case 1
    then show ?thesis using tab v by blast
  next
    case (2 i)
    then show ?thesis by (simp add: lba_def)
  next
    case (3 i)
    note g = loc_facts [OF ok 3(2,3)] and g' = loc_facts(5) [OF ok' 3(2), of n, unfolded sfs]
    have "loc s' i = loc s i" by (simp add: loc_def sfs)
    then show ?thesis using g' g(5) [of n] 3 tab [OF g(1,2)] pt [OF nx [OF g(1,2)] g(4)] by simp
  qed
  show "file_wf s' n"
  proof -
    have "blk_ok s' b" if "blk_ok s b" for b
      by (rule blk_ok_mono [OF sf that]) (simp add: s' used_def)
    then show ?thesis using wf bl unfolding file_wf_def sfs by (metis (full_types))
  qed
  have lb: "lba s' n i = lba s n i" if "i < max_blocks s" for i using bl [of "Data i"] that by simp
  show "disk s' a = disk s a" if "a < unat (data_blocks_start (on_disk s)) * bsz s" for a
  proof -
    have "blk_ok s x" using table_ok [OF wf, of "Data idx"] idx x by simp
    then have "unat (data_blocks_start (on_disk s)) * bsz s \<le> unat x * bsz s"
      by (intro mult_le_mono1) (simp add: blk_ok_def)
    then show ?thesis by (intro same) (use that in linarith)
  qed
  fix a assume a: "a div bsz s < max_blocks s"
  have split: "a = a div bsz s * bsz s + a mod bsz s" "a mod bsz s < bsz s" using f(2) by auto
  show "file_byte s' n a = (if idx * bsz s + off \<le> a \<and> a < idx * bsz s + off + c
      then buf (a - (idx * bsz s + off) + p) else file_byte s n a)"
  proof (cases "a div bsz s = idx")
    case True
    then have "a = idx * bsz s + a mod bsz s" using split(1) by simp
    then have e: "idx * bsz s + off \<le> a \<and> a < idx * bsz s + off + c \<longleftrightarrow> off \<le> a mod bsz s \<and> a mod bsz s < off + c"
      "a - (idx * bsz s + off) = a mod bsz s - off"
      by linarith+
    show ?thesis
      unfolding e using True lb [OF a] x by (auto simp: file_byte_def sfs s' mem_copy_def)
  next
    case False
    have "\<not> (idx * bsz s + off \<le> a \<and> a < idx * bsz s + off + c)"
    proof
      assume r: "idx * bsz s + off \<le> a \<and> a < idx * bsz s + off + c"
      then have "idx * bsz s \<le> a" "a < idx * bsz s + bsz s" using oc by auto
      then have "a div bsz s = idx" by (intro div_nat_eqI) (auto simp: ac_simps)
      then show False using False by simp
    qed
    moreover have "lba s n (a div bsz s) \<noteq> x \<or> lba s n (a div bsz s) = 0"
      using role_inj [OF wf, of "Data idx" "Data (a div bsz s)"] False a idx x by auto
    ultimately show ?thesis using lb [OF a] out split(2) by (auto simp: file_byte_def sfs)
  qed
qed

subsection \<open>The loops\<close>

text \<open>The file bytes from \<open>o\<close> to \<open>o + c\<close> now hold the buffer from \<open>p\<close> on, and nothing else changed.\<close>

definition data_written :: "nat \<Rightarrow> nat \<Rightarrow> bytes \<Rightarrow> nat \<Rightarrow> MyfsInode \<Rightarrow> myfs \<Rightarrow> myfs \<Rightarrow> bool" where
  "data_written pos c buf p n s s' \<longleftrightarrow> s' = s\<lparr>disk := disk s'\<rparr> \<and> file_wf s' n
     \<and> (\<forall>i < max_blocks s. lba s' n i = lba s n i)
     \<and> (\<forall>a. a div bsz s < max_blocks s \<longrightarrow>
           file_byte s' n a = (if pos \<le> a \<and> a < pos + c then buf (a - pos + p) else file_byte s n a))
     \<and> (\<forall>a < unat (data_blocks_start (on_disk s)) * bsz s. disk s' a = disk s a)"

lemma written_same: "data_written pos c buf p n s s' \<Longrightarrow> same_fs s s'"
proof -
  assume "data_written pos c buf p n s s'"
  then have "s' = s\<lparr>disk := disk s'\<rparr>" by (simp add: data_written_def)
  then show ?thesis by (cases s; cases s') (simp add: same_fs_def)
qed

lemma written_0: "file_wf s n \<Longrightarrow> data_written pos 0 buf p n s s"
  by (auto simp: data_written_def)

lemma written_trans:
  assumes a: "data_written pos c buf p n s t" and b: "data_written (pos + c) d buf (p + c) n t u"
  shows "data_written pos (c + d) buf p n s u"
proof -
  note sf = same_fs_simps [OF written_same [OF a]]
  have od: "on_disk t = on_disk s" using written_same [OF a] by (simp add: same_fs_def)
  have "u = t\<lparr>disk := disk u\<rparr>" "t = s\<lparr>disk := disk t\<rparr>" using a b by (simp_all add: data_written_def)
  then have e: "u = s\<lparr>disk := disk u\<rparr>" by (cases s; cases t; cases u) simp
  have f: "file_byte u n x = (if pos \<le> x \<and> x < pos + (c + d) then buf (x - pos + p) else file_byte s n x)"
    if "x div bsz s < max_blocks s" for x
    using a b that by (auto simp: data_written_def sf)
  have "\<forall>i < max_blocks s. lba u n i = lba s n i" "\<forall>x < unat (data_blocks_start (on_disk s)) * bsz s. disk u x = disk s x" "file_wf u n"
    using a b by (auto simp: data_written_def sf od)
  then show ?thesis unfolding data_written_def using e f by blast
qed

text \<open>One round of either loop: the chunk that is left of the block at \<open>pos\<close>.\<close>

lemma chunk_arith:
  assumes ok: "fs_ok s" and c: "0 < c" "unat pos + unat c < 2 ^ 32"
  defines "k \<equiv> min32 (block_bytes s - pos mod block_bytes s) c"
  shows "unat k = min (bsz s - unat pos mod bsz s) (unat c)" "0 < unat k" "unat k \<le> unat c"
    "unat pos mod bsz s + unat k \<le> bsz s" "unat (pos mod block_bytes s) = unat pos mod bsz s"
    "pos div block_bytes s = of_nat (unat pos div bsz s)" "unat (pos + k) = unat pos + unat k"
proof -
  have b: "unat (block_bytes s) = bsz s" "0 < bsz s" using fs_ok_facts(2) [OF ok] by (simp_all add: bsz_def)
  show m: "unat (pos mod block_bytes s) = unat pos mod bsz s" by (simp add: unat_mod b)
  have lt: "unat pos mod bsz s < bsz s" using b(2) by simp
  have "unat (block_bytes s - pos mod block_bytes s) = bsz s - unat pos mod bsz s"
    using lt by (simp add: unat_sub word_le_nat_alt m b)
  then show k: "unat k = min (bsz s - unat pos mod bsz s) (unat c)"
    by (simp add: k_def word_less_nat_alt min_def)
  show "0 < unat k" "unat k \<le> unat c" "unat pos mod bsz s + unat k \<le> bsz s"
    unfolding k using lt c(1) by (auto simp: word_less_nat_alt)
  show "pos div block_bytes s = of_nat (unat pos div bsz s)" 
    by (simp add: unat_div [symmetric] b(1) [symmetric])
  show "unat (pos + k) = unat pos + unat k" using c(2) \<open>unat k \<le> unat c\<close> by (simp add: unat_word_ariths)
qed

lemma write_round:
  fixes buf :: bytes and p :: nat
  assumes ok: "fs_ok s" and wf: "file_wf s n" and c: "0 < c" "unat pos + unat c < 2 ^ 32"
    and i: "unat pos div bsz s < max_blocks s" "lba s n (unat pos div bsz s) \<noteq> 0"
  defines "k \<equiv> min32 (block_bytes s - pos mod block_bytes s) c" and "x \<equiv> myfs_block_lba_get s n (pos div block_bytes s)"
  defines "t \<equiv> disk_write_block x (mem_copy (if k < block_bytes s then disk_read_block s x else (\<lambda>_. 0))
                 (unat (pos mod block_bytes s)) buf p (unat k)) s"
  shows "x \<noteq> 0" "data_written (unat pos) (unat k) buf p n s t"
proof -
  note ar = chunk_arith [OF ok c, folded k_def]
  let ?i = "unat pos div bsz s" and ?o = "unat pos mod bsz s"
  have x: "x = lba s n ?i" unfolding x_def ar(6) by (rule lba_get_eq [OF ok wf i(1)])
  then show x0: "x \<noteq> 0" using i(2) by simp
  have pos: "unat x * bsz s < DISK_MAX"
    using blk_ok_pos [OF ok table_ok [OF wf, of "Data ?i"]] i x by simp
  have t: "t = s\<lparr>disk := mem_copy (disk s) (unat x * bsz s + ?o) buf p (unat k)\<rparr>"
    unfolding t_def ar(5)
  proof (rule write_part_of_block [OF fs_ok_facts(1) [OF ok] pos ar(4)])
    fix q assume q: "q < bsz s" "q < ?o \<or> ?o + unat k \<le> q"
    have "k < block_bytes s" using q ar(4) by (auto simp: word_less_nat_alt bsz_def)
    then show "(if k < block_bytes s then disk_read_block s x else (\<lambda>_. 0)) q = disk s (unat x * bsz s + q)"
      by (simp add: read_block_eq [OF fs_ok_facts(1) [OF ok] pos])
  qed
  note d = data_write [OF ok wf i(1) x [symmetric] x0 t ar(4)]
  have e: "?i * bsz s + ?o = unat pos" by simp
  have "lba t n q = lba s n q" if "q < max_blocks s" for q using d(1) [of "Data q"] that by simp
  then show "data_written (unat pos) (unat k) buf p n s t"
    unfolding data_written_def using d(2,4,5) t unfolding e by simp
qed

lemma node_write_loop_spec:
  assumes "fs_ok s" and "file_wf s n" and "w \<le> count" and "unat pos + (unat count - unat w) < 2 ^ 32"
    and "\<And>a. unat pos \<le> a \<Longrightarrow> a < unat pos + (unat count - unat w) \<Longrightarrow> a div bsz s < max_blocks s \<and> lba s n (a div bsz s) \<noteq> 0"
  shows "\<exists>s'. node_write_loop n pos buf w count s = Some (True, pos + (count - w), s')
    \<and> data_written (unat pos) (unat count - unat w) buf (unat w) n s s'"
  using assms
proof (induction "unat count - unat w" arbitrary: pos w s rule: less_induct)
  case less
  have cw: "unat (count - w) = unat count - unat w" using less.prems(3) by (simp add: unat_sub word_le_nat_alt)
  show ?case
  proof (cases "w < count")
    case False
    then show ?thesis using less.prems(2,3) by (subst node_write_loop.simps) (auto intro: written_0)
  next
    case True
    define k where "k = min32 (block_bytes s - pos mod block_bytes s) (count - w)"
    define x where "x = myfs_block_lba_get s n (pos div block_bytes s)"
    define t where "t = disk_write_block x (mem_copy (if k < block_bytes s then disk_read_block s x else (\<lambda>_. 0))
                 (unat (pos mod block_bytes s)) buf (unat w) (unat k)) s"
    have c: "0 < count - w" "unat pos + unat (count - w) < 2 ^ 32"
      using True less.prems(4) cw by (simp_all add: word_less_nat_alt)
    then have here: "unat pos < unat pos + (unat count - unat w)" using cw by (simp add: word_less_nat_alt)
    note ar = chunk_arith [OF less.prems(1) c, folded k_def]
    note p5 = less.prems(5) [OF le_refl here]
    have rd: "x \<noteq> 0" "data_written (unat pos) (unat k) buf (unat w) n s t"
      unfolding k_def x_def t_def
      by (rule write_round [OF less.prems(1,2) c conjunct1 [OF p5] conjunct2 [OF p5]])+
    note sf = same_fs_simps [OF written_same [OF rd(2)]]
    have "unat w + unat k \<le> unat count" using ar(3) cw less.prems(3) by (simp add: word_le_nat_alt)
    moreover have "unat count < 2 ^ 32" using unsigned_less [of count] by simp
    ultimately have wk: "unat (w + k) = unat w + unat k" "w + k \<le> count"
      by (simp_all add: unat_word_ariths word_le_nat_alt)
    have step: "node_write_loop n pos buf w count s = node_write_loop n (pos + k) buf (w + k) count t"
      using True rd(1) by (subst node_write_loop.simps) (simp add: k_def x_def t_def Let_def)
    have left: "unat count - unat (w + k) < unat count - unat w" "unat k + (unat count - unat (w + k)) = unat count - unat w"
      using wk ar(2,3) cw by linarith+
    have "\<exists>s'. node_write_loop n (pos + k) buf (w + k) count t = Some (True, pos + k + (count - (w + k)), s')
      \<and> data_written (unat (pos + k)) (unat count - unat (w + k)) buf (unat (w + k)) n t s'"
    proof (rule less.hyps [OF left(1)])
      show "fs_ok t" "file_wf t n" "w + k \<le> count" using rd(2) less.prems(1) wk(2) sf by (simp_all add: data_written_def)
      show "unat (pos + k) + (unat count - unat (w + k)) < 2 ^ 32" using less.prems(4) left(2) ar(7) by linarith
      fix a assume "unat (pos + k) \<le> a" "a < unat (pos + k) + (unat count - unat (w + k))"
      then have "unat pos \<le> a" "a < unat pos + (unat count - unat w)" using ar(7) left(2) by linarith+
      from less.prems(5) [OF this] show "a div bsz t < max_blocks t \<and> lba t n (a div bsz t) \<noteq> 0"
        using rd(2) unfolding sf by (simp add: data_written_def)
    qed
    moreover have "pos + k + (count - (w + k)) = pos + (count - w)" by simp
    ultimately show ?thesis
      unfolding step left(2) [symmetric] using written_trans [OF rd(2), folded ar(7) wk(1)] by auto
  qed
qed

lemma in_block:
  assumes "a mod b + j < (b::nat)"
  shows "(a + j) div b = a div b" "(a + j) mod b = a mod b + j"
proof -
  show "(a + j) div b = a div b" using assms by (simp add: div_add1_eq [of a j b])
  have "(a + j) mod b = (a mod b + j) mod b" by (simp add: mod_add_left_eq)
  then show "(a + j) mod b = a mod b + j" using assms by simp
qed

lemma read_round:
  assumes ok: "fs_ok s" and wf: "file_wf s n" and c: "0 < c" "unat pos + unat c < 2 ^ 32" and i: "unat pos div bsz s < max_blocks s"
  defines "k \<equiv> min32 (block_bytes s - pos mod block_bytes s) c" and "x \<equiv> myfs_block_lba_get s n (pos div block_bytes s)"
  shows "(if x = 0 then mem_set out p 0 (unat k) else mem_copy out p (disk_read_block s x) (unat (pos mod block_bytes s)) (unat k))
    = mem_copy out p (file_byte s n) (unat pos) (unat k)"
proof -
  note ar = chunk_arith [OF ok c, folded k_def]
  let ?i = "unat pos div bsz s" and ?o = "unat pos mod bsz s"
  have x: "x = lba s n ?i" unfolding x_def ar(6) by (rule lba_get_eq [OF ok wf i])
  have b: "(unat pos + j) div bsz s = ?i" "(unat pos + j) mod bsz s = ?o + j" if "j < unat k" for j
    using in_block [of "unat pos" "bsz s" j] that ar(4) by simp_all
  have fb: "file_byte s n (unat pos + j) = (if x = 0 then 0 else disk_read_block s x (?o + j))" if j: "j < unat k" for j
  proof (cases "x = 0")
    case True
    then show ?thesis using x by (simp add: file_byte_def b [OF j])
  next
    case False
    then have "unat x * bsz s < DISK_MAX" using blk_ok_pos [OF ok table_ok [OF wf, of "Data ?i"]] i x by simp
    then show ?thesis using x False by (simp add: file_byte_def b [OF j] read_block_eq [OF fs_ok_facts(1) [OF ok]])
  qed
  show ?thesis
  proof
    fix q
    show "(if x = 0 then mem_set out p 0 (unat k) else mem_copy out p (disk_read_block s x) (unat (pos mod block_bytes s)) (unat k)) q
      = mem_copy out p (file_byte s n) (unat pos) (unat k) q"
      using fb [of "q - p"] unfolding ar(5) by (auto simp: mem_copy_def mem_set_def add.commute)
  qed
qed

lemma node_read_loop_spec:
  assumes "fs_ok s" and "file_wf s n" and "w \<le> count" and "unat pos + (unat count - unat w) < 2 ^ 32"
    and "unat pos + (unat count - unat w) \<le> max_blocks s * bsz s"
  shows "node_read_loop s n pos out w count = Some (count, mem_copy out (unat w) (file_byte s n) (unat pos) (unat count - unat w))"
  using assms
proof (induction "unat count - unat w" arbitrary: pos w out rule: less_induct)
  case less
  have cw: "unat (count - w) = unat count - unat w" using less.prems(3) by (simp add: unat_sub word_le_nat_alt)
  show ?case
  proof (cases "w < count")
    case False
    then have "w = count" using less.prems(3) by simp
    then show ?thesis by (subst node_read_loop.simps) (auto simp: mem_copy_def fun_eq_iff)
  next
    case True
    define k where "k = min32 (block_bytes s - pos mod block_bytes s) (count - w)"
    have c: "0 < count - w" "unat pos + unat (count - w) < 2 ^ 32"
      using True less.prems(4) cw by (simp_all add: word_less_nat_alt)
    then have here: "unat pos div bsz s < max_blocks s"
      using less.prems(5) cw by (intro less_mult_imp_div_less) (simp add: word_less_nat_alt)
    note ar = chunk_arith [OF less.prems(1) c, folded k_def]
    have "unat w + unat k \<le> unat count" using ar(3) cw less.prems(3) by (simp add: word_le_nat_alt)
    moreover have "unat count < 2 ^ 32" using unsigned_less [of count] by simp
    ultimately have wk: "unat (w + k) = unat w + unat k" "w + k \<le> count"
      by (simp_all add: unat_word_ariths word_le_nat_alt)
    have left: "unat count - unat (w + k) < unat count - unat w" "unat count - unat w = unat k + (unat count - unat (w + k))"
      using wk ar(2,3) cw by linarith+
    let ?out = "mem_copy out (unat w) (file_byte s n) (unat pos) (unat k)"
    have "node_read_loop s n pos out w count = node_read_loop s n (pos + k) ?out (w + k) count"
      using True read_round [OF less.prems(1,2) c here, of out "unat w"]
      by (subst node_read_loop.simps) (simp add: k_def Let_def)
    also have "\<dots> = Some (count, mem_copy ?out (unat w + unat k) (file_byte s n) (unat pos + unat k) (unat count - unat (w + k)))"
      using less.hyps [OF left(1) less.prems(1,2) wk(2), of "pos + k" ?out] less.prems(4,5) left(2) ar(7) wk(1) by simp
    also have "mem_copy ?out (unat w + unat k) (file_byte s n) (unat pos + unat k) (unat count - unat (w + k))
        = mem_copy out (unat w) (file_byte s n) (unat pos) (unat count - unat w)"
      unfolding left(2) by (auto simp: mem_copy_def fun_eq_iff intro!: arg_cong [of _ _ "file_byte s n"])
    finally show ?thesis .
  qed
qed

subsection \<open>An open file\<close>

text \<open>
  A cached, referenced inode whose blocks are all there. Its slot in the inode table lies below the
  data blocks.
\<close>

definition open_file :: "myfs \<Rightarrow> nat \<Rightarrow> MyfsInode \<Rightarrow> bool" where
  "open_file s p n \<longleftrightarrow> p \<noteq> 0 \<and> myfs_cache_find (i_ino n) s = Some p \<and> inodes s p = Some n
     \<and> bitmap_is_set (inode_bitmap s) (unat (i_ino n)) \<and> ref_count n \<noteq> 0
     \<and> inode_pos s (i_ino n) + sizeof_inode \<le> unat (data_blocks_start (on_disk s)) * bsz s
     \<and> file_wf s n \<and> unat (block_count n) \<le> max_blocks s \<and> (\<forall>i < unat (block_count n). lba s n i \<noteq> 0)
     \<and> unat (i_size n) \<le> unat (block_count n) * bsz s"

text \<open>Everything a file consists of lies in the data blocks.\<close>

lemma file_same:
  assumes ok: "fs_ok s" and wf: "file_wf s n" and sf: "same_fs s s'" and us: "\<And>b. used s' b = used s b"
    and ptrs: "block_ptrs n' = block_ptrs n" "single_indirect_ptr n' = single_indirect_ptr n"
      "double_indirect_ptr n' = double_indirect_ptr n"
    and d: "\<And>a. unat (data_blocks_start (on_disk s)) * bsz s \<le> a \<Longrightarrow> disk s' a = disk s a"
  shows "\<And>r. valid_role s r \<Longrightarrow> blk s' n' r = blk s n r" and "file_wf s' n'"
    and "\<And>a. a div bsz s < max_blocks s \<Longrightarrow> file_byte s' n' a = file_byte s n a"
proof -
  note sfs = same_fs_simps [OF sf]
  have hi: "disk s' (unat b * bsz s + i) = disk s (unat b * bsz s + i)" if "blk_ok s b" for b i
  proof (rule d)
    have "unat (data_blocks_start (on_disk s)) * bsz s \<le> unat b * bsz s"
      using that by (intro mult_le_mono1) (simp add: blk_ok_def)
    then show "unat (data_blocks_start (on_disk s)) * bsz s \<le> unat b * bsz s + i" by (rule trans_le_add1)
  qed
  have pt: "ptr s' (blk s n r) j = ptr s (blk s n r) j" if "valid_role s r" "blk s n r \<noteq> 0" for r j
    unfolding ptr_def sfs
  proof (rule get32_cong)
    fix k assume "unat (blk s n r) * bsz s + 4 * j \<le> k"
    then show "disk s' k = disk s k" using hi [OF table_ok [OF wf that], of "k - unat (blk s n r) * bsz s"] by simp
  qed
  have tab: "blk s' n' r = blk s n r" if "valid_role s r" "is_table r" for r
    using that pt [of Double] by (cases r) (simp_all add: sub_table_def ptrs)
  have ok': "fs_ok s'" using ok sfs by simp
  show bl: "blk s' n' r = blk s n r" if v: "valid_role s r" for r
    using v
  proof (cases rule: role_cases)
    case 1
    then show ?thesis using tab v by blast
  next
    case (2 i)
    then show ?thesis by (simp add: lba_def ptrs)
  next
    case (3 i)
    note g = loc_facts [OF ok 3(2,3)] and g' = loc_facts(5) [OF ok' 3(2), of n', unfolded sfs]
    have "loc s' i = loc s i" by (simp add: loc_def sfs)
    then show ?thesis using g' g(5) [of n] 3 tab [OF g(1,2)] pt [OF g(1)] by simp
  qed
  have "blk_ok s' b = blk_ok s b" for b
    using sf by (simp add: blk_ok_def us sfs same_fs_def)
  then show "file_wf s' n'" using wf bl unfolding file_wf_def sfs ptrs by (metis (full_types))
  show "file_byte s' n' a = file_byte s n a" if "a div bsz s < max_blocks s" for a
    using bl [of "Data (a div bsz s)"] table_ok [OF wf, of "Data (a div bsz s)"] that hi
    by (simp add: file_byte_def sfs)
qed

lemma chain_find_same:
  "h p = Some n \<Longrightarrow> i_ino m = i_ino n \<Longrightarrow> chain_find (h(p := Some m)) ps ino = chain_find h ps ino"
  by (induction ps) (auto split: Option.bind_split)

text \<open>
  Replacing the inode of an open file and growing it: \<open>s'\<close> keeps the file system and the cache,
  and \<open>n'\<close> is the same file with at least the old blocks.
\<close>

lemma open_file_step:
  assumes op: "open_file s p n" and sf: "same_fs s s'" and ino: "i_ino n' = i_ino n" and rc: "ref_count n' = ref_count n"
    and rest: "inodes s' = (inodes s)(p := Some n')" "inode_hash_table s' = inode_hash_table s" "inode_bitmap s' = inode_bitmap s"
    and wf: "file_wf s' n'" and bc: "unat (block_count n') \<le> max_blocks s" "\<And>i. i < unat (block_count n') \<Longrightarrow> lba s' n' i \<noteq> 0"
    and sz: "unat (i_size n') \<le> unat (block_count n') * bsz s"
  shows "open_file s' p n'"
proof -
  note sfs = same_fs_simps [OF sf]
  have "myfs_cache_find (i_ino n') s' = myfs_cache_find (i_ino n) s"
    using op by (simp add: myfs_cache_find_def rest ino chain_find_same open_file_def)
  moreover have "inode_pos s' j = inode_pos s j" "on_disk s' = on_disk s" for j
    using sf by (simp_all add: inode_pos_def sfs same_fs_def)
  ultimately show ?thesis
    using op wf bc sz by (simp add: open_file_def rest ino rc sfs)
qed

lemma grown_bytes:
  assumes ok: "fs_ok s" and wf: "file_wf s n" and g: "grown (unat (block_count n)) j s n s' n'"
    and bc: "unat (block_count n) \<le> max_blocks s" and a: "a < unat (block_count n) * bsz s"
  shows "file_byte s' n' a = file_byte s n a"
proof -
  let ?i = "a div bsz s"
  have i: "?i < unat (block_count n)" "?i < max_blocks s" using less_mult_imp_div_less [OF a] bc by simp_all
  have fr: "frame s n s' (n'\<lparr>block_count := block_count n\<rparr>)" and l: "lba s' n' ?i = lba s n ?i"
    using g i by (simp_all add: grown_def)
  note sf = same_fs_simps [OF frame_same [OF fr]]
  show ?thesis
  proof (cases "lba s n ?i = 0")
    case True
    then show ?thesis by (simp add: file_byte_def sf l)
  next
    case False
    then have "used s (lba s n ?i)" using table_ok [OF wf, of "Data ?i"] i(2) by (simp add: blk_ok_def)
    moreover have "no_table s n (lba s n ?i)"
      using role_inj [OF wf, of "Data ?i"] i(2) False by (fastforce simp: no_table_def)
    ultimately have "keep_block s s' (lba s n ?i)" by (rule frame_keep [OF fr])
    then show ?thesis using False fs_ok_facts(2) [OF ok] by (simp add: file_byte_def sf l keep_block_def)
  qed
qed

lemma grown_open:
  assumes ok: "fs_ok s" and op: "open_file s p n" and g: "grown (unat (block_count n)) j s n s' n'"
    and j: "unat (block_count n) + j < 2 ^ 32"
  shows "unat (block_count n') = unat (block_count n) + j" "open_file (set_inode p n' s') p n'" "fs_ok s'" "same_fs s s'"
    and "i_size n' = i_size n" "i_ino n' = i_ino n"
    and "\<And>a. a < unat (block_count n) * bsz s \<Longrightarrow> file_byte (set_inode p n' s') n' a = file_byte s n a"
proof -
  have fr: "frame s n s' (n'\<lparr>block_count := block_count n\<rparr>)" and wf: "file_wf s' n'" and wf0: "file_wf s n"
    and bc: "block_count n' = block_count n + of_nat j" and mb: "unat (block_count n) \<le> max_blocks s"
    using g op by (simp_all add: grown_def open_file_def)
  show sf: "same_fs s s'" by (rule frame_same [OF fr])
  note sfs = same_fs_simps [OF sf]
  show "fs_ok s'" using ok sfs by simp
  show u: "unat (block_count n') = unat (block_count n) + j" using j by (simp add: bc unat_word_ariths unat_of_nat)
  have new: "q < max_blocks s \<and> lba s' n' q \<noteq> 0" if "unat (block_count n) \<le> q" "q < unat (block_count n) + j" for q
    using g that by (simp add: grown_def)
  have old: "lba s' n' q \<noteq> 0" if "q < unat (block_count n)" for q
    using g op that mb by (simp add: grown_def open_file_def)
  have le: "unat (block_count n) + j \<le> max_blocks s"
    using new [of "unat (block_count n) + j - 1"] mb by (cases j) auto
  have si: "file_wf (set_inode p n' s') n'" "\<And>i. lba (set_inode p n' s') n' i = lba s' n' i"
    "\<And>a. file_byte (set_inode p n' s') n' a = file_byte s' n' a"
    using file_same [OF \<open>fs_ok s'\<close> wf, of "set_inode p n' s'" n'] 
    by (simp_all add: set_inode_def same_fs_def used_def lba_def sub_table_def ptr_def ppb_def bsz_def Let_def file_byte_def)
  note rn = frame_rest(2) [OF fr]
  show same: "i_size n' = i_size n" "i_ino n' = i_ino n"
    using arg_cong [OF rn, of i_size] arg_cong [OF rn, of i_ino] by simp_all
  have rc: "ref_count n' = ref_count n" using arg_cong [OF rn, of ref_count] by simp
  note rs = frame_rest(1) [OF fr]
  have rest: "inodes s' = inodes s" "inode_hash_table s' = inode_hash_table s" "inode_bitmap s' = inode_bitmap s"
    using arg_cong [OF rs, of inodes] arg_cong [OF rs, of inode_hash_table] arg_cong [OF rs, of inode_bitmap] by simp_all
  have "unat (i_size n) \<le> (unat (block_count n) + j) * bsz s" using op by (simp add: open_file_def add_mult_distrib)
  then show "open_file (set_inode p n' s') p n'"
    by (intro open_file_step [OF op _ same(2) rc])
      (use rest si le u old new sf same in \<open>auto simp: set_inode_def same_fs_def not_less [symmetric]\<close>)
  show "file_byte (set_inode p n' s') n' a = file_byte s n a" if "a < unat (block_count n) * bsz s" for a
    unfolding si by (rule grown_bytes [OF ok wf0 g mb that])
qed

text \<open>A new size, a new dirty flag and a write below the data blocks do not touch the blocks.\<close>

lemma open_file_touch:
  assumes ok: "fs_ok s" and op: "open_file s p n" and n': "n' = n\<lparr>i_size := z, dirty := y\<rparr>"
    and z: "unat z \<le> unat (block_count n) * bsz s"
    and d: "\<And>a. unat (data_blocks_start (on_disk s)) * bsz s \<le> a \<Longrightarrow> d a = disk s a"
  defines "s' \<equiv> set_inode p n' (s\<lparr>disk := d\<rparr>)"
  shows "open_file s' p n'" "fs_ok s'" "same_fs s s'"
    "\<And>a. a div bsz s < max_blocks s \<Longrightarrow> file_byte s' n' a = file_byte s n a"
proof -
  show sf: "same_fs s s'" by (simp add: s'_def set_inode_def same_fs_def)
  show "fs_ok s'" using ok same_fs_simps [OF sf] by simp
  have wf: "file_wf s n" using op by (simp add: open_file_def)
  have us: "used s' b = used s b" for b by (simp add: s'_def set_inode_def used_def)
  have f: "\<And>r. valid_role s r \<Longrightarrow> blk s' n' r = blk s n r" "file_wf s' n'"
    "\<And>a. a div bsz s < max_blocks s \<Longrightarrow> file_byte s' n' a = file_byte s n a"
    by (rule file_same [OF ok wf sf us]; simp add: n' s'_def set_inode_def d)+
  show "file_byte s' n' a = file_byte s n a" if "a div bsz s < max_blocks s" for a by (rule f(3) [OF that])
  have l: "lba s' n' i \<noteq> 0" if "i < unat (block_count n)" for i
    using f(1) [of "Data i"] that op by (simp add: open_file_def)
  show "open_file s' p n'"
    by (rule open_file_step [OF op sf _ _ _ _ _ f(2)]) (use op z l in \<open>simp_all add: n' s'_def set_inode_def open_file_def\<close>)
qed

text \<open>What changing an open file leaves alone: everything but the disk, the block bitmap and the inode itself.\<close>

definition kept :: "nat \<Rightarrow> myfs \<Rightarrow> MyfsInode \<Rightarrow> myfs \<Rightarrow> MyfsInode \<Rightarrow> bool" where
  "kept p s n s' n' \<longleftrightarrow> s' = s\<lparr>disk := disk s', block_bitmap := block_bitmap s', inodes := (inodes s)(p := Some n')\<rparr>
     \<and> i_ino n' = i_ino n \<and> ref_count n' = ref_count n"

lemma kept_trans: "kept p s n t m \<Longrightarrow> kept p t m u k \<Longrightarrow> kept p s n u k"
  by (cases s; cases t; cases u) (simp add: kept_def)

lemma kept_frame:
  assumes fr: "frame s n s' (n'\<lparr>block_count := block_count n\<rparr>)"
  shows "kept p s n (set_inode p n' s') n'" "dirty n' = dirty n" "kept p s n (set_inode p (n'\<lparr>dirty := d\<rparr>) s') (n'\<lparr>dirty := d\<rparr>)"
proof -
  note rn = frame_rest(2) [OF fr]
  have "i_ino n' = i_ino n" "ref_count n' = ref_count n" "dirty n' = dirty n"
    using arg_cong [OF rn, of i_ino] arg_cong [OF rn, of ref_count] arg_cong [OF rn, of dirty] by simp_all
  moreover have "set_inode p m s' = s\<lparr>disk := disk s', block_bitmap := block_bitmap s', inodes := (inodes s)(p := Some m)\<rparr>" for m
    using frame_rest(1) [OF fr] by (cases s; cases s') (simp add: set_inode_def)
  ultimately show "kept p s n (set_inode p n' s') n'" "dirty n' = dirty n" "kept p s n (set_inode p (n'\<lparr>dirty := d\<rparr>) s') (n'\<lparr>dirty := d\<rparr>)"
    by (simp_all add: kept_def set_inode_def)
qed

lemma write_grows:
  assumes ok: "fs_ok s" and op: "open_file s p n"
  obtains r n1 s1 where
    "(if target > block_count n then myfs_blocks_alloc (target - block_count n) n s else (True, n, s)) = (r, n1, s1)"
    "open_file (set_inode p n1 s1) p n1" "fs_ok (set_inode p n1 s1)" "same_fs s (set_inode p n1 s1)"
    "i_size n1 = i_size n" "i_ino n1 = i_ino n" "block_count n \<le> block_count n1"
    "r \<Longrightarrow> target \<le> block_count n1" "\<not> r \<Longrightarrow> block_count n < target"
    "\<And>a. a < unat (block_count n) * bsz s \<Longrightarrow> file_byte (set_inode p n1 s1) n1 a = file_byte s n a"
    "kept p s n (set_inode p n1 s1) n1" "\<not> r \<Longrightarrow> dirty n1 = dirty n"
proof (cases "target > block_count n")
  case False
  have si: "set_inode p n s = s" using op by (simp add: set_inode_def open_file_def fun_upd_idem)
  moreover have "kept p s n s n" using arg_cong [OF si, of inodes] by (simp add: kept_def set_inode_def)
  ultimately show ?thesis using that [of True n s] False op ok by (simp add: same_fs_def)
next
  case True
  have wf: "file_wf s n" using op by (simp add: open_file_def)
  let ?k = "unat target - unat (block_count n)"
  have "unat target < 2 ^ 32" using unsigned_less [of target] by simp
  then have k: "unat (block_count n) + ?k < 2 ^ 32" using True by (simp add: word_less_nat_alt)
  obtain r n' s' j where al: "blocks_alloc_loop ?k (of_nat (unat (block_count n))) n s = (r, n', s')"
    "grown (unat (block_count n)) j s n s' n'" "j \<le> ?k" "r \<longrightarrow> j = ?k"
    using blocks_alloc_loop_spec [OF ok wf k] by blast
  have j: "unat (block_count n) + j < 2 ^ 32" using k al(3) by linarith
  note g = grown_open [OF ok op al(2) j]
  have fr: "frame s n s' (n'\<lparr>block_count := block_count n\<rparr>)" using al(2) by (simp add: grown_def)
  note k = kept_frame [OF fr]
  have sf: "same_fs s (set_inode p n' s')" using g(4) by (simp add: same_fs_def set_inode_def)
  have okt: "fs_ok (set_inode p n' s')" using ok same_fs_simps [OF sf] by simp
  have le: "block_count n \<le> block_count n'" "r \<Longrightarrow> target \<le> block_count n'"
    using g(1) al(4) True by (auto simp: word_le_nat_alt word_less_nat_alt)
  show ?thesis
  proof (cases r)
    case False
    then have "myfs_blocks_alloc (target - block_count n) n s = (False, n', s')"
      using al(1) by (simp add: myfs_blocks_alloc_def Let_def)
    then show ?thesis using that [of False n' s'] True g okt sf le k by simp
  next
    case r: True
    let ?n = "n'\<lparr>dirty := 1\<rparr>"
    let ?t = "set_inode p ?n s'"
    have e: "myfs_blocks_alloc (target - block_count n) n s = (True, ?n, s')"
      using al(1) r by (simp add: myfs_blocks_alloc_def Let_def)
    have eq: "set_inode p ?n (set_inode p n' s'\<lparr>disk := disk s'\<rparr>) = ?t" by (simp add: set_inode_def)
    have sz: "unat (i_size n') \<le> unat (block_count n') * bsz (set_inode p n' s')" using g(2) by (simp add: open_file_def)
    have ds: "disk s' a = disk (set_inode p n' s') a" for a by (simp add: set_inode_def)
    have nn: "?n = n'\<lparr>i_size := i_size n', dirty := 1\<rparr>" by simp
    note tc = open_file_touch [OF okt g(2) nn sz ds, unfolded eq]
    have o: "open_file ?t p ?n" "fs_ok ?t" by (rule tc)+
    have st: "same_fs s ?t" using g(4) by (simp add: same_fs_def set_inode_def)
    have by': "file_byte ?t ?n a = file_byte s n a" if a: "a < unat (block_count n) * bsz s" for a
    proof -
      have "a div bsz s < unat (block_count n)" by (rule less_mult_imp_div_less [OF a])
      moreover have "unat (block_count n) \<le> max_blocks s" using op by (simp add: open_file_def)
      ultimately show ?thesis using tc(4) [of a] g(7) [OF a] same_fs_simps [OF sf] by simp
    qed
    note kt = k(3) [of p 1]
    show ?thesis
      by (rule that [of True ?n s'])
        (use True e g(5,6) le r in \<open>simp_all add: o st by' kt\<close>)
  qed
qed

lemma written_open:
  assumes ok: "fs_ok s" and op: "open_file s p n" and w: "data_written pos c buf q n s s'"
  shows "open_file s' p n" "fs_ok s'" "inode_pos s' i = inode_pos s i"
proof -
  note sf = written_same [OF w]
  show "fs_ok s'" using ok same_fs_simps [OF sf] by simp
  show "inode_pos s' i = inode_pos s i" using sf same_fs_simps [OF sf] by (simp add: inode_pos_def same_fs_def)
  have e: "s' = s\<lparr>disk := disk s'\<rparr>" and d: "file_wf s' n" "\<And>i. i < max_blocks s \<Longrightarrow> lba s' n i = lba s n i"
    using w by (simp_all add: data_written_def)
  have rest: "inodes s' = inodes s" "inode_hash_table s' = inode_hash_table s" "inode_bitmap s' = inode_bitmap s"
    using arg_cong [OF e, of inodes] arg_cong [OF e, of inode_hash_table] arg_cong [OF e, of inode_bitmap] by simp_all
  show "open_file s' p n"
    by (rule open_file_step [OF op sf _ _ _ _ _ d(1)]) (use op rest d(2) in \<open>auto simp: open_file_def fun_upd_idem\<close>)
qed

text \<open>The blocks that a write of \<open>count\<close> bytes at \<open>pos\<close> needs.\<close>

lemma target_blocks:
  assumes ok: "fs_ok s" and b: "unat pos + unat count + bsz s \<le> 2 ^ 32" and c: "count \<noteq> 0"
  defines "t \<equiv> (pos + count + block_bytes s - 1) div block_bytes s"
  shows "t \<le> m \<longleftrightarrow> unat pos + unat count \<le> unat m * bsz s" "unat (pos + count) = unat pos + unat count"
proof -
  have p: "0 < bsz s" by (rule fs_ok_facts(2) [OF ok])
  have c0: "0 < unat count" using c by (simp add: unat_gt_0)
  show pc: "unat (pos + count) = unat pos + unat count" using b p by (simp add: unat_word_ariths)
  have eq: "pos + count + block_bytes s - 1 = pos + count + (block_bytes s - 1)" by simp
  have "1 \<le> block_bytes s" unfolding word_le_nat_alt using p by (simp add: bsz_def)
  then have b1: "unat (block_bytes s - 1) = bsz s - 1" by (simp add: bsz_def unat_sub)
  have "unat (pos + count + block_bytes s - 1) = unat pos + unat count + (bsz s - 1)"
    unfolding eq unat_word_ariths(1) [of "pos + count"] pc b1 using b p by simp
  then have ut: "unat t = (unat pos + unat count + (bsz s - 1)) div bsz s" by (simp add: t_def unat_div bsz_def)
  have "(unat pos + unat count + (bsz s - 1)) div bsz s \<le> unat m \<longleftrightarrow> unat pos + unat count + (bsz s - 1) < (unat m + 1) * bsz s"
    using div_less_iff_less_mult [OF p, of _ "unat m + 1"] by (simp add: less_Suc_eq_le)
  also have "\<dots> \<longleftrightarrow> unat pos + unat count \<le> unat m * bsz s" using p by (simp add: add_mult_distrib) linarith
  finally show "t \<le> m \<longleftrightarrow> unat pos + unat count \<le> unat m * bsz s" by (simp add: word_le_nat_alt ut)
qed

lemma write_in_blocks:
  assumes ok: "fs_ok s" and op: "open_file s p n" and e: "unat pos + unat count \<le> unat (block_count n) * bsz s"
    and b: "unat pos + unat count < 2 ^ 32"
  shows "\<exists>s'. node_write_loop n pos buf 0 count s = Some (True, pos + count, s')
    \<and> data_written (unat pos) (unat count) buf 0 n s s'"
proof -
  have o: "file_wf s n" "unat (block_count n) \<le> max_blocks s" "\<And>i. i < unat (block_count n) \<Longrightarrow> lba s n i \<noteq> 0"
    using op by (simp_all add: open_file_def)
  have "a div bsz s < unat (block_count n)" if "a < unat pos + unat count" for a
    using e that by (intro less_mult_imp_div_less) linarith
  then have "a div bsz s < max_blocks s \<and> lba s n (a div bsz s) \<noteq> 0" if "a < unat pos + unat count" for a
    using o(2,3) that by (meson less_le_trans)
  then show ?thesis using node_write_loop_spec [OF ok o(1), of 0 count pos buf] b by simp
qed

lemma write_finish:
  assumes ok: "fs_ok s" and op: "open_file s p n" and w: "data_written pos c buf q n s s2"
    and e: "unat finish \<le> unat (block_count n) * bsz s"
  defines "n2 \<equiv> n\<lparr>i_size := (if finish > i_size n then finish else i_size n), dirty := 1\<rparr>"
  shows "\<exists>s' n'. myfs_disk_inode_write (i_ino n) (set_inode p n2 s2) = Some (0, s') \<and> fs_ok s' \<and> open_file s' p n'
    \<and> same_fs s s' \<and> i_size n' = max (i_size n) finish \<and> block_count n' = block_count n
    \<and> (\<forall>a. a div bsz s < max_blocks s \<longrightarrow> file_byte s' n' a = file_byte s2 n a)
    \<and> kept p s n s' n' \<and> dirty n' = 0 \<and> disk_inode s' (i_ino n') = n'\<lparr>ref_count := ref_count n' + 1, dirty := 1\<rparr>"
proof -
  note o2 = written_open [OF ok op w] and sf2 = same_fs_simps [OF written_same [OF w]]
  let ?z = "if finish > i_size n then finish else i_size n"
  let ?t = "set_inode p n2 (s2\<lparr>disk := disk s2\<rparr>)"
  have z: "unat ?z \<le> unat (block_count n) * bsz s2" using op e sf2(1) by (simp add: open_file_def)
  note t = open_file_touch [OF o2(2,1) meta_eq_to_obj_eq [OF n2_def] z refl]
  note ts = same_fs_simps [OF t(3)]
  have od: "on_disk ?t = on_disk s2" by (simp add: set_inode_def)
  have tt: "?t = set_inode p n2 s2" by simp
  let ?n1 = "n2\<lparr>ref_count := ref_count n2 + 1\<rparr>" and ?n3 = "n2\<lparr>dirty := 0\<rparr>"
  let ?d = "mem_copy (disk ?t) (inode_pos ?t (i_ino n)) (inode_encode ?n1) 0 sizeof_inode"
  have ino: "i_ino n2 = i_ino n" "dirty n2 \<noteq> 0" by (simp_all add: n2_def)
  have o: "p \<noteq> 0" "myfs_cache_find (i_ino n) ?t = Some p" "inodes ?t p = Some n2" "bitmap_is_set (inode_bitmap ?t) (unat (i_ino n))"
    "ref_count n2 \<noteq> 0" and low: "inode_pos ?t (i_ino n) + sizeof_inode \<le> unat (data_blocks_start (on_disk ?t)) * bsz ?t"
    using t(1) ino by (simp_all add: open_file_def)
  have "unat (data_blocks_start (on_disk ?t)) * bsz ?t \<le> (unat (total_blocks (on_disk ?t)) + 8) * bsz ?t"
    using t(2) by (intro mult_le_mono1) (simp add: fs_ok_def)
  then have dm: "inode_pos ?t (i_ino n) + sizeof_inode \<le> DISK_MAX"
    using low t(2) unfolding fs_ok_def by linarith
  have run: "myfs_disk_inode_write (i_ino n) ?t = Some (0, set_inode p ?n3 (?t\<lparr>disk := ?d\<rparr>))"
    by (rule inode_write_cached [OF fs_ok_facts(1) [OF t(2)] dm o(4,2,1,3) ino o(5)])
  have n3: "?n3 = n2\<lparr>i_size := i_size n2, dirty := 0\<rparr>" by simp
  have z3: "unat (i_size n2) \<le> unat (block_count n2) * bsz ?t" using t(1) by (simp add: open_file_def)
  have d3: "?d a = disk ?t a" if "unat (data_blocks_start (on_disk ?t)) * bsz ?t \<le> a" for a
    using that low by (auto simp: mem_copy_def)
  note f = open_file_touch [OF t(2,1) n3 z3 d3]
  have "file_byte (set_inode p ?n3 (?t\<lparr>disk := ?d\<rparr>)) ?n3 a = file_byte s2 n a" if "a div bsz s < max_blocks s" for a
    using f(4) [of a] t(4) [of a] that by (simp only: ts sf2)
  moreover have "same_fs s (set_inode p ?n3 (?t\<lparr>disk := ?d\<rparr>))"
    using written_same [OF w] by (simp add: same_fs_def set_inode_def)
  moreover have "kept p s n (set_inode p ?n3 (?t\<lparr>disk := ?d\<rparr>)) ?n3"
  proof -
    have "s2 = s\<lparr>disk := disk s2\<rparr>" using w by (simp add: data_written_def)
    then show ?thesis by (cases s; cases s2) (simp add: kept_def set_inode_def n2_def)
  qed
  moreover have "disk_inode (set_inode p ?n3 (?t\<lparr>disk := ?d\<rparr>)) (i_ino ?n3) = ?n3\<lparr>ref_count := ref_count ?n3 + 1, dirty := 1\<rparr>"
  proof -
    have "length (block_ptrs ?n1) = MYFS_DIRECT_BLOCKS_MAX"
      using op by (simp add: open_file_def file_wf_def MYFS_DIRECT_BLOCKS_MAX_def n2_def)
    then have "disk_inode (set_inode p ?n3 (?t\<lparr>disk := ?d\<rparr>)) (i_ino n) = ?n1"
      using disk_inode_written [of ?n1 "set_inode p ?n3 (?t\<lparr>disk := ?d\<rparr>)" ?t "i_ino n"] ino
      by (simp add: set_inode_def inode_pos_def bsz_def)
    then show ?thesis by (simp add: n2_def)
  qed
  moreover have "i_size ?n3 = max (i_size n) finish" "block_count ?n3 = block_count n" "dirty ?n3 = 0"
    by (auto simp: n2_def max_def)
  ultimately show ?thesis
    unfolding tt [symmetric] run using f(1,2)
    by - (rule exI [of _ "set_inode p ?n3 (?t\<lparr>disk := ?d\<rparr>)"], rule exI [of _ ?n3], intro conjI, (rule refl | assumption | blast)+)
qed

lemma read_open:
  assumes ok: "fs_ok s" and op: "open_file s p n" and c: "count \<noteq> 0"
    and e: "unat pos + unat count \<le> unat (i_size n)"
  shows "myfs_node_read p pos out count s = Some (int (unat count), mem_copy out 0 (file_byte s n) (unat pos) (unat count))"
proof -
  have o: "p \<noteq> 0" "inodes s p = Some n" "file_wf s n" "unat (block_count n) \<le> max_blocks s"
    "unat (i_size n) \<le> unat (block_count n) * bsz s" using op by (simp_all add: open_file_def)
  have "unat (i_size n) < 2 ^ 32" using unsigned_less [of "i_size n"] by simp
  then have b: "unat pos + unat count < 2 ^ 32" using e by linarith
  have "unat (block_count n) * bsz s \<le> max_blocks s * bsz s" by (rule mult_le_mono1 [OF o(4)])
  then have m: "unat pos + unat count \<le> max_blocks s * bsz s" using e o(5) by linarith
  have "0 < unat count" using c by (simp add: unat_gt_0)
  then have "\<not> i_size n \<le> pos" using e by (simp add: word_le_nat_alt)
  moreover have "\<not> i_size n < pos + count" using e b by (simp add: word_less_nat_alt unat_word_ariths)
  ultimately show ?thesis
    using o node_read_loop_spec [OF ok o(3), of 0 count pos out] b m by (simp add: myfs_node_read_def)
qed

lemma write_spec:
  assumes "fs_ok s" and "open_file s p n" and "count \<noteq> 0" and "unat pos + unat count + bsz s \<le> 2 ^ 32"
  shows "\<exists>r s' n'. myfs_node_write p pos buf count s = Some (r, s') \<and> fs_ok s' \<and> open_file s' p n'
    \<and> (\<forall>a. a < unat (block_count n) * bsz s \<and> \<not> (r \<noteq> - 1 \<and> unat pos \<le> a \<and> a < unat pos + unat count) \<longrightarrow>
          file_byte s' n' a = file_byte s n a)
    \<and> (if r = - 1 then unat (block_count n) * bsz s < unat pos + unat count \<and> i_size n' = i_size n
       else r = int (unat count) \<and> i_size n' = max (i_size n) (pos + count)
         \<and> (\<forall>a. unat pos \<le> a \<and> a < unat pos + unat count \<longrightarrow> file_byte s' n' a = buf (a - unat pos)))
    \<and> kept p s n s' n' \<and> block_count n \<le> block_count n'
    \<and> (if r = - 1 then dirty n' = dirty n
       else dirty n' = 0 \<and> disk_inode s' (i_ino n') = n'\<lparr>ref_count := ref_count n' + 1, dirty := 1\<rparr>)"
proof -
  let ?target = "(pos + count + block_bytes s - 1) div block_bytes s"
  have p0: "p \<noteq> 0" "inodes s p = Some n" "unat (block_count n) \<le> max_blocks s" using assms(2) by (simp_all add: open_file_def)
  note tb = target_blocks [OF assms(1,4,3)]
  obtain r n1 s1 where g:
    "(if ?target > block_count n then myfs_blocks_alloc (?target - block_count n) n s else (True, n, s)) = (r, n1, s1)"
    and op1: "open_file (set_inode p n1 s1) p n1" and ok1: "fs_ok (set_inode p n1 s1)" and sf1: "same_fs s (set_inode p n1 s1)"
    and n1: "i_size n1 = i_size n" "i_ino n1 = i_ino n" "block_count n \<le> block_count n1"
    and r: "r \<Longrightarrow> ?target \<le> block_count n1" "\<not> r \<Longrightarrow> block_count n < ?target"
    and b1: "\<And>a. a < unat (block_count n) * bsz s \<Longrightarrow> file_byte (set_inode p n1 s1) n1 a = file_byte s n a"
    and k1: "kept p s n (set_inode p n1 s1) n1" "\<not> r \<Longrightarrow> dirty n1 = dirty n"
    by (rule write_grows [OF assms(1,2), of ?target]) blast
  let ?t = "set_inode p n1 s1"
  note sf = same_fs_simps [OF sf1]
  show ?thesis
  proof (cases r)
    case False
    then have "myfs_node_write p pos buf count s = Some (- 1, ?t)"
      using p0 assms(3) g by (simp add: myfs_node_write_def Let_def)
    moreover have "unat (block_count n) * bsz s < unat pos + unat count"
      using r(2) [OF False] tb(1) [of "block_count n"] by (simp add: not_le [symmetric])
    ultimately show ?thesis using ok1 op1 n1(1,3) b1 k1 False by (intro exI [of _ "- 1"] exI [of _ ?t] exI [of _ n1]) simp
  next
    case True
    have enough: "unat pos + unat count \<le> unat (block_count n1) * bsz s" using r(1) [OF True] tb(1) by blast
    have b: "unat pos + unat count < 2 ^ 32" using assms(4) fs_ok_facts(2) [OF assms(1)] by linarith
    obtain s2 where l: "node_write_loop n1 pos buf 0 count ?t = Some (True, pos + count, s2)"
      and w: "data_written (unat pos) (unat count) buf 0 n1 ?t s2"
      using write_in_blocks [OF ok1 op1, of pos count buf] enough b unfolding sf(1) by blast
    obtain s' n' where d: "myfs_node_write p pos buf count s = Some (int (unat count), s')"
      "fs_ok s'" "open_file s' p n'" "same_fs ?t s'" "i_size n' = max (i_size n1) (pos + count)"
      "\<And>a. a div bsz ?t < max_blocks ?t \<Longrightarrow> file_byte s' n' a = file_byte s2 n1 a"
      "kept p ?t n1 s' n'" "dirty n' = 0" "disk_inode s' (i_ino n') = n'\<lparr>ref_count := ref_count n' + 1, dirty := 1\<rparr>"
      "block_count n' = block_count n1"
    proof -
      have f: "unat (pos + count) \<le> unat (block_count n1) * bsz ?t" using enough tb(2) sf(1) by simp
      obtain s' n' where w: "myfs_disk_inode_write (i_ino n1)
          (set_inode p (n1\<lparr>i_size := (if pos + count > i_size n1 then pos + count else i_size n1), dirty := 1\<rparr>) s2) = Some (0, s')"
        and "fs_ok s'" "open_file s' p n'" "same_fs ?t s'" "i_size n' = max (i_size n1) (pos + count)"
          "\<forall>a. a div bsz ?t < max_blocks ?t \<longrightarrow> file_byte s' n' a = file_byte s2 n1 a"
          "kept p ?t n1 s' n'" "dirty n' = 0" "disk_inode s' (i_ino n') = n'\<lparr>ref_count := ref_count n' + 1, dirty := 1\<rparr>"
          "block_count n' = block_count n1"
        using write_finish [OF ok1 op1 w f] by blast
      moreover from w have "myfs_node_write p pos buf count s = Some (int (unat count), s')"
        using p0 assms(3) g l True by (simp add: myfs_node_write_def Let_def)
      ultimately show ?thesis using that by blast
    qed
    have fb: "file_byte s' n' a = (if unat pos \<le> a \<and> a < unat pos + unat count then buf (a - unat pos) else file_byte ?t n1 a)"
      if "a < unat (block_count n1) * bsz s" for a
    proof -
      have "a div bsz s < unat (block_count n1)" by (rule less_mult_imp_div_less [OF that])
      moreover have "unat (block_count n1) \<le> max_blocks s" using op1 sf by (simp add: open_file_def)
      ultimately have "a div bsz ?t < max_blocks ?t" unfolding sf by linarith
      then show ?thesis using d(6) w by (simp add: data_written_def)
    qed
    have "file_byte s' n' a = file_byte s n a" if "a < unat (block_count n) * bsz s" "\<not> (unat pos \<le> a \<and> a < unat pos + unat count)" for a
    proof -
      have "unat (block_count n) * bsz s \<le> unat (block_count n1) * bsz s"
        using n1(3) by (intro mult_le_mono1) (simp add: word_le_nat_alt)
      then have "a < unat (block_count n1) * bsz s" using that(1) by linarith
      then show ?thesis using fb [of a] that b1 [of a] by simp
    qed
    moreover have "file_byte s' n' a = buf (a - unat pos)" if "unat pos \<le> a \<and> a < unat pos + unat count" for a
      using fb [of a] that enough by simp
    moreover have "int (unat count) \<noteq> - 1" using of_nat_0_le_iff [of "unat count"] by linarith
    ultimately show ?thesis
      using d(1-3,5) n1(1,3) kept_trans [OF k1(1) d(7)] d(8-10) by (intro exI [of _ "int (unat count)"] exI [of _ s'] exI [of _ n']) simp
  qed
qed

lemma read_written:
  assumes "fs_ok s" and "open_file s p n" and "count \<noteq> 0" and "unat pos + unat count \<le> unat (i_size n)"
    and "\<And>a. unat pos \<le> a \<and> a < unat pos + unat count \<Longrightarrow> file_byte s n a = buf (a - unat pos)"
  shows "myfs_node_read p pos out count s = Some (int (unat count), mem_copy out 0 buf 0 (unat count))"
proof -
  have "mem_copy out 0 (file_byte s n) (unat pos) (unat count) = mem_copy out 0 buf 0 (unat count)"
    using assms(5) by (auto simp: mem_copy_def fun_eq_iff)
  then show ?thesis using read_open [OF assms(1-4), of out] by simp
qed

text \<open>
  C9. What is written to a file is read back.  On an open, well-formed file of MyFS,
  \<^verbatim>\<open>myfs_node_write\<close> returns the number of bytes, or -1, which it only does when the
  file had too few blocks and could not get more.  After success reading the same range returns
  exactly the bytes written, every other byte of the blocks the file already had is as it was, the
  size is the larger of the old size and the end of the write, and the file is again open and
  well-formed.  After a failure the old bytes are as they were.  The file may grow on the way, with
  indirect tables, and the range may start and end inside blocks.
\<close>

theorem file_write_read:
  assumes "fs_ok s" and "open_file s p n" and "count \<noteq> 0" and "unat pos + unat count + bsz s \<le> 2 ^ 32"
  shows "\<exists>r s' n'. myfs_node_write p pos buf count s = Some (r, s') \<and> fs_ok s' \<and> open_file s' p n'
    \<and> (\<forall>a. a < unat (block_count n) * bsz s \<and> \<not> (r \<noteq> - 1 \<and> unat pos \<le> a \<and> a < unat pos + unat count) \<longrightarrow>
          file_byte s' n' a = file_byte s n a)
    \<and> (if r = - 1 then unat (block_count n) * bsz s < unat pos + unat count \<and> i_size n' = i_size n
       else r = int (unat count) \<and> i_size n' = max (i_size n) (pos + count)
         \<and> (\<forall>out. myfs_node_read p pos out count s' = Some (int (unat count), mem_copy out 0 buf 0 (unat count))))"
proof -
  obtain r s' n' where w: "myfs_node_write p pos buf count s = Some (r, s')" "fs_ok s'" "open_file s' p n'"
    and b: "\<forall>a. a < unat (block_count n) * bsz s \<and> \<not> (r \<noteq> - 1 \<and> unat pos \<le> a \<and> a < unat pos + unat count) \<longrightarrow>
          file_byte s' n' a = file_byte s n a"
    and c: "if r = - 1 then unat (block_count n) * bsz s < unat pos + unat count \<and> i_size n' = i_size n
       else r = int (unat count) \<and> i_size n' = max (i_size n) (pos + count)
         \<and> (\<forall>a. unat pos \<le> a \<and> a < unat pos + unat count \<longrightarrow> file_byte s' n' a = buf (a - unat pos))"
    using write_spec [OF assms, of buf] by blast
  have "myfs_node_read p pos out count s' = Some (int (unat count), mem_copy out 0 buf 0 (unat count))" if "r \<noteq> - 1" for out
    by (rule read_written [OF w(2,3) assms(3)])
      (use c that target_blocks(2) [OF assms(1,4,3)] in \<open>simp_all add: max_def word_le_nat_alt\<close>)
  then show ?thesis using w b c by (cases "r = - 1") (auto intro!: exI [of _ r] exI [of _ s'] exI [of _ n'])
qed

text \<open>A file with one block, block 900.\<close>

definition file_demo :: MyfsInode where
  "file_demo = zero_inode\<lparr>i_ino := 5, i_size := 100, ref_count := 1, block_count := 1, block_ptrs := 900 # replicate 9 0\<rparr>"

definition fs_demo_file :: myfs where
  "fs_demo_file = fs_demo_block\<lparr>inodes := (\<lambda>_. None)(1 := Some file_demo)\<rparr>"

lemma fs_demo_file_ok: "fs_ok fs_demo_file" "bsz fs_demo_file = 2048" "max_blocks fs_demo_file = 262666"
proof -
  have sf: "same_fs fs_demo fs_demo_file" by (simp add: same_fs_def fs_demo_block_def fs_demo_file_def)
  show "fs_ok fs_demo_file" "bsz fs_demo_file = 2048" "max_blocks fs_demo_file = 262666"
    using fs_demo_ok fs_demo_geo(2) same_fs_simps [OF sf] by simp_all
qed

lemma file_demo_open: "open_file fs_demo_file 1 file_demo"
proof -
  have b: "blk fs_demo_file file_demo r = (if r = Data 0 then 900 else 0)" for r
    by (cases r) (auto simp: file_demo_def zero_inode_def lba_def sub_table_def Let_def nth_Cons split: nat.splits)
  have "blk_ok fs_demo_file 900"
    by (simp add: blk_ok_def used_def bsz_def fs_demo_file_def fs_demo_block_def fs_demo_def layout_defs DISK_MAX_def sizeof_inode_def fb.tst_st)
  then have wf: "file_wf fs_demo_file file_demo"
    by (simp add: file_wf_def b) (simp add: file_demo_def)
  have l: "lba fs_demo_file file_demo 0 = 900" using b [of "Data 0"] by simp
  have "myfs_cache_find 5 fs_demo_file = Some 1"
    by (simp add: myfs_cache_find_def inode_hash_def INODE_HASH_SIZE_def fs_demo_file_def fs_demo_block_def fs_demo_def file_demo_def)
  moreover have "inode_pos fs_demo_file 5 + sizeof_inode \<le> unat (data_blocks_start (on_disk fs_demo_file)) * bsz fs_demo_file"
    by (simp add: inode_pos_def bsz_def fs_demo_file_def fs_demo_block_def fs_demo_def layout_defs sizeof_inode_def)
  moreover have "bitmap_is_set (inode_bitmap fs_demo_file) 5"
    by (simp add: fs_demo_file_def fs_demo_block_def fs_demo_def fb.tst_st)
  ultimately show ?thesis
    using wf l fs_demo_file_ok by (simp add: open_file_def file_demo_def) (simp add: fs_demo_file_def file_demo_def)
qed

theorem file_write_read_witness:
  "\<exists>s' n'. myfs_node_write 1 50 (\<lambda>i. of_nat i) 200 fs_demo_file = Some (200, s') \<and> i_size n' = 250 \<and> inodes s' 1 = Some n'
     \<and> (\<forall>out. myfs_node_read 1 50 out 200 s' = Some (200, mem_copy out 0 (\<lambda>i. of_nat i) 0 200))"
proof -
  have h: "(200 :: u32) \<noteq> 0" "unat (50 :: u32) + unat (200 :: u32) + bsz fs_demo_file \<le> 2 ^ 32"
    by (simp_all add: fs_demo_file_ok(2))
  obtain r s' n' where w: "myfs_node_write 1 50 (\<lambda>i. of_nat i) 200 fs_demo_file = Some (r, s')" "open_file s' 1 n'"
    "if r = - 1 then unat (block_count file_demo) * bsz fs_demo_file < unat (50 :: u32) + unat (200 :: u32) \<and> i_size n' = i_size file_demo
       else r = int (unat (200 :: u32)) \<and> i_size n' = max (i_size file_demo) (50 + 200)
         \<and> (\<forall>out. myfs_node_read 1 50 out 200 s' = Some (int (unat (200 :: u32)), mem_copy out 0 (\<lambda>i. of_nat i) 0 (unat (200 :: u32))))"
    using file_write_read [OF fs_demo_file_ok(1) file_demo_open h, of "\<lambda>i. of_nat i"] by blast
  have "\<not> unat (block_count file_demo) * bsz fs_demo_file < unat (50 :: u32) + unat (200 :: u32)"
    by (simp add: file_demo_def fs_demo_file_ok(2))
  then have r: "r \<noteq> - 1" using w(3) by (cases "r = - 1") auto
  show ?thesis
    using w r by (intro exI [of _ s'] exI [of _ n']) (simp add: file_demo_def open_file_def max_def)
qed

end
