(* ===== verification/Sched.thy ===== *)
theory Sched
  imports KPrelude Errno "HOL-Library.Monad_Syntax"
begin

text \<open>
  Threads, spin locks, the multilevel feedback queues, the dispatcher, sleeping and wait queues:
  \<^verbatim>\<open>spinlock.c\<close>, \<^verbatim>\<open>sched/sched.c\<close>, \<^verbatim>\<open>dispatcher.c\<close>, \<^verbatim>\<open>sleep.c\<close>, \<^verbatim>\<open>wait.c\<close> and \<^verbatim>\<open>timer.c\<close>. Thread
  objects live in a store indexed by their address; 0 is the null pointer. The queues are linked
  through the thread objects as in the code. A context switch changes the current thread; the
  machine state it loads is not part of the model. \<open>None\<close> is undefined behaviour or a loop that
  never ends.
\<close>

subsection \<open>Thread objects\<close>

datatype thread_state = THREAD_STATE_NEW | THREAD_STATE_READY | THREAD_STATE_RUNNING | THREAD_STATE_DEAD
  | THREAD_STATE_BLOCKED

datatype thread_mode = THREAD_MODE_KERNEL | THREAD_MODE_USER

definition THREAD_PRIORITY_VERY_HIGH :: nat where
  "THREAD_PRIORITY_VERY_HIGH = 0"

definition THREAD_PRIORITY_HIGH :: nat where
  "THREAD_PRIORITY_HIGH = 1"

definition THREAD_PRIORITY_MEDIUM :: nat where
  "THREAD_PRIORITY_MEDIUM = 2"

definition THREAD_PRIORITY_LOW :: nat where
  "THREAD_PRIORITY_LOW = 3"

definition THREAD_NUM_PRIORITIES :: nat where
  "THREAD_NUM_PRIORITIES = 4"

record thread_t =
  tid :: u32
  process :: nat
  rt_ticks :: u32
  curr_time_quantum :: u32
  curr_time_quantum_ticks_passed :: u32
  burst_ticks_estimate :: u32
  last_enqueue_tick :: u32
  wakeup_time :: u32
  tstate :: thread_state
  priority :: nat
  tmode :: thread_mode
  kstack_top :: u32
  next_thread :: nat
  next_sleep :: nat

definition zero_thread :: thread_t where
  "zero_thread = \<lparr>tid = 0, process = 0, rt_ticks = 0, curr_time_quantum = 0, curr_time_quantum_ticks_passed = 0,
     burst_ticks_estimate = 0, last_enqueue_tick = 0, wakeup_time = 0, tstate = THREAD_STATE_NEW, priority = 0,
     tmode = THREAD_MODE_KERNEL, kstack_top = 0, next_thread = 0, next_sleep = 0\<rparr>"

subsection \<open>Spin locks\<close>

record spinlock_t =
  lock_val :: u32
  lock_interrupts :: u32

definition SPINLOCK_RELEASED :: spinlock_t where
  "SPINLOCK_RELEASED = \<lparr>lock_val = 0, lock_interrupts = 0\<rparr>"

text \<open>The kernel runs on one processor: a compare-and-swap that fails with interrupts off fails for ever.\<close>

partial_function (option) cas_loop :: "u32 \<Rightarrow> u32 \<Rightarrow> u32 \<Rightarrow> u32 option" where
  "cas_loop old new v = (if v = old then Some new else cas_loop old new v)"

text \<open>A lock and the interrupt flag of the processor.\<close>

definition spinlock_acquire :: "spinlock_t \<times> bool \<Rightarrow> (spinlock_t \<times> bool) option" where
  "spinlock_acquire = (\<lambda>(l, intr).
     do { v \<leftarrow> cas_loop 0 1 (lock_val l);
          Some (l\<lparr>lock_val := v, lock_interrupts := (if intr then 1 else 0)\<rparr>, False) })"

definition spinlock_release :: "spinlock_t \<times> bool \<Rightarrow> (spinlock_t \<times> bool) option" where
  "spinlock_release = (\<lambda>(l, intr).
     do { let interrupts = lock_interrupts l;
          v \<leftarrow> cas_loop 1 0 (lock_val l);
          Some (l\<lparr>lock_val := v\<rparr>, if interrupts \<noteq> 0 then True else intr) })"

subsection \<open>The state of the scheduler\<close>

record wait_queue_t =
  wq_head :: nat
  wq_tail :: nat
  wq_lock :: spinlock_t

record sched =
  threads :: "nat \<Rightarrow> thread_t"
  ready_queue_heads :: "nat \<Rightarrow> nat"
  ready_queue_tails :: "nat \<Rightarrow> nat"
  kernel_idle_task :: nat
  sched_lock :: spinlock_t
  g_current_thread :: nat
  sleep_queue_head :: nat
  g_time_tick :: u32
  interrupts_on :: bool
  tss_kstack :: u32

definition upd_thread :: "nat \<Rightarrow> (thread_t \<Rightarrow> thread_t) \<Rightarrow> sched \<Rightarrow> sched" where
  "upd_thread t f s = s\<lparr>threads := (threads s)(t := f (threads s t))\<rparr>"

definition lock_sched :: "sched \<Rightarrow> sched option" where
  "lock_sched s = do { (l, i) \<leftarrow> spinlock_acquire (sched_lock s, interrupts_on s); Some (s\<lparr>sched_lock := l, interrupts_on := i\<rparr>) }"

definition unlock_sched :: "sched \<Rightarrow> sched option" where
  "unlock_sched s = do { (l, i) \<leftarrow> spinlock_release (sched_lock s, interrupts_on s); Some (s\<lparr>sched_lock := l, interrupts_on := i\<rparr>) }"

subsection \<open>Time\<close>

definition TIMER_HZ :: nat where
  "TIMER_HZ = 1000"

text \<open>
  \<^verbatim>\<open>TIMER_TICK_MS\<close> is the text \<^verbatim>\<open>1000 / TIMER_HZ\<close> without parentheses: to divide by it divides by 1000
  and then by the frequency.
\<close>

definition AGING_THRESHOLD_MS :: nat where
  "AGING_THRESHOLD_MS = 500"

definition aging_threshold :: u32 where
  "aging_threshold = of_nat (AGING_THRESHOLD_MS div 1000 div TIMER_HZ)"

definition timer_tick_get :: "sched \<Rightarrow> u32" where
  "timer_tick_get s = g_time_tick s"

subsection \<open>The ready queues\<close>

definition time_quantums :: "nat list" where
  "time_quantums = [40, 80, 120, 200]"

definition sched_enqueue :: "nat \<Rightarrow> sched \<Rightarrow> sched option" where
  "sched_enqueue t s =
     (if t = 0 \<or> tid (threads s t) = 0 then Some s
      else do {
        s \<leftarrow> lock_sched s;
        let pr = priority (threads s t);
        let pr = (if pr \<ge> THREAD_NUM_PRIORITIES then THREAD_PRIORITY_MEDIUM else pr);
        let s = upd_thread t (\<lambda>th. th\<lparr>tstate := THREAD_STATE_READY, next_thread := 0\<rparr>) s;
        let s = (if ready_queue_tails s pr = 0
                 then s\<lparr>ready_queue_heads := (ready_queue_heads s)(pr := t)\<rparr>
                 else upd_thread (ready_queue_tails s pr) (\<lambda>th. th\<lparr>next_thread := t\<rparr>) s);
        let s = s\<lparr>ready_queue_tails := (ready_queue_tails s)(pr := t)\<rparr>;
        let s = upd_thread t (\<lambda>th. th\<lparr>curr_time_quantum := of_nat (time_quantums ! pr),
                  burst_ticks_estimate := of_nat (time_quantums ! pr), last_enqueue_tick := timer_tick_get s\<rparr>) s;
        unlock_sched s })"

text \<open>
  The estimate is computed in double precision, which is exact here, and converted to \<^verbatim>\<open>int\<close>, which
  is undefined when it does not fit.
\<close>

definition sched_prepare_for_cpu_burst :: "nat \<Rightarrow> sched \<Rightarrow> sched option" where
  "sched_prepare_for_cpu_burst t s =
     (let th = threads s t;
          next_burst_ticks_estimate = (unat (curr_time_quantum_ticks_passed th) + unat (burst_ticks_estimate th)) div 2;
          pr = (case List.find (\<lambda>i. next_burst_ticks_estimate \<le> time_quantums ! i) [0..<THREAD_NUM_PRIORITIES] of
                  Some i \<Rightarrow> i | None \<Rightarrow> THREAD_PRIORITY_LOW)
      in if next_burst_ticks_estimate \<ge> 2 ^ 31 then None
         else Some (upd_thread t (\<lambda>th. th\<lparr>priority := pr, burst_ticks_estimate := of_nat next_burst_ticks_estimate,
                      curr_time_quantum := of_nat (time_quantums ! pr), curr_time_quantum_ticks_passed := 0\<rparr>) s))"

text \<open>Taking \<open>t\<close>, whose predecessor is \<open>prev\<close>, out of queue \<open>i\<close> and to the end of the one above it.\<close>

definition age_unlink :: "nat \<Rightarrow> nat \<Rightarrow> nat \<Rightarrow> sched \<Rightarrow> sched" where
  "age_unlink i prev t s =
     (let s = (if prev \<noteq> 0 then upd_thread prev (\<lambda>th. th\<lparr>next_thread := next_thread (threads s t)\<rparr>) s
               else s\<lparr>ready_queue_heads := (ready_queue_heads s)(i := next_thread (threads s t))\<rparr>)
      in if ready_queue_tails s i = t then s\<lparr>ready_queue_tails := (ready_queue_tails s)(i := prev)\<rparr> else s)"

definition age_promote :: "nat \<Rightarrow> nat \<Rightarrow> sched \<Rightarrow> sched" where
  "age_promote i t s =
     (let s = upd_thread t (\<lambda>th. th\<lparr>priority := i - 1, next_thread := 0, last_enqueue_tick := timer_tick_get s\<rparr>) s;
          s = (if ready_queue_tails s (i - 1) = 0
               then s\<lparr>ready_queue_heads := (ready_queue_heads s)(i - 1 := t)\<rparr>
               else upd_thread (ready_queue_tails s (i - 1)) (\<lambda>th. th\<lparr>next_thread := t\<rparr>) s)
      in s\<lparr>ready_queue_tails := (ready_queue_tails s)(i - 1 := t)\<rparr>)"

partial_function (option) aging_loop :: "nat \<Rightarrow> nat \<Rightarrow> nat \<Rightarrow> sched \<Rightarrow> sched option" where
  "aging_loop i prev cur s =
     (if cur = 0 then Some s
      else if timer_tick_get s - last_enqueue_tick (threads s cur) \<ge> aging_threshold
      then (let s = age_unlink i prev cur s;
                nxt = next_thread (threads s cur)
            in aging_loop i prev nxt (age_promote i cur s))
      else aging_loop i cur (next_thread (threads s cur)) s)"

definition sched_apply_aging :: "sched \<Rightarrow> sched option" where
  "sched_apply_aging s =
     for_loop 1 THREAD_NUM_PRIORITIES (\<lambda>i r. do { s \<leftarrow> r; aging_loop i 0 (ready_queue_heads s i) s }) (Some s)"

definition sched_pick_next :: "sched \<Rightarrow> (nat \<times> sched) option" where
  "sched_pick_next s =
     do { s \<leftarrow> lock_sched s;
          (case List.find (\<lambda>pr. ready_queue_heads s pr \<noteq> 0) [0..<THREAD_NUM_PRIORITIES] of
             Some pr \<Rightarrow>
               do { let t = ready_queue_heads s pr;
                    let s = s\<lparr>ready_queue_heads := (ready_queue_heads s)(pr := next_thread (threads s t))\<rparr>;
                    let s = (if ready_queue_heads s pr = 0 then s\<lparr>ready_queue_tails := (ready_queue_tails s)(pr := 0)\<rparr> else s);
                    let s = upd_thread t (\<lambda>th. th\<lparr>next_thread := 0\<rparr>) s;
                    s \<leftarrow> sched_prepare_for_cpu_burst t s;
                    s \<leftarrow> unlock_sched s;
                    Some (t, s) }
           | None \<Rightarrow> do { s \<leftarrow> unlock_sched s; Some (kernel_idle_task s, s) }) }"

text \<open>The walk to the predecessor of \<open>t\<close>; 0 when \<open>t\<close> is not in the queue.\<close>

partial_function (option) find_prev :: "(nat \<Rightarrow> thread_t) \<Rightarrow> nat \<Rightarrow> nat \<Rightarrow> nat option" where
  "find_prev h t cur = (if cur \<noteq> 0 \<and> next_thread (h cur) \<noteq> t then find_prev h t (next_thread (h cur)) else Some cur)"

definition sched_dequeue :: "nat \<Rightarrow> sched \<Rightarrow> sched option" where
  "sched_dequeue t s =
     (if t = 0 \<or> tid (threads s t) = 0 then Some s
      else do {
        s \<leftarrow> lock_sched s;
        let pr = priority (threads s t);
        if pr \<ge> THREAD_NUM_PRIORITIES then unlock_sched s
        else do {
          s \<leftarrow> (if ready_queue_heads s pr = t
             then Some (let s = s\<lparr>ready_queue_heads := (ready_queue_heads s)(pr := next_thread (threads s t))\<rparr>
                        in if ready_queue_tails s pr = t then s\<lparr>ready_queue_tails := (ready_queue_tails s)(pr := 0)\<rparr> else s)
             else do {
               cur \<leftarrow> find_prev (threads s) t (ready_queue_heads s pr);
               if cur = 0 then Some s
               else Some (let s = upd_thread cur (\<lambda>th. th\<lparr>next_thread := next_thread (threads s t)\<rparr>) s
                          in if ready_queue_tails s pr = t then s\<lparr>ready_queue_tails := (ready_queue_tails s)(pr := cur)\<rparr> else s) });
          unlock_sched (upd_thread t (\<lambda>th. th\<lparr>next_thread := 0, tstate := THREAD_STATE_DEAD\<rparr>) s) } })"

subsection \<open>The dispatcher\<close>

definition dispatch_get_current :: "sched \<Rightarrow> nat" where
  "dispatch_get_current s = g_current_thread s"

definition dispatch_switch_to :: "nat \<Rightarrow> sched \<Rightarrow> sched option" where
  "dispatch_switch_to nxt s =
     (if nxt = 0 then None
      else
        (let cur = dispatch_get_current s;
             s = upd_thread nxt (\<lambda>th. th\<lparr>tstate := THREAD_STATE_RUNNING\<rparr>) s
         in if cur = nxt then Some s
            else Some (s\<lparr>tss_kstack := kstack_top (threads s nxt), g_current_thread := nxt\<rparr>)))"

definition sched_switch_next :: "sched \<Rightarrow> sched option" where
  "sched_switch_next s = do { (nxt, s) \<leftarrow> sched_pick_next s; dispatch_switch_to nxt s }"

subsection \<open>Sleeping\<close>

partial_function (option) wake_up_sleeping :: "u32 \<Rightarrow> sched \<Rightarrow> sched option" where
  "wake_up_sleeping now s =
     (if sleep_queue_head s \<noteq> 0 \<and> wakeup_time (threads s (sleep_queue_head s)) \<le> now
      then
        (let t = sleep_queue_head s;
             s = s\<lparr>sleep_queue_head := next_sleep (threads s t)\<rparr>;
             s = upd_thread t (\<lambda>th. th\<lparr>next_sleep := 0\<rparr>) s
         in do { s \<leftarrow> sched_enqueue t s; wake_up_sleeping now s })
      else Some s)"

partial_function (option) sleeper_slot :: "(nat \<Rightarrow> thread_t) \<Rightarrow> u32 \<Rightarrow> nat \<Rightarrow> nat option" where
  "sleeper_slot h w cur =
     (if next_sleep (h cur) \<noteq> 0 \<and> wakeup_time (h (next_sleep (h cur))) \<le> w then sleeper_slot h w (next_sleep (h cur)) else Some cur)"

definition enqueue_sleeper :: "nat \<Rightarrow> u32 \<Rightarrow> sched \<Rightarrow> sched option" where
  "enqueue_sleeper t w s =
     (let s = upd_thread t (\<lambda>th. th\<lparr>wakeup_time := w, next_sleep := 0\<rparr>) s
      in if sleep_queue_head s = 0 \<or> w < wakeup_time (threads s (sleep_queue_head s))
         then Some (upd_thread t (\<lambda>th. th\<lparr>next_sleep := sleep_queue_head s\<rparr>) s\<lparr>sleep_queue_head := t\<rparr>)
         else do {
           cur \<leftarrow> sleeper_slot (threads s) w (sleep_queue_head s);
           let s = upd_thread t (\<lambda>th. th\<lparr>next_sleep := next_sleep (threads s cur)\<rparr>) s;
           Some (upd_thread cur (\<lambda>th. th\<lparr>next_sleep := t\<rparr>) s) })"

text \<open>The number of ticks, again with the division by the two factors of the macro.\<close>

definition sys_sleep_ticks :: "u32 \<Rightarrow> u32" where
  "sys_sleep_ticks seconds = seconds * 1000 div 1000 div of_nat TIMER_HZ"

definition sys_sleep :: "u32 \<Rightarrow> sched \<Rightarrow> sched option" where
  "sys_sleep seconds s =
     do { s \<leftarrow> enqueue_sleeper (dispatch_get_current s) (timer_tick_get s + sys_sleep_ticks seconds) s;
          sched_switch_next s }"

text \<open>The request as its seconds and nanoseconds, or \<open>None\<close> for a null pointer.\<close>

definition sys_nanosleep :: "(u64 \<times> 32 word) option \<Rightarrow> sched \<Rightarrow> (int \<times> sched) option" where
  "sys_nanosleep req s =
     (case req of
        None \<Rightarrow> Some (- EFAULT, s)
      | Some (tv_sec, tv_nsec) \<Rightarrow>
          (let total_ns = tv_sec * 1000000000 + scast tv_nsec;
               delta_ticks = total_ns * of_nat TIMER_HZ div 1000000000;
               cur = dispatch_get_current s;
               s = upd_thread cur (\<lambda>th. th\<lparr>tstate := THREAD_STATE_BLOCKED\<rparr>) s
           in do { s \<leftarrow> enqueue_sleeper cur (ucast (ucast (timer_tick_get s) + delta_ticks :: u64)) s;
                   s \<leftarrow> sched_switch_next s;
                   Some (0, s) }))"

subsection \<open>The timer\<close>

definition sched_on_timer_tick :: "sched \<Rightarrow> sched option" where
  "sched_on_timer_tick s =
     do { s \<leftarrow> wake_up_sleeping (timer_tick_get s) s;
          s \<leftarrow> (if unat (timer_tick_get s) mod 100 = 0
                then do { s \<leftarrow> lock_sched s; s \<leftarrow> sched_apply_aging s; unlock_sched s } else Some s);
          let cur = dispatch_get_current s;
          if cur = 0 \<or> tstate (threads s cur) \<noteq> THREAD_STATE_RUNNING then Some s
          else do {
            let s = upd_thread cur (\<lambda>th. th\<lparr>rt_ticks := rt_ticks th + 1,
                      curr_time_quantum_ticks_passed := curr_time_quantum_ticks_passed th + 1\<rparr>) s;
            let remain_time = curr_time_quantum (threads s cur) - curr_time_quantum_ticks_passed (threads s cur);
            if sint remain_time \<le> 0 then do { s \<leftarrow> sched_enqueue cur s; sched_switch_next s } else Some s } }"

definition timer_on_tick :: "sched \<Rightarrow> sched option" where
  "timer_on_tick s = sched_on_timer_tick (s\<lparr>g_time_tick := g_time_tick s + 1\<rparr>)"

definition boot_time_sec :: u64 where
  "boot_time_sec = 1771149600"

text \<open>Seconds and nanoseconds of the wall clock at a tick; \<^verbatim>\<open>tv_nsec\<close> is a 32-bit \<^verbatim>\<open>long\<close>.\<close>

definition timekeeping_get_walltime :: "u32 \<Rightarrow> u64 \<times> u32" where
  "timekeeping_get_walltime tick =
     (let total_ms = (ucast tick :: u64) * 1000 div of_nat TIMER_HZ;
          sec = boot_time_sec + total_ms div 1000;
          nsec = (ucast ((total_ms mod 1000) * 1000000) :: u32)
      in if sint nsec \<ge> 1000000000 then (sec + 1, nsec - 1000000000) else (sec, nsec))"

definition sys_gettimeofday :: "bool \<Rightarrow> u32 \<Rightarrow> int \<times> (u64 \<times> u32) option" where
  "sys_gettimeofday tv_null tick = (if tv_null then (- 1, None) else (0, Some (timekeeping_get_walltime tick)))"

subsection \<open>Wait queues\<close>

text \<open>
  Blocking, up to the switch to another thread: the condition lock, when there is one, is released
  while the lock of the queue is still held. The state after the return is that of the woken thread.
\<close>

definition wait_on_queue :: "wait_queue_t \<Rightarrow> spinlock_t option \<Rightarrow> sched \<Rightarrow> (wait_queue_t \<times> spinlock_t option \<times> sched) option" where
  "wait_on_queue q condition_lock s =
     do { let cur = dispatch_get_current s;
          (l, i) \<leftarrow> spinlock_acquire (wq_lock q, interrupts_on s);
          let q = q\<lparr>wq_lock := l\<rparr>;
          let s = upd_thread cur (\<lambda>th. th\<lparr>tstate := THREAD_STATE_BLOCKED, next_thread := 0\<rparr>) (s\<lparr>interrupts_on := i\<rparr>);
          let (q, s) = (if wq_tail q = 0 then (q\<lparr>wq_head := cur\<rparr>, s)
                        else (q, upd_thread (wq_tail q) (\<lambda>th. th\<lparr>next_thread := cur\<rparr>) s));
          let q = q\<lparr>wq_tail := cur\<rparr>;
          (condition_lock, s) \<leftarrow>
            (case condition_lock of
               None \<Rightarrow> Some (None, s)
             | Some c \<Rightarrow> do { (c, i) \<leftarrow> spinlock_release (c, interrupts_on s); Some (Some c, s\<lparr>interrupts_on := i\<rparr>) });
          (l, i) \<leftarrow> spinlock_release (wq_lock q, interrupts_on s);
          let q = q\<lparr>wq_lock := l\<rparr>;
          s \<leftarrow> sched_switch_next (s\<lparr>interrupts_on := i\<rparr>);
          Some (q, condition_lock, s) }"

definition wake_up_queue :: "wait_queue_t \<Rightarrow> sched \<Rightarrow> (wait_queue_t \<times> sched) option" where
  "wake_up_queue q s =
     do { (l, i) \<leftarrow> spinlock_acquire (wq_lock q, interrupts_on s);
          let q = q\<lparr>wq_lock := l\<rparr>;
          let s = s\<lparr>interrupts_on := i\<rparr>;
          (q, s) \<leftarrow> (if wq_head q = 0 then Some (q, s)
             else do {
               let t = wq_head q;
               let q = q\<lparr>wq_head := next_thread (threads s t)\<rparr>;
               let q = (if wq_head q = 0 then q\<lparr>wq_tail := 0\<rparr> else q);
               s \<leftarrow> sched_enqueue t (upd_thread t (\<lambda>th. th\<lparr>next_thread := 0, tstate := THREAD_STATE_READY\<rparr>) s);
               Some (q, s) });
          (l, i) \<leftarrow> spinlock_release (wq_lock q, interrupts_on s);
          Some (q\<lparr>wq_lock := l\<rparr>, s\<lparr>interrupts_on := i\<rparr>) }"

end
