(* ===== verification/LinkedList.thy ===== *)
theory LinkedList
  imports KPrelude
begin

text \<open>
  Singly linked lists in a store: the next pointers are a function on addresses and 0 is the null
  pointer. A queue is such a list with a pointer to its last element.
\<close>

fun lseg :: "(nat \<Rightarrow> nat) \<Rightarrow> nat \<Rightarrow> nat list \<Rightarrow> nat \<Rightarrow> bool" where
  "lseg nx a [] b \<longleftrightarrow> a = b"
| "lseg nx a (x # xs) b \<longleftrightarrow> a = x \<and> x \<noteq> 0 \<and> lseg nx (nx x) xs b"

lemma lseg_append [simp]: "lseg nx a (xs @ ys) c \<longleftrightarrow> (\<exists>b. lseg nx a xs b \<and> lseg nx b ys c)"
  by (induction xs arbitrary: a) auto

lemma lseg_cong: "(\<And>x. x \<in> set xs \<Longrightarrow> nx' x = nx x) \<Longrightarrow> lseg nx' a xs b = lseg nx a xs b"
  by (induction xs arbitrary: a) auto

lemma lseg_null [simp]: "lseg nx 0 xs b \<longleftrightarrow> xs = [] \<and> b = 0"
  by (cases xs) auto

lemma lseg_nonzero: "lseg nx a xs b \<Longrightarrow> x \<in> set xs \<Longrightarrow> x \<noteq> 0"
  by (induction xs arbitrary: a) auto

lemma lseg_nonnull: "lseg nx a xs 0 \<Longrightarrow> a \<noteq> 0 \<Longrightarrow> \<exists>ys. xs = a # ys"
  by (cases xs) auto

lemma lseg_head: "lseg nx a xs 0 \<Longrightarrow> a = (if xs = [] then 0 else hd xs)"
  by (cases xs) auto

lemma lseg_last: "lseg nx a xs b \<Longrightarrow> xs \<noteq> [] \<Longrightarrow> nx (last xs) = b"
  by (induction xs arbitrary: a) auto

text \<open>A list is determined by its head, so it never comes back to an element.\<close>

lemma lseg_unique: "lseg nx a xs 0 \<Longrightarrow> lseg nx a ys 0 \<Longrightarrow> xs = ys"
proof (induction xs arbitrary: a ys)
  case (Cons x xs)
  then obtain zs where "ys = x # zs" "lseg nx (nx x) zs 0" by (cases ys) auto
  then show ?case using Cons.prems Cons.IH [of "nx x" zs] by simp
qed auto

lemma lseg_distinct: "lseg nx a xs 0 \<Longrightarrow> distinct xs"
proof (induction xs arbitrary: a)
  case (Cons x xs)
  have "x \<notin> set xs"
  proof
    assume "x \<in> set xs"
    then obtain ys zs where s: "xs = ys @ x # zs" by (auto simp: in_set_conv_decomp)
    then have "lseg nx (nx x) (ys @ x # zs) 0" "lseg nx (nx x) zs 0" using Cons.prems by auto
    then have "ys @ x # zs = zs" by (rule lseg_unique)
    from arg_cong [OF this, of length] show False by simp
  qed
  then show ?case using Cons by auto
qed simp

lemma lseg_insert:
  assumes "lseg nx a (xs @ c # ys) 0" and "t \<noteq> 0" "t \<notin> set (xs @ c # ys)"
    and "\<And>u. u \<in> set (xs @ ys) \<Longrightarrow> nx' u = nx u" "nx' c = t" "nx' t = nx c"
  shows "lseg nx' a (xs @ c # t # ys) 0"
proof -
  have l: "lseg nx a xs c" "c \<noteq> 0" "lseg nx (nx c) ys 0" using assms(1) by auto
  have "lseg nx' a xs c" using l(1) assms(4) by (subst lseg_cong [of _ _ nx]) auto
  moreover have "lseg nx' (nx c) ys 0" using l(3) assms(4) by (subst lseg_cong [of _ _ nx]) auto
  ultimately show ?thesis using l(2) assms(2,5,6) by simp
qed

definition queue :: "(nat \<Rightarrow> nat) \<Rightarrow> nat \<Rightarrow> nat \<Rightarrow> nat list \<Rightarrow> bool" where
  "queue nx front rear xs \<longleftrightarrow> lseg nx front xs 0 \<and> rear = (if xs = [] then 0 else List.last xs)"

lemma queue_Nil [simp]: "queue nx front rear [] \<longleftrightarrow> front = 0 \<and> rear = 0"
  by (auto simp: queue_def)

lemma queue_cong: "(\<And>x. x \<in> set xs \<Longrightarrow> nx' x = nx x) \<Longrightarrow> queue nx' front rear xs = queue nx front rear xs"
  by (simp add: queue_def cong: lseg_cong)

lemma queue_distinct: "queue nx front rear xs \<Longrightarrow> distinct xs"
  by (auto simp: queue_def dest: lseg_distinct)

lemma queue_rear: "queue nx front rear xs \<Longrightarrow> rear = 0 \<longleftrightarrow> xs = []"
  by (auto simp: queue_def dest: lseg_nonzero [OF _ last_in_set])

lemma queue_front: "queue nx front rear xs \<Longrightarrow> front = 0 \<longleftrightarrow> xs = []"
  by (cases xs) (auto simp: queue_def)

lemma queue_snoc:
  assumes q: "queue nx front rear xs" and t: "t \<noteq> 0" "t \<notin> set xs"
    and nx': "\<And>x. x \<in> set xs \<Longrightarrow> nx' x = (if x = rear then t else nx x)" "nx' t = 0"
  shows "queue nx' (if rear = 0 then t else front) t (xs @ [t])"
proof (cases "xs = []")
  case True
  then show ?thesis using q t nx' by (simp add: queue_def)
next
  case False
  then obtain ys where xs: "xs = ys @ [rear]" using q by (metis append_butlast_last_id queue_def)
  have d: "distinct xs" by (rule queue_distinct [OF q])
  have l: "lseg nx front ys rear" "rear \<noteq> 0" using q xs by (auto simp: queue_def)
  have "lseg nx' front ys rear" using l(1) d xs nx'(1) by (subst lseg_cong [of _ _ nx]) auto
  then show ?thesis using l(2) t nx' xs by (simp add: queue_def)
qed

lemma queue_pop:
  assumes "queue nx front rear (x # xs)" and nx': "\<And>y. y \<in> set xs \<Longrightarrow> nx' y = nx y"
  shows "front = x" "x \<noteq> 0" "queue nx' (nx x) (if nx x = 0 then 0 else rear) xs" "nx x = 0 \<longleftrightarrow> xs = []"
proof -
  have l: "front = x" "x \<noteq> 0" "lseg nx (nx x) xs 0" using assms(1) by (auto simp: queue_def)
  then show "front = x" "x \<noteq> 0" by simp_all
  show e: "nx x = 0 \<longleftrightarrow> xs = []" using l(3) by (cases xs) auto
  have "lseg nx' (nx x) xs 0" using l(3) nx' by (simp cong: lseg_cong)
  then show "queue nx' (nx x) (if nx x = 0 then 0 else rear) xs"
    using assms(1) e by (auto simp: queue_def)
qed

lemma queue_remove:
  assumes q: "queue nx front rear (xs @ p # t # ys)"
    and nx': "\<And>y. y \<in> set (xs @ p # ys) \<Longrightarrow> nx' y = (if y = p then nx t else nx y)"
  shows "queue nx' front (if rear = t then p else rear) (xs @ p # ys)"
proof -
  have d: "distinct (xs @ p # t # ys)" by (rule queue_distinct [OF q])
  have l: "lseg nx front xs p" "p \<noteq> 0" "lseg nx (nx t) ys 0" "rear = List.last (t # ys)"
    using q by (auto simp: queue_def)
  have "lseg nx' front xs p" using l(1) d nx' by (subst lseg_cong [of _ _ nx]) auto
  moreover have "lseg nx' (nx t) ys 0" using l(3) d nx' by (subst lseg_cong [of _ _ nx]) auto
  moreover have "rear = t \<longleftrightarrow> ys = []" using l(4) d by (cases ys rule: rev_cases) auto
  ultimately show ?thesis using l(2,4) nx' by (auto simp: queue_def)
qed

end
