(* ===== verification/SchedProps.thy ===== *)
theory SchedProps
  imports Sched LinkedList
begin

text \<open>
  The scheduler refines four first-in first-out queues and a list of sleepers sorted by the time to
  wake up. The relation between the linked structure and the abstract lists is kept by every
  operation; progress and the bounds on the accounting fields follow from it.
\<close>

subsection \<open>Spin locks\<close>

lemma cas_loop_stuck: "cas_loop old new v = Some w \<Longrightarrow> v = old \<and> w = new"
  by (rule cas_loop.raw_induct [of "\<lambda>old new v w. v = old \<and> w = new"]) (auto split: if_splits)

lemma cas_loop_eq: "cas_loop old new v = (if v = old then Some new else None)"
proof (cases "v = old")
  case True
  then show ?thesis by (subst cas_loop.simps) simp
next
  case False
  then show ?thesis using cas_loop_stuck [of old new v] by (cases "cas_loop old new v") auto
qed

definition held :: "spinlock_t \<Rightarrow> bool \<Rightarrow> spinlock_t" where
  "held l i = l\<lparr>lock_val := 1, lock_interrupts := (if i then 1 else 0)\<rparr>"

lemma spinlock_acquire_free: "lock_val l = 0 \<Longrightarrow> spinlock_acquire (l, i) = Some (held l i, False)"
  by (simp add: spinlock_acquire_def cas_loop_eq held_def)

lemma spinlock_release_held: "spinlock_release (held l i, j) = Some ((held l i)\<lparr>lock_val := 0\<rparr>, i \<or> j)"
  by (simp add: spinlock_release_def cas_loop_eq held_def)

text \<open>A critical section of the scheduler lock: what is done inside, and then the old interrupt flag.\<close>

definition locked :: "sched \<Rightarrow> sched" where
  "locked s = s\<lparr>sched_lock := held (sched_lock s) (interrupts_on s), interrupts_on := False\<rparr>"

definition unlocked :: "sched \<Rightarrow> sched \<Rightarrow> sched" where
  "unlocked s0 s = s\<lparr>sched_lock := (held (sched_lock s0) (interrupts_on s0))\<lparr>lock_val := 0\<rparr>, interrupts_on := interrupts_on s0\<rparr>"

lemma lock_sched_free: "lock_val (sched_lock s) = 0 \<Longrightarrow> lock_sched s = Some (locked s)"
  by (simp add: lock_sched_def spinlock_acquire_free locked_def)

lemma unlock_sched_held:
  "sched_lock s = sched_lock (locked s0) \<Longrightarrow> interrupts_on s = False \<Longrightarrow> unlock_sched s = Some (unlocked s0 s)"
  by (simp add: unlock_sched_def spinlock_release_held locked_def unlocked_def)

subsection \<open>The abstract queues\<close>

definition nx :: "sched \<Rightarrow> nat \<Rightarrow> nat" where
  "nx s t = next_thread (threads s t)"

definition nxs :: "sched \<Rightarrow> nat \<Rightarrow> nat" where
  "nxs s t = next_sleep (threads s t)"

definition ready_ok :: "nat \<Rightarrow> thread_t \<Rightarrow> bool" where
  "ready_ok p th \<longleftrightarrow> priority th = p \<and> tstate th = THREAD_STATE_READY \<and> tid th \<noteq> 0 \<and> unat (burst_ticks_estimate th) \<le> 200"

definition sleeper_ok :: "thread_t \<Rightarrow> bool" where
  "sleeper_ok th \<longleftrightarrow> tstate th \<noteq> THREAD_STATE_READY \<and> tid th \<noteq> 0 \<and> priority th < 4"

definition queues_rel :: "sched \<Rightarrow> (nat \<Rightarrow> nat list) \<Rightarrow> bool" where
  "queues_rel s qs \<longleftrightarrow>
     (\<forall>p < 4. queue (nx s) (ready_queue_heads s p) (ready_queue_tails s p) (qs p) \<and> (\<forall>t \<in> set (qs p). ready_ok p (threads s t)))
     \<and> (\<forall>t. tid (threads s t) \<noteq> 0 \<longrightarrow> unat (curr_time_quantum_ticks_passed (threads s t)) \<le> 200)
     \<and> kernel_idle_task s \<noteq> 0 \<and> tid (threads s (kernel_idle_task s)) = 0"

definition sleep_rel :: "sched \<Rightarrow> nat list \<Rightarrow> bool" where
  "sleep_rel s sl \<longleftrightarrow> lseg (nxs s) (sleep_queue_head s) sl 0 \<and> sorted (map (\<lambda>t. wakeup_time (threads s t)) sl)
     \<and> (\<forall>t \<in> set sl. sleeper_ok (threads s t))"

definition sched_rel :: "sched \<Rightarrow> (nat \<Rightarrow> nat list) \<Rightarrow> nat list \<Rightarrow> bool" where
  "sched_rel s qs sl \<longleftrightarrow> queues_rel s qs \<and> sleep_rel s sl \<and> lock_val (sched_lock s) = 0"

lemma queues_relD:
  assumes "queues_rel s qs"
  shows "p < 4 \<Longrightarrow> queue (nx s) (ready_queue_heads s p) (ready_queue_tails s p) (qs p)"
    "p < 4 \<Longrightarrow> t \<in> set (qs p) \<Longrightarrow> ready_ok p (threads s t)"
    "tid (threads s t) \<noteq> 0 \<Longrightarrow> unat (curr_time_quantum_ticks_passed (threads s t)) \<le> 200"
    "kernel_idle_task s \<noteq> 0" "tid (threads s (kernel_idle_task s)) = 0"
  using assms by (simp_all add: queues_rel_def)

lemma queues_disjoint:
  "queues_rel s qs \<Longrightarrow> p < 4 \<Longrightarrow> q < 4 \<Longrightarrow> t \<in> set (qs p) \<Longrightarrow> t \<in> set (qs q) \<Longrightarrow> p = q"
  using queues_relD(2) [of s qs p t] queues_relD(2) [of s qs q t] by (simp add: ready_ok_def)

lemma sched_upd [simp]:
  "threads (upd_thread t f s) u = (if u = t then f (threads s t) else threads s u)"
  "ready_queue_heads (upd_thread t f s) = ready_queue_heads s" "ready_queue_tails (upd_thread t f s) = ready_queue_tails s"
  "kernel_idle_task (upd_thread t f s) = kernel_idle_task s" "sched_lock (upd_thread t f s) = sched_lock s"
  "g_current_thread (upd_thread t f s) = g_current_thread s" "sleep_queue_head (upd_thread t f s) = sleep_queue_head s"
  "g_time_tick (upd_thread t f s) = g_time_tick s" "interrupts_on (upd_thread t f s) = interrupts_on s"
  by (simp_all add: upd_thread_def)

lemma locked_simps [simp]:
  "threads (locked s) = threads s" "ready_queue_heads (locked s) = ready_queue_heads s"
  "ready_queue_tails (locked s) = ready_queue_tails s" "kernel_idle_task (locked s) = kernel_idle_task s"
  "g_current_thread (locked s) = g_current_thread s" "sleep_queue_head (locked s) = sleep_queue_head s"
  "g_time_tick (locked s) = g_time_tick s" "interrupts_on (locked s) = False"
  "threads (unlocked s0 s) = threads s" "ready_queue_heads (unlocked s0 s) = ready_queue_heads s"
  "ready_queue_tails (unlocked s0 s) = ready_queue_tails s" "kernel_idle_task (unlocked s0 s) = kernel_idle_task s"
  "g_current_thread (unlocked s0 s) = g_current_thread s" "sleep_queue_head (unlocked s0 s) = sleep_queue_head s"
  "g_time_tick (unlocked s0 s) = g_time_tick s" "interrupts_on (unlocked s0 s) = interrupts_on s0"
  "lock_val (sched_lock (unlocked s0 s)) = 0"
  by (simp_all add: locked_def unlocked_def)

text \<open>The relations only look at the threads and the queue pointers.\<close>

lemma rel_cong:
  assumes "threads s' = threads s" and "ready_queue_heads s' = ready_queue_heads s" and "ready_queue_tails s' = ready_queue_tails s"
    and "kernel_idle_task s' = kernel_idle_task s" and "sleep_queue_head s' = sleep_queue_head s"
  shows "queues_rel s' qs = queues_rel s qs" "sleep_rel s' sl = sleep_rel s sl"
  using assms by (simp_all add: queues_rel_def sleep_rel_def nx_def [abs_def] nxs_def [abs_def])

lemma rel_locked [simp]:
  "queues_rel (locked s) qs = queues_rel s qs" "sleep_rel (locked s) sl = sleep_rel s sl"
  "queues_rel (unlocked s0 s) qs = queues_rel s qs" "sleep_rel (unlocked s0 s) sl = sleep_rel s sl"
  by (rule rel_cong; simp)+

subsection \<open>Adding and removing\<close>

definition unqueued :: "(nat \<Rightarrow> nat list) \<Rightarrow> nat \<Rightarrow> bool" where
  "unqueued qs t \<longleftrightarrow> (\<forall>p < 4. t \<notin> set (qs p))"

lemma queues_push:
  assumes rel: "queues_rel s qs" and p: "p < 4" and t: "t \<noteq> 0" "unqueued qs t" "t \<noteq> kernel_idle_task s"
    and th: "ready_ok p (threads s' t)" "nx s' t = 0" "unat (curr_time_quantum_ticks_passed (threads s' t)) \<le> 200"
    and oth: "\<And>u. u \<noteq> t \<Longrightarrow> threads s' u = (if u = ready_queue_tails s p \<and> u \<noteq> 0 then (threads s u)\<lparr>next_thread := t\<rparr> else threads s u)"
    and ptrs: "ready_queue_heads s' = (ready_queue_heads s)(p := (if ready_queue_tails s p = 0 then t else ready_queue_heads s p))"
      "ready_queue_tails s' = (ready_queue_tails s)(p := t)" "kernel_idle_task s' = kernel_idle_task s"
  shows "queues_rel s' (qs(p := qs p @ [t]))"
proof -
  note d = queues_relD [OF rel]
  have fields: "priority (threads s' u) = priority (threads s u)" "tstate (threads s' u) = tstate (threads s u)"
    "tid (threads s' u) = tid (threads s u)" "burst_ticks_estimate (threads s' u) = burst_ticks_estimate (threads s u)"
    "curr_time_quantum_ticks_passed (threads s' u) = curr_time_quantum_ticks_passed (threads s u)" if "u \<noteq> t" for u
    using oth [OF that] by simp_all
  have rk: "ready_ok q (threads s' u) = ready_ok q (threads s u)" if "u \<noteq> t" for q u
    using fields [OF that] by (simp add: ready_ok_def)
  have nt: "u \<noteq> t" if "q < 4" "u \<in> set (qs q)" for q u using t(2) that by (auto simp: unqueued_def)
  have nxu: "nx s' u = (if u = ready_queue_tails s p \<and> u \<noteq> 0 then t else nx s u)" if "u \<noteq> t" for u
    using oth [OF that] by (simp add: nx_def)
  have tail_in: "ready_queue_tails s p \<in> set (qs p)" if "ready_queue_tails s p \<noteq> 0"
    using d(1) [OF p] that by (auto simp: queue_def split: if_splits)
  have q: "queue (nx s') (ready_queue_heads s' q) (ready_queue_tails s' q) ((qs(p := qs p @ [t])) q)" if q: "q < 4" for q
  proof (cases "q = p")
    case True
    have nz: "u \<noteq> 0" if "u \<in> set (qs p)" for u
      using d(1) [OF p] that by (auto simp: queue_def dest: lseg_nonzero)
    have "queue (nx s') (if ready_queue_tails s p = 0 then t else ready_queue_heads s p) t (qs p @ [t])"
    proof (rule queue_snoc [OF d(1) [OF p]])
      show "t \<noteq> 0" "t \<notin> set (qs p)" "nx s' t = 0" using t th(2) p by (auto simp: unqueued_def)
      show "nx s' u = (if u = ready_queue_tails s p then t else nx s u)" if "u \<in> set (qs p)" for u
        using nxu [OF nt [OF p that]] nz [OF that] by simp
    qed
    then show ?thesis using True ptrs by simp
  next
    case False
    have "nx s' u = nx s u" if "u \<in> set (qs q)" for u
      using nxu [OF nt [OF q that]] tail_in queues_disjoint [OF rel p q _ that] False by auto
    then show ?thesis using d(1) [OF q] False ptrs by (simp add: queue_cong [of "qs q" "nx s'" "nx s"])
  qed
  have "ready_ok q (threads s' u)" if "q < 4" "u \<in> set ((qs(p := qs p @ [t])) q)" for q u
    using that th(1) d(2) [OF that(1)] rk nt [OF that(1), of t] by (cases "u = t"; cases "q = p") auto
  moreover have "unat (curr_time_quantum_ticks_passed (threads s' u)) \<le> 200" if "tid (threads s' u) \<noteq> 0" for u
    using that d(3) fields th(3) by (cases "u = t") simp_all
  ultimately show ?thesis
    using q d(4,5) fields(3) t(3) ptrs(3) by (simp add: queues_rel_def)
qed

lemma queues_take:
  assumes rel: "queues_rel s qs" and p: "p < 4" and x: "qs p = x # xs"
    and th: "tid (threads s' x) = tid (threads s x)" "unat (curr_time_quantum_ticks_passed (threads s' x)) \<le> 200"
    and oth: "\<And>u. u \<noteq> x \<Longrightarrow> threads s' u = threads s u"
    and ptrs: "ready_queue_heads s' = (ready_queue_heads s)(p := nx s x)"
      "ready_queue_tails s' = (ready_queue_tails s)(p := (if nx s x = 0 then 0 else ready_queue_tails s p))"
      "kernel_idle_task s' = kernel_idle_task s"
  shows "queues_rel s' (qs(p := xs))" "unqueued (qs(p := xs)) x" "x \<noteq> 0" "x \<noteq> kernel_idle_task s" "ready_queue_heads s p = x"
proof -
  note d = queues_relD [OF rel]
  have qp: "queue (nx s) (ready_queue_heads s p) (ready_queue_tails s p) (x # xs)" using d(1) [OF p] x by simp
  have dist: "distinct (x # xs)" by (rule queue_distinct [OF qp])
  have rx: "ready_ok p (threads s x)" using d(2) [OF p] x by simp
  show "x \<noteq> 0" "ready_queue_heads s p = x" using queue_pop(1,2) [OF qp refl] by auto
  show "x \<noteq> kernel_idle_task s" using rx d(5) by (auto simp: ready_ok_def)
  have un: "x \<notin> set (qs q)" if "q < 4" "q \<noteq> p" for q
    using queues_disjoint [OF rel p that(1), of x] that(2) x by auto
  then show "unqueued (qs(p := xs)) x" using dist by (simp add: unqueued_def)
  have nxu: "nx s' u = nx s u" if "u \<noteq> x" for u using oth [OF that] by (simp add: nx_def)
  have q: "queue (nx s') (ready_queue_heads s' q) (ready_queue_tails s' q) ((qs(p := xs)) q)" if q: "q < 4" for q
  proof (cases "q = p")
    case True
    have "nx s' u = nx s u" if "u \<in> set xs" for u using that dist by (intro nxu) auto
    from queue_pop(3) [OF qp this] show ?thesis using True ptrs by simp
  next
    case False
    have "nx s' u = nx s u" if "u \<in> set (qs q)" for u using that un [OF q False] by (intro nxu) auto
    then show ?thesis using d(1) [OF q] False ptrs by (simp add: queue_cong [of "qs q" "nx s'" "nx s"])
  qed
  have "ready_ok q (threads s' u)" if "q < 4" "u \<in> set ((qs(p := xs)) q)" for q u
  proof -
    have "u \<noteq> x" "u \<in> set (qs q)" using that dist un x by (auto split: if_splits)
    then show ?thesis using d(2) [OF that(1)] oth by simp
  qed
  moreover have "unat (curr_time_quantum_ticks_passed (threads s' u)) \<le> 200" if "tid (threads s' u) \<noteq> 0" for u
    using that d(3) oth th by (cases "u = x") simp_all
  moreover have "tid (threads s' (kernel_idle_task s)) = 0" using d(5) oth \<open>x \<noteq> kernel_idle_task s\<close> by simp
  ultimately show "queues_rel s' (qs(p := xs))" using q d(4) ptrs(3) by (simp add: queues_rel_def)
qed

lemma sleep_frame:
  assumes "sleep_rel s sl" and "sleep_queue_head s' = sleep_queue_head s"
    and "\<And>t. t \<in> set sl \<Longrightarrow> next_sleep (threads s' t) = next_sleep (threads s t) \<and> wakeup_time (threads s' t) = wakeup_time (threads s t)
      \<and> tstate (threads s' t) = tstate (threads s t) \<and> tid (threads s' t) = tid (threads s t) \<and> priority (threads s' t) = priority (threads s t)"
  shows "sleep_rel s' sl"
proof -
  have "lseg (nxs s') (sleep_queue_head s') sl 0"
    using assms by (subst lseg_cong [of _ _ "nxs s"]) (simp_all add: nxs_def sleep_rel_def)
  moreover have eq: "map (\<lambda>t. wakeup_time (threads s' t)) sl = map (\<lambda>t. wakeup_time (threads s t)) sl"
    using assms(3) by simp
  have "sorted (map (\<lambda>t. wakeup_time (threads s' t)) sl)"
    unfolding eq using assms(1) by (simp add: sleep_rel_def)
  ultimately show ?thesis using assms(1,3) by (simp add: sleep_rel_def sleeper_ok_def)
qed

subsection \<open>The operations\<close>

lemma quantum: "p < 4 \<Longrightarrow> 40 \<le> time_quantums ! p \<and> time_quantums ! p \<le> 200 \<and> unat (of_nat (time_quantums ! p) :: u32) = time_quantums ! p"
proof -
  assume "p < 4"
  then consider "p = 0" | "p = 1" | "p = 2" | "p = 3" by linarith
  then show ?thesis by cases (simp_all add: time_quantums_def)
qed

definition waiting :: "thread_t \<Rightarrow> bool" where
  "waiting th \<longleftrightarrow> tid th \<noteq> 0 \<and> priority th < 4"

text \<open>What an operation leaves alone: everything but the queues and the scheduler's fields of the threads.\<close>

definition same_outside :: "nat set \<Rightarrow> sched \<Rightarrow> sched \<Rightarrow> bool" where
  "same_outside X s s' \<longleftrightarrow> g_current_thread s' = g_current_thread s \<and> g_time_tick s' = g_time_tick s
     \<and> kernel_idle_task s' = kernel_idle_task s \<and> interrupts_on s' = interrupts_on s \<and> sleep_queue_head s' = sleep_queue_head s
     \<and> (\<forall>t. t \<notin> X \<longrightarrow> (threads s' t)\<lparr>next_thread := 0\<rparr> = (threads s t)\<lparr>next_thread := 0\<rparr>)
     \<and> (\<forall>t. tid (threads s' t) = tid (threads s t) \<and> next_sleep (threads s' t) = next_sleep (threads s t)
          \<and> wakeup_time (threads s' t) = wakeup_time (threads s t))"

lemma enqueue_rel:
  assumes rel: "sched_rel s qs sl" and t: "t \<noteq> 0" "waiting (threads s t)" "unqueued qs t" "t \<notin> set sl"
  defines "p \<equiv> priority (threads s t)"
  shows "\<exists>s'. sched_enqueue t s = Some s' \<and> sched_rel s' (qs(p := qs p @ [t])) sl \<and> same_outside {t} s s'
    \<and> last_enqueue_tick (threads s' t) = g_time_tick s \<and> curr_time_quantum (threads s' t) = of_nat (time_quantums ! p)
    \<and> priority (threads s' t) = p"
proof -
  have w: "tid (threads s t) \<noteq> 0" "p < 4" using t(2) by (simp_all add: waiting_def p_def)
  have q: "queues_rel s qs" "sleep_rel s sl" "lock_val (sched_lock s) = 0" using rel by (simp_all add: sched_rel_def)
  note d = queues_relD [OF q(1)]
  define r where "r = ready_queue_tails s p"
  define s1 where "s1 = upd_thread t (\<lambda>th. th\<lparr>tstate := THREAD_STATE_READY, next_thread := 0\<rparr>) (locked s)"
  define s2 where "s2 = (if r = 0 then s1\<lparr>ready_queue_heads := (ready_queue_heads s)(p := t)\<rparr>
                         else upd_thread r (\<lambda>th. th\<lparr>next_thread := t\<rparr>) s1)"
  define s3 where "s3 = upd_thread t (\<lambda>th. th\<lparr>curr_time_quantum := of_nat (time_quantums ! p),
      burst_ticks_estimate := of_nat (time_quantums ! p), last_enqueue_tick := g_time_tick s\<rparr>)
      (s2\<lparr>ready_queue_tails := (ready_queue_tails s)(p := t)\<rparr>)"
  have rt: "r \<noteq> t" using d(1) [OF w(2)] t(1,3) w(2)
    by (auto simp: r_def queue_def unqueued_def split: if_splits dest: last_in_set)
  have f: "threads s3 t = (threads s t)\<lparr>tstate := THREAD_STATE_READY, next_thread := 0, curr_time_quantum := of_nat (time_quantums ! p),
      burst_ticks_estimate := of_nat (time_quantums ! p), last_enqueue_tick := g_time_tick s\<rparr>"
    "\<And>u. u \<noteq> t \<Longrightarrow> threads s3 u = (if u = r \<and> u \<noteq> 0 then (threads s u)\<lparr>next_thread := t\<rparr> else threads s u)"
    "ready_queue_heads s3 = (ready_queue_heads s)(p := (if r = 0 then t else ready_queue_heads s p))"
    "ready_queue_tails s3 = (ready_queue_tails s)(p := t)" "kernel_idle_task s3 = kernel_idle_task s"
    "g_current_thread s3 = g_current_thread s" "g_time_tick s3 = g_time_tick s" "sleep_queue_head s3 = sleep_queue_head s"
    "sched_lock s3 = sched_lock (locked s)" "interrupts_on s3 = False"
    using rt by (auto simp: s3_def s2_def s1_def fun_eq_iff)
  have "sched_enqueue t s = unlock_sched s3"
    using t(1) w
    by (simp add: sched_enqueue_def lock_sched_free [OF q(3)] Let_def p_def [symmetric] THREAD_NUM_PRIORITIES_def
        s3_def s2_def s1_def r_def timer_tick_get_def)
  then have run: "sched_enqueue t s = Some (unlocked s s3)" using unlock_sched_held [OF f(9,10)] by simp
  have "t \<noteq> kernel_idle_task s" using d(5) w(1) by auto
  then have q3: "queues_rel s3 (qs(p := qs p @ [t]))"
    using f quantum [OF w(2)] d(3) [OF w(1)] w t(1,3)
    by (intro queues_push [OF q(1) w(2)]) (auto simp: ready_ok_def nx_def p_def r_def)
  have "sleep_rel s3 sl"
  proof (rule sleep_frame [OF q(2) f(8)])
    fix u assume "u \<in> set sl"
    then have "u \<noteq> t" using t(4) by auto
    from f(2) [OF this] show "next_sleep (threads s3 u) = next_sleep (threads s u) \<and> wakeup_time (threads s3 u) = wakeup_time (threads s u)
      \<and> tstate (threads s3 u) = tstate (threads s u) \<and> tid (threads s3 u) = tid (threads s u) \<and> priority (threads s3 u) = priority (threads s u)"
      by simp
  qed
  then have "sched_rel (unlocked s s3) (qs(p := qs p @ [t])) sl" using q3 by (simp add: sched_rel_def)
  moreover have "tid (threads s3 u) = tid (threads s u) \<and> next_sleep (threads s3 u) = next_sleep (threads s u)
      \<and> wakeup_time (threads s3 u) = wakeup_time (threads s u)" for u
    using f(1) f(2) [of u] by (cases "u = t") simp_all
  then have "same_outside {t} s (unlocked s s3)" using f(2,5-8) by (simp add: same_outside_def)
  ultimately show ?thesis using run f(1) by (simp add: p_def)
qed

text \<open>Picking: the first thread of the first non-empty queue, or the idle task.\<close>

definition first_queue :: "(nat \<Rightarrow> nat list) \<Rightarrow> nat option" where
  "first_queue qs = List.find (\<lambda>p. qs p \<noteq> []) [0..<4]"

lemma find_cong_upt: "(\<And>p. p < n \<Longrightarrow> P p = Q p) \<Longrightarrow> List.find P [0..<n] = List.find Q [0..<n]"
  by (rule find_cong) auto

lemma first_queue_heads:
  "queues_rel s qs \<Longrightarrow> List.find (\<lambda>p. ready_queue_heads s p \<noteq> 0) [0..<THREAD_NUM_PRIORITIES] = first_queue qs"
  unfolding first_queue_def THREAD_NUM_PRIORITIES_def
  by (rule find_cong_upt) (simp add: queue_front [OF queues_relD(1)])

lemma prepare_rel:
  assumes "unat (curr_time_quantum_ticks_passed (threads s t)) \<le> 200" and "unat (burst_ticks_estimate (threads s t)) \<le> 200"
  shows "\<exists>p < 4. \<exists>b. sched_prepare_for_cpu_burst t s = Some (upd_thread t (\<lambda>th. th\<lparr>priority := p, burst_ticks_estimate := b,
    curr_time_quantum := of_nat (time_quantums ! p), curr_time_quantum_ticks_passed := 0\<rparr>) s)"
proof -
  let ?e = "(unat (curr_time_quantum_ticks_passed (threads s t)) + unat (burst_ticks_estimate (threads s t))) div 2"
  let ?p = "case List.find (\<lambda>i. ?e \<le> time_quantums ! i) [0..<THREAD_NUM_PRIORITIES] of Some i \<Rightarrow> i | None \<Rightarrow> THREAD_PRIORITY_LOW"
  have "?e < 2 ^ 31" using assms by simp
  moreover have "?p < 4"
    by (auto simp: THREAD_NUM_PRIORITIES_def THREAD_PRIORITY_LOW_def find_upt_Some split: option.splits)
  ultimately show ?thesis
    by (intro exI [of _ ?p] conjI exI [of _ "of_nat ?e"]) (simp_all add: sched_prepare_for_cpu_burst_def Let_def)
qed

lemma pick_idle:
  assumes rel: "sched_rel s qs sl" and e: "first_queue qs = None"
  shows "sched_pick_next s = Some (kernel_idle_task s, unlocked s (locked s))"
proof -
  have q: "queues_rel s qs" "lock_val (sched_lock s) = 0" using rel by (simp_all add: sched_rel_def)
  then have "List.find (\<lambda>p. ready_queue_heads s p \<noteq> 0) [0..<THREAD_NUM_PRIORITIES] = None"
    using first_queue_heads e by simp
  then show ?thesis
    using unlock_sched_held [of "locked s" s] by (simp add: sched_pick_next_def lock_sched_free [OF q(2)])
qed

lemma pick_first:
  assumes rel: "sched_rel s qs sl" and e: "first_queue qs = Some p" "qs p = t # ts"
  shows "\<exists>s'. sched_pick_next s = Some (t, s') \<and> sched_rel s' (qs(p := ts)) sl \<and> same_outside {t} s s'
    \<and> unqueued (qs(p := ts)) t \<and> t \<noteq> 0 \<and> tid (threads s t) \<noteq> 0 \<and> waiting (threads s' t)
    \<and> curr_time_quantum_ticks_passed (threads s' t) = 0 \<and> 40 \<le> unat (curr_time_quantum (threads s' t))
    \<and> unat (curr_time_quantum (threads s' t)) \<le> 200 \<and> t \<notin> set sl"
proof -
  have p: "p < 4" using e(1) by (auto simp: first_queue_def find_upt_Some)
  have q: "queues_rel s qs" "sleep_rel s sl" "lock_val (sched_lock s) = 0" using rel by (simp_all add: sched_rel_def)
  note d = queues_relD [OF q(1)]
  have rt: "ready_ok p (threads s t)" using d(2) [OF p] e(2) by simp
  then have tid: "tid (threads s t) \<noteq> 0" by (simp add: ready_ok_def)
  define s1 where "s1 = locked s\<lparr>ready_queue_heads := (ready_queue_heads s)(p := nx s t)\<rparr>"
  define s2 where "s2 = upd_thread t (\<lambda>th. th\<lparr>next_thread := 0\<rparr>)
      (if nx s t = 0 then s1\<lparr>ready_queue_tails := (ready_queue_tails s)(p := 0)\<rparr> else s1)"
  have f2: "threads s2 t = (threads s t)\<lparr>next_thread := 0\<rparr>" "sched_lock s2 = sched_lock (locked s)" "interrupts_on s2 = False"
    by (simp_all add: s2_def s1_def)
  obtain p' b where pr: "p' < 4" "sched_prepare_for_cpu_burst t s2 = Some (upd_thread t (\<lambda>th. th\<lparr>priority := p', burst_ticks_estimate := b,
    curr_time_quantum := of_nat (time_quantums ! p'), curr_time_quantum_ticks_passed := 0\<rparr>) s2)"
    using prepare_rel [of s2 t] rt d(3) [OF tid] f2(1) by (auto simp: ready_ok_def)
  define s3 where "s3 = upd_thread t (\<lambda>th. th\<lparr>priority := p', burst_ticks_estimate := b,
    curr_time_quantum := of_nat (time_quantums ! p'), curr_time_quantum_ticks_passed := 0\<rparr>) s2"
  have f: "threads s3 t = (threads s t)\<lparr>next_thread := 0, priority := p', burst_ticks_estimate := b,
      curr_time_quantum := of_nat (time_quantums ! p'), curr_time_quantum_ticks_passed := 0\<rparr>"
    "\<And>u. u \<noteq> t \<Longrightarrow> threads s3 u = threads s u"
    "ready_queue_heads s3 = (ready_queue_heads s)(p := nx s t)"
    "ready_queue_tails s3 = (ready_queue_tails s)(p := (if nx s t = 0 then 0 else ready_queue_tails s p))"
    "kernel_idle_task s3 = kernel_idle_task s" "g_current_thread s3 = g_current_thread s" "g_time_tick s3 = g_time_tick s"
    "sleep_queue_head s3 = sleep_queue_head s" "sched_lock s3 = sched_lock (locked s)" "interrupts_on s3 = False"
    by (simp_all add: s3_def s2_def s1_def)
  note tk = queues_take [OF q(1) p e(2) _ _ f(2-5)]
  have q3: "queues_rel s3 (qs(p := ts))" "unqueued (qs(p := ts)) t" "t \<noteq> 0" "ready_queue_heads s p = t"
    by (rule tk; simp add: f(1))+
  have fnd: "List.find (\<lambda>p. ready_queue_heads s p \<noteq> 0) [0..<THREAD_NUM_PRIORITIES] = Some p"
    using first_queue_heads [OF q(1)] e(1) by simp
  have "sched_pick_next s = do { s \<leftarrow> sched_prepare_for_cpu_burst t s2; s \<leftarrow> unlock_sched s; Some (t, s) }"
    using q3(4) by (simp add: sched_pick_next_def lock_sched_free [OF q(3)] fnd [simplified] Let_def s2_def s1_def nx_def)
  then have run: "sched_pick_next s = Some (t, unlocked s s3)"
    using pr(2) unlock_sched_held [OF f(9,10)] by (simp add: s3_def)
  have nsl: "t \<notin> set sl" using q(2) rt by (auto simp: sleep_rel_def sleeper_ok_def ready_ok_def)
  have "sleep_rel s3 sl"
    by (rule sleep_frame [OF q(2) f(8)]) (use f(2) nsl in metis)
  then have "sched_rel (unlocked s s3) (qs(p := ts)) sl" using q3(1) by (simp add: sched_rel_def)
  moreover have "tid (threads s3 u) = tid (threads s u) \<and> next_sleep (threads s3 u) = next_sleep (threads s u)
      \<and> wakeup_time (threads s3 u) = wakeup_time (threads s u)" for u
    using f(1) f(2) [of u] by (cases "u = t") simp_all
  then have "same_outside {t} s (unlocked s s3)" using f(2,5-8) by (simp add: same_outside_def)
  ultimately show ?thesis
    using run q3 tid nsl pr(1) quantum [OF pr(1)] by (simp add: f(1) waiting_def)
qed

text \<open>Removing: a queue may lose elements as long as the links of the others are untouched.\<close>

lemma queues_replace:
  assumes rel: "queues_rel s qs" and p: "p < 4" and new: "queue (nx s') (ready_queue_heads s' p) (ready_queue_tails s' p) xs"
    and xs: "set xs \<subseteq> set (qs p) - {t}" and t: "\<And>q. q < 4 \<Longrightarrow> q \<noteq> p \<Longrightarrow> t \<notin> set (qs q)"
      "tid (threads s' t) = tid (threads s t)" "curr_time_quantum_ticks_passed (threads s' t) = curr_time_quantum_ticks_passed (threads s t)"
    and oth: "\<And>u. u \<noteq> t \<Longrightarrow> (threads s' u)\<lparr>next_thread := 0\<rparr> = (threads s u)\<lparr>next_thread := 0\<rparr>"
      "\<And>u. u \<noteq> t \<Longrightarrow> u \<notin> set (qs p) \<Longrightarrow> threads s' u = threads s u"
    and ptrs: "\<And>q. q \<noteq> p \<Longrightarrow> ready_queue_heads s' q = ready_queue_heads s q"
      "\<And>q. q \<noteq> p \<Longrightarrow> ready_queue_tails s' q = ready_queue_tails s q" "kernel_idle_task s' = kernel_idle_task s"
  shows "queues_rel s' (qs(p := xs))"
proof -
  note d = queues_relD [OF rel]
  have fields: "priority (threads s' u) = priority (threads s u)" "tstate (threads s' u) = tstate (threads s u)"
    "burst_ticks_estimate (threads s' u) = burst_ticks_estimate (threads s u)" if "u \<noteq> t" for u
    using arg_cong [OF oth(1) [OF that], of priority] arg_cong [OF oth(1) [OF that], of tstate]
      arg_cong [OF oth(1) [OF that], of burst_ticks_estimate] by simp_all
  have same: "tid (threads s' u) = tid (threads s u)" 
    "curr_time_quantum_ticks_passed (threads s' u) = curr_time_quantum_ticks_passed (threads s u)" for u
    using arg_cong [OF oth(1) [of u], of tid] arg_cong [OF oth(1) [of u], of curr_time_quantum_ticks_passed] t(2,3)
    by (cases "u = t"; simp)+
  have q: "queue (nx s') (ready_queue_heads s' q) (ready_queue_tails s' q) ((qs(p := xs)) q)" if q: "q < 4" for q
  proof (cases "q = p")
    case True
    then show ?thesis using new by simp
  next
    case False
    have "nx s' u = nx s u" if u: "u \<in> set (qs q)" for u
    proof -
      have "u \<noteq> t" "u \<notin> set (qs p)" using t(1) [OF q False] queues_disjoint [OF rel p q _ u] False u by auto
      then show ?thesis using oth(2) by (simp add: nx_def)
    qed
    then show ?thesis using d(1) [OF q] False ptrs by (simp add: queue_cong [of "qs q" "nx s'" "nx s"])
  qed
  have "ready_ok q (threads s' u)" if "q < 4" "u \<in> set ((qs(p := xs)) q)" for q u
  proof -
    have "u \<noteq> t" "u \<in> set (qs q)" using that xs t(1) by (auto split: if_splits)
    then show ?thesis using d(2) [OF that(1)] fields same by (simp add: ready_ok_def)
  qed
  then show ?thesis using q d(3-5) same ptrs(3) by (simp add: queues_rel_def)
qed

lemma find_prev_absent:
  "lseg (\<lambda>u. next_thread (h u)) a xs 0 \<Longrightarrow> t \<notin> set xs \<Longrightarrow> t \<noteq> 0 \<Longrightarrow> find_prev h t a = Some 0"
proof (induction xs arbitrary: a)
  case Nil
  then show ?case by (subst find_prev.simps) simp
next
  case (Cons x xs)
  then have "next_thread (h x) \<noteq> t" using lseg_head [of "\<lambda>u. next_thread (h u)" "next_thread (h x)" xs] by (cases xs) auto
  then show ?case using Cons by (subst find_prev.simps) simp
qed

lemma find_prev_present:
  "lseg (\<lambda>u. next_thread (h u)) a (xs @ p # t # ys) 0 \<Longrightarrow> t \<notin> set xs \<Longrightarrow> find_prev h t a = Some p"
proof (induction xs arbitrary: a)
  case Nil
  then show ?case by (subst find_prev.simps) auto
next
  case (Cons x xs)
  have d: "distinct ((x # xs) @ p # t # ys)" by (rule lseg_distinct [OF Cons.prems(1)])
  have "next_thread (h x) \<noteq> t" using Cons.prems d by (cases xs) auto
  then show ?case using Cons by (subst find_prev.simps) auto
qed

lemma split_pred:
  assumes "t \<in> set xs" and "hd xs \<noteq> t"
  obtains ys p zs where "xs = ys @ p # t # zs"
proof -
  obtain us zs where s: "xs = us @ t # zs" "t \<notin> set us" using split_list_first [OF assms(1)] by blast
  then have "us \<noteq> []" using assms(2) by auto
  then have "xs = butlast us @ List.last us # t # zs" using s(1) by simp
  then show ?thesis by (rule that)
qed

text \<open>The state before the dequeued thread is marked dead: \<open>t\<close> is unlinked from queue \<open>p\<close>.\<close>

definition unlinked :: "nat \<Rightarrow> nat \<Rightarrow> nat list \<Rightarrow> sched \<Rightarrow> sched \<Rightarrow> bool" where
  "unlinked t p xs s s2 \<longleftrightarrow>
     (\<forall>u. u \<noteq> t \<longrightarrow> (threads s2 u)\<lparr>next_thread := 0\<rparr> = (threads s u)\<lparr>next_thread := 0\<rparr>)
     \<and> (\<forall>u. u \<noteq> t \<longrightarrow> u \<notin> set xs \<longrightarrow> threads s2 u = threads s u)
     \<and> threads s2 t = threads s t \<and> (\<forall>r. r \<noteq> p \<longrightarrow> ready_queue_heads s2 r = ready_queue_heads s r)
     \<and> (\<forall>r. r \<noteq> p \<longrightarrow> ready_queue_tails s2 r = ready_queue_tails s r)
     \<and> kernel_idle_task s2 = kernel_idle_task s \<and> g_current_thread s2 = g_current_thread s \<and> g_time_tick s2 = g_time_tick s
     \<and> sleep_queue_head s2 = sleep_queue_head s \<and> sched_lock s2 = sched_lock (locked s) \<and> interrupts_on s2 = False
     \<and> queue (nx s2) (ready_queue_heads s2 p) (ready_queue_tails s2 p) (remove1 t xs)"

lemma dequeue_unlinks:
  assumes t: "t \<noteq> 0" "tid (threads s t) \<noteq> 0" "p < 4" "p = priority (threads s t)" and lk: "lock_val (sched_lock s) = 0"
    and Q: "queue (nx s) (ready_queue_heads s p) (ready_queue_tails s p) xs"
  shows "\<exists>s2. sched_dequeue t s = unlock_sched (upd_thread t (\<lambda>th. th\<lparr>next_thread := 0, tstate := THREAD_STATE_DEAD\<rparr>) s2) \<and> unlinked t p xs s s2"
proof -
  let ?kill = "upd_thread t (\<lambda>th. th\<lparr>next_thread := 0, tstate := THREAD_STATE_DEAD\<rparr>)"
  note run = sched_dequeue_def lock_sched_free [OF lk] Let_def t(4) [symmetric] THREAD_NUM_PRIORITIES_def
  have L: "lseg (\<lambda>u. next_thread (threads s u)) (ready_queue_heads s p) xs 0" using Q by (simp add: queue_def nx_def [abs_def])
  have dist: "distinct xs" by (rule queue_distinct [OF Q])
  consider "ready_queue_heads s p = t" | "ready_queue_heads s p \<noteq> t" "t \<notin> set xs" | "ready_queue_heads s p \<noteq> t" "t \<in> set xs" by blast
  then show ?thesis
  proof cases
    case 1
    then obtain ts where qp: "xs = t # ts" using L t(1) lseg_nonnull by metis
    let ?s1 = "locked s\<lparr>ready_queue_heads := (ready_queue_heads s)(p := next_thread (threads s t))\<rparr>"
    let ?s2 = "if ready_queue_tails s p = t then ?s1\<lparr>ready_queue_tails := (ready_queue_tails s)(p := 0)\<rparr> else ?s1"
    have "ts \<noteq> [] \<Longrightarrow> List.last ts \<noteq> t" using dist qp last_in_set by fastforce
    then have tl: "ready_queue_tails s p = t \<longleftrightarrow> nx s t = 0"
      using Q qp queue_pop(4) [OF Q [unfolded qp] refl] by (cases "ts = []") (auto simp: queue_def)
    have "nx ?s2 = nx s" "ready_queue_heads ?s2 p = nx s t" "ready_queue_tails ?s2 p = (if nx s t = 0 then 0 else ready_queue_tails s p)"
      using tl by (simp_all add: nx_def [abs_def])
    then have "queue (nx ?s2) (ready_queue_heads ?s2 p) (ready_queue_tails ?s2 p) ts"
      using queue_pop(3) [OF Q [unfolded qp] refl] by simp
    moreover have "remove1 t xs = ts" using qp by simp
    moreover have "sched_dequeue t s = unlock_sched (?kill ?s2)"
      using 1 t(1-3) by (simp add: run)
    ultimately show ?thesis unfolding unlinked_def by (intro exI [of _ ?s2] conjI) simp_all
  next
    case 2
    have "sched_dequeue t s = unlock_sched (?kill (locked s))"
      using 2 t(1-3) find_prev_absent [OF L 2(2) t(1)] by (simp add: run)
    moreover have "nx (locked s) = nx s" by (simp add: nx_def [abs_def])
    moreover have "remove1 t xs = xs" using 2 by (simp add: remove1_idem)
    ultimately show ?thesis using Q unfolding unlinked_def by (intro exI [of _ "locked s"] conjI) simp_all
  next
    case 3
    have "hd xs \<noteq> t" using lseg_head [OF L] 3 by (cases xs) auto
    then obtain ys c zs where qp: "xs = ys @ c # t # zs" by (rule split_pred [OF 3(2)])
    let ?s1 = "upd_thread c (\<lambda>th. th\<lparr>next_thread := next_thread (threads s t)\<rparr>) (locked s)"
    define s2 where "s2 = (if ready_queue_tails s p = t then ?s1\<lparr>ready_queue_tails := (ready_queue_tails s)(p := c)\<rparr> else ?s1)"
    have c: "c \<noteq> t" "t \<notin> set ys" "c \<noteq> 0" "c \<in> set xs" using dist qp lseg_nonzero [OF L] by auto
    have fp: "find_prev (threads s) t (ready_queue_heads s p) = Some c"
      by (rule find_prev_present [OF L [unfolded qp] c(2)])
    have rm: "remove1 t xs = ys @ c # zs" using qp c by (simp add: remove1_append)
    have f: "threads s2 u = (if u = c then (threads s u)\<lparr>next_thread := nx s t\<rparr> else threads s u)"
      "ready_queue_heads s2 = ready_queue_heads s"
      "ready_queue_tails s2 = (ready_queue_tails s)(p := (if ready_queue_tails s p = t then c else ready_queue_tails s p))"
      "kernel_idle_task s2 = kernel_idle_task s" "g_current_thread s2 = g_current_thread s" "g_time_tick s2 = g_time_tick s"
      "sleep_queue_head s2 = sleep_queue_head s" "sched_lock s2 = sched_lock (locked s)" "interrupts_on s2 = False" for u
      by (simp_all add: s2_def nx_def)
    have nq: "nx s2 u = (if u = c then nx s t else nx s u)" for u using f(1) [of u] by (simp add: nx_def)
    have "queue (nx s2) (ready_queue_heads s p) (if ready_queue_tails s p = t then c else ready_queue_tails s p) (ys @ c # zs)"
      using nq by (intro queue_remove [OF Q [unfolded qp]]) blast
    then have "unlinked t p xs s s2" unfolding unlinked_def rm f(2-9) using c(1,4)
      by (auto simp only: f(1) fun_upd_apply split: if_splits) simp_all
    moreover have "sched_dequeue t s = unlock_sched (?kill s2)"
      using 3 t(1-3) c fp by (simp add: run s2_def)
    ultimately show ?thesis by blast
  qed
qed

lemma dequeue_rel:
  assumes rel: "sched_rel s qs sl" and t: "t \<noteq> 0" "waiting (threads s t)" "t \<notin> set sl"
  defines "p \<equiv> priority (threads s t)"
  shows "\<exists>s'. sched_dequeue t s = Some s' \<and> sched_rel s' (qs(p := remove1 t (qs p))) sl \<and> same_outside {t} s s'
    \<and> tstate (threads s' t) = THREAD_STATE_DEAD \<and> unqueued (qs(p := remove1 t (qs p))) t"
proof -
  have w: "tid (threads s t) \<noteq> 0" "p < 4" using t(2) by (simp_all add: waiting_def p_def)
  have q: "queues_rel s qs" "sleep_rel s sl" "lock_val (sched_lock s) = 0" using rel by (simp_all add: sched_rel_def)
  note d = queues_relD [OF q(1)]
  have Q: "queue (nx s) (ready_queue_heads s p) (ready_queue_tails s p) (qs p)" by (rule d(1) [OF w(2)])
  have L: "lseg (\<lambda>u. next_thread (threads s u)) (ready_queue_heads s p) (qs p) 0" using Q by (simp add: queue_def nx_def [abs_def])
  have dist: "distinct (qs p)" by (rule queue_distinct [OF Q])
  have un: "t \<notin> set (qs r)" if "r < 4" "r \<noteq> p" for r
    using d(2) [OF that(1), of t] that(2) by (auto simp: ready_ok_def p_def)
  let ?kill = "upd_thread t (\<lambda>th. th\<lparr>next_thread := 0, tstate := THREAD_STATE_DEAD\<rparr>)"
  obtain s2 where dq: "sched_dequeue t s = unlock_sched (?kill s2)" and s2': "unlinked t p (qs p) s s2"
    using dequeue_unlinks [OF t(1) w _ q(3) Q] by (auto simp: p_def)
  note s2 = s2' [unfolded unlinked_def]
  let ?s3 = "?kill s2"
  have run: "sched_dequeue t s = Some (unlocked s ?s3)" using dq s2 unlock_sched_held [of ?s3 s] by simp
  have nr: "t \<notin> set (remove1 t (qs p))" using dist by (simp add: set_remove1_eq)
  have "queue (nx ?s3) (ready_queue_heads ?s3 p) (ready_queue_tails ?s3 p) (remove1 t (qs p))"
    using s2 nr by (subst queue_cong [of _ _ "nx s2"]) (auto simp: nx_def)
  then have q3: "queues_rel ?s3 (qs(p := remove1 t (qs p)))"
    using s2 un dist by (intro queues_replace [OF q(1) w(2), of _ _ t]) (simp_all add: set_remove1_eq)
  have "next_sleep (threads ?s3 u) = next_sleep (threads s u) \<and> wakeup_time (threads ?s3 u) = wakeup_time (threads s u)
      \<and> tid (threads ?s3 u) = tid (threads s u) \<and> (u \<noteq> t \<longrightarrow> tstate (threads ?s3 u) = tstate (threads s u) \<and> priority (threads ?s3 u) = priority (threads s u))" for u
  proof (cases "u = t")
    case True
    then show ?thesis using s2 by simp
  next
    case False
    then have "(threads s2 u)\<lparr>next_thread := 0\<rparr> = (threads s u)\<lparr>next_thread := 0\<rparr>" using s2 by blast
    then show ?thesis using False by (cases "threads s2 u"; cases "threads s u") simp
  qed
  note sm = this
  have "sleep_rel ?s3 sl"
    using sm s2 t(3) by (intro sleep_frame [OF q(2)]) (simp, metis)
  then have "sched_rel (unlocked s ?s3) (qs(p := remove1 t (qs p))) sl" using q3 by (simp add: sched_rel_def)
  moreover have "same_outside {t} s (unlocked s ?s3)" using s2 sm by (simp add: same_outside_def)
  moreover have "unqueued (qs(p := remove1 t (qs p))) t" using un nr by (simp add: unqueued_def)
  ultimately show ?thesis using run by simp
qed

end
