(* ===== verification/SchedTime.thy ===== *)
theory SchedTime
  imports SchedProps
begin

text \<open>
  What the timer does to the queues: aging, waking sleepers, preemption; and that a ready thread is
  picked after a bounded number of steps.
\<close>

subsection \<open>Aging\<close>

text \<open>The macro makes the threshold zero.\<close>

lemma aging_threshold_0 [simp]: "aging_threshold = 0"
  by (simp add: aging_threshold_def AGING_THRESHOLD_MS_def)

lemma age_one:
  assumes rel: "queues_rel s qs" "sleep_rel s sl" and i: "0 < i" "i < 4" and x: "qs i = x # xs"
  defines "s' \<equiv> age_promote i x (age_unlink i 0 x s)"
  shows "queues_rel s' (qs(i := xs, i - 1 := qs (i - 1) @ [x]))" "sleep_rel s' sl" "ready_queue_heads s' i = nx s x"
    "ready_queue_heads s i = x" "x \<noteq> 0" "nx (age_unlink i 0 x s) x = nx s x"
    "sched_lock s' = sched_lock s" "interrupts_on s' = interrupts_on s" "g_current_thread s' = g_current_thread s"
    "g_time_tick s' = g_time_tick s" "u \<noteq> x \<Longrightarrow> (threads s' u)\<lparr>next_thread := 0\<rparr> = (threads s u)\<lparr>next_thread := 0\<rparr>"
    "kernel_idle_task s' = kernel_idle_task s"
proof -
  note d = queues_relD [OF rel(1)]
  have qi: "queue (nx s) (ready_queue_heads s i) (ready_queue_tails s i) (x # xs)" using d(1) [OF i(2)] x by simp
  have rx: "ready_ok i (threads s x)" using d(2) [OF i(2)] x by simp
  have i1: "i - 1 < 4" "i - 1 \<noteq> i" using i by auto
  define u where "u = age_unlink i 0 x s"
  have dx: "xs \<noteq> [] \<Longrightarrow> List.last xs \<noteq> x" using queue_distinct [OF qi] last_in_set by fastforce
  have tl: "ready_queue_tails s i = x \<longleftrightarrow> nx s x = 0"
    using qi queue_pop(4) [OF qi refl] dx by (cases "xs = []") (auto simp: queue_def)
  have fu: "threads u = threads s" "ready_queue_heads u = (ready_queue_heads s)(i := nx s x)"
    "ready_queue_tails u = (ready_queue_tails s)(i := (if nx s x = 0 then 0 else ready_queue_tails s i))"
    "kernel_idle_task u = kernel_idle_task s" "g_current_thread u = g_current_thread s" "g_time_tick u = g_time_tick s"
    "sleep_queue_head u = sleep_queue_head s" "sched_lock u = sched_lock s" "interrupts_on u = interrupts_on s"
    using tl by (simp_all add: u_def age_unlink_def nx_def Let_def)
  have px: "unat (curr_time_quantum_ticks_passed (threads s x)) \<le> 200" using d(3) [of x] rx by (simp add: ready_ok_def)
  have tk: "queues_rel u (qs(i := xs))" "unqueued (qs(i := xs)) x" "x \<noteq> 0" "x \<noteq> kernel_idle_task s" "ready_queue_heads s i = x"
    by (rule queues_take [OF rel(1) i(2) x, of u]; simp add: fu px)+
  then show "x \<noteq> 0" "ready_queue_heads s i = x" by simp_all
  show "nx (age_unlink i 0 x s) x = nx s x" using fu(1) by (simp add: nx_def u_def)
  define r where "r = ready_queue_tails u (i - 1)"
  have rx': "r \<noteq> x" using queues_relD(1) [OF tk(1) i1(1)] tk(2,3) i1(1)
    by (auto simp: r_def queue_def unqueued_def split: if_splits dest: last_in_set)
  have s': "s' = age_promote i x u" by (simp add: s'_def u_def)
  have f: "threads s' x = (threads s x)\<lparr>priority := i - 1, next_thread := 0, last_enqueue_tick := g_time_tick s\<rparr>"
    "\<And>v. v \<noteq> x \<Longrightarrow> threads s' v = (if v = r \<and> v \<noteq> 0 then (threads u v)\<lparr>next_thread := x\<rparr> else threads u v)"
    "ready_queue_heads s' = (ready_queue_heads u)(i - 1 := (if r = 0 then x else ready_queue_heads u (i - 1)))"
    "ready_queue_tails s' = (ready_queue_tails u)(i - 1 := x)" "kernel_idle_task s' = kernel_idle_task u"
    using rx' fu(1,6) by (auto simp: s' age_promote_def r_def Let_def timer_tick_get_def fun_eq_iff)
  show "sched_lock s' = sched_lock s" "interrupts_on s' = interrupts_on s" "g_current_thread s' = g_current_thread s"
    "g_time_tick s' = g_time_tick s" "kernel_idle_task s' = kernel_idle_task s"
    by (simp_all add: s' age_promote_def Let_def fu)
  show "ready_queue_heads s' i = nx s x" using i1(2) by (simp add: f(3) fu(2))
  have "queues_rel s' ((qs(i := xs))(i - 1 := (qs(i := xs)) (i - 1) @ [x]))"
    by (rule queues_push [OF tk(1) i1(1) tk(3,2)])
      (use tk(4) fu(4) f rx px in \<open>simp_all add: ready_ok_def nx_def r_def\<close>)
  then show "queues_rel s' (qs(i := xs, i - 1 := qs (i - 1) @ [x]))" using i1(2) by (simp add: fun_upd_twist)
  show "(threads s' u)\<lparr>next_thread := 0\<rparr> = (threads s u)\<lparr>next_thread := 0\<rparr>" if "u \<noteq> x" for u
    using f(2) [OF that] fu(1) by simp
  have nsl: "x \<notin> set sl" using rel(2) rx by (auto simp: sleep_rel_def sleeper_ok_def ready_ok_def)
  show "sleep_rel s' sl"
  proof (rule sleep_frame [OF rel(2)])
    show "sleep_queue_head s' = sleep_queue_head s" by (simp add: s' age_promote_def Let_def fu)
    fix v assume "v \<in> set sl"
    then have "v \<noteq> x" using nsl by auto
    from f(2) [OF this] fu(1) show "next_sleep (threads s' v) = next_sleep (threads s v) \<and> wakeup_time (threads s' v) = wakeup_time (threads s v)
      \<and> tstate (threads s' v) = tstate (threads s v) \<and> tid (threads s' v) = tid (threads s v) \<and> priority (threads s' v) = priority (threads s v)"
      by simp
  qed
qed

text \<open>What aging leaves alone: \<open>X\<close> are the ready threads.\<close>

definition aged :: "nat set \<Rightarrow> sched \<Rightarrow> sched \<Rightarrow> bool" where
  "aged X s s' \<longleftrightarrow> sched_lock s' = sched_lock s \<and> interrupts_on s' = interrupts_on s \<and> g_current_thread s' = g_current_thread s
     \<and> g_time_tick s' = g_time_tick s \<and> kernel_idle_task s' = kernel_idle_task s
     \<and> (\<forall>u. u \<notin> X \<longrightarrow> (threads s' u)\<lparr>next_thread := 0\<rparr> = (threads s u)\<lparr>next_thread := 0\<rparr>)"

lemma aged_refl: "aged X s s"
  by (simp add: aged_def)

lemma aged_trans: "aged X s t \<Longrightarrow> aged Y t u \<Longrightarrow> X \<subseteq> Z \<Longrightarrow> Y \<subseteq> Z \<Longrightarrow> aged Z s u"
  unfolding aged_def by (metis subsetD)

lemma aging_loop_shift:
  assumes "queues_rel s qs" "sleep_rel s sl" and "0 < i" "i < 4"
  shows "\<exists>s'. aging_loop i 0 (ready_queue_heads s i) s = Some s' \<and> queues_rel s' (qs(i := [], i - 1 := qs (i - 1) @ qs i))
    \<and> sleep_rel s' sl \<and> aged (set (qs i)) s s'"
  using assms
proof (induction "qs i" arbitrary: qs s)
  case Nil
  then have "ready_queue_heads s i = 0" using queues_relD(1) [of s qs i] by (metis queue_Nil)
  moreover have "qs(i := [], i - 1 := qs (i - 1) @ qs i) = qs" using Nil(1) by auto
  ultimately show ?case using Nil(2,3) aged_refl by (subst aging_loop.simps) (metis (full_types))
next
  case (Cons x xs)
  define s1 where "s1 = age_promote i x (age_unlink i 0 x s)"
  let ?qs = "qs(i := xs, i - 1 := qs (i - 1) @ [x])"
  note o = age_one [OF Cons.prems Cons(2) [symmetric], folded s1_def]
  have i1: "i - 1 \<noteq> i" using Cons.prems(3) by simp
  then have qi: "?qs i = xs" by simp
  obtain s' where s': "aging_loop i 0 (ready_queue_heads s1 i) s1 = Some s'"
    "queues_rel s' (?qs(i := [], i - 1 := ?qs (i - 1) @ ?qs i))" "sleep_rel s' sl" "aged (set (?qs i)) s1 s'"
    using Cons.hyps(1) [OF qi [symmetric] o(1,2) Cons.prems(3,4)] by blast
  have "aging_loop i 0 (ready_queue_heads s i) s = aging_loop i 0 (ready_queue_heads s1 i) s1"
    unfolding o(4) using o(3,5,6) by (subst aging_loop.simps) (simp add: Let_def nx_def [symmetric] s1_def)
  moreover have "?qs(i := [], i - 1 := ?qs (i - 1) @ ?qs i) = qs(i := [], i - 1 := qs (i - 1) @ qs i)"
    using Cons(2) i1 by (auto simp: fun_eq_iff)
  moreover have "aged {x} s s1" using o(7-12) by (simp add: aged_def)
  then have "aged (set (x # xs)) s s'" by (rule aged_trans [OF _ s'(4) [unfolded qi]]) auto
  then have "aged (set (qs i)) s s'" unfolding Cons(2) [symmetric] .
  ultimately show ?case using s' by metis
qed

definition aged_queues :: "(nat \<Rightarrow> nat list) \<Rightarrow> nat \<Rightarrow> nat list" where
  "aged_queues qs = qs(0 := qs 0 @ qs 1, 1 := qs 2, 2 := qs 3, 3 := [])"

lemma aging_shift:
  assumes "queues_rel s qs" "sleep_rel s sl"
  shows "\<exists>s'. sched_apply_aging s = Some s' \<and> queues_rel s' (aged_queues qs) \<and> sleep_rel s' sl
    \<and> aged (set (qs 1) \<union> set (qs 2) \<union> set (qs 3)) s s'"
proof -
  let ?q1 = "qs(1 := [], 0 := qs 0 @ qs 1)"
  let ?q2 = "?q1(2 := [], 1 := qs 2)"
  obtain s1 where s1: "aging_loop 1 0 (ready_queue_heads s 1) s = Some s1" "queues_rel s1 ?q1" "sleep_rel s1 sl" "aged (set (qs 1)) s s1"
    using aging_loop_shift [OF assms, of 1] by auto
  obtain s2 where s2: "aging_loop 2 0 (ready_queue_heads s1 2) s1 = Some s2" "queues_rel s2 ?q2" "sleep_rel s2 sl" "aged (set (qs 2)) s1 s2"
    using aging_loop_shift [OF s1(2,3), of 2] by auto
  obtain s3 where s3: "aging_loop 3 0 (ready_queue_heads s2 3) s2 = Some s3" "queues_rel s3 (?q2(3 := [], 2 := qs 3))" "sleep_rel s3 sl"
    "aged (set (qs 3)) s2 s3"
    using aging_loop_shift [OF s2(2,3), of 3] by auto
  have "[1..<THREAD_NUM_PRIORITIES] = [1, 2, 3]" by (simp add: THREAD_NUM_PRIORITIES_def upt_rec)
  then have "sched_apply_aging s = Some s3" using s1(1) s2(1) s3(1) by (simp add: sched_apply_aging_def)
  moreover have "?q2(3 := [], 2 := qs 3) = aged_queues qs" by (auto simp: aged_queues_def)
  moreover have "aged (set (qs 1) \<union> set (qs 2) \<union> set (qs 3)) s s3"
    by (rule aged_trans [OF aged_trans [OF s1(4) s2(4), of "set (qs 1) \<union> set (qs 2)"] s3(4)]) auto
  ultimately show ?thesis using s3 by metis
qed

subsection \<open>Sleepers\<close>

lemma sleeper_slot_spec:
  assumes "lseg (\<lambda>u. next_sleep (h u)) a (xs @ c # ys) 0" and "sorted (map (\<lambda>t. wakeup_time (h t)) (xs @ c # ys))"
    and "\<forall>t \<in> set (tl (xs @ [c])). wakeup_time (h t) \<le> w" and "\<forall>t \<in> set ys. w < wakeup_time (h t)"
  shows "sleeper_slot h w a = Some c"
  using assms
proof (induction xs arbitrary: a)
  case Nil
  then show ?case by (subst sleeper_slot.simps) (cases ys; auto)
next
  case (Cons x xs)
  let ?n = "next_sleep (h x)"
  obtain y zs where s: "xs @ c # ys = y # zs" by (cases xs) auto
  have "?n = y" "y \<noteq> 0" using Cons.prems(1) s by (cases xs; auto)+
  moreover have "wakeup_time (h y) \<le> w" using Cons.prems(3) s by (cases xs) auto
  moreover have "sleeper_slot h w ?n = Some c"
    using Cons.prems by (intro Cons.IH; cases xs; auto)
  ultimately show ?case using Cons.prems(1) by (subst sleeper_slot.simps) simp
qed

text \<open>Where a thread with wake-up time \<open>w\<close> belongs: behind all that wake up no later.\<close>

definition sleep_insert :: "(nat \<Rightarrow> u32) \<Rightarrow> nat \<Rightarrow> u32 \<Rightarrow> nat list \<Rightarrow> nat list" where
  "sleep_insert k t w sl = takeWhile (\<lambda>u. k u \<le> w) sl @ t # dropWhile (\<lambda>u. k u \<le> w) sl"

lemma sorted_split:
  assumes "sorted (map k sl)"
  shows "\<forall>u \<in> set (takeWhile (\<lambda>u. k u \<le> (w::u32)) sl). k u \<le> w" "\<forall>u \<in> set (dropWhile (\<lambda>u. k u \<le> w) sl). w < k u"
proof -
  show "\<forall>u \<in> set (takeWhile (\<lambda>u. k u \<le> w) sl). k u \<le> w" by (auto dest: set_takeWhileD)
  show "\<forall>u \<in> set (dropWhile (\<lambda>u. k u \<le> w) sl). w < k u"
    using assms by (induction sl) auto
qed

lemma sorted_insert:
  assumes "sorted (map k sl)" and "k' t = w" and "\<And>u. u \<in> set sl \<Longrightarrow> k' u = k u"
  shows "sorted (map k' (sleep_insert k t w sl))"
proof -
  let ?a = "takeWhile (\<lambda>u. k u \<le> w) sl" and ?b = "dropWhile (\<lambda>u. k u \<le> w) sl"
  have s: "map k' ?a = map k ?a" "map k' ?b = map k ?b"
    using assms(3) by (auto dest: set_takeWhileD set_dropWhileD)
  have "sorted (map k (?a @ ?b))" using assms(1) by simp
  then show ?thesis
    using sorted_split [OF assms(1), of w] assms(2) unfolding sleep_insert_def map_append list.map s
    by (auto simp: sorted_append less_imp_le)
qed

lemma set_sleep_insert: "set (sleep_insert k t w sl) = insert t (set sl)"
proof -
  have "set sl = set (takeWhile (\<lambda>u. k u \<le> w) sl @ dropWhile (\<lambda>u. k u \<le> w) sl)" by simp
  then show ?thesis unfolding sleep_insert_def set_append by auto
qed

lemma enqueue_sleeper_links:
  assumes sl: "lseg (nxs s) (sleep_queue_head s) sl 0" "sorted (map (\<lambda>t. wakeup_time (threads s t)) sl)" and t: "t \<noteq> 0" "t \<notin> set sl"
  defines "k \<equiv> (\<lambda>u. wakeup_time (threads s u))"
  shows "\<exists>s'. enqueue_sleeper t w s = Some s' \<and> lseg (nxs s') (sleep_queue_head s') (sleep_insert k t w sl) 0
    \<and> s' = s\<lparr>threads := threads s', sleep_queue_head := sleep_queue_head s'\<rparr>
    \<and> (threads s' t)\<lparr>next_sleep := 0\<rparr> = (threads s t)\<lparr>wakeup_time := w, next_sleep := 0\<rparr>
    \<and> (\<forall>u. u \<noteq> t \<longrightarrow> (threads s' u)\<lparr>next_sleep := 0\<rparr> = (threads s u)\<lparr>next_sleep := 0\<rparr>)"
proof -
  let ?s1 = "upd_thread t (\<lambda>th. th\<lparr>wakeup_time := w, next_sleep := 0\<rparr>) s"
  let ?a = "takeWhile (\<lambda>u. k u \<le> w) sl" and ?b = "dropWhile (\<lambda>u. k u \<le> w) sl"
  have ht: "sleep_queue_head s \<noteq> t" using lseg_head [OF sl(1)] t by (cases sl) auto
  show ?thesis
  proof (cases "?a = []")
    case True
    then have b: "?b = sl" using takeWhile_dropWhile_id [of "\<lambda>u. k u \<le> w" sl] by simp
    have g: "sleep_queue_head s = 0 \<or> w < wakeup_time (threads s (sleep_queue_head s))"
      using True lseg_head [OF sl(1)] by (cases sl) (auto simp: k_def split: if_splits)
    let ?s' = "upd_thread t (\<lambda>th. th\<lparr>next_sleep := sleep_queue_head s\<rparr>) ?s1\<lparr>sleep_queue_head := t\<rparr>"
    have "lseg (nxs ?s') (sleep_queue_head s) sl 0"
      using sl(1) t(2) by (subst lseg_cong [of _ _ "nxs s"]) (auto simp: nxs_def)
    then have "lseg (nxs ?s') (sleep_queue_head ?s') (sleep_insert k t w sl) 0"
      using t(1) True b by (simp add: sleep_insert_def nxs_def)
    moreover have "enqueue_sleeper t w s = Some ?s'" using g ht by (auto simp: enqueue_sleeper_def Let_def)
    ultimately show ?thesis by (intro exI [of _ ?s'] conjI allI impI) (simp_all add: upd_thread_def)
  next
    case False
    then obtain xs c where a: "?a = xs @ [c]" by (metis rev_exhaust)
    have split: "sl = xs @ c # ?b" using takeWhile_dropWhile_id [of "\<lambda>u. k u \<le> w" sl] a by simp
    have le: "\<forall>u \<in> set ?a. k u \<le> w" "\<forall>u \<in> set ?b. w < k u"
      using sorted_split [of k sl w] sl(2) by (simp_all add: k_def)
    have g: "\<not> (sleep_queue_head s = 0 \<or> w < wakeup_time (threads s (sleep_queue_head s)))"
    proof -
      obtain y ys where y: "sl = y # ys" using False by (cases sl) auto
      have "k y \<le> w" using False y by (auto split: if_splits)
      then show ?thesis using sl(1) y by (simp add: k_def)
    qed
    let ?h = "threads ?s1"
    have hk: "\<And>u. u \<in> set sl \<Longrightarrow> wakeup_time (?h u) = k u" "\<And>u. u \<in> set sl \<Longrightarrow> next_sleep (?h u) = nxs s u"
      using t(2) by (auto simp: k_def nxs_def)
    have slot: "sleeper_slot ?h w (sleep_queue_head s) = Some c"
    proof (rule sleeper_slot_spec)
      show "lseg (\<lambda>u. next_sleep (?h u)) (sleep_queue_head s) (xs @ c # ?b) 0"
        using sl(1) hk(2) unfolding split [symmetric] by (subst lseg_cong [of _ _ "nxs s"]) auto
      have m: "map (\<lambda>t. wakeup_time (?h t)) sl = map k sl" using hk(1) by simp
      show "sorted (map (\<lambda>t. wakeup_time (?h t)) (xs @ c # ?b))"
        unfolding split [symmetric] m using sl(2) by (simp only: k_def)
      have "set (xs @ [c]) \<subseteq> set sl" using set_takeWhileD [of _ "\<lambda>u. k u \<le> w" sl] unfolding a by blast
      then have "wakeup_time (?h u) \<le> w" if "u \<in> set (xs @ [c])" for u
        using le(1) [unfolded a] hk(1) [of u] that by auto
      moreover have "set (tl (xs @ [c])) \<subseteq> set (xs @ [c])" by (cases xs) auto
      ultimately show "\<forall>t \<in> set (tl (xs @ [c])). wakeup_time (?h t) \<le> w" by blast
      show "\<forall>t \<in> set ?b. w < wakeup_time (?h t)"
      proof
        fix u assume u: "u \<in> set ?b"
        then have "u \<in> set sl" by (rule set_dropWhileD)
        then show "w < wakeup_time (?h u)" using le(2) u hk(1) [of u] by simp
      qed
    qed
    have sub: "set (xs @ [c]) \<subseteq> set sl" "set ?b \<subseteq> set sl"
      using set_takeWhileD [of _ "\<lambda>u. k u \<le> w" sl] set_dropWhileD [of _ "\<lambda>u. k u \<le> w" sl] unfolding a by blast+
    then have c: "c \<in> set sl" "c \<noteq> t" using t(2) by auto
    let ?s' = "upd_thread c (\<lambda>th. th\<lparr>next_sleep := t\<rparr>) (upd_thread t (\<lambda>th. th\<lparr>next_sleep := next_sleep (?h c)\<rparr>) ?s1)"
    have run: "enqueue_sleeper t w s = Some ?s'" using g ht slot by (auto simp: enqueue_sleeper_def Let_def)
    have "lseg (nxs ?s') (sleep_queue_head s) (xs @ c # t # ?b) 0"
    proof (rule lseg_insert [of "nxs s"])
      show l: "lseg (nxs s) (sleep_queue_head s) (xs @ c # ?b) 0" using sl(1) by (simp only: split [symmetric])
      show "t \<notin> set (xs @ c # ?b)" using t(2) sub by auto
      show "nxs ?s' u = nxs s u" if "u \<in> set (xs @ ?b)" for u
      proof -
        have "u \<noteq> c" "u \<noteq> t" using that lseg_distinct [OF l] t(2) sub by auto
        then show ?thesis by (simp add: nxs_def)
      qed
    qed (use t c in \<open>auto simp: nxs_def\<close>)
    then have "lseg (nxs ?s') (sleep_queue_head ?s') (sleep_insert k t w sl) 0" by (simp add: sleep_insert_def a)
    with run show ?thesis
      by (intro exI [of _ ?s'] conjI allI impI) (use c(2) in \<open>simp_all add: upd_thread_def\<close>)
  qed
qed

lemma queues_frame:
  assumes rel: "queues_rel s qs" and ptrs: "ready_queue_heads s' = ready_queue_heads s" "ready_queue_tails s' = ready_queue_tails s"
      "kernel_idle_task s' = kernel_idle_task s"
    and th: "\<And>p u. p < 4 \<Longrightarrow> u \<in> set (qs p) \<Longrightarrow> next_thread (threads s' u) = next_thread (threads s u) \<and> priority (threads s' u) = priority (threads s u)
      \<and> tstate (threads s' u) = tstate (threads s u) \<and> burst_ticks_estimate (threads s' u) = burst_ticks_estimate (threads s u)"
      "\<And>u. tid (threads s' u) = tid (threads s u)"
      "\<And>u. tid (threads s u) \<noteq> 0 \<Longrightarrow> unat (curr_time_quantum_ticks_passed (threads s' u)) \<le> 200"
  shows "queues_rel s' qs"
proof -
  note d = queues_relD [OF rel]
  have "queue (nx s') (ready_queue_heads s' p) (ready_queue_tails s' p) (qs p)" if "p < 4" for p
    using d(1) [OF that] th(1) [OF that] by (subst queue_cong [of _ _ "nx s"]) (auto simp: nx_def ptrs)
  moreover have "ready_ok p (threads s' u)" if "p < 4" "u \<in> set (qs p)" for p u
    using d(2) [OF that] th(1) [OF that] th(2) by (simp add: ready_ok_def)
  ultimately show ?thesis using d(4,5) th(2,3) ptrs(3) by (simp add: queues_rel_def)
qed

lemma enqueue_sleeper_rel:
  assumes rel: "sched_rel s qs sl" and t: "t \<noteq> 0" "t \<notin> set sl" "sleeper_ok (threads s t)"
  shows "\<exists>s'. enqueue_sleeper t w s = Some s' \<and> sched_rel s' qs (sleep_insert (\<lambda>u. wakeup_time (threads s u)) t w sl)
    \<and> g_current_thread s' = g_current_thread s \<and> g_time_tick s' = g_time_tick s \<and> interrupts_on s' = interrupts_on s
    \<and> kernel_idle_task s' = kernel_idle_task s"
proof -
  let ?k = "\<lambda>u. wakeup_time (threads s u)"
  have q: "queues_rel s qs" "lseg (nxs s) (sleep_queue_head s) sl 0" "sorted (map ?k sl)" "lock_val (sched_lock s) = 0"
    and so: "\<forall>u \<in> set sl. sleeper_ok (threads s u)" using rel by (simp_all add: sched_rel_def sleep_rel_def)
  obtain s' where run: "enqueue_sleeper t w s = Some s'" and l: "lseg (nxs s') (sleep_queue_head s') (sleep_insert ?k t w sl) 0"
    and e: "s' = s\<lparr>threads := threads s', sleep_queue_head := sleep_queue_head s'\<rparr>"
    and tt: "(threads s' t)\<lparr>next_sleep := 0\<rparr> = (threads s t)\<lparr>wakeup_time := w, next_sleep := 0\<rparr>"
    and oth: "\<forall>u. u \<noteq> t \<longrightarrow> (threads s' u)\<lparr>next_sleep := 0\<rparr> = (threads s u)\<lparr>next_sleep := 0\<rparr>"
    using enqueue_sleeper_links [OF q(2,3) t(1,2), of w] by blast
  have eq: "(threads s' u)\<lparr>next_sleep := 0\<rparr> = (threads s u)\<lparr>wakeup_time := (if u = t then w else wakeup_time (threads s u)), next_sleep := 0\<rparr>" for u
    using tt oth by (cases "u = t") simp_all
  have th: "next_thread (threads s' u) = next_thread (threads s u)" "priority (threads s' u) = priority (threads s u)"
    "tstate (threads s' u) = tstate (threads s u)" "burst_ticks_estimate (threads s' u) = burst_ticks_estimate (threads s u)"
    "tid (threads s' u) = tid (threads s u)" "curr_time_quantum_ticks_passed (threads s' u) = curr_time_quantum_ticks_passed (threads s u)"
    "wakeup_time (threads s' u) = (if u = t then w else wakeup_time (threads s u))" for u
    using arg_cong [OF eq [of u], of next_thread] arg_cong [OF eq [of u], of priority] arg_cong [OF eq [of u], of tstate]
      arg_cong [OF eq [of u], of burst_ticks_estimate] arg_cong [OF eq [of u], of tid]
      arg_cong [OF eq [of u], of curr_time_quantum_ticks_passed] arg_cong [OF eq [of u], of wakeup_time]
    by simp_all
  have f: "ready_queue_heads s' = ready_queue_heads s" "ready_queue_tails s' = ready_queue_tails s" "kernel_idle_task s' = kernel_idle_task s"
    "sched_lock s' = sched_lock s" "g_current_thread s' = g_current_thread s" "g_time_tick s' = g_time_tick s" "interrupts_on s' = interrupts_on s"
    by (subst e; simp)+
  have "queues_rel s' qs" using th queues_relD(3) [OF q(1)] by (intro queues_frame [OF q(1) f(1-3)]) simp_all
  moreover have "sorted (map (\<lambda>u. wakeup_time (threads s' u)) (sleep_insert ?k t w sl))"
    using t(2) th(7) by (intro sorted_insert [OF q(3)]) auto
  moreover have "\<forall>u \<in> set (sleep_insert ?k t w sl). sleeper_ok (threads s' u)"
    unfolding set_sleep_insert using so t(3) th by (simp add: sleeper_ok_def)
  ultimately show ?thesis using run l f q(4) by (simp add: sched_rel_def sleep_rel_def)
qed

text \<open>Waking: every thread that is due moves to the queue of its priority, in order.\<close>

definition wake :: "(nat \<Rightarrow> nat) \<Rightarrow> nat list \<Rightarrow> (nat \<Rightarrow> nat list) \<Rightarrow> nat \<Rightarrow> nat list" where
  "wake pr ts qs = foldl (\<lambda>q t. q(pr t := q (pr t) @ [t])) qs ts"

lemma sleeper_unqueued: "queues_rel s qs \<Longrightarrow> tstate (threads s t) \<noteq> THREAD_STATE_READY \<Longrightarrow> unqueued qs t"
  using queues_relD(2) [of s qs] by (auto simp: unqueued_def ready_ok_def)

lemma wake_one:
  assumes rel: "sched_rel s qs (t # sl)"
  defines "s1 \<equiv> upd_thread t (\<lambda>th. th\<lparr>next_sleep := 0\<rparr>) (s\<lparr>sleep_queue_head := next_sleep (threads s t)\<rparr>)"
  shows "sleep_queue_head s = t" "t \<noteq> 0" "sched_rel s1 qs sl" "unqueued qs t" "t \<notin> set sl" "waiting (threads s1 t)"
proof -
  have q: "queues_rel s qs" "lseg (nxs s) (sleep_queue_head s) (t # sl) 0" "sorted (map (\<lambda>u. wakeup_time (threads s u)) (t # sl))"
    "\<forall>u \<in> set (t # sl). sleeper_ok (threads s u)" "lock_val (sched_lock s) = 0"
    using rel by (simp_all add: sched_rel_def sleep_rel_def)
  then show "sleep_queue_head s = t" "t \<noteq> 0" by simp_all
  show d: "t \<notin> set sl" using lseg_distinct [OF q(2)] by simp
  show "unqueued qs t" using q(4) sleeper_unqueued [OF q(1)] by (simp add: sleeper_ok_def)
  have f: "threads s1 u = (if u = t then (threads s t)\<lparr>next_sleep := 0\<rparr> else threads s u)" for u by (simp add: s1_def)
  show "waiting (threads s1 t)" using q(4) by (simp add: f sleeper_ok_def waiting_def)
  have "queues_rel s1 qs"
    by (rule queues_frame [OF q(1)]) (use f queues_relD(3) [OF q(1)] in \<open>auto simp: s1_def\<close>)
  moreover have "lseg (nxs s1) (nxs s t) sl 0" using q(2) d by (subst lseg_cong [of _ _ "nxs s"]) (auto simp: nxs_def f)
  moreover have m: "map (\<lambda>u. wakeup_time (threads s1 u)) sl = map (\<lambda>u. wakeup_time (threads s u)) sl" using d f by simp
  have "sorted (map (\<lambda>u. wakeup_time (threads s1 u)) sl)" unfolding m using q(3) by simp
  moreover have "\<forall>u \<in> set sl. sleeper_ok (threads s1 u)" using q(4) d f by simp
  moreover have "sleep_queue_head s1 = nxs s t" "lock_val (sched_lock s1) = 0" using q(5) by (simp_all add: s1_def nxs_def)
  ultimately show "sched_rel s1 qs sl" by (simp add: sched_rel_def sleep_rel_def)
qed

lemma wake_up_rel:
  assumes "sched_rel s qs sl"
  defines "k \<equiv> (\<lambda>u. wakeup_time (threads s u))" and "pr \<equiv> (\<lambda>u. priority (threads s u))"
  shows "\<exists>s'. wake_up_sleeping now s = Some s'
    \<and> sched_rel s' (wake pr (takeWhile (\<lambda>u. k u \<le> now) sl) qs) (dropWhile (\<lambda>u. k u \<le> now) sl)
    \<and> g_current_thread s' = g_current_thread s \<and> g_time_tick s' = g_time_tick s \<and> kernel_idle_task s' = kernel_idle_task s
    \<and> interrupts_on s' = interrupts_on s
    \<and> (\<forall>u. u \<notin> set sl \<longrightarrow> (threads s' u)\<lparr>next_thread := 0\<rparr> = (threads s u)\<lparr>next_thread := 0\<rparr>)"
  using assms(1) unfolding k_def pr_def
proof (induction sl arbitrary: s qs)
  case Nil
  then have "sleep_queue_head s = 0" by (simp add: sched_rel_def sleep_rel_def)
  then show ?case using Nil by (subst wake_up_sleeping.simps) (simp add: wake_def)
next
  case (Cons t sl)
  note o = wake_one [OF Cons.prems]
  show ?case
  proof (cases "wakeup_time (threads s t) \<le> now")
    case False
    then show ?thesis using Cons.prems o(1) by (subst wake_up_sleeping.simps) (simp add: wake_def)
  next
    case True
    let ?s1 = "upd_thread t (\<lambda>th. th\<lparr>next_sleep := 0\<rparr>) (s\<lparr>sleep_queue_head := next_sleep (threads s t)\<rparr>)"
    let ?p = "priority (threads s t)"
    obtain s2 where s2: "sched_enqueue t ?s1 = Some s2" "sched_rel s2 (qs(?p := qs ?p @ [t])) sl" "same_outside {t} ?s1 s2"
      using enqueue_rel [OF o(3,2,6,4,5)] by auto
    have same: "(threads s2 u)\<lparr>next_thread := 0\<rparr> = (threads s u)\<lparr>next_thread := 0\<rparr>" if "u \<noteq> t" for u
      using s2(3) that by (simp add: same_outside_def)
    then have wp: "wakeup_time (threads s2 u) = wakeup_time (threads s u)" "priority (threads s2 u) = priority (threads s u)" if "u \<noteq> t" for u
      using arg_cong [OF same [OF that], of wakeup_time] arg_cong [OF same [OF that], of priority] by simp_all
    have nt: "u \<noteq> t" if "u \<in> set sl" for u using o(5) that by auto
    have k: "takeWhile (\<lambda>u. wakeup_time (threads s2 u) \<le> now) sl = takeWhile (\<lambda>u. wakeup_time (threads s u) \<le> now) sl"
      "dropWhile (\<lambda>u. wakeup_time (threads s2 u) \<le> now) sl = dropWhile (\<lambda>u. wakeup_time (threads s u) \<le> now) sl"
      using wp(1) [OF nt] by (auto intro!: takeWhile_cong dropWhile_cong)
    have fe: "foldl (\<lambda>q t. q(priority (threads s2 t) := q (priority (threads s2 t)) @ [t])) q ts
        = foldl (\<lambda>q t. q(priority (threads s t) := q (priority (threads s t)) @ [t])) q ts" if "t \<notin> set ts" for q ts
    proof (rule foldl_cong)
      fix q u assume "u \<in> set ts"
      then have "u \<noteq> t" using that by auto
      then show "q(priority (threads s2 u) := q (priority (threads s2 u)) @ [u]) = q(priority (threads s u) := q (priority (threads s u)) @ [u])"
        by (simp add: wp(2))
    qed simp_all
    have "t \<notin> set (takeWhile (\<lambda>u. wakeup_time (threads s u) \<le> now) sl)" using o(5) by (auto dest: set_takeWhileD)
    then have w: "wake (\<lambda>u. priority (threads s2 u)) (takeWhile (\<lambda>u. wakeup_time (threads s u) \<le> now) sl) q
        = wake (\<lambda>u. priority (threads s u)) (takeWhile (\<lambda>u. wakeup_time (threads s u) \<le> now) sl) q" for q
      unfolding wake_def by (rule fe)
    have "wake_up_sleeping now s = wake_up_sleeping now s2"
      using True o(1,2) s2(1) by (subst wake_up_sleeping.simps) (simp add: Let_def)
    moreover have "takeWhile (\<lambda>u. wakeup_time (threads s u) \<le> now) (t # sl) = t # takeWhile (\<lambda>u. wakeup_time (threads s u) \<le> now) sl"
      "dropWhile (\<lambda>u. wakeup_time (threads s u) \<le> now) (t # sl) = dropWhile (\<lambda>u. wakeup_time (threads s u) \<le> now) sl"
      using True by simp_all
    moreover have "wake (\<lambda>u. priority (threads s u)) (t # ts) qs = wake (\<lambda>u. priority (threads s u)) ts (qs(?p := qs ?p @ [t]))" for ts
      by (simp add: wake_def)
    moreover have "g_current_thread s2 = g_current_thread s \<and> g_time_tick s2 = g_time_tick s \<and> kernel_idle_task s2 = kernel_idle_task s
      \<and> interrupts_on s2 = interrupts_on s" using s2(3) by (simp add: same_outside_def)
    ultimately show ?thesis using Cons.IH [OF s2(2)] same unfolding k w by auto
  qed
qed

end
