(* ===== verification/SchedMain.thy ===== *)
theory SchedMain
  imports SchedTime
begin

text \<open>The properties of the scheduler.\<close>

subsection \<open>Switching\<close>

definition current_ok :: "sched \<Rightarrow> (nat \<Rightarrow> nat list) \<Rightarrow> nat list \<Rightarrow> bool" where
  "current_ok s qs sl \<longleftrightarrow>
     (let c = g_current_thread s; th = threads s c
      in c \<noteq> 0 \<and> unqueued qs c \<and> c \<notin> set sl \<and> tstate th = THREAD_STATE_RUNNING
        \<and> (tid th \<noteq> 0 \<longrightarrow> priority th < 4 \<and> curr_time_quantum_ticks_passed th < curr_time_quantum th \<and> unat (curr_time_quantum th) \<le> 200))"

definition sched_inv :: "sched \<Rightarrow> (nat \<Rightarrow> nat list) \<Rightarrow> nat list \<Rightarrow> bool" where
  "sched_inv s qs sl \<longleftrightarrow> sched_rel s qs sl \<and> current_ok s qs sl"

definition pick_queues :: "nat \<Rightarrow> (nat \<Rightarrow> nat list) \<Rightarrow> nat \<times> (nat \<Rightarrow> nat list)" where
  "pick_queues idle qs = (case first_queue qs of None \<Rightarrow> (idle, qs) | Some p \<Rightarrow> (hd (qs p), qs(p := tl (qs p))))"

lemma first_queue_Some: "first_queue qs = Some p \<Longrightarrow> p < 4 \<and> qs p \<noteq> [] \<and> (\<forall>q < p. qs q = [])"
  by (auto simp: first_queue_def find_upt_Some)

lemma pick_rel:
  assumes rel: "sched_rel s qs sl"
  shows "\<exists>s'. sched_pick_next s = Some (fst (pick_queues (kernel_idle_task s) qs), s') \<and> interrupts_on s' = interrupts_on s
    \<and> sched_rel s' (snd (pick_queues (kernel_idle_task s) qs)) sl"
proof (cases "first_queue qs")
  case None
  then show ?thesis using pick_idle [OF rel None] rel by (simp add: pick_queues_def sched_rel_def)
next
  case (Some p)
  then obtain t ts where t: "qs p = t # ts" using first_queue_Some [OF Some] by (cases "qs p") auto
  then show ?thesis using pick_first [OF rel Some t] Some by (auto simp: pick_queues_def same_outside_def)
qed

lemma running_rel:
  assumes rel: "sched_rel s qs sl" and n: "n \<noteq> 0" "unqueued qs n" "n \<notin> set sl"
    and s': "s' = upd_thread n (\<lambda>th. th\<lparr>tstate := THREAD_STATE_RUNNING\<rparr>) (s\<lparr>tss_kstack := k, g_current_thread := c\<rparr>)"
  shows "sched_rel s' qs sl"
proof -
  have q: "queues_rel s qs" "sleep_rel s sl" "lock_val (sched_lock s) = 0" using rel by (simp_all add: sched_rel_def)
  have f: "threads s' u = (if u = n then (threads s n)\<lparr>tstate := THREAD_STATE_RUNNING\<rparr> else threads s u)" for u by (simp add: s')
  have "queues_rel s' qs"
  proof (rule queues_frame [OF q(1)])
    fix p u assume "p < 4" "u \<in> set (qs p)"
    then have "u \<noteq> n" using n(2) by (auto simp: unqueued_def)
    then show "next_thread (threads s' u) = next_thread (threads s u) \<and> priority (threads s' u) = priority (threads s u)
      \<and> tstate (threads s' u) = tstate (threads s u) \<and> burst_ticks_estimate (threads s' u) = burst_ticks_estimate (threads s u)"
      by (simp add: f)
  qed (use queues_relD(3) [OF q(1)] in \<open>auto simp: f s'\<close>)
  moreover have "sleep_rel s' sl"
  proof (rule sleep_frame [OF q(2)])
    fix u assume "u \<in> set sl"
    then have "u \<noteq> n" using n(3) by auto
    then show "next_sleep (threads s' u) = next_sleep (threads s u) \<and> wakeup_time (threads s' u) = wakeup_time (threads s u)
      \<and> tstate (threads s' u) = tstate (threads s u) \<and> tid (threads s' u) = tid (threads s u) \<and> priority (threads s' u) = priority (threads s u)"
      by (simp add: f)
  qed (simp add: s')
  ultimately show ?thesis using q(3) by (simp add: sched_rel_def s')
qed

lemma dispatch_eq:
  assumes "nxt \<noteq> 0"
  shows "\<exists>k. dispatch_switch_to nxt s = Some (upd_thread nxt (\<lambda>th. th\<lparr>tstate := THREAD_STATE_RUNNING\<rparr>) (s\<lparr>tss_kstack := k, g_current_thread := nxt\<rparr>))"
proof (cases "g_current_thread s = nxt")
  case True
  then have "s\<lparr>tss_kstack := tss_kstack s, g_current_thread := nxt\<rparr> = s" by simp
  then show ?thesis using assms True by (intro exI [of _ "tss_kstack s"]) (simp only: dispatch_switch_to_def dispatch_get_current_def if_False if_True Let_def refl)
next
  case False
  then show ?thesis using assms
    by (intro exI [of _ "kstack_top (threads s nxt)"]) (simp add: dispatch_switch_to_def dispatch_get_current_def Let_def upd_thread_def)
qed

lemma switch_rel:
  assumes rel: "sched_rel s qs sl"
  shows "\<exists>s'. sched_switch_next s = Some s' \<and> sched_inv s' (snd (pick_queues (kernel_idle_task s) qs)) sl
    \<and> g_current_thread s' = fst (pick_queues (kernel_idle_task s) qs) \<and> g_time_tick s' = g_time_tick s \<and> interrupts_on s' = interrupts_on s
    \<and> kernel_idle_task s' = kernel_idle_task s \<and> (first_queue qs \<noteq> None \<longrightarrow> tid (threads s' (g_current_thread s')) \<noteq> 0)"
proof (cases "first_queue qs")
  case None
  let ?n = "kernel_idle_task s" and ?s = "unlocked s (locked s)"
  have q: "queues_rel s qs" "sleep_rel s sl" using rel by (simp_all add: sched_rel_def)
  note d = queues_relD [OF q(1)]
  have n: "unqueued qs ?n" "?n \<notin> set sl"
    using d(2,5) q(2) by (auto simp: unqueued_def ready_ok_def sleep_rel_def sleeper_ok_def)
  have r: "sched_rel ?s qs sl" using rel by (simp add: sched_rel_def)
  obtain k where k: "dispatch_switch_to ?n ?s = Some (upd_thread ?n (\<lambda>th. th\<lparr>tstate := THREAD_STATE_RUNNING\<rparr>) (?s\<lparr>tss_kstack := k, g_current_thread := ?n\<rparr>))"
    using dispatch_eq [OF d(4)] by blast
  let ?s' = "upd_thread ?n (\<lambda>th. th\<lparr>tstate := THREAD_STATE_RUNNING\<rparr>) (?s\<lparr>tss_kstack := k, g_current_thread := ?n\<rparr>)"
  have "sched_rel ?s' qs sl" by (rule running_rel [OF r d(4) n refl])
  moreover have "current_ok ?s' qs sl" using n d(4,5) by (simp add: current_ok_def Let_def)
  ultimately show ?thesis
    using pick_idle [OF rel None] k None by (simp add: sched_switch_next_def pick_queues_def sched_inv_def)
next
  case (Some p)
  then obtain t ts where t: "qs p = t # ts" using first_queue_Some [OF Some] by (cases "qs p") auto
  obtain s1 where s1: "sched_pick_next s = Some (t, s1)" "sched_rel s1 (qs(p := ts)) sl" "same_outside {t} s s1"
    "unqueued (qs(p := ts)) t" "t \<noteq> 0" "waiting (threads s1 t)" "curr_time_quantum_ticks_passed (threads s1 t) = 0"
    "40 \<le> unat (curr_time_quantum (threads s1 t))" "unat (curr_time_quantum (threads s1 t)) \<le> 200" "t \<notin> set sl" "tid (threads s t) \<noteq> 0"
    using pick_first [OF rel Some t] by blast
  obtain k where k: "dispatch_switch_to t s1 = Some (upd_thread t (\<lambda>th. th\<lparr>tstate := THREAD_STATE_RUNNING\<rparr>) (s1\<lparr>tss_kstack := k, g_current_thread := t\<rparr>))"
    using dispatch_eq [OF s1(5)] by blast
  let ?s' = "upd_thread t (\<lambda>th. th\<lparr>tstate := THREAD_STATE_RUNNING\<rparr>) (s1\<lparr>tss_kstack := k, g_current_thread := t\<rparr>)"
  have "sched_rel ?s' (qs(p := ts)) sl" by (rule running_rel [OF s1(2,5,4,10) refl])
  moreover have "current_ok ?s' (qs(p := ts)) sl"
    using s1(4-10) by (simp add: current_ok_def Let_def waiting_def word_less_nat_alt)
  ultimately show ?thesis
    using s1(1,3,11) k Some t by (simp add: sched_switch_next_def pick_queues_def sched_inv_def same_outside_def)
qed

subsection \<open>The timer tick\<close>

lemma age_stage:
  assumes rel: "sched_rel s qs sl"
  shows "\<exists>s'. do { s \<leftarrow> lock_sched s; s \<leftarrow> sched_apply_aging s; unlock_sched s } = Some s' \<and> sched_rel s' (aged_queues qs) sl
    \<and> g_current_thread s' = g_current_thread s \<and> g_time_tick s' = g_time_tick s \<and> kernel_idle_task s' = kernel_idle_task s
    \<and> interrupts_on s' = interrupts_on s
    \<and> (\<forall>u. tstate (threads s u) \<noteq> THREAD_STATE_READY \<longrightarrow> (threads s' u)\<lparr>next_thread := 0\<rparr> = (threads s u)\<lparr>next_thread := 0\<rparr>)"
proof -
  have q: "queues_rel (locked s) qs" "sleep_rel (locked s) sl" "lock_val (sched_lock s) = 0" using rel by (simp_all add: sched_rel_def)
  obtain s1 where s1: "sched_apply_aging (locked s) = Some s1" "queues_rel s1 (aged_queues qs)" "sleep_rel s1 sl"
    "aged (set (qs 1) \<union> set (qs 2) \<union> set (qs 3)) (locked s) s1"
    using aging_shift [OF q(1,2)] by blast
  have "unlock_sched s1 = Some (unlocked s s1)" using s1(4) by (intro unlock_sched_held) (simp_all add: aged_def)
  moreover have "(threads s1 u)\<lparr>next_thread := 0\<rparr> = (threads s u)\<lparr>next_thread := 0\<rparr>" if "tstate (threads s u) \<noteq> THREAD_STATE_READY" for u
  proof -
    have "unqueued qs u" using sleeper_unqueued [OF q(1)] that by simp
    then show ?thesis using s1(4) by (simp add: aged_def unqueued_def)
  qed
  ultimately show ?thesis
    using s1 by (simp add: lock_sched_free [OF q(3)] sched_rel_def aged_def)
qed

lemma count_tick_rel:
  assumes rel: "sched_rel s qs sl" and c: "unqueued qs c" "c \<notin> set sl"
    and p: "tid (threads s c) \<noteq> 0 \<Longrightarrow> unat (curr_time_quantum_ticks_passed (threads s c) + 1) \<le> 200"
  shows "sched_rel (upd_thread c (\<lambda>th. th\<lparr>rt_ticks := rt_ticks th + 1,
      curr_time_quantum_ticks_passed := curr_time_quantum_ticks_passed th + 1\<rparr>) s) qs sl" (is "sched_rel ?s qs sl")
proof -
  have q: "queues_rel s qs" "sleep_rel s sl" "lock_val (sched_lock s) = 0" using rel by (simp_all add: sched_rel_def)
  have "queues_rel ?s qs"
    by (rule queues_frame [OF q(1)]) (use p queues_relD(3) [OF q(1)] in \<open>auto simp: unqueued_def\<close>)
  moreover have "sleep_rel ?s sl"
    by (rule sleep_frame [OF q(2)]) (use c(2) in auto)
  ultimately show ?thesis using q(3) by (simp add: sched_rel_def)
qed

definition expired :: "thread_t \<Rightarrow> bool" where
  "expired th \<longleftrightarrow> sint (curr_time_quantum th - (curr_time_quantum_ticks_passed th + 1)) \<le> 0"

text \<open>The abstract tick: wake who is due, age every hundred ticks, preempt when the quantum is used up.\<close>

definition tick_queues :: "sched \<Rightarrow> (nat \<Rightarrow> nat list) \<Rightarrow> nat list \<Rightarrow> nat \<Rightarrow> nat list" where
  "tick_queues s qs sl =
     (let q = wake (\<lambda>u. priority (threads s u)) (takeWhile (\<lambda>u. wakeup_time (threads s u) \<le> g_time_tick s) sl) qs
      in if unat (g_time_tick s) mod 100 = 0 then aged_queues q else q)"

definition tick_ready :: "sched \<Rightarrow> (nat \<Rightarrow> nat list) \<Rightarrow> nat list \<Rightarrow> nat \<Rightarrow> nat list" where
  "tick_ready s qs sl =
     (let c = g_current_thread s; th = threads s c; q = tick_queues s qs sl
      in if tid th = 0 then q else q(priority th := q (priority th) @ [c]))"

definition tick_spec :: "sched \<Rightarrow> (nat \<Rightarrow> nat list) \<Rightarrow> nat list \<Rightarrow> nat \<times> (nat \<Rightarrow> nat list)" where
  "tick_spec s qs sl =
     (if expired (threads s (g_current_thread s)) then pick_queues (kernel_idle_task s) (tick_ready s qs sl)
      else (g_current_thread s, tick_queues s qs sl))"

definition still_asleep :: "sched \<Rightarrow> nat list \<Rightarrow> nat list" where
  "still_asleep s sl = dropWhile (\<lambda>u. wakeup_time (threads s u) \<le> g_time_tick s) sl"

lemma tick_before_count:
  assumes inv: "sched_inv s qs sl"
  defines "c \<equiv> g_current_thread s"
  shows "\<exists>s2. do { s \<leftarrow> wake_up_sleeping (timer_tick_get s) s;
          if unat (timer_tick_get s) mod 100 = 0 then do { s \<leftarrow> lock_sched s; s \<leftarrow> sched_apply_aging s; unlock_sched s } else Some s } = Some s2
    \<and> sched_rel s2 (tick_queues s qs sl) (still_asleep s sl) \<and> g_current_thread s2 = c \<and> g_time_tick s2 = g_time_tick s
    \<and> kernel_idle_task s2 = kernel_idle_task s \<and> (threads s2 c)\<lparr>next_thread := 0\<rparr> = (threads s c)\<lparr>next_thread := 0\<rparr>"
proof -
  have c: "c \<notin> set sl" "tstate (threads s c) = THREAD_STATE_RUNNING" "sched_rel s qs sl"
    using inv by (simp_all add: sched_inv_def current_ok_def c_def Let_def)
  let ?q = "wake (\<lambda>u. priority (threads s u)) (takeWhile (\<lambda>u. wakeup_time (threads s u) \<le> g_time_tick s) sl) qs"
  obtain s1 where s1: "wake_up_sleeping (timer_tick_get s) s = Some s1" "sched_rel s1 ?q (still_asleep s sl)"
    "g_current_thread s1 = c" "g_time_tick s1 = g_time_tick s" "kernel_idle_task s1 = kernel_idle_task s"
    "(threads s1 c)\<lparr>next_thread := 0\<rparr> = (threads s c)\<lparr>next_thread := 0\<rparr>"
    using wake_up_rel [OF c(3), of "timer_tick_get s"] c(1) by (auto simp: timer_tick_get_def still_asleep_def c_def)
  have run: "tstate (threads s1 c) \<noteq> THREAD_STATE_READY" using arg_cong [OF s1(6), of tstate] c(2) by simp
  show ?thesis
  proof (cases "unat (g_time_tick s) mod 100 = 0")
    case False
    then have "tick_queues s qs sl = ?q" by (simp add: tick_queues_def Let_def)
    then show ?thesis using s1 False by (simp add: timer_tick_get_def)
  next
    case True
    then have "tick_queues s qs sl = aged_queues ?q" by (simp add: tick_queues_def Let_def)
    then show ?thesis using s1 True age_stage [OF s1(2)] run by (auto simp: timer_tick_get_def)
  qed
qed

lemma not_expired: "\<not> expired th \<Longrightarrow> curr_time_quantum_ticks_passed th < curr_time_quantum th \<Longrightarrow> unat (curr_time_quantum th) \<le> 200
  \<Longrightarrow> curr_time_quantum_ticks_passed th + 1 < curr_time_quantum th"
proof -
  assume a: "\<not> expired th" "curr_time_quantum_ticks_passed th < curr_time_quantum th" "unat (curr_time_quantum th) \<le> 200"
  then have u: "unat (curr_time_quantum_ticks_passed th + 1) = unat (curr_time_quantum_ticks_passed th) + 1"
    by (simp add: word_less_nat_alt unat_word_ariths)
  have "curr_time_quantum_ticks_passed th + 1 \<noteq> curr_time_quantum th" using a(1) by (auto simp: expired_def)
  then show ?thesis using a(2) u unfolding word_less_nat_alt by (metis Suc_eq_plus1 Suc_lessI word_unat_eq_iff)
qed

lemma tick_rel:
  assumes inv: "sched_inv s qs sl"
  defines "c \<equiv> g_current_thread s"
  shows "\<exists>s'. sched_on_timer_tick s = Some s' \<and> sched_inv s' (snd (tick_spec s qs sl)) (still_asleep s sl)
    \<and> g_current_thread s' = fst (tick_spec s qs sl) \<and> g_time_tick s' = g_time_tick s \<and> kernel_idle_task s' = kernel_idle_task s
    \<and> (\<not> expired (threads s c) \<longrightarrow> curr_time_quantum_ticks_passed (threads s' c) = curr_time_quantum_ticks_passed (threads s c) + 1
         \<and> curr_time_quantum (threads s' c) = curr_time_quantum (threads s c) \<and> tid (threads s' c) = tid (threads s c))
    \<and> (expired (threads s c) \<and> first_queue (tick_ready s qs sl) \<noteq> None \<longrightarrow> tid (threads s' (g_current_thread s')) \<noteq> 0)"
proof -
  let ?q = "tick_queues s qs sl" and ?sl = "still_asleep s sl"
  have c: "c \<noteq> 0" "c \<notin> set sl" "tstate (threads s c) = THREAD_STATE_RUNNING"
    "tid (threads s c) \<noteq> 0 \<Longrightarrow> priority (threads s c) < 4 \<and> curr_time_quantum_ticks_passed (threads s c) < curr_time_quantum (threads s c)
      \<and> unat (curr_time_quantum (threads s c)) \<le> 200"
    using inv by (simp_all add: sched_inv_def current_ok_def c_def Let_def)
  obtain s2 where s2: "do { s \<leftarrow> wake_up_sleeping (timer_tick_get s) s;
          if unat (timer_tick_get s) mod 100 = 0 then do { s \<leftarrow> lock_sched s; s \<leftarrow> sched_apply_aging s; unlock_sched s } else Some s } = Some s2"
    "sched_rel s2 ?q ?sl" "g_current_thread s2 = c" "g_time_tick s2 = g_time_tick s" "kernel_idle_task s2 = kernel_idle_task s"
    "(threads s2 c)\<lparr>next_thread := 0\<rparr> = (threads s c)\<lparr>next_thread := 0\<rparr>"
    using tick_before_count [OF inv] by (auto simp: c_def)
  have th: "tid (threads s2 c) = tid (threads s c)" "tstate (threads s2 c) = THREAD_STATE_RUNNING" "priority (threads s2 c) = priority (threads s c)"
    "curr_time_quantum_ticks_passed (threads s2 c) = curr_time_quantum_ticks_passed (threads s c)"
    "curr_time_quantum (threads s2 c) = curr_time_quantum (threads s c)"
    using arg_cong [OF s2(6), of tid] arg_cong [OF s2(6), of tstate] arg_cong [OF s2(6), of priority]
      arg_cong [OF s2(6), of curr_time_quantum_ticks_passed] arg_cong [OF s2(6), of curr_time_quantum] c(3) by simp_all
  let ?s3 = "upd_thread c (\<lambda>th. th\<lparr>rt_ticks := rt_ticks th + 1, curr_time_quantum_ticks_passed := curr_time_quantum_ticks_passed th + 1\<rparr>) s2"
  have q2: "queues_rel s2 ?q" using s2(2) by (simp add: sched_rel_def)
  have un: "unqueued ?q c" "c \<notin> set ?sl"
    using sleeper_unqueued [OF q2] th(2) c(2) by (auto simp: still_asleep_def dest: set_dropWhileD)
  have cnt: "tid (threads s2 c) \<noteq> 0 \<Longrightarrow> unat (curr_time_quantum_ticks_passed (threads s2 c) + 1) \<le> 200"
    using c(4) th by (simp add: word_less_nat_alt unat_word_ariths)
  have r3: "sched_rel ?s3 ?q ?sl" by (rule count_tick_rel [OF s2(2) un cnt])
  have run: "sched_on_timer_tick s = (if expired (threads s c) then do { s \<leftarrow> sched_enqueue c ?s3; sched_switch_next s } else Some ?s3)"
  proof -
    have "sched_on_timer_tick s = do { s \<leftarrow> do { s \<leftarrow> wake_up_sleeping (timer_tick_get s) s;
          if unat (timer_tick_get s) mod 100 = 0 then do { s \<leftarrow> lock_sched s; s \<leftarrow> sched_apply_aging s; unlock_sched s } else Some s };
          let cur = dispatch_get_current s;
          if cur = 0 \<or> tstate (threads s cur) \<noteq> THREAD_STATE_RUNNING then Some s
          else do {
            let s = upd_thread cur (\<lambda>th. th\<lparr>rt_ticks := rt_ticks th + 1,
                      curr_time_quantum_ticks_passed := curr_time_quantum_ticks_passed th + 1\<rparr>) s;
            let remain_time = curr_time_quantum (threads s cur) - curr_time_quantum_ticks_passed (threads s cur);
            if sint remain_time \<le> 0 then do { s \<leftarrow> sched_enqueue cur s; sched_switch_next s } else Some s } }"
      by (simp add: sched_on_timer_tick_def)
    then show ?thesis unfolding s2(1) using s2(3) c(1) th by (simp add: dispatch_get_current_def Let_def expired_def)
  qed
  show ?thesis
  proof (cases "expired (threads s c)")
    case False
    have "current_ok ?s3 ?q ?sl"
      using c(1,4) un th s2(3) not_expired [OF False] by (auto simp: current_ok_def Let_def)
    then have "sched_inv ?s3 ?q ?sl" using r3 by (simp add: sched_inv_def)
    then show ?thesis using run False s2(3-5) th by (simp add: tick_spec_def Let_def c_def)
  next
    case True
    show ?thesis
    proof (cases "tid (threads s c) = 0")
      case t0: True
      then have "sched_on_timer_tick s = sched_switch_next ?s3" using run True th by (simp add: sched_enqueue_def)
      then show ?thesis using switch_rel [OF r3] True t0 s2(4,5) by (auto simp: tick_spec_def tick_ready_def Let_def c_def)
    next
      case False
      have w: "waiting (threads ?s3 c)" using False c(4) th by (simp add: waiting_def)
      obtain s4 where s4: "sched_enqueue c ?s3 = Some s4" "sched_rel s4 (?q(priority (threads s c) := ?q (priority (threads s c)) @ [c])) ?sl"
        "same_outside {c} ?s3 s4"
        using enqueue_rel [OF r3 c(1) w un] th(3) by auto
      have "sched_on_timer_tick s = sched_switch_next s4" using run True s4(1) by simp
      then show ?thesis using switch_rel [OF s4(2)] True False s4(3) s2(4,5) by (auto simp: tick_spec_def tick_ready_def Let_def c_def same_outside_def)
    qed
  qed
qed

lemma inv_tick:
  assumes "sched_inv s qs sl"
  shows "sched_inv (s\<lparr>g_time_tick := k\<rparr>) qs sl"
proof -
  have "queues_rel (s\<lparr>g_time_tick := k\<rparr>) qs = queues_rel s qs" "sleep_rel (s\<lparr>g_time_tick := k\<rparr>) sl = sleep_rel s sl"
    by (rule rel_cong; simp)+
  then show ?thesis using assms by (simp add: sched_inv_def sched_rel_def current_ok_def)
qed

text \<open>
  C2. The timer interrupt handler implements its abstract counterpart.  From every state in which the
  linked ready queues and the sleeper list represent lists of threads and the current thread has
  time left, a tick of the timer ends in such a state again: the threads that are due are moved in
  order to the ends of the queues of their priorities, every hundredth tick all waiting threads move
  up one queue, and when the current thread has used its quantum it goes to the end of its queue and
  the first thread of the first non-empty queue, or the idle task, runs.
\<close>

theorem timer_tick_refines:
  assumes "sched_inv s qs sl"
  shows "\<exists>s' u. u = s\<lparr>g_time_tick := g_time_tick s + 1\<rparr> \<and> timer_on_tick s = Some s'
    \<and> sched_inv s' (snd (tick_spec u qs sl)) (still_asleep u sl) \<and> g_current_thread s' = fst (tick_spec u qs sl)
    \<and> g_time_tick s' = g_time_tick s + 1"
proof -
  let ?u = "s\<lparr>g_time_tick := g_time_tick s + 1\<rparr>"
  have "sched_inv ?u qs sl" by (rule inv_tick [OF assms])
  then show ?thesis using tick_rel [of ?u qs sl] by (auto simp: timer_on_tick_def)
qed

text \<open>A scheduler with the idle task 1, threads 2 and 3 ready, 4 running and 5 asleep until tick 7.\<close>

definition sched_demo :: sched where
  "sched_demo = \<lparr>threads = (\<lambda>_. zero_thread)
       (2 := zero_thread\<lparr>tid := 1, priority := 1, tstate := THREAD_STATE_READY, next_thread := 3\<rparr>,
        3 := zero_thread\<lparr>tid := 2, priority := 1, tstate := THREAD_STATE_READY\<rparr>,
        4 := zero_thread\<lparr>tid := 3, priority := 1, tstate := THREAD_STATE_RUNNING, curr_time_quantum := 80,
                         curr_time_quantum_ticks_passed := 79\<rparr>,
        5 := zero_thread\<lparr>tid := 4, priority := 2, tstate := THREAD_STATE_BLOCKED, wakeup_time := 7\<rparr>),
     ready_queue_heads = (\<lambda>_. 0)(1 := 2), ready_queue_tails = (\<lambda>_. 0)(1 := 3), kernel_idle_task = 1,
     sched_lock = SPINLOCK_RELEASED, g_current_thread = 4, sleep_queue_head = 5, g_time_tick = 6, interrupts_on = False, tss_kstack = 0\<rparr>"

definition queues_demo :: "nat \<Rightarrow> nat list" where
  "queues_demo = (\<lambda>_. [])(1 := [2, 3])"

lemma sched_demo_inv: "sched_inv sched_demo queues_demo [5]"
proof -
  have "queues_rel sched_demo queues_demo"
    by (simp add: queues_rel_def queues_demo_def queue_def nx_def ready_ok_def sched_demo_def zero_thread_def)
  moreover have "sleep_rel sched_demo [5]"
    by (simp add: sleep_rel_def sleeper_ok_def nxs_def sched_demo_def zero_thread_def)
  moreover have "current_ok sched_demo queues_demo [5]"
    by (simp add: current_ok_def unqueued_def queues_demo_def sched_demo_def zero_thread_def)
  ultimately show ?thesis by (simp add: sched_inv_def sched_rel_def) (simp add: sched_demo_def SPINLOCK_RELEASED_def)
qed

theorem timer_tick_refines_witness:
  "\<exists>s'. timer_on_tick sched_demo = Some s' \<and> g_current_thread s' = 2 \<and> sched_inv s' ((\<lambda>_. [])(1 := [3, 4], 2 := [5])) []"
proof -
  let ?u = "sched_demo\<lparr>g_time_tick := g_time_tick sched_demo + 1\<rparr>"
  have f: "tick_queues ?u queues_demo [5] = queues_demo(2 := [5])" "still_asleep ?u [5] = []"
    by (simp_all add: tick_queues_def still_asleep_def wake_def queues_demo_def sched_demo_def zero_thread_def)
  have "expired (threads ?u (g_current_thread ?u))" by (simp add: expired_def sched_demo_def)
  moreover have "tick_ready ?u queues_demo [5] = (\<lambda>_. [])(1 := [2, 3, 4], 2 := [5])"
    unfolding tick_ready_def f by (auto simp: queues_demo_def sched_demo_def zero_thread_def Let_def)
  moreover have "[0..<4] = [0, 1, 2, 3::nat]" by (simp add: upt_rec)
  ultimately have "tick_spec ?u queues_demo [5] = (2, (\<lambda>_. [])(1 := [3, 4], 2 := [5]))"
    by (simp add: tick_spec_def pick_queues_def first_queue_def fun_upd_twist)
  then show ?thesis using timer_tick_refines [OF sched_demo_inv] f(2) by auto
qed

subsection \<open>The ready queues\<close>

text \<open>
  C12. The ready queues are first-in first-out queues per priority.  On any state whose links
  represent the lists \<open>qs\<close>, enqueueing a thread puts it at the end of the queue of its priority
  with the quantum of that priority, dequeueing takes it out wherever it is and marks it dead, and
  picking takes the first thread of the first non-empty queue, or none and returns the idle task.
  The links represent the new lists afterwards, the scheduler lock is free again and the interrupt
  flag is as it was.
\<close>

theorem ready_queues_are_fifo:
  assumes "sched_rel s qs sl" and "t \<noteq> 0" and "waiting (threads s t)" and "t \<notin> set sl"
  defines "p \<equiv> priority (threads s t)"
  shows "(unqueued qs t \<longrightarrow> (\<exists>s'. sched_enqueue t s = Some s' \<and> interrupts_on s' = interrupts_on s
        \<and> sched_rel s' (qs(p := qs p @ [t])) sl \<and> curr_time_quantum (threads s' t) = of_nat (time_quantums ! p)))
    \<and> (\<exists>s'. sched_dequeue t s = Some s' \<and> interrupts_on s' = interrupts_on s
        \<and> sched_rel s' (qs(p := remove1 t (qs p))) sl \<and> tstate (threads s' t) = THREAD_STATE_DEAD)
    \<and> (\<exists>s'. sched_pick_next s = Some (fst (pick_queues (kernel_idle_task s) qs), s') \<and> interrupts_on s' = interrupts_on s
        \<and> sched_rel s' (snd (pick_queues (kernel_idle_task s) qs)) sl)"
proof (intro conjI impI)
  show "\<exists>s'. sched_enqueue t s = Some s' \<and> interrupts_on s' = interrupts_on s
      \<and> sched_rel s' (qs(p := qs p @ [t])) sl \<and> curr_time_quantum (threads s' t) = of_nat (time_quantums ! p)" if "unqueued qs t"
    using enqueue_rel [OF assms(1-3) that assms(4)] by (auto simp: same_outside_def p_def)
  show "\<exists>s'. sched_dequeue t s = Some s' \<and> interrupts_on s' = interrupts_on s
      \<and> sched_rel s' (qs(p := remove1 t (qs p))) sl \<and> tstate (threads s' t) = THREAD_STATE_DEAD"
    using dequeue_rel [OF assms(1-4)] by (auto simp: same_outside_def p_def)
qed (rule pick_rel [OF assms(1)])

theorem ready_queues_are_fifo_witness:
  "\<exists>s'. sched_dequeue 2 sched_demo = Some s' \<and> sched_rel s' ((\<lambda>_. [])(1 := [3])) [5] \<and> tstate (threads s' 2) = THREAD_STATE_DEAD"
proof -
  have rel: "sched_rel sched_demo queues_demo [5]" using sched_demo_inv by (simp add: sched_inv_def)
  have h: "(2::nat) \<noteq> 0" "waiting (threads sched_demo 2)" "2 \<notin> set [5::nat]"
    by (simp_all add: sched_demo_def zero_thread_def waiting_def)
  have p: "priority (threads sched_demo 2) = 1" by (simp add: sched_demo_def)
  have q: "queues_demo(1 := remove1 2 (queues_demo 1)) = (\<lambda>_. [])(1 := [3])" by (simp add: queues_demo_def)
  show ?thesis using ready_queues_are_fifo [OF rel h] unfolding p q by blast
qed

subsection \<open>Progress\<close>

fun ticks :: "nat \<Rightarrow> sched \<Rightarrow> sched option" where
  "ticks 0 s = Some s"
| "ticks (Suc n) s = do { s \<leftarrow> timer_on_tick s; ticks n s }"

lemma ticks_add: "ticks m s = Some s' \<Longrightarrow> ticks n s' = Some s'' \<Longrightarrow> ticks (m + n) s = Some s''"
  by (induction m arbitrary: s) (auto split: Option.bind_splits)

lemma wake_extends: "\<exists>ys. wake pr ts qs p = qs p @ ys"
proof (induction ts arbitrary: qs)
  case (Cons t ts)
  then obtain ys where "wake pr ts (qs(pr t := qs (pr t) @ [t])) p = (qs(pr t := qs (pr t) @ [t])) p @ ys" by blast
  then show ?case by (cases "p = pr t") (auto simp: wake_def)
qed (simp add: wake_def)

text \<open>After a tick a waiting thread is in its queue or, every hundredth tick, in the one above it.\<close>

lemma tick_queues_keep:
  assumes "t \<in> set (qs p)" and "p < 4"
  shows "t \<in> set (tick_queues s qs sl (if unat (g_time_tick s) mod 100 = 0 then p - 1 else p))"
    "\<exists>ys. tick_queues s qs sl 0 = qs 0 @ ys"
proof -
  let ?w = "wake (\<lambda>u. priority (threads s u)) (takeWhile (\<lambda>u. wakeup_time (threads s u) \<le> g_time_tick s) sl) qs"
  have w: "t \<in> set (?w p)" using wake_extends [of _ _ qs p] assms(1) by (metis UnCI set_append)
  obtain ys where y: "?w 0 = qs 0 @ ys" using wake_extends by blast
  have a: "t \<in> set (aged_queues ?w (p - 1))"
  proof -
    consider "p = 0" | "p = 1" | "p = 2" | "p = 3" using assms(2) by linarith
    then show ?thesis using w by cases (auto simp: aged_queues_def)
  qed
  show "t \<in> set (tick_queues s qs sl (if unat (g_time_tick s) mod 100 = 0 then p - 1 else p))"
    using w a by (simp add: tick_queues_def Let_def)
  show "\<exists>ys. tick_queues s qs sl 0 = qs 0 @ ys"
    using y by (auto simp: tick_queues_def Let_def aged_queues_def)
qed

lemma tick_ready_extends: "\<exists>ys. tick_ready s qs sl p = tick_queues s qs sl p @ ys"
  by (cases "p = priority (threads s (g_current_thread s))") (auto simp: tick_ready_def Let_def)

lemma pick_keeps:
  assumes "t \<in> set (qs p)" and "p < 4"
  shows "first_queue qs \<noteq> None" "fst (pick_queues i qs) = t \<or> t \<in> set (snd (pick_queues i qs) p)"
proof -
  show n: "first_queue qs \<noteq> None" using assms by (auto simp: first_queue_def find_None_iff)
  then obtain q where q: "first_queue qs = Some q" by blast
  show "fst (pick_queues i qs) = t \<or> t \<in> set (snd (pick_queues i qs) p)"
    using first_queue_Some [OF q] q assms(1) by (cases "qs q") (auto simp: pick_queues_def)
qed

lemma pick_first_queue: "qs 0 = x # xs \<Longrightarrow> pick_queues i qs = (x, qs(0 := xs))"
proof -
  assume x: "qs 0 = x # xs"
  then have "first_queue qs = Some 0" by (simp add: first_queue_def upt_rec)
  then show ?thesis using x by (simp add: pick_queues_def)
qed

text \<open>The idle task and the boot thread are preempted at once.\<close>

definition preemptible :: "sched \<Rightarrow> bool" where
  "preemptible s \<longleftrightarrow> tid (threads s (g_current_thread s)) \<noteq> 0 \<or> expired (threads s (g_current_thread s))"

definition time_left :: "sched \<Rightarrow> nat" where
  "time_left s = unat (curr_time_quantum (threads s (g_current_thread s)) - curr_time_quantum_ticks_passed (threads s (g_current_thread s)))"

lemma tick_progress:
  assumes inv: "sched_inv s qs sl" and pre: "preemptible s" and t: "t \<in> set (qs p)" "p < 4"
  defines "now \<equiv> g_time_tick s + 1"
  shows "\<exists>s' qs' sl'. timer_on_tick s = Some s' \<and> sched_inv s' qs' sl' \<and> preemptible s' \<and> g_time_tick s' = now
    \<and> (g_current_thread s' = t \<or> t \<in> set (qs' (if unat now mod 100 = 0 then p - 1 else p))
      \<and> (\<forall>xs ys. qs 0 = xs @ t # ys \<longrightarrow> (\<exists>zs. qs' 0 = xs @ t # zs \<and> time_left s' < time_left s) \<or> (\<exists>zs. xs \<noteq> [] \<and> qs' 0 = tl xs @ t # zs)))"
proof -
  let ?u = "s\<lparr>g_time_tick := now\<rparr>" and ?c = "g_current_thread s"
  let ?p = "if unat now mod 100 = 0 then p - 1 else p"
  have iu: "sched_inv ?u qs sl" by (rule inv_tick [OF inv])
  obtain s' where s': "timer_on_tick s = Some s'" "sched_inv s' (snd (tick_spec ?u qs sl)) (still_asleep ?u sl)"
    "g_current_thread s' = fst (tick_spec ?u qs sl)" "g_time_tick s' = now"
    "\<not> expired (threads s ?c) \<longrightarrow> curr_time_quantum_ticks_passed (threads s' ?c) = curr_time_quantum_ticks_passed (threads s ?c) + 1
       \<and> curr_time_quantum (threads s' ?c) = curr_time_quantum (threads s ?c) \<and> tid (threads s' ?c) = tid (threads s ?c)"
    "expired (threads s ?c) \<and> first_queue (tick_ready ?u qs sl) \<noteq> None \<longrightarrow> tid (threads s' (g_current_thread s')) \<noteq> 0"
    using tick_rel [OF iu] by (auto simp: timer_on_tick_def now_def)
  have k: "t \<in> set (tick_queues ?u qs sl ?p)" "\<exists>ys. tick_queues ?u qs sl 0 = qs 0 @ ys" "?p < 4"
    using tick_queues_keep [of t qs p ?u sl] t by (auto split: if_splits)
  show ?thesis
  proof (cases "expired (threads s ?c)")
    case False
    then have sp: "tick_spec ?u qs sl = (?c, tick_queues ?u qs sl)" by (simp add: tick_spec_def)
    have t0: "tid (threads s ?c) \<noteq> 0" using pre False by (simp add: preemptible_def)
    then have lt: "curr_time_quantum_ticks_passed (threads s ?c) < curr_time_quantum (threads s ?c)"
      using inv by (simp add: sched_inv_def current_ok_def Let_def)
    have "time_left s' < time_left s"
    proof -
      let ?d = "curr_time_quantum (threads s ?c) - curr_time_quantum_ticks_passed (threads s ?c)"
      have "?d \<noteq> 0" using lt by auto
      then have "unat (?d - 1) < unat ?d" by (metis measure_unat)
      then show ?thesis using s'(3,5) False sp by (simp add: time_left_def diff_diff_eq add.commute)
    qed
    moreover have "preemptible s'" using t0 s'(3,5) False sp by (simp add: preemptible_def)
    ultimately show ?thesis
      using s' sp k(1,2) by (intro exI [of _ s'] exI [of _ "tick_queues ?u qs sl"] exI [of _ "still_asleep ?u sl"]) auto
  next
    case True
    let ?r = "tick_ready ?u qs sl"
    have sp: "tick_spec ?u qs sl = pick_queues (kernel_idle_task s) ?r" using True by (simp add: tick_spec_def)
    obtain zs where z: "?r ?p = tick_queues ?u qs sl ?p @ zs" using tick_ready_extends by blast
    obtain z0 where z0: "?r 0 = tick_queues ?u qs sl 0 @ z0" using tick_ready_extends by blast
    have tr: "t \<in> set (?r ?p)" using k(1) by (simp add: z)
    have pk: "first_queue ?r \<noteq> None" "fst (pick_queues (kernel_idle_task s) ?r) = t \<or> t \<in> set (snd (pick_queues (kernel_idle_task s) ?r) ?p)"
      using pick_keeps [of t ?r ?p] tr k(3) by blast+
    have "preemptible s'" using s'(6) True pk(1) by (simp add: preemptible_def)
    moreover have "g_current_thread s' = t \<or> xs \<noteq> [] \<and> (\<exists>zs. snd (tick_spec ?u qs sl) 0 = tl xs @ t # zs)" if "qs 0 = xs @ t # ys" for xs ys
    proof -
      obtain y0 where "tick_queues ?u qs sl 0 = qs 0 @ y0" using k(2) by blast
      then have r0: "?r 0 = xs @ t # ys @ y0 @ z0" using that z0 by simp
      show ?thesis
      proof (cases xs)
        case Nil
        then show ?thesis using s'(3) sp pick_first_queue [of ?r t "ys @ y0 @ z0" "kernel_idle_task s"] r0 by simp
      next
        case (Cons x xs')
        then show ?thesis using sp pick_first_queue [of ?r x "xs' @ t # ys @ y0 @ z0" "kernel_idle_task s"] r0 by simp
      qed
    qed
    ultimately show ?thesis
      using s'(1-4) sp pk(2) by (intro exI [of _ s'] exI [of _ "snd (tick_spec ?u qs sl)"] exI [of _ "still_asleep ?u sl"]) auto
  qed
qed

definition runs_later :: "nat \<Rightarrow> sched \<Rightarrow> bool" where
  "runs_later t s \<longleftrightarrow> (\<exists>n s'. ticks n s = Some s' \<and> g_current_thread s' = t)"

lemma runs_now: "g_current_thread s = t \<Longrightarrow> runs_later t s"
  unfolding runs_later_def by (intro exI [of _ 0] exI [of _ s]) simp

lemma runs_step: "timer_on_tick s = Some s' \<Longrightarrow> runs_later t s' \<Longrightarrow> runs_later t s"
proof -
  assume s: "timer_on_tick s = Some s'" and "runs_later t s'"
  then obtain n s'' where "ticks n s' = Some s''" "g_current_thread s'' = t" by (auto simp: runs_later_def)
  then show ?thesis unfolding runs_later_def using s by (intro exI [of _ "Suc n"] exI [of _ s'']) simp
qed

lemma front_runs:
  assumes "sched_inv s qs sl" and "preemptible s" and "qs 0 = xs @ t # ys"
  shows "runs_later t s"
  using assms
proof (induction "length xs * 2 ^ 32 + time_left s" arbitrary: s qs sl xs ys rule: less_induct)
  case less
  have t: "t \<in> set (qs 0)" using less.prems(3) by simp
  obtain s' qs' sl' where s': "timer_on_tick s = Some s'" "sched_inv s' qs' sl'" "preemptible s'"
    and g: "g_current_thread s' = t \<or> (\<exists>zs. qs' 0 = xs @ t # zs \<and> time_left s' < time_left s) \<or> (\<exists>zs. xs \<noteq> [] \<and> qs' 0 = tl xs @ t # zs)"
    using tick_progress [OF less.prems(1,2), of t 0] t less.prems(3) by auto
  have "runs_later t s'"
  proof -
    consider "g_current_thread s' = t" | zs where "qs' 0 = xs @ t # zs" "time_left s' < time_left s"
      | zs where "xs \<noteq> []" "qs' 0 = tl xs @ t # zs" using g by blast
    then show ?thesis
    proof cases
      case 1
      then show ?thesis by (rule runs_now)
    next
      case (2 zs)
      then show ?thesis by (intro less.hyps [OF _ s'(2,3)]) simp_all
    next
      case (3 zs)
      have "time_left s' < 2 ^ 32" unfolding time_left_def by (rule u32_bound)
      then have "length (tl xs) * 2 ^ 32 + time_left s' < length xs * 2 ^ 32 + time_left s" using 3(1) by (cases xs) auto
      then show ?thesis by (rule less.hyps [OF _ s'(2,3) 3(2)])
    qed
  qed
  then show ?case by (rule runs_step [OF s'(1)])
qed

lemma queued_runs:
  assumes "sched_inv s qs sl" and "preemptible s" and "t \<in> set (qs p)" and "p < 4"
  shows "runs_later t s"
  using assms
proof (induction "p * 101 + (100 - unat (g_time_tick s) mod 100)" arbitrary: s qs sl p rule: less_induct)
  case less
  show ?case
  proof (cases "p = 0")
    case True
    then obtain xs ys where "qs 0 = xs @ t # ys" using less.prems(3) by (auto simp: in_set_conv_decomp)
    then show ?thesis by (rule front_runs [OF less.prems(1,2)])
  next
    case False
    let ?now = "g_time_tick s + 1"
    obtain s' qs' sl' where s': "timer_on_tick s = Some s'" "sched_inv s' qs' sl'" "preemptible s'" "g_time_tick s' = ?now"
      and g: "g_current_thread s' = t \<or> t \<in> set (qs' (if unat ?now mod 100 = 0 then p - 1 else p))"
      using tick_progress [OF less.prems] by blast
    have "runs_later t s'"
    proof (cases "g_current_thread s' = t")
      case True
      then show ?thesis by (rule runs_now)
    next
      case nt: False
      show ?thesis
      proof (cases "unat ?now mod 100 = 0")
        case True
        then have "(p - 1) * 101 + (100 - unat (g_time_tick s') mod 100) < p * 101 + (100 - unat (g_time_tick s) mod 100)"
          using s'(4) False by (cases p) (auto simp: less_imp_diff_less)
        moreover have "t \<in> set (qs' (p - 1))" "p - 1 < 4" using g nt True less.prems(4) by simp_all
        ultimately show ?thesis by (rule less.hyps [OF _ s'(2,3)])
      next
        case no: False
        then have "unat ?now \<noteq> 0" by auto
        then have "unat (g_time_tick s) + 1 \<noteq> 2 ^ 32" by (auto simp: unat_word_ariths)
        then have "unat (g_time_tick s) + 1 < 2 ^ 32" using u32_bound [of "g_time_tick s"] by linarith
        then have u: "unat ?now = unat (g_time_tick s) + 1" by (simp add: unat_word_ariths)
        have "unat (g_time_tick s) mod 100 \<noteq> 99" using no u by (auto simp: mod_Suc)
        then have "p * 101 + (100 - unat (g_time_tick s') mod 100) < p * 101 + (100 - unat (g_time_tick s) mod 100)"
          using s'(4) u by (auto simp: mod_Suc)
        moreover have "t \<in> set (qs' p)" using g nt no by simp
        ultimately show ?thesis using less.prems(4) by (intro less.hyps [OF _ s'(2,3)])
      qed
    qed
    then show ?thesis by (rule runs_step [OF s'(1)])
  qed
qed

text \<open>
  C8. No ready thread starves.  If the current thread is an ordinary thread, or the boot or idle
  thread with its quantum used up, then every thread in a ready queue, of any priority, becomes the
  current thread after finitely many timer ticks, whatever other threads are ready or wake up in the
  meantime.
\<close>

theorem ready_thread_runs:
  assumes "sched_inv s qs sl" and "preemptible s" and "t \<in> set (qs p)" and "p < 4"
  shows "\<exists>n s'. ticks n s = Some s' \<and> g_current_thread s' = t"
  using queued_runs [OF assms] by (simp add: runs_later_def)

theorem ready_thread_runs_witness:
  "\<exists>n s'. ticks n sched_demo = Some s' \<and> g_current_thread s' = 3"
proof -
  have p: "preemptible sched_demo" by (simp add: preemptible_def sched_demo_def)
  have q: "3 \<in> set (queues_demo 1)" "(1::nat) < 4" by (simp_all add: queues_demo_def)
  show ?thesis by (rule ready_thread_runs [OF sched_demo_inv p q])
qed

subsection \<open>Sleeping\<close>

lemma sorted_while:
  assumes "sorted (map k xs)"
  shows "takeWhile (\<lambda>u. k u \<le> (now::u32)) xs = filter (\<lambda>u. k u \<le> now) xs" "dropWhile (\<lambda>u. k u \<le> now) xs = filter (\<lambda>u. now < k u) xs"
proof -
  let ?a = "takeWhile (\<lambda>u. k u \<le> now) xs" and ?b = "dropWhile (\<lambda>u. k u \<le> now) xs"
  note s = sorted_split [OF assms, of now]
  have "filter (\<lambda>u. k u \<le> now) ?a = ?a" "filter (\<lambda>u. now < k u) ?b = ?b" using s by (simp_all only: filter_id_conv)
  moreover have "filter (\<lambda>u. k u \<le> now) ?b = []" "filter (\<lambda>u. now < k u) ?a = []"
    using s by (simp_all only: filter_empty_conv not_less not_le)
  ultimately have "filter (\<lambda>u. k u \<le> now) (?a @ ?b) = ?a" "filter (\<lambda>u. now < k u) (?a @ ?b) = ?b"
    unfolding filter_append by (simp_all only: append_Nil append_Nil2)
  then show "?a = filter (\<lambda>u. k u \<le> now) xs" "?b = filter (\<lambda>u. now < k u) xs" by simp_all
qed

text \<open>
  C17. Sleepers wake up on time and in order.  Putting a thread to sleep inserts it in the list behind
  all that wake up no later, and the list stays sorted.  Waking up at tick \<open>now\<close> terminates: it
  moves exactly the threads whose time has come to the queues of their priorities, earliest first,
  and leaves the others asleep.
\<close>

theorem sleepers_wake_in_order:
  assumes "sched_rel s qs sl" and "t \<noteq> 0" and "t \<notin> set sl" and "sleeper_ok (threads s t)"
  shows "\<exists>s'. enqueue_sleeper t w s = Some s' \<and> sched_rel s' qs (sleep_insert (\<lambda>u. wakeup_time (threads s u)) t w sl)
    \<and> (\<exists>s''. wake_up_sleeping now s' = Some s''
        \<and> sched_rel s'' (wake (\<lambda>u. priority (threads s' u))
              (filter (\<lambda>u. wakeup_time (threads s' u) \<le> now) (sleep_insert (\<lambda>u. wakeup_time (threads s u)) t w sl)) qs)
            (filter (\<lambda>u. now < wakeup_time (threads s' u)) (sleep_insert (\<lambda>u. wakeup_time (threads s u)) t w sl)))"
proof -
  let ?sl = "sleep_insert (\<lambda>u. wakeup_time (threads s u)) t w sl"
  obtain s' where s': "enqueue_sleeper t w s = Some s'" "sched_rel s' qs ?sl"
    using enqueue_sleeper_rel [OF assms, of w] by blast
  have srt: "sorted (map (\<lambda>u. wakeup_time (threads s' u)) ?sl)" using s'(2) by (simp add: sched_rel_def sleep_rel_def)
  have "takeWhile (\<lambda>u. wakeup_time (threads s' u) \<le> now) ?sl = filter (\<lambda>u. wakeup_time (threads s' u) \<le> now) ?sl"
    "dropWhile (\<lambda>u. wakeup_time (threads s' u) \<le> now) ?sl = filter (\<lambda>u. now < wakeup_time (threads s' u)) ?sl"
    by (rule sorted_while [OF srt])+
  then show ?thesis using wake_up_rel [OF s'(2), of now] s' by auto
qed

theorem sleepers_wake_in_order_witness:
  "\<exists>s' s''. enqueue_sleeper 4 9 sched_demo = Some s' \<and> wake_up_sleeping 8 s' = Some s''
    \<and> sched_rel s'' (wake (\<lambda>u. priority (threads s' u)) (filter (\<lambda>u. wakeup_time (threads s' u) \<le> 8) [5, 4]) queues_demo)
        (filter (\<lambda>u. 8 < wakeup_time (threads s' u)) [5, 4])"
proof -
  have rel: "sched_rel sched_demo queues_demo [5]" using sched_demo_inv by (simp add: sched_inv_def)
  have h: "(4::nat) \<noteq> 0" "4 \<notin> set [5::nat]" "sleeper_ok (threads sched_demo 4)"
    by (simp_all add: sleeper_ok_def sched_demo_def zero_thread_def)
  have i: "sleep_insert (\<lambda>u. wakeup_time (threads sched_demo u)) 4 9 [5] = [5, 4]"
    by (simp add: sleep_insert_def sched_demo_def)
  show ?thesis using sleepers_wake_in_order [OF rel h, of 9 8] unfolding i by blast
qed

subsection \<open>What the code gets wrong\<close>

text \<open>
  \<^verbatim>\<open>TIMER_TICK_MS\<close> has no parentheses, so that sleeping for less than a thousand seconds means not
  sleeping at all.
\<close>

lemma sys_sleep_too_short:
  assumes "unat seconds < 1000"
  shows "sys_sleep_ticks seconds = 0"
proof -
  have "unat (seconds * 1000) = unat seconds * 1000" using assms by (simp add: unat_word_ariths)
  then have "unat (sys_sleep_ticks seconds) = 0" using assms by (simp add: sys_sleep_ticks_def unat_div TIMER_HZ_def)
  then show ?thesis by (simp add: unat_eq_zero)
qed

text \<open>Enqueueing a thread that already is the last of its queue links it to itself.\<close>

lemma enqueue_twice_cycle:
  assumes "t \<noteq> 0" and "waiting (threads s t)" and "lock_val (sched_lock s) = 0" and "ready_queue_tails s (priority (threads s t)) = t"
  shows "\<exists>s'. sched_enqueue t s = Some s' \<and> next_thread (threads s' t) = t"
  using assms unlock_sched_held [of _ s]
  by (simp add: sched_enqueue_def lock_sched_free waiting_def Let_def THREAD_NUM_PRIORITIES_def)

text \<open>
  Releasing the condition lock before the lock of the wait queue, as \<^verbatim>\<open>wait_on_queue\<close> does, turns
  interrupts back on while the lock of the queue is held.
\<close>

lemma wait_releases_in_wrong_order:
  assumes "lock_val c = 0" and "lock_val q = 0"
  shows "\<exists>c1 q1 c2. spinlock_acquire (c, True) = Some (c1, False) \<and> spinlock_acquire (q, False) = Some (q1, False)
    \<and> spinlock_release (c1, False) = Some (c2, True) \<and> lock_val q1 = 1"
  using spinlock_acquire_free [OF assms(1)] spinlock_acquire_free [OF assms(2)] spinlock_release_held [of c True False]
  by (simp add: held_def)

text \<open>The idle task is never given a new quantum, and after \<open>2 ^ 31\<close> ticks counts as having time left.\<close>

lemma idle_not_preempted:
  assumes "curr_time_quantum th = 0" and "unat (curr_time_quantum_ticks_passed th) = 2 ^ 31"
  shows "\<not> expired th"
proof -
  have "curr_time_quantum_ticks_passed th = 2 ^ 31" using assms(2) by (simp add: word_unat_eq_iff)
  then show ?thesis using assms(1) by (simp add: expired_def)
qed

end
