(* ===== verification/Stdio.thy ===== *)
theory Stdio
  imports KString
begin

unbundle bit_operations_syntax

text \<open>
  Formatted output, \<^verbatim>\<open>kernel/src/klib/stdio.c\<close>. The output function is a parameter that takes a character and
  the state of the output and may fail; the arguments behind the format are a list of 32-bit values
  (\<^verbatim>\<open>int\<close>, \<^verbatim>\<open>long\<close> and their unsigned versions), 64-bit values and strings. Reading an argument
  that is not there, or of another size, is \<open>None\<close>.
\<close>

subsection \<open>Output\<close>

definition output_string :: "(u8 \<Rightarrow> 's \<Rightarrow> 's option) \<Rightarrow> u8 list \<Rightarrow> 's \<Rightarrow> 's option" where
  "output_string putc_fn str s = fold (\<lambda>c r. do { s \<leftarrow> r; putc_fn c s }) str (Some s)"

definition g_hex_chars :: "u8 list" where
  "g_hex_chars = [0x30, 0x31, 0x32, 0x33, 0x34, 0x35, 0x36, 0x37, 0x38, 0x39, 0x61, 0x62, 0x63, 0x64, 0x65, 0x66]"

text \<open>The digits, lowest first, as the loop stores them.\<close>

function unsigned_digits :: "nat \<Rightarrow> nat \<Rightarrow> u8 list" where
  "unsigned_digits number radix =
     (g_hex_chars ! (number mod radix)) # (if 2 \<le> radix \<and> number div radix > 0 then unsigned_digits (number div radix) radix else [])"
  by auto
termination
  by (relation "measure fst") (auto intro!: div_less_dividend intro: gr0I)

definition output_unsigned :: "(u8 \<Rightarrow> 's \<Rightarrow> 's option) \<Rightarrow> u64 \<Rightarrow> nat \<Rightarrow> 's \<Rightarrow> 's option" where
  "output_unsigned putc_fn number radix s =
     (let buffer = unsigned_digits (unat number) radix; pos = length buffer
      in if pos \<ge> 32 then Some s else output_string putc_fn (rev buffer) s)"

definition output_signed :: "(u8 \<Rightarrow> 's \<Rightarrow> 's option) \<Rightarrow> u64 \<Rightarrow> nat \<Rightarrow> 's \<Rightarrow> 's option" where
  "output_signed putc_fn number radix s =
     (if sint number < 0 then do { s \<leftarrow> putc_fn 0x2D s; output_unsigned putc_fn (- number) radix s }
      else output_unsigned putc_fn number radix s)"

datatype PrintfLength = PRINTF_LENGTH_DEFAULT | PRINTF_LENGTH_SHORT | PRINTF_LENGTH_SHORT_SHORT | PRINTF_LENGTH_LONG | PRINTF_LENGTH_LONG_LONG

datatype PrintfState = PRINTF_STATE_NORMAL | PRINTF_STATE_LENGTH | PRINTF_STATE_LENGTH_LONG | PRINTF_STATE_LENGTH_SHORT | PRINTF_STATE_SPECIFIER

datatype printf_arg = Arg32 u32 | Arg64 u64 | ArgStr "u8 list"

text \<open>A number argument of the given length, widened to 64 bits with or without its sign.\<close>

fun number_arg :: "PrintfLength \<Rightarrow> bool \<Rightarrow> printf_arg list \<Rightarrow> (u64 \<times> printf_arg list) option" where
  "number_arg PRINTF_LENGTH_LONG_LONG sg (Arg64 v # args) = Some (v, args)"
| "number_arg PRINTF_LENGTH_LONG_LONG sg _ = None"
| "number_arg _ sg (Arg32 v # args) = Some (if sg then scast v else ucast v, args)"
| "number_arg _ sg _ = None"

definition output_number ::
  "(u8 \<Rightarrow> 's \<Rightarrow> 's option) \<Rightarrow> PrintfLength \<Rightarrow> bool \<Rightarrow> nat \<Rightarrow> printf_arg list \<Rightarrow> 's \<Rightarrow> (printf_arg list \<times> 's) option" where
  "output_number putc_fn len sg radix args s =
     do { (v, args) \<leftarrow> number_arg len sg args;
          s \<leftarrow> (if sg then output_signed putc_fn v radix s else output_unsigned putc_fn v radix s);
          Some (args, s) }"

text \<open>A conversion: the new arguments, the number of characters counted, and the state.\<close>

definition printf_specifier ::
  "(u8 \<Rightarrow> 's \<Rightarrow> 's option) \<Rightarrow> PrintfLength \<Rightarrow> u8 \<Rightarrow> printf_arg list \<Rightarrow> 's \<Rightarrow> (printf_arg list \<times> nat \<times> 's) option" where
  "printf_specifier putc_fn len c args s =
     (if c = 0x78 \<or> c = 0x58 \<or> c = 0x70 then do { (args, s) \<leftarrow> output_number putc_fn len False 16 args s; Some (args, 0, s) }
      else if c = 0x64 \<or> c = 0x69 then do { (args, s) \<leftarrow> output_number putc_fn len True 10 args s; Some (args, 0, s) }
      else if c = 0x75 then do { (args, s) \<leftarrow> output_number putc_fn len False 10 args s; Some (args, 0, s) }
      else if c = 0x6F then do { (args, s) \<leftarrow> output_number putc_fn len False 8 args s; Some (args, 0, s) }
      else if c = 0x73
      then (case args of ArgStr str # args \<Rightarrow> do { s \<leftarrow> output_string putc_fn str s; Some (args, 0, s) } | _ \<Rightarrow> None)
      else if c = 0x63 then (case args of Arg32 v # args \<Rightarrow> do { s \<leftarrow> putc_fn (ucast v) s; Some (args, 1, s) } | _ \<Rightarrow> None)
      else if c = 0x25 then do { s \<leftarrow> putc_fn 0x25 s; Some (args, 1, s) }
      else do { s \<leftarrow> putc_fn 0x25 s; s \<leftarrow> putc_fn c s; Some (args, 2, s) })"

text \<open>\<^verbatim>\<open>format--\<close> looks at the same character again in another state.\<close>

fun state_rank :: "PrintfState \<Rightarrow> nat" where
  "state_rank PRINTF_STATE_LENGTH = 2"
| "state_rank PRINTF_STATE_LENGTH_LONG = 1"
| "state_rank PRINTF_STATE_LENGTH_SHORT = 1"
| "state_rank _ = 0"

function (sequential) vprintf_core ::
  "(u8 \<Rightarrow> 's \<Rightarrow> 's option) \<Rightarrow> PrintfState \<Rightarrow> PrintfLength \<Rightarrow> u8 list \<Rightarrow> printf_arg list \<Rightarrow> nat \<Rightarrow> 's \<Rightarrow> (nat \<times> 's) option" where
  "vprintf_core putc_fn st len [] args n s = Some (n, s)"
| "vprintf_core putc_fn PRINTF_STATE_NORMAL len (c # fmt) args n s =
     (if c = 0x25 then vprintf_core putc_fn PRINTF_STATE_LENGTH PRINTF_LENGTH_DEFAULT fmt args n s
      else (case putc_fn c s of None \<Rightarrow> None | Some s \<Rightarrow> vprintf_core putc_fn PRINTF_STATE_NORMAL len fmt args (n + 1) s))"
| "vprintf_core putc_fn PRINTF_STATE_LENGTH len (c # fmt) args n s =
     (if c = 0x6C then vprintf_core putc_fn PRINTF_STATE_LENGTH_LONG PRINTF_LENGTH_LONG fmt args n s
      else if c = 0x68 then vprintf_core putc_fn PRINTF_STATE_LENGTH_SHORT PRINTF_LENGTH_SHORT fmt args n s
      else vprintf_core putc_fn PRINTF_STATE_SPECIFIER len (c # fmt) args n s)"
| "vprintf_core putc_fn PRINTF_STATE_LENGTH_LONG len (c # fmt) args n s =
     (if c = 0x6C then vprintf_core putc_fn PRINTF_STATE_SPECIFIER PRINTF_LENGTH_LONG_LONG fmt args n s
      else vprintf_core putc_fn PRINTF_STATE_SPECIFIER len (c # fmt) args n s)"
| "vprintf_core putc_fn PRINTF_STATE_LENGTH_SHORT len (c # fmt) args n s =
     (if c = 0x68 then vprintf_core putc_fn PRINTF_STATE_SPECIFIER PRINTF_LENGTH_SHORT_SHORT fmt args n s
      else vprintf_core putc_fn PRINTF_STATE_SPECIFIER len (c # fmt) args n s)"
| "vprintf_core putc_fn PRINTF_STATE_SPECIFIER len (c # fmt) args n s =
     (case printf_specifier putc_fn len c args s of None \<Rightarrow> None
      | Some (args, k, s) \<Rightarrow> vprintf_core putc_fn PRINTF_STATE_NORMAL len fmt args (n + k) s)"
  by pat_completeness auto
termination
  by (relation "measures [\<lambda>(_, _, _, fmt, _). length fmt, \<lambda>(_, st, _). state_rank st]") auto

subsection \<open>Output into a buffer\<close>

record buffer_output_ctx_t =
  ob_mem :: bytes
  ob_buffer :: nat
  ob_size :: u32
  ob_pos :: u32

definition buffer_putc :: "u8 \<Rightarrow> buffer_output_ctx_t \<Rightarrow> buffer_output_ctx_t option" where
  "buffer_putc c ctx =
     (let ctx = (if ob_pos ctx < ob_size ctx - 1 then ctx\<lparr>ob_mem := (ob_mem ctx)(ob_buffer ctx + unat (ob_pos ctx) := c)\<rparr> else ctx)
      in Some (ctx\<lparr>ob_pos := ob_pos ctx + 1\<rparr>))"

definition kvsnprintf :: "nat \<Rightarrow> u32 \<Rightarrow> u8 list \<Rightarrow> printf_arg list \<Rightarrow> bytes \<Rightarrow> (u32 \<times> bytes) option" where
  "kvsnprintf buffer sz format args m =
     (if sz = 0 then Some (0, m)
      else do {
        (_, ctx) \<leftarrow> vprintf_core buffer_putc PRINTF_STATE_NORMAL PRINTF_LENGTH_DEFAULT format args 0
                     \<lparr>ob_mem = m, ob_buffer = buffer, ob_size = sz, ob_pos = 0\<rparr>;
        Some (ob_pos ctx,
              if ob_pos ctx < sz then (ob_mem ctx)(buffer + unat (ob_pos ctx) := 0) else (ob_mem ctx)(buffer + unat (sz - 1) := 0)) })"

definition SIZE_MAX :: u32 where
  "SIZE_MAX = NOT 0"

definition kvsprintf :: "nat \<Rightarrow> u8 list \<Rightarrow> printf_arg list \<Rightarrow> bytes \<Rightarrow> (u32 \<times> bytes) option" where
  "kvsprintf buffer format args m = kvsnprintf buffer SIZE_MAX format args m"

definition ksnprintf :: "nat \<Rightarrow> u32 \<Rightarrow> u8 list \<Rightarrow> printf_arg list \<Rightarrow> bytes \<Rightarrow> (u32 \<times> bytes) option" where
  "ksnprintf buffer sz fmt args m = kvsnprintf buffer sz fmt args m"

definition ksprintf :: "nat \<Rightarrow> u8 list \<Rightarrow> printf_arg list \<Rightarrow> bytes \<Rightarrow> (u32 \<times> bytes) option" where
  "ksprintf buffer fmt args m = kvsprintf buffer fmt args m"

declare unsigned_digits.simps [simp del]

subsection \<open>The text that is printed\<close>

definition snoc :: "u8 \<Rightarrow> u8 list \<Rightarrow> u8 list option" where
  "snoc c out = Some (out @ [c])"

text \<open>What a format prints with the given arguments, \<open>None\<close> when they do not fit.\<close>

definition formatted :: "u8 list \<Rightarrow> printf_arg list \<Rightarrow> u8 list option" where
  "formatted fmt args = map_option snd (vprintf_core snoc PRINTF_STATE_NORMAL PRINTF_LENGTH_DEFAULT fmt args 0 [])"

text \<open>An output function that cannot fail.\<close>

definition total_putc :: "(u8 \<Rightarrow> 's \<Rightarrow> 's) \<Rightarrow> u8 \<Rightarrow> 's \<Rightarrow> 's option" where
  "total_putc f c s = Some (f c s)"

lemma output_string_total [simp]: "output_string (total_putc f) str s = Some (fold f str s)"
  by (induction str arbitrary: s) (simp_all add: output_string_def total_putc_def)

lemma output_unsigned_total: "output_unsigned (total_putc f) v r s
    = Some (fold f (if length (unsigned_digits (unat v) r) \<ge> 32 then [] else rev (unsigned_digits (unat v) r)) s)"
  by (simp add: output_unsigned_def Let_def)

text \<open>One conversion prints the same text whatever the output function is.\<close>

definition spec_text :: "PrintfLength \<Rightarrow> u8 \<Rightarrow> printf_arg list \<Rightarrow> (printf_arg list \<times> nat \<times> u8 list) option" where
  "spec_text len c args = printf_specifier snoc len c args []"

lemma snoc_total: "snoc = total_putc (\<lambda>c out. out @ [c])"
  by (simp add: snoc_def total_putc_def fun_eq_iff)

lemma fold_snoc [simp]: "fold (\<lambda>c out. out @ [c]) xs ys = ys @ xs"
  by (induction xs arbitrary: ys) simp_all

lemma specifier_total:
  "printf_specifier (total_putc f) len c args s = map_option (\<lambda>(args, k, t). (args, k, fold f t s)) (spec_text len c args)"
proof -
  have num: "output_number (total_putc f) len sg r args s
      = map_option (\<lambda>(args, t). (args, fold f t s)) (output_number snoc len sg r args [])" for sg r
    by (cases "number_arg len sg args")
      (auto simp: output_number_def output_signed_def snoc_total output_unsigned_total total_putc_def [of f "0x2D"] total_putc_def [of _ "0x2D"])
  show ?thesis
    unfolding spec_text_def printf_specifier_def num
    by (auto simp: snoc_total option.map_comp comp_def map_option_case total_putc_def split: option.splits list.splits printf_arg.splits)
qed

lemma vprintf_total:
  fixes f :: "u8 \<Rightarrow> 's \<Rightarrow> 's"
  shows "vprintf_core (total_putc f) st len fmt args n (fold f out s)
    = map_option (\<lambda>(k, t). (k, fold f t s)) (vprintf_core snoc st len fmt args n out)"
proof (induction snoc st len fmt args n out rule: vprintf_core.induct)
  case (2 len c fmt args n out)
  then show ?case using 2(2) [of "out @ [c]"] by (simp add: snoc_def total_putc_def)
next
  case (6 len c fmt args n out)
  have sp: "printf_specifier snoc len c args out = map_option (\<lambda>(args, k, t). (args, k, out @ t)) (spec_text len c args)"
    using specifier_total [of "\<lambda>c out. out @ [c]" len c args out] by (simp add: snoc_total)
  show ?case
  proof (cases "spec_text len c args")
    case (Some r)
    obtain as k t where r: "r = (as, k, t)" by (cases r)
    have "vprintf_core (total_putc f) PRINTF_STATE_NORMAL len fmt as (n + k) (fold f (out @ t) s)
        = map_option (\<lambda>(k, t). (k, fold f t s)) (vprintf_core snoc PRINTF_STATE_NORMAL len fmt as (n + k) (out @ t))"
      using 6 [of "(as, k, out @ t)" as "(k, out @ t)" k "out @ t"] sp Some r by simp
    then show ?thesis using Some r sp by (simp add: specifier_total)
  qed (simp add: sp specifier_total)
qed simp_all

lemma vprintf_formatted:
  "map_option snd (vprintf_core (total_putc f) PRINTF_STATE_NORMAL PRINTF_LENGTH_DEFAULT fmt args 0 s)
     = map_option (\<lambda>t. fold f t s) (formatted fmt args)"
  using vprintf_total [of f PRINTF_STATE_NORMAL PRINTF_LENGTH_DEFAULT fmt args 0 "[]" s]
  by (simp add: formatted_def option.map_comp comp_def split_beta)

subsection \<open>The buffer\<close>

definition buf_step :: "u8 \<Rightarrow> buffer_output_ctx_t \<Rightarrow> buffer_output_ctx_t" where
  "buf_step c ctx =
     (let ctx = (if ob_pos ctx < ob_size ctx - 1 then ctx\<lparr>ob_mem := (ob_mem ctx)(ob_buffer ctx + unat (ob_pos ctx) := c)\<rparr> else ctx)
      in ctx\<lparr>ob_pos := ob_pos ctx + 1\<rparr>)"

lemma buffer_putc_total: "buffer_putc = total_putc buf_step"
  by (simp add: buffer_putc_def total_putc_def buf_step_def Let_def fun_eq_iff)

text \<open>The memory after writing a text: as much of it as fits, the last byte being kept for the terminator.\<close>

definition clipped :: "bytes \<Rightarrow> nat \<Rightarrow> nat \<Rightarrow> u8 list \<Rightarrow> bytes" where
  "clipped m b k t = (\<lambda>a. if b \<le> a \<and> a < b + min k (length t) then t ! (a - b) else m a)"

lemma fill_buffer:
  assumes "sz \<noteq> 0" and "length t < 2 ^ 32"
  shows "fold buf_step t \<lparr>ob_mem = m, ob_buffer = b, ob_size = sz, ob_pos = 0\<rparr>
    = \<lparr>ob_mem = clipped m b (unat sz - 1) t, ob_buffer = b, ob_size = sz, ob_pos = of_nat (length t)\<rparr>"
  using assms(2)
proof (induction t rule: rev_induct)
  case Nil
  then show ?case by (auto simp: clipped_def fun_eq_iff)
next
  case (snoc c t)
  let ?p = "of_nat (length t) :: u32"
  have p: "unat ?p = length t" using snoc.prems by (simp add: unat_of_nat take_bit_nat_eq_self)
  have s1: "unat (sz - 1) = unat sz - 1" using assms(1) by (simp add: unat_minus_one)
  have "(if ?p < sz - 1 then (clipped m b (unat sz - 1) t)(b + length t := c) else clipped m b (unat sz - 1) t)
      = clipped m b (unat sz - 1) (t @ [c])"
    using p s1 by (auto simp: clipped_def fun_eq_iff word_less_nat_alt nth_append)
  moreover have "of_nat (length t) + 1 = (of_nat (length (t @ [c])) :: u32)" by simp
  ultimately show ?case using snoc p by (cases "?p < sz - 1") (simp_all add: buf_step_def Let_def add.commute)
qed

lemma ksnprintf_spec:
  assumes "formatted fmt args = Some t" and "length t < 2 ^ 32" and "sz \<noteq> 0"
  shows "\<exists>m'. ksnprintf b sz fmt args m = Some (of_nat (length t), m')
    \<and> (\<forall>a. a < b \<or> b + unat sz \<le> a \<longrightarrow> m' a = m a)
    \<and> (\<forall>i < min (length t) (unat sz - 1). m' (b + i) = t ! i) \<and> m' (b + min (length t) (unat sz - 1)) = 0"
proof -
  let ?ctx = "\<lparr>ob_mem = clipped m b (unat sz - 1) t, ob_buffer = b, ob_size = sz, ob_pos = of_nat (length t)\<rparr>"
  obtain k where v: "vprintf_core buffer_putc PRINTF_STATE_NORMAL PRINTF_LENGTH_DEFAULT fmt args 0 \<lparr>ob_mem = m, ob_buffer = b, ob_size = sz, ob_pos = 0\<rparr>
      = Some (k, ?ctx)"
    using vprintf_formatted [of buf_step fmt args "\<lparr>ob_mem = m, ob_buffer = b, ob_size = sz, ob_pos = 0\<rparr>"] assms
    by (auto simp: buffer_putc_total fill_buffer)
  have p: "unat (of_nat (length t) :: u32) = length t" using assms(2) by (simp add: unat_of_nat take_bit_nat_eq_self)
  have s1: "unat (sz - 1) = unat sz - 1" "0 < unat sz" using assms(3) by (simp_all add: unat_minus_one unat_gt_0)
  have "ksnprintf b sz fmt args m = Some (of_nat (length t), (clipped m b (unat sz - 1) t)(b + min (length t) (unat sz - 1) := 0))"
    using v assms(3) p s1 by (auto simp: ksnprintf_def kvsnprintf_def word_less_nat_alt min_def)
  then show ?thesis using s1(2) by (auto simp: clipped_def)
qed

text \<open>
  C15. Printing into a buffer never writes outside it: \<^verbatim>\<open>ksnprintf\<close> stores as much of the text as fits with the terminator,
  always terminates the buffer unless its size is 0, changes no other byte, and returns the length of the whole text.
\<close>

theorem ksnprintf_bounded:
  assumes "formatted fmt args = Some t" and "length t < 2 ^ 32" and "sz \<noteq> 0"
  shows "\<exists>m'. ksnprintf b sz fmt args m = Some (of_nat (length t), m')
    \<and> (\<forall>a. a < b \<or> b + unat sz \<le> a \<longrightarrow> m' a = m a)
    \<and> (\<forall>i < min (length t) (unat sz - 1). m' (b + i) = t ! i) \<and> m' (b + min (length t) (unat sz - 1)) = 0"
  by (rule ksnprintf_spec [OF assms])

theorem ksnprintf_bounded_witness:
  "\<exists>m'. ksnprintf 100 4 [0x25, 0x73, 0x21] [ArgStr [0x68, 0x69, 0x68, 0x6F]] (\<lambda>_. 7) = Some (5, m')
    \<and> m' 102 = 0x68 \<and> m' 103 = 0 \<and> m' 104 = 7"
proof -
  have f: "formatted [0x25, 0x73, 0x21] [ArgStr [0x68, 0x69, 0x68, 0x6F]] = Some [0x68, 0x69, 0x68, 0x6F, 0x21]"
    by (simp add: formatted_def printf_specifier_def output_string_def snoc_def)
  have "\<exists>m'. ksnprintf 100 4 [0x25, 0x73, 0x21] [ArgStr [0x68, 0x69, 0x68, 0x6F]] (\<lambda>_. 7)
      = Some (of_nat (length [0x68, 0x69, 0x68, 0x6F, 0x21 :: u8]), m')
    \<and> (\<forall>a. a < 100 \<or> 100 + unat (4 :: u32) \<le> a \<longrightarrow> m' a = 7)
    \<and> (\<forall>i < min (length [0x68, 0x69, 0x68, 0x6F, 0x21 :: u8]) (unat (4 :: u32) - 1). m' (100 + i) = [0x68, 0x69, 0x68, 0x6F, 0x21] ! i)
    \<and> m' (100 + min (length [0x68, 0x69, 0x68, 0x6F, 0x21 :: u8]) (unat (4 :: u32) - 1)) = 0"
    using ksnprintf_bounded [OF f, of 4 100 "\<lambda>_. 7"] by simp
  then show ?thesis by (auto dest: spec [of _ 2])
qed

subsection \<open>Decimal numbers\<close>

lemma hex_digit: "d < 10 \<Longrightarrow> g_hex_chars ! d = of_nat (48 + d)"
proof -
  have "list_all (\<lambda>d. g_hex_chars ! d = of_nat (48 + d)) [0..<10]" by code_simp
  then show "d < 10 \<Longrightarrow> g_hex_chars ! d = of_nat (48 + d)" by (simp add: list_all_iff)
qed

lemma digits_rec:
  "unsigned_digits n 10 = of_nat (48 + n mod 10) # (if n div 10 = 0 then [] else unsigned_digits (n div 10) 10)"
  by (subst unsigned_digits.simps) (simp add: hex_digit)

lemma digits_spec:
  "0 < k \<Longrightarrow> n < 10 ^ k \<Longrightarrow> length (unsigned_digits n 10) \<le> k \<and> unsigned_digits n 10 \<noteq> []
     \<and> (\<forall>d \<in> set (unsigned_digits n 10). 0x30 \<le> d \<and> d \<le> 0x39)
     \<and> fold (\<lambda>d r. r * 10 + ucast (d - 0x30)) (rev (unsigned_digits n 10)) 0 = (of_nat n :: u32)"
proof (induction k arbitrary: n)
  case (Suc k)
  have m: "n mod 10 < 10" by simp
  have b: "unat (of_nat (48 + n mod 10) :: u8) = 48 + n mod 10"
    by (simp only: unat_of_nat) (use m in simp)
  have d: "0x30 \<le> (of_nat (48 + n mod 10) :: u8) \<and> (of_nat (48 + n mod 10) :: u8) \<le> 0x39"
    using b m by (simp add: word_le_nat_alt)
  have "(of_nat (48 + n mod 10) :: u8) - 0x30 = of_nat (n mod 10)" by simp
  moreover have "ucast (of_nat (n mod 10) :: u8) = (of_nat (n mod 10) :: u32)"
    using m by (simp add: word_unat_eq_iff unat_of_nat unsigned_ucast_eq take_bit_nat_eq_self)
  ultimately have v: "ucast ((of_nat (48 + n mod 10) :: u8) - 0x30) = (of_nat (n mod 10) :: u32)" by simp
  show ?case
  proof (cases "n div 10 = 0")
    case True
    then have "n mod 10 = n" by simp
    then show ?thesis using True d v by (subst (1 2 3 4) digits_rec) simp
  next
    case False
    then have k: "0 < k" using Suc.prems(2) by (cases k) auto
    have "n div 10 < 10 ^ k" using Suc.prems(2) by simp
    note ih = Suc.IH [OF k this]
    have "(of_nat (n div 10) * 10 + of_nat (n mod 10) :: u32) = of_nat (n div 10 * 10 + n mod 10)" by (simp only: of_nat_add of_nat_mult) simp
    then have "(of_nat (n div 10) * 10 + of_nat (n mod 10) :: u32) = of_nat n" by simp
    then show ?thesis using ih False d v by (subst (1 2 3 4) digits_rec) simp
  qed
qed simp

text \<open>The text of \<^verbatim>\<open>%d\<close>.\<close>

definition decimal :: "u32 \<Rightarrow> u8 list" where
  "decimal v = (if sint v < 0 then 0x2D # rev (unsigned_digits (nat (- sint v)) 10) else rev (unsigned_digits (nat (sint v)) 10))"

lemma sint_bounds: "- (2 ^ 31) \<le> sint (v :: u32)" "sint (v :: u32) < 2 ^ 31"
  using sint_greater_eq [of v] sint_less [of v] by simp_all

lemma formatted_d: "formatted [0x25, 0x64] [Arg32 v] = Some (decimal v)"
proof -
  note b = sint_bounds [of v]
  have w: "(scast v :: u64) = word_of_int (sint v)" by simp
  have s: "sint (scast v :: u64) = sint v" using b by (simp add: signed_scast_eq signed_take_bit_int_eq_self)
  have small: "unat (word_of_int j :: u64) = nat j" if "0 \<le> j" "j \<le> 2 ^ 31" for j
    using that by (simp add: unat_eq_nat_uint uint_word_of_int)
  have n: "unat (- scast v :: u64) = nat (- sint v)" if "sint v < 0"
    using small [of "- sint v"] b that by (simp only: w wi_hom_neg)
  have p: "unat (scast v :: u64) = nat (sint v)" if "\<not> sint v < 0"
    using small [of "sint v"] b that by (simp only: w)
  have len: "length (unsigned_digits i 10) < 32" if "i \<le> 2 ^ 31" for i
  proof -
    have "i < 10 ^ 10" using that by simp
    then show ?thesis using digits_spec [of 10 i] by simp
  qed
  have "nat (- sint v) \<le> 2 ^ 31" "nat (sint v) \<le> 2 ^ 31" using b by simp_all
  then have "length (unsigned_digits (nat (- sint v)) 10) < 32" "length (unsigned_digits (nat (sint v)) 10) < 32" using len by blast+
  then show ?thesis
    using s n p by (simp add: formatted_def printf_specifier_def output_number_def output_signed_def snoc_total output_unsigned_total
        decimal_def total_putc_def)
qed

text \<open>
  C33. Printing and reading numbers: for every 32-bit value, \<^verbatim>\<open>atoi\<close> on what \<^verbatim>\<open>ksnprintf\<close> with the format \<^verbatim>\<open>%d\<close> stores
  gives the value back, negative values included, provided the buffer holds the at most eleven characters.
\<close>

theorem printf_atoi_roundtrip:
  assumes "12 \<le> unat sz"
  shows "\<exists>k m'. ksnprintf b sz [0x25, 0x64] [Arg32 v] m = Some (k, m') \<and> unat k \<le> 11 \<and> atoi m' b = Some v"
proof -
  define i where "i = nat (if sint v < 0 then - sint v else sint v)"
  let ?ds = "rev (unsigned_digits i 10)"
  have t: "decimal v = (if sint v < 0 then [0x2D] else []) @ ?ds" by (simp add: decimal_def i_def)
  have "i < 10 ^ 10" using sint_bounds [of v] by (simp add: i_def) linarith
  then have ds: "length ?ds \<le> 10" "?ds \<noteq> []" "\<forall>d \<in> set ?ds. 0x30 \<le> d \<and> d \<le> 0x39"
    "fold (\<lambda>d r. r * 10 + ucast (d - 0x30)) ?ds 0 = (of_nat i :: u32)"
    using digits_spec [of 10 i] by simp_all
  have len: "length (decimal v) \<le> 11" using ds(1) t by simp
  then have l2: "length (decimal v) < 2 ^ 32" by simp
  have sz: "sz \<noteq> 0" and fits: "length (decimal v) \<le> unat sz - 1" using assms len by auto
  obtain m' where m': "ksnprintf b sz [0x25, 0x64] [Arg32 v] m = Some (of_nat (length (decimal v)), m')"
    "\<forall>j < length (decimal v). m' (b + j) = decimal v ! j" "m' (b + length (decimal v)) = 0"
    using ksnprintf_spec [OF formatted_d l2 sz, of b m] unfolding min_absorb1 [OF fits] by blast
  have nz: "d \<noteq> 0" if "d \<in> set (decimal v)" for d using that ds(3) t by (auto split: if_splits)
  then have c: "cstr m' b (decimal v)" using m'(2,3) by (auto simp: cstr_iff)
  obtain d es where de: "?ds = d # es" using ds(2) by (cases ?ds) auto
  then have dd: "0x30 \<le> d" "d \<le> 0x39" using ds(3) by auto
  then have nb: "d \<notin> {0x20, 0x09, 0x2D, 0x2B}" by (auto simp: word_le_nat_alt)
  have "atoi m' b = Some v"
  proof (cases "sint v < 0")
    case True
    then have h: "m' b = 0x2D" "cstr m' (b + 1) ?ds" using c t by simp_all
    have "int i = - sint v" using True by (simp add: i_def)
    then have "(of_int (int i) :: u32) = of_int (- sint v)" by (rule arg_cong)
    then have "(of_nat i :: u32) = - v" by simp
    moreover have "atoi_blanks m' b = Some b" using h(1) by (simp add: atoi_blanks.simps)
    ultimately show ?thesis using h atoi_digits_cstr [OF h(2) ds(3), of 0] ds(4) by (simp add: atoi_def)
  next
    case False
    then have h: "m' b = d" "cstr m' b ?ds" using c t de by auto
    have "int i = sint v" using False by (simp add: i_def)
    then have "(of_int (int i) :: u32) = of_int (sint v)" by (rule arg_cong)
    then have "(of_nat i :: u32) = v" by simp
    moreover have "atoi_blanks m' b = Some b" using h(1) nb by (simp add: atoi_blanks.simps)
    ultimately show ?thesis using h nb atoi_digits_cstr [OF h(2) ds(3), of 0] ds(4) by (simp add: atoi_def)
  qed
  moreover have "unat (of_nat (length (decimal v)) :: u32) \<le> 11" using len by (simp add: unat_of_nat take_bit_nat_eq_self)
  ultimately show ?thesis using m'(1) by blast
qed

theorem printf_atoi_roundtrip_witness:
  "\<exists>k m'. ksnprintf 0 16 [0x25, 0x64] [Arg32 0xFFFFFFD6] (\<lambda>_. 0) = Some (k, m') \<and> atoi m' 0 = Some (- 42)"
proof -
  have "12 \<le> unat (16 :: u32)" by simp
  from printf_atoi_roundtrip [OF this, of 0 "0xFFFFFFD6" "\<lambda>_. 0"] show ?thesis by auto
qed

end
