(* ===== verification/Console.thy ===== *)
theory Console
  imports KPrelude "HOL-Library.Monad_Syntax"
begin

unbundle bit_operations_syntax

text \<open>
  The text console of \<^verbatim>\<open>kernel/src/drivers/console/\<close>: the frame buffer (\<^verbatim>\<open>vga.c\<close>) and the cursor, colours,
  escape sequences and scrolling on top of it (\<^verbatim>\<open>console.c\<close>). The frame buffer is a list of bytes; an
  access outside it is \<open>None\<close>. What is sent to the ports of the cursor is kept as a list, newest last.
  The numbers of an escape sequence are 32-bit integers that wrap around.
\<close>

subsection \<open>vga.c\<close>

definition SCREEN_WIDTH :: nat where
  "SCREEN_WIDTH = 80"

definition SCREEN_HEIGHT :: nat where
  "SCREEN_HEIGHT = 25"

definition VGA_MAKE_COLOR :: "u8 \<Rightarrow> u8 \<Rightarrow> u8" where
  "VGA_MAKE_COLOR fg bg = push_bit 4 bg OR fg"

datatype con_state_t = STATE_NORMAL | STATE_BRACKET | STATE_PARAMS

datatype con_mode_t = CON_MODE_DARK | CON_MODE_LIGHT

record console =
  g_vga_buf :: "u8 list"
  vga_ports :: "(u16 \<times> u8) list"
  g_con_mode :: con_mode_t
  g_state :: con_state_t
  g_params :: "u32 list"
  g_param_idx :: nat
  g_con_x :: nat
  g_con_y :: nat
  g_saved_x :: nat
  g_saved_y :: nat
  g_con_color :: u8
  g_con_default_color :: u8

definition vga_store :: "nat \<Rightarrow> u8 \<Rightarrow> console \<Rightarrow> console option" where
  "vga_store i v s = (if i < length (g_vga_buf s) then Some (s\<lparr>g_vga_buf := (g_vga_buf s)[i := v]\<rparr>) else None)"

definition vga_load :: "nat \<Rightarrow> console \<Rightarrow> u8 option" where
  "vga_load i s = (if i < length (g_vga_buf s) then Some (g_vga_buf s ! i) else None)"

definition vga_write_char :: "nat \<Rightarrow> nat \<Rightarrow> u8 \<Rightarrow> console \<Rightarrow> console option" where
  "vga_write_char x y c = vga_store (2 * (y * SCREEN_WIDTH + x)) c"

definition vga_write_color :: "nat \<Rightarrow> nat \<Rightarrow> u8 \<Rightarrow> console \<Rightarrow> console option" where
  "vga_write_color x y color = vga_store (2 * (y * SCREEN_WIDTH + x) + 1) color"

definition vga_read_char :: "nat \<Rightarrow> nat \<Rightarrow> console \<Rightarrow> u8 option" where
  "vga_read_char x y = vga_load (2 * (y * SCREEN_WIDTH + x))"

definition vga_read_color :: "nat \<Rightarrow> nat \<Rightarrow> console \<Rightarrow> u8 option" where
  "vga_read_color x y = vga_load (2 * (y * SCREEN_WIDTH + x) + 1)"

definition vga_cursor_set :: "nat \<Rightarrow> nat \<Rightarrow> console \<Rightarrow> console" where
  "vga_cursor_set x y s =
     (let pos = y * SCREEN_WIDTH + x
      in s\<lparr>vga_ports := vga_ports s @ [(0x3D4, 0x0F), (0x3D5, of_nat pos), (0x3D4, 0x0E), (0x3D5, of_nat (pos div 256))]\<rparr>)"

text \<open>A loop over all cells of the rows \<open>lo\<close> to \<open>hi\<close>, row by row; a round may fail.\<close>

definition for_cells :: "nat \<Rightarrow> nat \<Rightarrow> (nat \<Rightarrow> nat \<Rightarrow> console \<Rightarrow> console option) \<Rightarrow> console \<Rightarrow> console option" where
  "for_cells lo hi f s =
     for_loop lo hi (\<lambda>y r. for_loop 0 SCREEN_WIDTH (\<lambda>x r. do { s \<leftarrow> r; f x y s }) r) (Some s)"

definition put_cell :: "nat \<Rightarrow> nat \<Rightarrow> u8 \<Rightarrow> u8 \<Rightarrow> console \<Rightarrow> console option" where
  "put_cell x y c color s = do { s \<leftarrow> vga_write_char x y c s; vga_write_color x y color s }"

definition vga_scroll :: "nat \<Rightarrow> u8 \<Rightarrow> console \<Rightarrow> console option" where
  "vga_scroll lines back_color s =
     do { s \<leftarrow> for_cells lines SCREEN_HEIGHT
                (\<lambda>x y s. do { c \<leftarrow> vga_read_char x y s;
                            s \<leftarrow> vga_write_char x (y - lines) c s;
                            color \<leftarrow> vga_read_color x y s;
                            vga_write_color x (y - lines) color s }) s;
          for_cells (SCREEN_HEIGHT - lines) SCREEN_HEIGHT (\<lambda>x y. put_cell x y 0 back_color) s }"

definition vga_clear :: "u8 \<Rightarrow> console \<Rightarrow> console option" where
  "vga_clear back_color s =
     do { s \<leftarrow> for_cells 0 SCREEN_HEIGHT (\<lambda>x y. put_cell x y 0x20 back_color) s;
          Some (vga_cursor_set 0 0 s) }"

subsection \<open>console.c\<close>

definition LIGHT_MODE :: u8 where
  "LIGHT_MODE = VGA_MAKE_COLOR 0x0 0xF"

definition DARK_MODE :: u8 where
  "DARK_MODE = VGA_MAKE_COLOR 0x7 0x0"

text \<open>Both tables hold the same colours.\<close>

definition ansi_to_vga_lookup :: "con_mode_t \<Rightarrow> u8 list" where
  "ansi_to_vga_lookup mode =
     (if mode = CON_MODE_DARK then [0x0, 0x4, 0x2, 0x6, 0x1, 0x5, 0x3, 0x7] else [0x0, 0x4, 0x2, 0x6, 0x1, 0x5, 0x3, 0x7])"

definition con_cursor_get :: "console \<Rightarrow> nat \<times> nat" where
  "con_cursor_get s = (g_con_x s, g_con_y s)"

definition con_cursor_set :: "int \<Rightarrow> int \<Rightarrow> console \<Rightarrow> console" where
  "con_cursor_set x y s =
     (let x = (if x < 0 then 0 else x);
          x = (if x \<ge> int SCREEN_WIDTH then int SCREEN_WIDTH - 1 else x);
          y = (if y < 0 then 0 else y);
          y = (if y \<ge> int SCREEN_HEIGHT then int SCREEN_HEIGHT - 1 else y)
      in vga_cursor_set (nat x) (nat y) (s\<lparr>g_con_x := nat x, g_con_y := nat y\<rparr>))"

definition con_clear :: "console \<Rightarrow> console option" where
  "con_clear s =
     do { s \<leftarrow> vga_clear (g_con_color s) s;
          Some (vga_cursor_set 0 0 (s\<lparr>g_con_x := 0, g_con_y := 0\<rparr>)) }"

text \<open>One parameter of the colour command.\<close>

definition select_rendition :: "u32 \<Rightarrow> console \<Rightarrow> console" where
  "select_rendition p s =
     (if p = 0 then s\<lparr>g_con_color := g_con_default_color s\<rparr>
      else if 30 \<le> sint p \<and> sint p \<le> 37
      then s\<lparr>g_con_color := (g_con_color s AND 0xF0) OR ansi_to_vga_lookup (g_con_mode s) ! nat (sint p - 30)\<rparr>
      else if 40 \<le> sint p \<and> sint p \<le> 47
      then s\<lparr>g_con_color := (g_con_color s AND 0x0F) OR push_bit 4 (ansi_to_vga_lookup (g_con_mode s) ! nat (sint p - 40))\<rparr>
      else s)"

definition handle_csi_command :: "u8 \<Rightarrow> console \<Rightarrow> console option" where
  "handle_csi_command c s =
     (if c = 0x73 then Some (s\<lparr>g_saved_x := g_con_x s, g_saved_y := g_con_y s\<rparr>)
      else if c = 0x75 then Some (con_cursor_set (int (g_saved_x s)) (int (g_saved_y s)) s)
      else if c = 0x48 \<or> c = 0x66 then Some (con_cursor_set (sint (g_params s ! 1 - 1)) (sint (g_params s ! 0 - 1)) s)
      else if c = 0x4A then (if g_params s ! 0 = 2 then con_clear s else Some s)
      else if c = 0x4B
      then for_loop (g_con_x s) SCREEN_WIDTH
             (\<lambda>i r. do { s \<leftarrow> r; put_cell i (g_con_y s) 0x20 (g_con_color s) s }) (Some s)
      else if c = 0x6D then Some (for_loop 0 (g_param_idx s + 1) (\<lambda>i s. select_rendition (g_params s ! i) s) s)
      else Some s)"

definition con_backspace :: "console \<Rightarrow> console option" where
  "con_backspace s =
     (if g_con_x s > 0 \<or> g_con_y s > 0 then
        (let s = (if g_con_x s > 0 then s\<lparr>g_con_x := g_con_x s - 1\<rparr>
                  else s\<lparr>g_con_y := g_con_y s - 1, g_con_x := SCREEN_WIDTH - 1\<rparr>)
         in do { s \<leftarrow> put_cell (g_con_x s) (g_con_y s) 0x20 (g_con_color s) s;
                 Some (vga_cursor_set (g_con_x s) (g_con_y s) s) })
      else Some s)"

text \<open>The end of \<^verbatim>\<open>con_putc\<close>: wrapping and scrolling.\<close>

definition con_advance :: "console \<Rightarrow> console option" where
  "con_advance s =
     do { let s = (if g_con_x s \<ge> SCREEN_WIDTH then s\<lparr>g_con_x := 0, g_con_y := g_con_y s + 1\<rparr> else s);
          s \<leftarrow> (if g_con_y s \<ge> SCREEN_HEIGHT
               then do { s \<leftarrow> vga_scroll 1 (g_con_color s) s; Some (s\<lparr>g_con_y := SCREEN_HEIGHT - 1\<rparr>) }
               else Some s);
          Some (vga_cursor_set (g_con_x s) (g_con_y s) s) }"

definition con_put_char :: "u8 \<Rightarrow> console \<Rightarrow> console option" where
  "con_put_char c s =
     do { s \<leftarrow> put_cell (g_con_x s) (g_con_y s) c (g_con_color s) s;
          con_advance (s\<lparr>g_con_x := g_con_x s + 1\<rparr>) }"

text \<open>The loop for a tab, which calls \<^verbatim>\<open>con_putc\<close> for a blank in the normal state.\<close>

partial_function (option) con_tab :: "console \<Rightarrow> console option" where
  "con_tab s = do { s \<leftarrow> con_put_char 0x20 s; if g_con_x s mod 4 \<noteq> 0 then con_tab s else Some s }"

definition con_print :: "u8 \<Rightarrow> console \<Rightarrow> console option" where
  "con_print c s =
     (if c = 0x0A then con_advance (s\<lparr>g_con_x := 0, g_con_y := g_con_y s + 1\<rparr>)
      else if c = 0x0D then con_advance (s\<lparr>g_con_x := 0\<rparr>)
      else if c = 0x09 then con_tab s
      else if c = 0x08 then con_backspace s
      else con_put_char c s)"

definition con_params :: "u8 \<Rightarrow> console \<Rightarrow> console option" where
  "con_params c s =
     (if 0x30 \<le> c \<and> c \<le> 0x39
      then Some (s\<lparr>g_params := (g_params s)[g_param_idx s := g_params s ! g_param_idx s * 10 + (ucast c - 0x30)]\<rparr>)
      else if c = 0x3B then Some (if g_param_idx s < 3 then s\<lparr>g_param_idx := g_param_idx s + 1\<rparr> else s)
      else if c = 0x3F then Some s
      else do { s \<leftarrow> handle_csi_command c s; Some (s\<lparr>g_state := STATE_NORMAL\<rparr>) })"

definition con_putc :: "u8 \<Rightarrow> console \<Rightarrow> console option" where
  "con_putc c s =
     (case g_state s of
        STATE_NORMAL \<Rightarrow> if c = 0x1B then Some (s\<lparr>g_state := STATE_BRACKET\<rparr>) else con_print c s
      | STATE_BRACKET \<Rightarrow>
          if c = 0x5B then Some (s\<lparr>g_state := STATE_PARAMS, g_params := [0, 0, 0, 0], g_param_idx := 0\<rparr>)
          else if c = 0x37 then Some (s\<lparr>g_saved_x := g_con_x s, g_saved_y := g_con_y s, g_state := STATE_NORMAL\<rparr>)
          else if c = 0x38
          then Some ((con_cursor_set (int (g_saved_x s)) (int (g_saved_y s)) s)\<lparr>g_state := STATE_NORMAL\<rparr>)
          else con_print c (s\<lparr>g_state := STATE_NORMAL\<rparr>)
      | STATE_PARAMS \<Rightarrow> con_params c s)"

definition con_puts :: "u8 list \<Rightarrow> console \<Rightarrow> console option" where
  "con_puts str s = fold (\<lambda>c r. do { s \<leftarrow> r; con_putc c s }) str (Some s)"

definition con_putsn :: "u8 list \<Rightarrow> nat \<Rightarrow> console \<Rightarrow> console option" where
  "con_putsn str n s = con_puts (takeWhile (\<lambda>c. c \<noteq> 0) (take n str)) s"

definition con_newline :: "console \<Rightarrow> console option" where
  "con_newline = con_putc 0x0A"

definition con_module_init :: "console \<Rightarrow> console option" where
  "con_module_init s =
     (let s = s\<lparr>g_con_mode := CON_MODE_DARK\<rparr>;
          s = s\<lparr>g_con_default_color := (if g_con_mode s = CON_MODE_LIGHT then LIGHT_MODE else DARK_MODE)\<rparr>;
          s = s\<lparr>g_con_color := g_con_default_color s\<rparr>
      in con_clear s)"

definition sys_clear :: "console \<Rightarrow> (int \<times> console) option" where
  "sys_clear s = do { s \<leftarrow> con_clear s; Some (0, s) }"

end
