(* ===== verification/ConsoleProps.thy ===== *)
theory ConsoleProps
  imports Console
begin

text \<open>
  The console never writes outside the screen, whatever it is sent, and prints characters where the
  cursor is, scrolling when the screen is full.
\<close>

definition con_ok :: "console \<Rightarrow> bool" where
  "con_ok s \<longleftrightarrow> length (g_vga_buf s) = 4000 \<and> g_con_x s < 80 \<and> g_con_y s < 25 \<and> length (g_params s) = 4 \<and> g_param_idx s \<le> 3"

text \<open>The character and the colour in the \<open>p\<close>-th of the 2000 cells, row by row.\<close>

definition cell :: "u8 list \<Rightarrow> nat \<Rightarrow> u8 \<times> u8" where
  "cell b p = (b ! (2 * p), b ! (2 * p + 1))"

lemmas vga_defs = put_cell_def vga_write_char_def vga_write_color_def vga_read_char_def vga_read_color_def
  vga_store_def vga_load_def SCREEN_WIDTH_def SCREEN_HEIGHT_def

lemma cell_update:
  assumes "length b = 4000" and "p < 2000"
  shows "cell (b[2 * p := c, Suc (2 * p) := d]) q = (if q = p then (c, d) else cell b q)"
proof -
  have "2 * q \<noteq> Suc (2 * p)" "2 * q + 1 \<noteq> 2 * p" by presburger+
  then show ?thesis using assms by (auto simp: cell_def)
qed

lemma put_cell_Some:
  assumes "length (g_vga_buf s) = 4000" and "y * 80 + x < 2000"
  shows "put_cell x y c d s = Some (s\<lparr>g_vga_buf := (g_vga_buf s)[2 * (y * 80 + x) := c, Suc (2 * (y * 80 + x)) := d]\<rparr>)"
  using assms by (simp add: vga_defs)

text \<open>The two nested loops go through the cells in order.\<close>

lemma for_cells_linear:
  assumes "lo \<le> hi"
  shows "for_cells lo hi f s = for_loop (80 * lo) (80 * hi) (\<lambda>p r. Option.bind r (f (p mod 80) (p div 80))) (Some s)"
  unfolding for_cells_def SCREEN_WIDTH_def
proof (rule for_loop_rule [OF assms])
  fix y and r :: "console option"
  have "[80 * y..<80 * Suc y] = map (\<lambda>x. 80 * y + x) [0..<80]"
    by (rule nth_equalityI) simp_all
  then have "for_loop (80 * y) (80 * Suc y) (\<lambda>p r. Option.bind r (f (p mod 80) (p div 80))) r
      = fold (\<lambda>x r. Option.bind r (f ((80 * y + x) mod 80) ((80 * y + x) div 80))) [0..<80] r"
    by (simp only: fold_map comp_def)
  also have "\<dots> = for_loop 0 80 (\<lambda>x r. Option.bind r (f x y)) r"
    by (rule fold_cong) auto
  finally have e: "for_loop (80 * y) (80 * Suc y) (\<lambda>p r. Option.bind r (f (p mod 80) (p div 80))) r
      = for_loop 0 80 (\<lambda>x r. Option.bind r (f x y)) r" .
  assume "lo \<le> y" and r: "r = for_loop (80 * lo) (80 * y) (\<lambda>p r. Option.bind r (f (p mod 80) (p div 80))) (Some s)"
  then have "[80 * lo..<80 * Suc y] = [80 * lo..<80 * y] @ [80 * y..<80 * Suc y]"
    by (metis le_add1 mult_Suc_right mult_le_mono2 upt_add_eq_append add.commute)
  then show "for_loop 0 80 (\<lambda>x r. Option.bind r (f x y)) r
      = for_loop (80 * lo) (80 * Suc y) (\<lambda>p r. Option.bind r (f (p mod 80) (p div 80))) (Some s)"
    using e r by simp
qed simp

text \<open>Filling the rows from \<open>lo\<close> on.\<close>

lemma fill_rows:
  assumes "length (g_vga_buf s) = 4000" and "lo \<le> 25"
  shows "\<exists>b. for_cells lo 25 (\<lambda>x y. put_cell x y c d) s = Some (s\<lparr>g_vga_buf := b\<rparr>) \<and> length b = 4000
    \<and> (\<forall>q. cell b q = (if 80 * lo \<le> q \<and> q < 2000 then (c, d) else cell (g_vga_buf s) q))"
proof -
  let ?P = "\<lambda>p t. \<exists>b. t = s\<lparr>g_vga_buf := b\<rparr> \<and> length b = 4000
    \<and> (\<forall>q. cell b q = (if 80 * lo \<le> q \<and> q < p then (c, d) else cell (g_vga_buf s) q))"
  have "\<exists>t. for_loop (80 * lo) (80 * 25) (\<lambda>p r. Option.bind r (put_cell (p mod 80) (p div 80) c d)) (Some s) = Some t
      \<and> ?P (80 * 25) t"
  proof (rule for_loop_option)
    show "?P (80 * lo) s" using assms by (intro exI [of _ "g_vga_buf s"]) auto
  next
    fix p t
    assume p: "80 * lo \<le> p" "p < 80 * 25" and "?P p t"
    then obtain b where b: "t = s\<lparr>g_vga_buf := b\<rparr>" "length b = 4000"
      "\<forall>q. cell b q = (if 80 * lo \<le> q \<and> q < p then (c, d) else cell (g_vga_buf s) q)" by blast
    have pos: "p div 80 * 80 + p mod 80 = p" by simp
    have "put_cell (p mod 80) (p div 80) c d t = Some (s\<lparr>g_vga_buf := b[2 * p := c, Suc (2 * p) := d]\<rparr>)"
      using put_cell_Some [of t "p div 80" "p mod 80"] b p unfolding pos by simp
    moreover have "\<forall>q. cell (b[2 * p := c, Suc (2 * p) := d]) q
        = (if 80 * lo \<le> q \<and> q < Suc p then (c, d) else cell (g_vga_buf s) q)"
      using b(2,3) p by (auto simp: cell_update)
    ultimately show "\<exists>t'. put_cell (p mod 80) (p div 80) c d t = Some t' \<and> ?P (Suc p) t'"
      using b(2) by (intro exI conjI) auto
  qed (use assms in simp)
  then have "\<exists>t. for_cells lo 25 (\<lambda>x y. put_cell x y c d) s = Some t \<and> ?P (80 * 25) t"
    by (simp only: for_cells_linear [OF assms(2)])
  then show ?thesis by auto
qed

lemma scroll_up:
  assumes "length (g_vga_buf s) = 4000"
  shows "\<exists>b. vga_scroll 1 d s = Some (s\<lparr>g_vga_buf := b\<rparr>) \<and> length b = 4000
    \<and> (\<forall>q<2000. cell b q = (if q < 1920 then cell (g_vga_buf s) (q + 80) else (0, d)))"
proof -
  let ?f = "\<lambda>x y s. do { c \<leftarrow> vga_read_char x y s; s \<leftarrow> vga_write_char x (y - 1) c s;
      e \<leftarrow> vga_read_color x y s; vga_write_color x (y - 1) e s }"
  let ?P = "\<lambda>p t. \<exists>b. t = s\<lparr>g_vga_buf := b\<rparr> \<and> length b = 4000
    \<and> (\<forall>q. cell b q = (if q + 80 < p then cell (g_vga_buf s) (q + 80) else cell (g_vga_buf s) q))"
  have "\<exists>t. for_loop (80 * 1) (80 * 25) (\<lambda>p r. Option.bind r (?f (p mod 80) (p div 80))) (Some s) = Some t \<and> ?P (80 * 25) t"
  proof (rule for_loop_option)
    show "?P (80 * 1) s" using assms by (intro exI [of _ "g_vga_buf s"]) simp
  next
    fix p t
    assume p: "80 * 1 \<le> p" "p < 80 * 25" and "?P p t"
    then obtain b where b: "t = s\<lparr>g_vga_buf := b\<rparr>" "length b = 4000"
      "\<forall>q. cell b q = (if q + 80 < p then cell (g_vga_buf s) (q + 80) else cell (g_vga_buf s) q)" by blast
    have pos: "p div 80 * 80 + p mod 80 = p" "(p div 80 - 1) * 80 + p mod 80 = p - 80"
      using p(1) by (simp_all add: diff_mult_distrib)
    let ?b = "b[2 * (p - 80) := b ! (2 * p), Suc (2 * (p - 80)) := b ! Suc (2 * p)]"
    have "?f (p mod 80) (p div 80) t = Some (s\<lparr>g_vga_buf := ?b\<rparr>)"
      unfolding vga_defs pos using b(1,2) p by simp
    moreover have "cell ?b q = (if q = p - 80 then cell b p else cell b q)" for q
      using p cell_update [OF b(2), of "p - 80"] by (simp add: cell_def)
    then have "cell ?b q = (if q + 80 < Suc p then cell (g_vga_buf s) (q + 80) else cell (g_vga_buf s) q)" for q
      using b(3) p(1) by auto
    ultimately show "\<exists>t'. ?f (p mod 80) (p div 80) t = Some t' \<and> ?P (Suc p) t'"
      using b(2) by (intro exI [of _ "s\<lparr>g_vga_buf := ?b\<rparr>"] conjI exI [of _ ?b]) simp_all
  qed simp
  then have "\<exists>t. for_cells 1 25 ?f s = Some t \<and> ?P (80 * 25) t" by (simp only: for_cells_linear [of 1 25] numeral_One one_le_numeral)
  then obtain b where b: "for_cells 1 25 ?f s = Some (s\<lparr>g_vga_buf := b\<rparr>)" "length b = 4000"
    "\<forall>q. cell b q = (if q + 80 < 2000 then cell (g_vga_buf s) (q + 80) else cell (g_vga_buf s) q)"
    by auto
  moreover obtain b' where "for_cells 24 25 (\<lambda>x y. put_cell x y 0 d) (s\<lparr>g_vga_buf := b\<rparr>) = Some (s\<lparr>g_vga_buf := b'\<rparr>)"
    "length b' = 4000" "\<forall>q. cell b' q = (if 80 * 24 \<le> q \<and> q < 2000 then (0, d) else cell b q)"
    using fill_rows [of "s\<lparr>g_vga_buf := b\<rparr>" 24 0 d] b(2) by auto
  ultimately show ?thesis by (auto simp: vga_scroll_def SCREEN_HEIGHT_def)
qed

subsection \<open>The cursor\<close>

definition con_pos :: "console \<Rightarrow> nat" where
  "con_pos s = g_con_y s * 80 + g_con_x s"

text \<open>The state with another buffer and the cursor, also that of the hardware, at \<open>(x, y)\<close>.\<close>

definition con_at :: "u8 list \<Rightarrow> nat \<Rightarrow> nat \<Rightarrow> console \<Rightarrow> console" where
  "con_at b x y s = vga_cursor_set x y (s\<lparr>g_vga_buf := b, g_con_x := x, g_con_y := y\<rparr>)"

lemma con_at_simps [simp]:
  "g_vga_buf (con_at b x y s) = b" "g_con_x (con_at b x y s) = x" "g_con_y (con_at b x y s) = y"
  "g_params (con_at b x y s) = g_params s" "g_param_idx (con_at b x y s) = g_param_idx s" "g_state (con_at b x y s) = g_state s"
  "g_con_color (con_at b x y s) = g_con_color s" "con_pos (con_at b x y s) = y * 80 + x"
  by (simp_all add: con_at_def vga_cursor_set_def Let_def con_pos_def)

lemma con_at_ok: "con_ok s \<Longrightarrow> length b = 4000 \<Longrightarrow> x < 80 \<Longrightarrow> y < 25 \<Longrightarrow> con_ok (con_at b x y s)"
  by (simp add: con_ok_def)

lemma advance_spec:
  assumes "length (g_vga_buf s) = 4000" and "g_con_x s \<le> 80" and "g_con_y s \<le> 25" and "g_con_x s = 80 \<Longrightarrow> g_con_y s < 25"
  shows "\<exists>b x y. con_advance s = Some (con_at b x y s) \<and> length b = 4000 \<and> x < 80 \<and> y < 25
    \<and> (con_pos s < 2000 \<longrightarrow> b = g_vga_buf s \<and> y * 80 + x = con_pos s)
    \<and> (2000 \<le> con_pos s \<longrightarrow> y * 80 + x + 80 = con_pos s
        \<and> (\<forall>q<2000. cell b q = (if q < 1920 then cell (g_vga_buf s) (q + 80) else (0, g_con_color s))))"
proof -
  define x where "x = (if g_con_x s \<ge> 80 then 0 else g_con_x s)"
  define y where "y = (if g_con_x s \<ge> 80 then g_con_y s + 1 else g_con_y s)"
  define t where "t = s\<lparr>g_con_x := x, g_con_y := y\<rparr>"
  have t: "(if g_con_x s \<ge> 80 then s\<lparr>g_con_x := 0, g_con_y := g_con_y s + 1\<rparr> else s) = t"
    by (simp add: t_def x_def y_def)
  have p: "con_pos s = y * 80 + x" "x < 80" "y \<le> 25" using assms(2-4) by (auto simp: x_def y_def con_pos_def)
  have adv: "con_advance s = (if y \<ge> 25 then map_option (\<lambda>u. vga_cursor_set (g_con_x u) 24 (u\<lparr>g_con_y := 24\<rparr>)) (vga_scroll 1 (g_con_color s) t)
      else Some (vga_cursor_set x y t))"
    unfolding con_advance_def SCREEN_WIDTH_def SCREEN_HEIGHT_def Let_def t
    by (cases "vga_scroll 1 (g_con_color s) t") (auto simp: t_def scroll_up)
  show ?thesis
  proof (cases "y = 25")
    case True
    obtain b where "vga_scroll 1 (g_con_color s) t = Some (t\<lparr>g_vga_buf := b\<rparr>)" "length b = 4000"
      "\<forall>q<2000. cell b q = (if q < 1920 then cell (g_vga_buf s) (q + 80) else (0, g_con_color s))"
      using scroll_up [of t "g_con_color s"] assms(1) by (auto simp: t_def)
    then show ?thesis using True p adv
      by - (rule exI [of _ b], rule exI [of _ x], rule exI [of _ 24], simp add: con_at_def t_def vga_cursor_set_def)
  next
    case False
    then show ?thesis using p adv assms(1)
      by - (rule exI [of _ "g_vga_buf s"], rule exI [of _ x], rule exI [of _ y], simp add: con_at_def t_def vga_cursor_set_def)
  qed
qed

text \<open>A character that is no control character goes into the cell at the cursor.\<close>

lemma put_char_spec:
  assumes "con_ok s"
  defines "p \<equiv> con_pos s" and "e \<equiv> (\<lambda>c q. if q = con_pos s then (c, g_con_color s) else cell (g_vga_buf s) q)"
  shows "\<exists>b x y. con_put_char c s = Some (con_at b x y s) \<and> length b = 4000 \<and> x < 80 \<and> y < 25
    \<and> (p < 1999 \<longrightarrow> y * 80 + x = p + 1 \<and> (\<forall>q<2000. cell b q = e c q))
    \<and> (p = 1999 \<longrightarrow> y * 80 + x = 1920 \<and> (\<forall>q<2000. cell b q = (if q < 1920 then e c (q + 80) else (0, g_con_color s))))"
proof -
  let ?b = "(g_vga_buf s)[2 * p := c, Suc (2 * p) := g_con_color s]"
  have s: "length (g_vga_buf s) = 4000" "g_con_x s < 80" "g_con_y s < 25" using assms(1) by (simp_all add: con_ok_def)
  then have p: "p < 2000" by (simp add: p_def con_pos_def)
  have put: "put_cell (g_con_x s) (g_con_y s) c (g_con_color s) s = Some (s\<lparr>g_vga_buf := ?b\<rparr>)"
    using put_cell_Some [OF s(1), of "g_con_y s" "g_con_x s"] p by (simp add: p_def con_pos_def)
  define t where "t = s\<lparr>g_vga_buf := ?b, g_con_x := g_con_x s + 1\<rparr>"
  have adv: "con_put_char c s = con_advance t" by (simp add: con_put_char_def put t_def)
  have t: "con_pos t = p + 1" "g_vga_buf t = ?b" "g_con_color t = g_con_color s" by (simp_all add: t_def con_pos_def p_def)
  have at: "con_at b x y t = con_at b x y s" for b x y by (simp add: con_at_def t_def vga_cursor_set_def)
  have cell: "cell ?b q = e c q" for q using cell_update [OF s(1) p] by (simp add: e_def p_def)
  obtain b x y where b: "con_advance t = Some (con_at b x y t)" "length b = 4000" "x < 80" "y < 25"
      "con_pos t < 2000 \<longrightarrow> b = g_vga_buf t \<and> y * 80 + x = con_pos t"
      "2000 \<le> con_pos t \<longrightarrow> y * 80 + x + 80 = con_pos t
        \<and> (\<forall>q<2000. cell b q = (if q < 1920 then cell (g_vga_buf t) (q + 80) else (0, g_con_color t)))"
    using advance_spec [of t] s by (auto simp: t_def)
  show ?thesis
    using b(1-4) b(5,6) unfolding adv at t cell by - (rule exI [of _ b], rule exI [of _ x], rule exI [of _ y], auto simp: cell)
qed

lemma tab_ok: "con_ok s \<Longrightarrow> \<exists>s'. con_tab s = Some s' \<and> con_ok s'"
proof (induction "80 - g_con_x s" arbitrary: s rule: less_induct)
  case less
  obtain b x y where b: "con_put_char 0x20 s = Some (con_at b x y s)" "length b = 4000" "x < 80" "y < 25"
    and p: "con_pos s < 1999 \<longrightarrow> y * 80 + x = con_pos s + 1" "con_pos s = 1999 \<longrightarrow> y * 80 + x = 1920"
    using put_char_spec [OF less.prems, of "0x20"] by blast
  have ok: "con_ok (con_at b x y s)" by (rule con_at_ok [OF less.prems b(2-4)])
  have "con_pos s \<le> 1999" using less.prems by (simp add: con_ok_def con_pos_def)
  moreover have "(y * 80 + x) mod 80 = x" "con_pos s mod 80 = g_con_x s"
    using b(3) less.prems by (simp_all add: con_pos_def con_ok_def)
  ultimately have x: "x = (g_con_x s + 1) mod 80"
    using p mod_Suc_eq [of "con_pos s" 80] by (cases "con_pos s = 1999") auto
  show ?case
  proof (cases "x mod 4 = 0")
    case True
    then show ?thesis using b(1) ok by (subst con_tab.simps) simp
  next
    case False
    then have "x \<noteq> 0" by auto
    then have "x = g_con_x s + 1" using x less.prems by (auto simp: con_ok_def mod_Suc split: if_splits)
    then have "80 - g_con_x (con_at b x y s) < 80 - g_con_x s" using b(3) by simp
    then show ?thesis using less.hyps ok b(1) False by (subst con_tab.simps) simp
  qed
qed

lemma backspace_ok: "con_ok s \<Longrightarrow> \<exists>s'. con_backspace s = Some s' \<and> con_ok s'"
  by (auto simp: con_backspace_def con_ok_def put_cell_Some SCREEN_WIDTH_def vga_cursor_set_def Let_def)

lemma cursor_set_ok: "con_ok s \<Longrightarrow> con_ok (con_cursor_set x y s)"
  by (auto simp: con_cursor_set_def con_ok_def vga_cursor_set_def SCREEN_WIDTH_def SCREEN_HEIGHT_def Let_def)

lemma clear_spec:
  assumes "length (g_vga_buf s) = 4000"
  shows "\<exists>b ps. con_clear s = Some (s\<lparr>g_vga_buf := b, g_con_x := 0, g_con_y := 0, vga_ports := ps\<rparr>) \<and> length b = 4000
    \<and> (\<forall>q<2000. cell b q = (0x20, g_con_color s))"
proof -
  obtain b where b: "for_cells 0 25 (\<lambda>x y. put_cell x y 0x20 (g_con_color s)) s = Some (s\<lparr>g_vga_buf := b\<rparr>)" "length b = 4000"
    "\<forall>q. cell b q = (if 80 * 0 \<le> q \<and> q < 2000 then (0x20, g_con_color s) else cell (g_vga_buf s) q)"
    using fill_rows [OF assms, of 0 "0x20" "g_con_color s"] by auto
  then show ?thesis
    by (intro exI [of _ b] exI conjI) (simp_all add: con_clear_def vga_clear_def vga_cursor_set_def SCREEN_HEIGHT_def Let_def)
qed

lemma clear_ok:
  assumes "con_ok s"
  shows "\<exists>s'. con_clear s = Some s' \<and> con_ok s'"
proof -
  have "length (g_vga_buf s) = 4000" using assms by (simp add: con_ok_def)
  from clear_spec [OF this] show ?thesis using assms by (auto simp: con_ok_def)
qed

lemma clear_line_ok:
  assumes "con_ok s"
  shows "\<exists>s'. for_loop (g_con_x s) 80 (\<lambda>i r. do { s \<leftarrow> r; put_cell i (g_con_y s) c (g_con_color s) s }) (Some s) = Some s' \<and> con_ok s'"
proof (rule for_loop_option)
  fix i :: nat and t
  assume "i < 80" "con_ok t"
  then show "\<exists>t'. put_cell i (g_con_y t) c (g_con_color t) t = Some t' \<and> con_ok t'"
    by (simp add: con_ok_def put_cell_Some)
qed (use assms in \<open>simp_all add: con_ok_def\<close>)

lemma rendition_ok: "con_ok s \<Longrightarrow> con_ok (select_rendition p s)"
  by (simp add: select_rendition_def con_ok_def)

lemma csi_ok:
  assumes "con_ok s"
  shows "\<exists>s'. handle_csi_command c s = Some s' \<and> con_ok s'"
proof -
  have "con_ok (s\<lparr>g_saved_x := g_con_x s, g_saved_y := g_con_y s\<rparr>)" using assms by (simp add: con_ok_def)
  moreover have "con_ok (for_loop 0 (g_param_idx s + 1) (\<lambda>i s. select_rendition (g_params s ! i) s) s)"
    by (rule fold_inv) (use assms in \<open>simp_all add: rendition_ok\<close>)
  ultimately show ?thesis
    using clear_line_ok [OF assms, of "0x20"] clear_ok [OF assms] cursor_set_ok [OF assms] assms
    by (simp add: handle_csi_command_def SCREEN_WIDTH_def)
qed

lemma params_ok: "con_ok s \<Longrightarrow> \<exists>s'. con_params c s = Some s' \<and> con_ok s'"
  using csi_ok [of s c] by (auto simp: con_params_def con_ok_def)

lemma advance_ok:
  assumes "con_ok s" and "x < 80" and "y \<le> 25"
  shows "\<exists>s'. con_advance (s\<lparr>g_con_x := x, g_con_y := y\<rparr>) = Some s' \<and> con_ok s'"
proof -
  let ?s = "s\<lparr>g_con_x := x, g_con_y := y\<rparr>"
  obtain b x' y' where "con_advance ?s = Some (con_at b x' y' ?s)" "length b = 4000" "x' < 80" "y' < 25"
    using advance_spec [of ?s] assms by (auto simp: con_ok_def)
  then show ?thesis using assms(1) by (auto simp: con_ok_def)
qed

lemma print_ok:
  assumes "con_ok s"
  shows "\<exists>s'. con_print c s = Some s' \<and> con_ok s'"
proof -
  have "\<exists>s'. con_put_char c s = Some s' \<and> con_ok s'"
    using put_char_spec [OF assms, of c] con_at_ok [OF assms] by blast
  moreover have "s\<lparr>g_con_x := 0\<rparr> = s\<lparr>g_con_x := 0, g_con_y := g_con_y s\<rparr>" by simp
  moreover have "g_con_y s < 25" using assms by (simp add: con_ok_def)
  ultimately show ?thesis
    using tab_ok [OF assms] backspace_ok [OF assms] advance_ok [OF assms, of 0 "g_con_y s + 1"] advance_ok [OF assms, of 0 "g_con_y s"]
    by (simp add: con_print_def)
qed

lemma putc_ok:
  assumes "con_ok s"
  shows "\<exists>s'. con_putc c s = Some s' \<and> con_ok s'"
proof -
  have "con_ok (s\<lparr>g_state := STATE_NORMAL\<rparr>)" using assms by (simp add: con_ok_def)
  then show ?thesis
    using print_ok [OF assms, of c] print_ok [of "s\<lparr>g_state := STATE_NORMAL\<rparr>" c] params_ok [OF assms, of c] assms
      cursor_set_ok [OF assms, of "int (g_saved_x s)" "int (g_saved_y s)"]
    by (cases "g_state s") (auto simp: con_putc_def con_ok_def)
qed

lemma puts_ok: "con_ok s \<Longrightarrow> \<exists>s'. con_puts str s = Some s' \<and> con_ok s'"
  unfolding con_puts_def
proof (induction str arbitrary: s)
  case (Cons c str)
  then show ?case using putc_ok [OF Cons.prems, of c] by auto
qed simp

subsection \<open>Escape sequences\<close>

definition digit :: "u8 \<Rightarrow> bool" where
  "digit c \<longleftrightarrow> 0x30 \<le> c \<and> c \<le> 0x39"

definition number :: "u32 \<Rightarrow> u8 list \<Rightarrow> u32" where
  "number v ds = fold (\<lambda>c v. v * 10 + (ucast c - 0x30)) ds v"

lemma con_puts_simps [simp]: "con_puts [] s = Some s" "con_puts (c # cs) s = Option.bind (con_putc c s) (con_puts cs)"
proof -
  have "fold (\<lambda>c r. Option.bind r (con_putc c)) xs None = None" for xs by (induction xs) auto
  then show "con_puts [] s = Some s" "con_puts (c # cs) s = Option.bind (con_putc c s) (con_puts cs)"
    by (cases "con_putc c s"; simp add: con_puts_def)+
qed

lemma con_puts_append: "con_puts (xs @ ys) s = Option.bind (con_puts xs s) (con_puts ys)"
proof (induction xs arbitrary: s)
  case (Cons c xs)
  then show ?case by (cases "con_putc c s") auto
qed simp

lemma puts_digits:
  assumes "list_all digit ds" and "g_state s = STATE_PARAMS" and "length (g_params s) = 4" and "g_param_idx s = i" and "i < 4"
  shows "con_puts ds s = Some (s\<lparr>g_params := (g_params s)[i := number (g_params s ! i) ds]\<rparr>)"
  using assms(1-4)
proof (induction ds arbitrary: s)
  case (Cons c ds)
  let ?s = "s\<lparr>g_params := (g_params s)[i := g_params s ! i * 10 + (ucast c - 0x30)]\<rparr>"
  have "con_putc c s = Some ?s" using Cons.prems by (simp add: con_putc_def con_params_def digit_def)
  moreover have "con_puts ds ?s = Some (?s\<lparr>g_params := (g_params ?s)[i := number (g_params ?s ! i) ds]\<rparr>)"
    by (rule Cons.IH) (use Cons.prems in simp_all)
  ultimately show ?case using Cons.prems(3) assms(5) by (simp add: number_def)
qed (simp add: number_def)

text \<open>The sequence for moving the cursor: \<^verbatim>\<open>ESC [ row ; column H\<close>.\<close>

lemma cursor_escape:
  assumes "con_ok s" and "g_state s = STATE_NORMAL" and "list_all digit row" and "list_all digit col"
  shows "\<exists>s'. con_puts ([0x1B, 0x5B] @ row @ [0x3B] @ col @ [0x48]) s = Some s' \<and> g_state s' = STATE_NORMAL
    \<and> g_vga_buf s' = g_vga_buf s
    \<and> int (g_con_x s') = max 0 (min 79 (sint (number 0 col - 1))) \<and> int (g_con_y s') = max 0 (min 24 (sint (number 0 row - 1)))"
proof -
  define t where "t = s\<lparr>g_state := STATE_PARAMS, g_params := [0, 0, 0, 0], g_param_idx := 0\<rparr>"
  have a: "con_puts [0x1B, 0x5B] s = Some t" using assms(2) by (simp add: con_putc_def t_def)
  have b: "con_puts row t = Some (t\<lparr>g_params := [number 0 row, 0, 0, 0]\<rparr>)"
    using puts_digits [OF assms(3), of t 0] by (simp add: t_def)
  have c: "con_puts [0x3B] (t\<lparr>g_params := [number 0 row, 0, 0, 0]\<rparr>) = Some (t\<lparr>g_params := [number 0 row, 0, 0, 0], g_param_idx := 1\<rparr>)"
    by (simp add: con_putc_def con_params_def t_def)
  have d: "con_puts col (t\<lparr>g_params := [number 0 row, 0, 0, 0], g_param_idx := 1\<rparr>)
      = Some (t\<lparr>g_params := [number 0 row, number 0 col, 0, 0], g_param_idx := 1\<rparr>)"
    using puts_digits [OF assms(4), of "t\<lparr>g_params := [number 0 row, 0, 0, 0], g_param_idx := 1\<rparr>" 1] by (simp add: t_def)
  show ?thesis
    unfolding con_puts_append a b c d Option.bind.simps
    by (simp add: con_putc_def con_params_def handle_csi_command_def con_cursor_set_def vga_cursor_set_def t_def
        SCREEN_WIDTH_def SCREEN_HEIGHT_def Let_def)
qed

subsection \<open>Properties\<close>

text \<open>
  C14. Typing of the console state: once the console module has been initialised, no string of bytes,
  however malformed its escape sequences, makes it access memory outside the frame buffer or loop, and
  the cursor, the index of the current parameter and the sizes stay in range.
\<close>

theorem console_stays_on_screen:
  assumes "length (g_vga_buf s) = 4000" and "length (g_params s) = 4" and "g_param_idx s \<le> 3"
  shows "\<exists>s0. con_module_init s = Some s0 \<and> con_ok s0 \<and> (\<forall>str. \<exists>s'. con_puts str s0 = Some s' \<and> con_ok s')"
proof -
  let ?s = "s\<lparr>g_con_mode := CON_MODE_DARK, g_con_default_color := DARK_MODE, g_con_color := DARK_MODE\<rparr>"
  obtain b ps where "con_clear ?s = Some (?s\<lparr>g_vga_buf := b, g_con_x := 0, g_con_y := 0, vga_ports := ps\<rparr>)" "length b = 4000"
    using clear_spec [of ?s] assms(1) by auto
  then have "\<exists>s0. con_module_init s = Some s0 \<and> con_ok s0"
    using assms by (simp add: con_module_init_def con_ok_def)
  then show ?thesis using puts_ok by blast
qed

definition console_boot :: console where
  "console_boot = \<lparr>g_vga_buf = replicate 4000 0, vga_ports = [], g_con_mode = CON_MODE_DARK, g_state = STATE_NORMAL,
     g_params = [0, 0, 0, 0], g_param_idx = 0, g_con_x = 0, g_con_y = 0, g_saved_x = 0, g_saved_y = 0, g_con_color = 0,
     g_con_default_color = 0\<rparr>"

theorem console_stays_on_screen_witness:
  "\<exists>s0 s'. con_module_init console_boot = Some s0 \<and> con_puts [0x68, 0x1B, 0x5B, 0x39, 0x48, 0x0A] s0 = Some s' \<and> con_ok s'"
proof -
  have "length (g_vga_buf console_boot) = 4000" "length (g_params console_boot) = 4" "g_param_idx console_boot \<le> 3"
    by (simp_all add: console_boot_def)
  from console_stays_on_screen [OF this] show ?thesis by blast
qed

text \<open>
  C32. Printing: a character that is no control character appears in the cell under the cursor, in the current
  colour, and the cursor moves on by one cell, the hardware cursor with it. Behind the last cell of the
  screen all rows move up by one and the last row is blank; no other cell changes.
\<close>

theorem console_prints:
  assumes "con_ok s" and "g_state s = STATE_NORMAL" and "c \<notin> {0x08, 0x09, 0x0A, 0x0D, 0x1B}"
  defines "p \<equiv> con_pos s" and "e \<equiv> (\<lambda>q. if q = con_pos s then (c, g_con_color s) else cell (g_vga_buf s) q)"
  shows "\<exists>s'. con_putc c s = Some s' \<and> con_ok s' \<and> con_pos s' = (if p < 1999 then p + 1 else 1920)
    \<and> (\<forall>q<2000. cell (g_vga_buf s') q = (if p < 1999 then e q else if q < 1920 then e (q + 80) else (0, g_con_color s)))
    \<and> vga_ports s' = vga_ports s @ [(0x3D4, 0x0F), (0x3D5, of_nat (con_pos s')), (0x3D4, 0x0E), (0x3D5, of_nat (con_pos s' div 256))]"
proof -
  have "con_putc c s = con_put_char c s" using assms(2,3) by (simp add: con_putc_def con_print_def)
  moreover have "p < 1999 \<or> p = 1999" using assms(1) by (auto simp: p_def con_ok_def con_pos_def)
  moreover have "vga_ports (con_at b x y s) = vga_ports s @ [(0x3D4, 0x0F), (0x3D5, of_nat (con_pos (con_at b x y s))),
      (0x3D4, 0x0E), (0x3D5, of_nat (con_pos (con_at b x y s) div 256))]" for b x y
    by (simp add: con_at_def con_pos_def vga_cursor_set_def SCREEN_WIDTH_def Let_def)
  moreover obtain b x y where "con_put_char c s = Some (con_at b x y s)" "length b = 4000" "x < 80" "y < 25"
      "con_pos s < 1999 \<longrightarrow> y * 80 + x = con_pos s + 1 \<and> (\<forall>q<2000. cell b q = e q)"
      "con_pos s = 1999 \<longrightarrow> y * 80 + x = 1920 \<and> (\<forall>q<2000. cell b q = (if q < 1920 then e (q + 80) else (0, g_con_color s)))"
    using put_char_spec [OF assms(1), of c] unfolding e_def by blast
  ultimately show ?thesis using con_at_ok [OF assms(1), of b x y]
    by (intro exI [of _ "con_at b x y s"]) (auto simp: p_def)
qed

theorem console_prints_witness:
  "\<exists>s'. con_putc 0x68 console_boot = Some s' \<and> con_pos s' = 1 \<and> cell (g_vga_buf s') 0 = (0x68, 0)"
proof -
  have "con_ok console_boot" "g_state console_boot = STATE_NORMAL" "con_pos console_boot = 0" "g_con_color console_boot = 0"
    by (simp_all add: console_boot_def con_ok_def con_pos_def)
  moreover have "(0x68 :: u8) \<notin> {0x08, 0x09, 0x0A, 0x0D, 0x1B}" by simp
  ultimately show ?thesis using console_prints [of console_boot "0x68"] by auto
qed

end
