(* ===== verification/WaitQueue.thy ===== *)
theory WaitQueue
  imports SchedMain
begin

text \<open>
  Wait queues (\<^verbatim>\<open>kernel/src/sched/wait.c\<close>) are first-in first-out queues of blocked threads, linked through the
  same field as the ready queues: blocking appends the running thread and switches to another, waking
  moves the first blocked thread to its ready queue.
\<close>

subsection \<open>What the scheduler leaves alone\<close>

lemma lock_threads: "lock_sched s = Some s' \<Longrightarrow> threads s' = threads s \<and> ready_queue_tails s' = ready_queue_tails s"
  "unlock_sched s = Some s' \<Longrightarrow> threads s' = threads s \<and> ready_queue_tails s' = ready_queue_tails s"
  by (auto simp: lock_sched_def unlock_sched_def bind_eq_Some_conv)

lemma enqueue_frame:
  assumes "sched_enqueue t s = Some s'" and "u \<noteq> t" and "priority (threads s t) < 4" and "u \<noteq> ready_queue_tails s (priority (threads s t))"
  shows "threads s' u = threads s u"
proof (cases "t = 0 \<or> tid (threads s t) = 0")
  case True
  then show ?thesis using assms(1) by (simp add: sched_enqueue_def)
next
  case False
  then obtain s1 where s1: "lock_sched s = Some s1" using assms(1) by (auto simp: sched_enqueue_def bind_eq_Some_conv)
  then have f: "threads s1 = threads s" "ready_queue_tails s1 = ready_queue_tails s" using lock_threads(1) by blast+
  obtain s2 where "unlock_sched s2 = Some s'" "threads s2 u = threads s u"
    using assms(1) False s1 assms(2-4) f by (simp add: sched_enqueue_def Let_def THREAD_NUM_PRIORITIES_def upd_thread_def split: if_splits)
  then show ?thesis using lock_threads(2) by fastforce
qed

lemma pick_frame:
  assumes "sched_pick_next s = Some (n, s')" and "u \<noteq> n"
  shows "threads s' u = threads s u"
proof -
  obtain s1 where s1: "lock_sched s = Some s1" using assms(1) by (auto simp: sched_pick_next_def bind_eq_Some_conv)
  then have f: "threads s1 = threads s" using lock_threads(1) by blast
  obtain s2 where "unlock_sched s2 = Some s'" "threads s2 u = threads s u"
    using assms s1 f by (fastforce simp: sched_pick_next_def Let_def upd_thread_def sched_prepare_for_cpu_burst_def bind_eq_Some_conv
        split: if_splits option.splits)
  then show ?thesis using lock_threads(2) by fastforce
qed

lemma switch_frame:
  assumes "sched_switch_next s = Some s'" and "u \<noteq> g_current_thread s'"
  shows "threads s' u = threads s u"
proof -
  obtain n s1 where s1: "sched_pick_next s = Some (n, s1)" "dispatch_switch_to n s1 = Some s'"
    using assms(1) by (auto simp: sched_switch_next_def bind_eq_Some_conv)
  have "n \<noteq> 0"
  proof
    assume "n = 0"
    then show False using s1(2) by (simp add: dispatch_switch_to_def)
  qed
  then obtain k where "s' = upd_thread n (\<lambda>th. th\<lparr>tstate := THREAD_STATE_RUNNING\<rparr>) (s1\<lparr>tss_kstack := k, g_current_thread := n\<rparr>)"
    using dispatch_eq [of n s1] s1(2) by auto
  then have "u \<noteq> n" "threads s' u = threads s1 u" using assms(2) by (auto simp: upd_thread_def)
  then show ?thesis using pick_frame [OF s1(1)] by simp
qed

subsection \<open>Blocking and waking\<close>

definition wait_rel :: "sched \<Rightarrow> wait_queue_t \<Rightarrow> nat list \<Rightarrow> bool" where
  "wait_rel s q ws \<longleftrightarrow> queue (nx s) (wq_head q) (wq_tail q) ws \<and> lock_val (wq_lock q) = 0"

text \<open>Blocked threads are in no other queue.\<close>

definition wait_ok :: "sched \<Rightarrow> (nat \<Rightarrow> nat list) \<Rightarrow> nat list \<Rightarrow> nat list \<Rightarrow> bool" where
  "wait_ok s qs sl ws \<longleftrightarrow> (\<forall>t \<in> set ws. waiting (threads s t) \<and> unqueued qs t \<and> t \<notin> set sl \<and> t \<noteq> g_current_thread s)"

lemma nx_interrupts [simp]: "nx (s\<lparr>interrupts_on := i\<rparr>) = nx s" "nxs (s\<lparr>interrupts_on := i\<rparr>) = nxs s"
  by (simp_all add: nx_def [abs_def] nxs_def [abs_def])

lemma rel_interrupts: "sched_rel s qs sl \<Longrightarrow> sched_rel (s\<lparr>interrupts_on := i\<rparr>) qs sl"
  by (simp add: sched_rel_def queues_rel_def sleep_rel_def)

lemma thread_rel:
  assumes rel: "sched_rel s qs sl" and n: "unqueued qs n" "n \<notin> set sl" and s': "s' = upd_thread n f (s\<lparr>interrupts_on := i\<rparr>)"
    and f: "tid (f (threads s n)) = tid (threads s n)"
      "curr_time_quantum_ticks_passed (f (threads s n)) = curr_time_quantum_ticks_passed (threads s n)"
  shows "sched_rel s' qs sl"
proof -
  have q: "queues_rel s qs" "sleep_rel s sl" "lock_val (sched_lock s) = 0" using rel by (simp_all add: sched_rel_def)
  have th: "threads s' u = (if u = n then f (threads s n) else threads s u)" for u by (simp add: s' upd_thread_def)
  have "queues_rel s' qs"
  proof (rule queues_frame [OF q(1)])
    fix p u assume "p < 4" "u \<in> set (qs p)"
    then have "u \<noteq> n" using n(1) by (auto simp: unqueued_def)
    then show "next_thread (threads s' u) = next_thread (threads s u) \<and> priority (threads s' u) = priority (threads s u)
      \<and> tstate (threads s' u) = tstate (threads s u) \<and> burst_ticks_estimate (threads s' u) = burst_ticks_estimate (threads s u)"
      by (simp add: th)
  qed (use queues_relD(3) [OF q(1)] f in \<open>auto simp: th s' upd_thread_def\<close>)
  moreover have "sleep_rel s' sl"
  proof (rule sleep_frame [OF q(2)])
    fix u assume "u \<in> set sl"
    then have "u \<noteq> n" using n(2) by auto
    then show "next_sleep (threads s' u) = next_sleep (threads s u) \<and> wakeup_time (threads s' u) = wakeup_time (threads s u)
      \<and> tstate (threads s' u) = tstate (threads s u) \<and> tid (threads s' u) = tid (threads s u) \<and> priority (threads s' u) = priority (threads s u)"
      by (simp add: th)
  qed (simp add: s' upd_thread_def)
  ultimately show ?thesis using q(3) by (simp add: sched_rel_def s' upd_thread_def)
qed

lemma wake_first:
  assumes rel: "sched_rel s qs sl" and q: "wait_rel s q (t # ws)" and ok: "wait_ok s qs sl (t # ws)"
  defines "p \<equiv> priority (threads s t)"
  shows "\<exists>q' s'. wake_up_queue q s = Some (q', s') \<and> sched_rel s' (qs(p := qs p @ [t])) sl \<and> wait_rel s' q' ws
    \<and> wait_ok s' (qs(p := qs p @ [t])) sl ws \<and> g_current_thread s' = g_current_thread s \<and> interrupts_on s' = interrupts_on s"
proof -
  have Q: "queue (nx s) (wq_head q) (wq_tail q) (t # ws)" "lock_val (wq_lock q) = 0" using q by (simp_all add: wait_rel_def)
  have d: "distinct (t # ws)" using Q(1) by (rule queue_distinct)
  have t: "wq_head q = t" "t \<noteq> 0" "waiting (threads s t)" "unqueued qs t" "t \<notin> set sl"
    using queue_pop(1,2) [OF Q(1), of "nx s"] ok by (simp_all add: wait_ok_def)
  define s1 where "s1 = upd_thread t (\<lambda>th. th\<lparr>next_thread := 0, tstate := THREAD_STATE_READY\<rparr>) (s\<lparr>interrupts_on := False\<rparr>)"
  have th1: "threads s1 u = (if u = t then (threads s t)\<lparr>next_thread := 0, tstate := THREAD_STATE_READY\<rparr> else threads s u)" for u
    by (simp add: s1_def upd_thread_def)
  have rel1: "sched_rel s1 qs sl" by (rule thread_rel [OF rel t(4,5) s1_def]) simp_all
  have w1: "waiting (threads s1 t)" "priority (threads s1 t) = p" using t(3) by (simp_all add: th1 waiting_def p_def)
  obtain s2 where s2: "sched_enqueue t s1 = Some s2" "sched_rel s2 (qs(p := qs p @ [t])) sl" "same_outside {t} s1 s2"
    using enqueue_rel [OF rel1 t(2) w1(1) t(4,5)] w1(2) by auto
  have "queue (nx s1) (ready_queue_heads s1 p) (ready_queue_tails s1 p) (qs p)" "p < 4"
    using rel1 w1 by (auto simp: sched_rel_def waiting_def dest: queues_relD(1))
  then have tail: "ready_queue_tails s1 p = 0 \<or> ready_queue_tails s1 p \<in> set (qs p)" by (auto simp: queue_def)
  have keep: "threads s2 u = threads s u" if "u \<in> set ws" for u
  proof -
    have "u \<noteq> t" "u \<noteq> 0" using that d lseg_nonzero [of "nx s" "wq_head q" "t # ws" 0 u] Q(1) by (auto simp: queue_def)
    moreover have "u \<noteq> ready_queue_tails s1 p"
      using tail ok that \<open>u \<noteq> 0\<close> \<open>p < 4\<close> by (auto simp: wait_ok_def unqueued_def)
    ultimately show ?thesis using enqueue_frame [OF s2(1)] w1 \<open>p < 4\<close> th1 by simp
  qed
  let ?q = "q\<lparr>wq_lock := held (wq_lock q) (interrupts_on s), wq_head := nx s t, wq_tail := (if nx s t = 0 then 0 else wq_tail q)\<rparr>"
  have i2: "interrupts_on s2 = False" "g_current_thread s2 = g_current_thread s" using s2(3) by (simp_all add: same_outside_def s1_def upd_thread_def)
  have pop: "queue (nx s2) (nx s t) (if nx s t = 0 then 0 else wq_tail q) ws"
    by (rule queue_pop(3) [OF Q(1)]) (simp add: nx_def keep)
  let ?s' = "s2\<lparr>interrupts_on := interrupts_on s\<rparr>" and ?q' = "?q\<lparr>wq_lock := (held (wq_lock q) (interrupts_on s))\<lparr>lock_val := 0\<rparr>\<rparr>"
  have "wake_up_queue q s = Some (?q', ?s')"
    using spinlock_acquire_free [OF Q(2), of "interrupts_on s"] spinlock_release_held [of "wq_lock q" "interrupts_on s" False] t(1,2) s2(1) i2(1)
    by (simp add: wake_up_queue_def s1_def [symmetric] nx_def)
  moreover have "sched_rel ?s' (qs(p := qs p @ [t])) sl" using s2(2) by (rule rel_interrupts)
  moreover have "wait_rel ?s' ?q' ws" using pop by (simp add: wait_rel_def)
  moreover have "wait_ok ?s' (qs(p := qs p @ [t])) sl ws"
    using ok d keep i2(2) by (auto simp: wait_ok_def unqueued_def)
  ultimately show ?thesis using i2(2) by (intro exI [of _ ?q'] exI [of _ ?s']) simp
qed

text \<open>The thread that is picked is not one of those that wait.\<close>

lemma set_tl: "x \<in> set (tl xs) \<Longrightarrow> x \<in> set xs"
  by (cases xs) auto

lemma pick_not_waiting:
  assumes "sched_rel s qs sl" and "waiting (threads s t)" and "unqueued qs t"
  shows "t \<noteq> fst (pick_queues (kernel_idle_task s) qs)" "unqueued (snd (pick_queues (kernel_idle_task s) qs)) t"
proof -
  have idle: "tid (threads s (kernel_idle_task s)) = 0" using assms(1) by (simp add: sched_rel_def queues_rel_def)
  show "t \<noteq> fst (pick_queues (kernel_idle_task s) qs)"
  proof (cases "first_queue qs")
    case None
    then show ?thesis using idle assms(2) by (auto simp: pick_queues_def waiting_def)
  next
    case (Some p)
    then have "hd (qs p) \<in> set (qs p)" "p < 4" using first_queue_Some by auto
    then show ?thesis using Some assms(3) by (auto simp: pick_queues_def unqueued_def)
  qed
  show "unqueued (snd (pick_queues (kernel_idle_task s) qs)) t"
    using assms(3) set_tl by (fastforce simp: pick_queues_def unqueued_def split: option.splits)
qed

lemma block_current:
  assumes inv: "sched_inv s qs sl" and q: "wait_rel s q ws" and ok: "wait_ok s qs sl ws"
    and c: "c = g_current_thread s" "waiting (threads s c)" and i: "interrupts_on s = False"
  defines "pk \<equiv> pick_queues (kernel_idle_task s) qs"
  shows "\<exists>q' s'. wait_on_queue q (Some (held l j)) s = Some (q', Some ((held l j)\<lparr>lock_val := 0\<rparr>), s')
    \<and> sched_inv s' (snd pk) sl \<and> g_current_thread s' = fst pk \<and> wait_rel s' q' (ws @ [c])
    \<and> wait_ok s' (snd pk) sl (ws @ [c]) \<and> interrupts_on s' = j"
proof -
  have rel: "sched_rel s qs sl" and cur: "c \<noteq> 0" "unqueued qs c" "c \<notin> set sl"
    using inv c(1) by (simp_all add: sched_inv_def current_ok_def Let_def)
  have Q: "queue (nx s) (wq_head q) (wq_tail q) ws" "lock_val (wq_lock q) = 0" using q by (simp_all add: wait_rel_def)
  have cw: "c \<notin> set ws" using ok c(1) by (auto simp: wait_ok_def)
  define s1 where "s1 = upd_thread c (\<lambda>th. th\<lparr>tstate := THREAD_STATE_BLOCKED, next_thread := 0\<rparr>) (s\<lparr>interrupts_on := False\<rparr>)"
  define s2 where "s2 = (if wq_tail q = 0 then s1 else upd_thread (wq_tail q) (\<lambda>th. th\<lparr>next_thread := c\<rparr>) s1)"
  define q2 where "q2 = q\<lparr>wq_head := (if wq_tail q = 0 then c else wq_head q), wq_tail := c\<rparr>"
  have rel1: "sched_rel s1 qs sl" by (rule thread_rel [OF rel cur(2,3) s1_def]) simp_all
  have tl: "wq_tail q = 0 \<or> wq_tail q \<in> set ws" using Q(1) by (auto simp: queue_def)
  have rel2: "sched_rel s2 qs sl"
  proof (cases "wq_tail q = 0")
    case False
    then have "unqueued qs (wq_tail q)" "wq_tail q \<notin> set sl" using tl ok by (auto simp: wait_ok_def)
    moreover have "s1 = s1\<lparr>interrupts_on := False\<rparr>" by (simp add: s1_def upd_thread_def)
    ultimately show ?thesis using False thread_rel [OF rel1, of "wq_tail q" s2 _ False] by (simp add: s2_def)
  qed (simp add: s2_def rel1)
  have th2: "nx s2 u = (if u = c then 0 else if u = wq_tail q \<and> u \<noteq> 0 then c else nx s u)"
    "tid (threads s2 u) = tid (threads s u)" "priority (threads s2 u) = priority (threads s u)" for u
    using tl cw cur(1) by (auto simp: s2_def s1_def upd_thread_def nx_def)
  have f2: "kernel_idle_task s2 = kernel_idle_task s" "interrupts_on s2 = False" "g_current_thread s2 = g_current_thread s"
    by (simp_all add: s2_def s1_def upd_thread_def)
  have w2: "waiting (threads s2 u) = waiting (threads s u)" for u
    by (simp add: waiting_def th2(2,3))
  let ?s3 = "s2\<lparr>interrupts_on := j\<rparr>"
  have rel3: "sched_rel ?s3 qs sl" by (rule rel_interrupts [OF rel2])
  obtain s' where s': "sched_switch_next ?s3 = Some s'" "sched_inv s' (snd pk) sl" "g_current_thread s' = fst pk" "interrupts_on s' = j"
    using switch_rel [OF rel3] f2 by (auto simp: pk_def)
  have away: "u \<noteq> fst pk" "unqueued (snd pk) u" if "u \<in> set (ws @ [c])" for u
    using pick_not_waiting [OF rel3, of u] that ok c(2) cur(2) w2 f2(1) by (auto simp: pk_def wait_ok_def)
  have keep: "threads s' u = threads s2 u" if "u \<in> set (ws @ [c])" for u
    using switch_frame [OF s'(1), of u] away(1) [OF that] s'(3) by simp
  have "queue (nx s2) (if wq_tail q = 0 then c else wq_head q) c (ws @ [c])"
  proof (rule queue_snoc [OF Q(1) cur(1) cw])
    fix x assume x: "x \<in> set ws"
    then have "x \<noteq> 0" using Q(1) by (auto simp: queue_def dest: lseg_nonzero)
    then show "nx s2 x = (if x = wq_tail q then c else nx s x)" using x cw by (auto simp: th2(1))
  qed (simp add: th2(1))
  then have queue: "queue (nx s') (wq_head q2) (wq_tail q2) (ws @ [c])"
    using queue_cong [of "ws @ [c]" "nx s'" "nx s2"] keep by (simp add: q2_def nx_def)
  have run: "wait_on_queue q (Some (held l j)) s
      = Some (q2\<lparr>wq_lock := (held (wq_lock q) False)\<lparr>lock_val := 0\<rparr>\<rparr>, Some ((held l j)\<lparr>lock_val := 0\<rparr>), s')"
    using spinlock_acquire_free [OF Q(2), of False] spinlock_release_held [of "wq_lock q" False j] spinlock_release_held [of l j False] s'(1) i c(1) f2(2)
    by (auto simp: wait_on_queue_def dispatch_get_current_def s1_def q2_def s2_def Let_def split: if_splits)
  have "wait_ok s' (snd pk) sl (ws @ [c])"
    unfolding wait_ok_def
  proof
    fix u assume u: "u \<in> set (ws @ [c])"
    then have "waiting (threads s u)" "u \<notin> set sl" using ok c(2) cur(3) by (auto simp: wait_ok_def)
    then show "waiting (threads s' u) \<and> unqueued (snd pk) u \<and> u \<notin> set sl \<and> u \<noteq> g_current_thread s'"
      using away [OF u] keep [OF u] w2 s'(3) by simp
  qed
  then show ?thesis using run s'(2-4) queue by (simp add: wait_rel_def held_def)
qed

text \<open>
  C30. A wait queue is first-in first-out: a thread that blocks on a condition is appended to the queue, the
  condition lock is released and another thread runs; the next wake-up takes the thread that has waited
  longest out of the queue and appends it to the ready queue of its priority. The locks are free again
  and the interrupt flag is that from before the condition lock was taken.
\<close>

theorem wait_queue_fifo:
  assumes "sched_inv s qs sl" and "wait_rel s q ws" and "wait_ok s qs sl ws"
    and "waiting (threads s (g_current_thread s))" and "interrupts_on s = False"
  defines "c \<equiv> g_current_thread s" and "pk \<equiv> pick_queues (kernel_idle_task s) qs"
  shows "\<exists>q1 s1 q2 s2. wait_on_queue q (Some (held l i)) s = Some (q1, Some ((held l i)\<lparr>lock_val := 0\<rparr>), s1)
    \<and> sched_inv s1 (snd pk) sl \<and> g_current_thread s1 = fst pk \<and> wait_rel s1 q1 (ws @ [c]) \<and> interrupts_on s1 = i
    \<and> wake_up_queue q1 s1 = Some (q2, s2) \<and> wait_rel s2 q2 (tl (ws @ [c])) \<and> g_current_thread s2 = fst pk \<and> interrupts_on s2 = i
    \<and> (let t = hd (ws @ [c]); p = priority (threads s1 t) in sched_rel s2 ((snd pk)(p := snd pk p @ [t])) sl)"
proof -
  obtain q1 s1 where b: "wait_on_queue q (Some (held l i)) s = Some (q1, Some ((held l i)\<lparr>lock_val := 0\<rparr>), s1)"
      "sched_inv s1 (snd pk) sl" "g_current_thread s1 = fst pk" "wait_rel s1 q1 (ws @ [c])" "wait_ok s1 (snd pk) sl (ws @ [c])" "interrupts_on s1 = i"
    using block_current [OF assms(1-3) c_def [THEN meta_eq_to_obj_eq] _ assms(5), of l i] assms(4) by (auto simp: c_def pk_def)
  obtain t ts where t: "ws @ [c] = t # ts" by (cases "ws @ [c]") auto
  have "sched_rel s1 (snd pk) sl" using b(2) by (simp add: sched_inv_def)
  from wake_first [OF this b(4,5) [unfolded t]] show ?thesis using b t by auto
qed

theorem wait_queue_fifo_witness:
  "\<exists>q1 s1 q2 s2. wait_on_queue \<lparr>wq_head = 0, wq_tail = 0, wq_lock = SPINLOCK_RELEASED\<rparr> (Some (held SPINLOCK_RELEASED True)) (sched_demo\<lparr>interrupts_on := False\<rparr>)
      = Some (q1, Some ((held SPINLOCK_RELEASED True)\<lparr>lock_val := 0\<rparr>), s1) \<and> g_current_thread s1 = 2
    \<and> wake_up_queue q1 s1 = Some (q2, s2) \<and> wait_rel s2 q2 []"
proof -
  let ?s = "sched_demo\<lparr>interrupts_on := False\<rparr>" and ?q = "\<lparr>wq_head = 0, wq_tail = 0, wq_lock = SPINLOCK_RELEASED\<rparr>"
  have "sched_inv ?s queues_demo [5]" using sched_demo_inv rel_interrupts by (auto simp: sched_inv_def current_ok_def Let_def)
  moreover have "wait_rel ?s ?q []" by (simp add: wait_rel_def SPINLOCK_RELEASED_def)
  moreover have "wait_ok ?s queues_demo [5] []" by (simp add: wait_ok_def)
  moreover have "waiting (threads ?s (g_current_thread ?s))" by (simp add: waiting_def sched_demo_def)
  moreover have "[0..<4] = [0, 1, 2, 3::nat]" by (simp add: upt_rec)
  then have "fst (pick_queues (kernel_idle_task ?s) queues_demo) = 2" by (simp add: pick_queues_def first_queue_def queues_demo_def)
  ultimately show ?thesis
    using wait_queue_fifo [of ?s queues_demo "[5]" ?q "[]" SPINLOCK_RELEASED True] by auto
qed

end
