(* ===== verification/Tty.thy ===== *)
theory Tty
  imports ConsoleProps CircularBuffer WaitQueue Errno
begin

text \<open>
  Keyboard input: the device table (\<^verbatim>\<open>kernel/src/device.c\<close>), the line discipline (\<^verbatim>\<open>drivers/console/tty.c\<close>) and
  the keyboard interrupt handler (\<^verbatim>\<open>drivers/keyboard/keyboard.c\<close>), on top of the console, the ring buffer, the
  locks and the wait queues. The copy of each character that goes to the debug descriptor is left out.
\<close>

subsection \<open>device.c\<close>

definition MAX_DEVICES :: nat where
  "MAX_DEVICES = 32"

definition DEVICE_HANDLE_KEYBOARD :: nat where
  "DEVICE_HANDLE_KEYBOARD = 1"

text \<open>The operation tables that drivers provide.\<close>

datatype device_ops = no_ops | kbd_ops

record device_t =
  device_id :: nat
  data_ready :: bool
  waitq :: wait_queue_t
  dev_ops :: device_ops

subsection \<open>The terminal\<close>

record termios_t =
  c_iflag :: u32
  c_oflag :: u32
  c_cflag :: u32
  c_lflag :: u32
  c_cc :: "u8 list"

definition TTY_ICANON :: u32 where
  "TTY_ICANON = 1"

record terminal =
  con :: console
  tty_conf :: termios_t
  tty_queue :: circular_buff_t
  tty_lock :: spinlock_t
  g_device_table :: "nat \<Rightarrow> device_t option"
  shift_pressed :: bool
  ctrl_pressed :: bool
  sys :: sched

text \<open>\<^verbatim>\<open>device_init\<close>: the flag tells whether \<^verbatim>\<open>kmalloc\<close> succeeds.\<close>

definition device_init :: "bool \<Rightarrow> nat \<Rightarrow> terminal \<Rightarrow> terminal option" where
  "device_init mem handle s =
     (if \<not> mem then Some s
      else if handle < MAX_DEVICES
      then Some (s\<lparr>g_device_table := (g_device_table s)(handle \<mapsto>
             \<lparr>device_id = handle, data_ready = False, waitq = \<lparr>wq_head = 0, wq_tail = 0, wq_lock = SPINLOCK_RELEASED\<rparr>, dev_ops = no_ops\<rparr>)\<rparr>)
      else None)"

definition get_device_by_handle :: "int \<Rightarrow> terminal \<Rightarrow> device_t option" where
  "get_device_by_handle handle s = (if handle < 0 \<or> handle \<ge> int MAX_DEVICES then None else g_device_table s (nat handle))"

text \<open>Whether \<^verbatim>\<open>device_destroy\<close> frees the object; the table keeps its entry in any case.\<close>

definition device_destroy :: "device_t option \<Rightarrow> bool" where
  "device_destroy dev = (case dev of None \<Rightarrow> False | Some d \<Rightarrow> wq_head (waitq d) = 0)"

subsection \<open>tty.c\<close>

definition tty_init :: "termios_t \<Rightarrow> terminal \<Rightarrow> terminal" where
  "tty_init conf s = s\<lparr>tty_queue := circular_buff_init (tty_queue s), tty_conf := conf, tty_lock := SPINLOCK_RELEASED\<rparr>"

definition lock_tty :: "terminal \<Rightarrow> terminal option" where
  "lock_tty s = do { (l, i) \<leftarrow> spinlock_acquire (tty_lock s, interrupts_on (sys s));
                     Some (s\<lparr>tty_lock := l, sys := (sys s)\<lparr>interrupts_on := i\<rparr>\<rparr>) }"

definition unlock_tty :: "terminal \<Rightarrow> terminal option" where
  "unlock_tty s = do { (l, i) \<leftarrow> spinlock_release (tty_lock s, interrupts_on (sys s));
                       Some (s\<lparr>tty_lock := l, sys := (sys s)\<lparr>interrupts_on := i\<rparr>\<rparr>) }"

text \<open>\<^verbatim>\<open>wake_up_queue\<close> on the wait queue of a device.\<close>

definition wake_device :: "nat \<Rightarrow> terminal \<Rightarrow> terminal option" where
  "wake_device h s =
     do { d \<leftarrow> g_device_table s h;
          (q, u) \<leftarrow> wake_up_queue (waitq d) (sys s);
          Some (s\<lparr>g_device_table := (g_device_table s)(h \<mapsto> d\<lparr>waitq := q\<rparr>), sys := u\<rparr>) }"

definition tty_input :: "nat \<Rightarrow> u8 \<Rightarrow> terminal \<Rightarrow> terminal option" where
  "tty_input dev key_ascii s =
     do { s \<leftarrow> lock_tty s;
          s \<leftarrow> (if c_lflag (tty_conf s) AND TTY_ICANON \<noteq> 0
               then if key_ascii = 0x08 \<or> key_ascii = 127
                    then (case circular_buff_dequeue_last (tty_queue s) of (removed, q) \<Rightarrow>
                            let s = s\<lparr>tty_queue := q\<rparr> in
                            if removed then do { c \<leftarrow> con_backspace (con s); Some (s\<lparr>con := c\<rparr>) } else Some s)
                    else do { c \<leftarrow> con_putc key_ascii (con s);
                              let s = s\<lparr>con := c, tty_queue := circular_buff_enqueue (tty_queue s) (scast key_ascii)\<rparr>;
                              if key_ascii = 0x0A then wake_device dev s else Some s }
               else wake_device dev (s\<lparr>tty_queue := circular_buff_enqueue (tty_queue s) (scast key_ascii)\<rparr>));
          unlock_tty s }"

text \<open>
  \<^verbatim>\<open>tty_read\<close> with \<open>n\<close> bytes to go: \<open>True\<close> when it returns, \<open>False\<close> when it has blocked on the wait
  queue of the device. A reader that is woken takes the lock and goes on with what it had read.
\<close>

definition tty_block :: "nat \<Rightarrow> terminal \<Rightarrow> terminal option" where
  "tty_block dev s =
     do { d \<leftarrow> g_device_table s dev;
          (q, l, u) \<leftarrow> wait_on_queue (waitq d) (Some (tty_lock s)) (sys s);
          l \<leftarrow> l;
          Some (s\<lparr>g_device_table := (g_device_table s)(dev \<mapsto> d\<lparr>waitq := q\<rparr>), tty_lock := l, sys := u\<rparr>) }"

fun tty_read :: "nat \<Rightarrow> nat \<Rightarrow> u8 list \<Rightarrow> terminal \<Rightarrow> (bool \<times> u8 list \<times> terminal) option" where
  "tty_read dev 0 out s = Some (True, out, s)"
| "tty_read dev (Suc n) out s =
     do { s \<leftarrow> lock_tty s;
          if circular_buff_is_empty (tty_queue s) then do { s \<leftarrow> tty_block dev s; Some (False, out, s) }
          else (case circular_buff_dequeue (tty_queue s) of (v, q) \<Rightarrow>
            do { s \<leftarrow> unlock_tty (s\<lparr>tty_queue := q\<rparr>);
                 let c = ucast v;
                 if c_lflag (tty_conf s) AND TTY_ICANON \<noteq> 0 \<and> c = 0x0A then Some (True, out @ [c], s)
                 else tty_read dev n (out @ [c]) s }) }"

definition TCGETS :: u32 where
  "TCGETS = 0x5401"

definition TCSETS :: u32 where
  "TCSETS = 0x5402"

text \<open>
  \<^verbatim>\<open>tty_ioctl\<close>: the copies from and to user memory are parameters. Both tell whether the copy faulted, and the copy from
  user memory gives the configuration it leaves behind, which after a fault may be partly overwritten.
\<close>

definition tty_ioctl :: "(termios_t \<Rightarrow> bool) \<Rightarrow> (termios_t \<Rightarrow> termios_t \<times> bool) \<Rightarrow> nat \<Rightarrow> u32 \<Rightarrow> terminal \<Rightarrow> (int \<times> terminal) option" where
  "tty_ioctl copy_to_user copy_from_user dev request s =
     (if request = TCGETS then Some (if copy_to_user (tty_conf s) then - EFAULT else 0, s)
      else if request = TCSETS then
        (case copy_from_user (tty_conf s) of (conf, fault) \<Rightarrow>
           let s = s\<lparr>tty_conf := conf\<rparr>
           in if fault then Some (- EFAULT, s)
              else if c_lflag conf AND TTY_ICANON = 0 then do { s \<leftarrow> wake_device dev s; Some (0, s) }
              else Some (0, s))
      else Some (- EINVAL, s))"

subsection \<open>keyboard.c\<close>

definition scancode_to_ascii :: "u8 list" where
  "scancode_to_ascii =
     [0, 27, 0x31, 0x32, 0x33, 0x34, 0x35, 0x36, 0x37, 0x38, 0x39, 0x30,
      0x2D, 0x3D, 0x08, 0x09, 0x71, 0x77, 0x65, 0x72, 0x74, 0x79, 0x75, 0x69,
      0x6F, 0x70, 0x5B, 0x5D, 0x0A, 0, 0x61, 0x73, 0x64, 0x66, 0x67, 0x68,
      0x6A, 0x6B, 0x6C, 0x3B, 0x27, 0x60, 0, 0x5C, 0x7A, 0x78, 0x63, 0x76,
      0x62, 0x6E, 0x6D, 0x2C, 0x2E, 0x2F, 0, 0x2A, 0, 0x20, 0] @ replicate 69 0"

definition scancode_to_ascii_shift :: "u8 list" where
  "scancode_to_ascii_shift =
     [0, 27, 0x21, 0x40, 0x23, 0x24, 0x25, 0x5E, 0x26, 0x2A, 0x28, 0x29,
      0x5F, 0x2B, 0x08, 0x09, 0x51, 0x57, 0x45, 0x52, 0x54, 0x59, 0x55, 0x49,
      0x4F, 0x50, 0x7B, 0x7D, 0x0A, 0, 0x41, 0x53, 0x44, 0x46, 0x47, 0x48,
      0x4A, 0x4B, 0x4C, 0x3A, 0x22, 0x7E, 0, 0x7C, 0x5A, 0x58, 0x43, 0x56,
      0x42, 0x4E, 0x4D, 0x3C, 0x3E, 0x3F, 0, 0x2A, 0, 0x20, 0] @ replicate 69 0"

definition keyboard_isr_handler :: "u8 \<Rightarrow> terminal \<Rightarrow> terminal option" where
  "keyboard_isr_handler scancode s =
     (let key_released = scancode AND 0x80 \<noteq> 0; keycode = scancode AND 0x7F in
      if keycode = 0x2A \<or> keycode = 0x36 then Some (s\<lparr>shift_pressed := \<not> key_released\<rparr>)
      else if keycode = 0x1D then Some (s\<lparr>ctrl_pressed := \<not> key_released\<rparr>)
      else if \<not> key_released then
        (let key_ascii = (if shift_pressed s then scancode_to_ascii_shift ! unat keycode else scancode_to_ascii ! unat keycode);
             key_ascii = (if ctrl_pressed s \<and> 0x61 \<le> key_ascii \<and> key_ascii \<le> 0x7A then key_ascii - 0x61 + 1 else key_ascii)
         in if key_ascii \<noteq> 0 then tty_input DEVICE_HANDLE_KEYBOARD key_ascii s else Some s)
      else Some s)"

text \<open>Initialisation fails when there is no memory for the device.\<close>

definition kbd_init :: "bool \<Rightarrow> terminal \<Rightarrow> terminal option" where
  "kbd_init mem s =
     do { s \<leftarrow> device_init mem DEVICE_HANDLE_KEYBOARD s;
          if \<not> mem then None
          else do {
            d \<leftarrow> g_device_table s DEVICE_HANDLE_KEYBOARD;
            let s = s\<lparr>g_device_table := (g_device_table s)(DEVICE_HANDLE_KEYBOARD \<mapsto> d\<lparr>dev_ops := kbd_ops\<rparr>)\<rparr>;
            Some (tty_init \<lparr>c_iflag = 0, c_oflag = 0, c_cflag = 0, c_lflag = TTY_ICANON, c_cc = replicate 32 0\<rparr> s) } }"

definition kbd_dev_read :: "int \<Rightarrow> nat \<Rightarrow> terminal \<Rightarrow> (bool \<times> (int + u8 list) \<times> terminal) option" where
  "kbd_dev_read handle sz s =
     (case get_device_by_handle handle s of
        Some d \<Rightarrow> (case dev_ops d of
                     kbd_ops \<Rightarrow> do { (done', out, s) \<leftarrow> tty_read (nat handle) sz [] s; Some (done', Inr out, s) }
                   | no_ops \<Rightarrow> Some (True, Inl (- ENODEV), s))
      | None \<Rightarrow> Some (True, Inl (- ENODEV), s))"

subsection \<open>Typing a line\<close>

text \<open>What a key does to the pending input: erase the last character, or append when there is room.\<close>

definition edit :: "u8 \<Rightarrow> u8 list \<Rightarrow> u8 list" where
  "edit k l = (if k = 0x08 \<or> k = 127 then butlast l else if length l < 256 then l @ [k] else l)"

definition type_keys :: "nat \<Rightarrow> u8 list \<Rightarrow> terminal \<Rightarrow> terminal option" where
  "type_keys dev ks s = fold (\<lambda>k r. do { s \<leftarrow> r; tty_input dev k s }) ks (Some s)"

definition canonical :: "terminal \<Rightarrow> bool" where
  "canonical s \<longleftrightarrow> c_lflag (tty_conf s) AND TTY_ICANON \<noteq> 0"

text \<open>The terminal in canonical mode with the given characters pending; nobody holds a lock.\<close>

definition pending :: "terminal \<Rightarrow> u8 list \<Rightarrow> bool" where
  "pending s l \<longleftrightarrow> canonical s \<and> con_ok (con s) \<and> cb_inv (tty_queue s) \<and> cb_list (tty_queue s) = map scast l
     \<and> lock_val (tty_lock s) = 0"

definition idle_device :: "nat \<Rightarrow> terminal \<Rightarrow> bool" where
  "idle_device dev s \<longleftrightarrow> (\<exists>d. g_device_table s dev = Some d \<and> wq_head (waitq d) = 0 \<and> lock_val (wq_lock (waitq d)) = 0)"

lemma scast_ucast_u8 [simp]: "ucast (scast (k :: u8) :: u32) = k"
  by (rule bit_word_eqI) (simp add: bit_simps)

lemma lock_tty_free:
  "lock_val (tty_lock s) = 0 \<Longrightarrow>
     lock_tty s = Some (s\<lparr>tty_lock := held (tty_lock s) (interrupts_on (sys s)), sys := (sys s)\<lparr>interrupts_on := False\<rparr>\<rparr>)"
  by (simp add: lock_tty_def spinlock_acquire_free)

text \<open>A critical section of the terminal: the lock is free again and the interrupt flag is restored.\<close>

lemma unlock_tty_held:
  assumes "tty_lock s = held l (interrupts_on u)" and "sys s = u'\<lparr>interrupts_on := False\<rparr>" and "interrupts_on u' = interrupts_on u"
  shows "unlock_tty s = Some (s\<lparr>tty_lock := (held l (interrupts_on u))\<lparr>lock_val := 0\<rparr>, sys := u'\<rparr>)"
  using assms spinlock_release_held [of l "interrupts_on u" False] by (cases "interrupts_on u") (simp_all add: unlock_tty_def)

lemma input_edits:
  assumes "pending s l" and "k \<noteq> 0x0A"
  shows "\<exists>s'. tty_input dev k s = Some s' \<and> pending s' (edit k l) \<and> g_device_table s' = g_device_table s \<and> sys s' = sys s"
proof -
  define s1 where "s1 = s\<lparr>tty_lock := held (tty_lock s) (interrupts_on (sys s)), sys := (sys s)\<lparr>interrupts_on := False\<rparr>\<rparr>"
  have l: "lock_tty s = Some s1" using assms(1) lock_tty_free [of s] by (simp add: pending_def s1_def)
  have p: "canonical s" "con_ok (con s)" "cb_inv (tty_queue s)" "cb_list (tty_queue s) = map scast l" using assms(1) by (simp_all add: pending_def)
  have len: "cb_count (tty_queue s) = length l" using arg_cong [OF p(4), of length] by simp
  have cl: "c_lflag (tty_conf s1) AND TTY_ICANON \<noteq> 0" using p(1) by (simp add: canonical_def s1_def)
  have un: "unlock_tty (s1\<lparr>con := c, tty_queue := q\<rparr>)
      = Some (s\<lparr>con := c, tty_queue := q, tty_lock := (held (tty_lock s) (interrupts_on (sys s)))\<lparr>lock_val := 0\<rparr>\<rparr>)" for c q
    by (subst unlock_tty_held [of _ "tty_lock s" "sys s" "sys s"]) (simp_all add: s1_def)
  show ?thesis
  proof (cases "k = 0x08 \<or> k = 127")
    case True
    obtain c where c: "con_ok c" "(if l = [] then c = con s else con_backspace (con s) = Some c)"
      using backspace_ok [OF p(2)] p(2) by (cases "l = []") auto
    obtain q where d: "circular_buff_dequeue_last (tty_queue s) = (l \<noteq> [], q)"
      using cb_list_dequeue_last(2) [of "tty_queue s"] p(4) by (cases "circular_buff_dequeue_last (tty_queue s)") simp
    have comm: "s1\<lparr>tty_queue := q, con := c\<rparr> = s1\<lparr>con := c, tty_queue := q\<rparr>" by simp
    have s1: "tty_queue s1 = tty_queue s" "con s1 = con s" by (simp_all add: s1_def)
    have "tty_input dev k s = unlock_tty (s1\<lparr>con := c, tty_queue := q\<rparr>)"
    proof (cases "l = []")
      case False
      then show ?thesis unfolding tty_input_def l comm [symmetric] using True cl c d s1 by (simp add: Let_def)
    next
      case N: True
      then have "s1\<lparr>con := c, tty_queue := q\<rparr> = s1\<lparr>tty_queue := q\<rparr>" using c s1(2) by simp
      then show ?thesis unfolding tty_input_def l using True cl d s1(1) N by (simp only: Let_def) simp
    qed
    moreover have "cb_inv q" "cb_list q = map scast (edit k l)"
      using d cb_inv_dequeue_last [OF p(3)] cb_list_dequeue_last(1) [of "tty_queue s"] p(4) True by (simp_all add: edit_def map_butlast)
    ultimately show ?thesis using p(1) c(1) unfolding un by (simp add: pending_def canonical_def held_def)
  next
    case False
    obtain c where c: "con_putc k (con s) = Some c" "con_ok c" using putc_ok [OF p(2)] by blast
    let ?q = "circular_buff_enqueue (tty_queue s) (scast k)"
    have "tty_input dev k s = unlock_tty (s1\<lparr>con := c, tty_queue := ?q\<rparr>)"
      unfolding tty_input_def l using False cl c assms(2) by (simp add: s1_def)
    moreover have "cb_inv ?q" "cb_list ?q = map scast (edit k l)"
      using cb_inv_enqueue [OF p(3)] cb_list_enqueue [OF p(3), of "scast k"] p(4) len False by (simp_all add: edit_def QUEUE_SIZE_def)
    ultimately show ?thesis using p(1) c(2) unfolding un by (simp add: pending_def canonical_def held_def)
  qed
qed

lemma keys_edit:
  assumes "pending s l" and "list_all (\<lambda>k. k \<noteq> 0x0A) ks"
  shows "\<exists>s'. type_keys dev ks s = Some s' \<and> pending s' (fold edit ks l) \<and> g_device_table s' = g_device_table s \<and> sys s' = sys s"
  using assms unfolding type_keys_def
proof (induction ks arbitrary: s l)
  case (Cons k ks)
  obtain s1 where s1: "tty_input dev k s = Some s1" "pending s1 (edit k l)" "g_device_table s1 = g_device_table s" "sys s1 = sys s"
    using input_edits [OF Cons.prems(1), of k dev] Cons.prems(2) by auto
  then show ?case using Cons.IH [OF s1(2)] Cons.prems(2) by simp
qed simp

lemma wake_idle:
  assumes "idle_device dev s"
  shows "\<exists>d. wake_device dev s = Some (s\<lparr>g_device_table := (g_device_table s)(dev \<mapsto> d)\<rparr>)
    \<and> wq_head (waitq d) = 0 \<and> lock_val (wq_lock (waitq d)) = 0"
proof -
  obtain d where d: "g_device_table s dev = Some d" "wq_head (waitq d) = 0" "lock_val (wq_lock (waitq d)) = 0"
    using assms by (auto simp: idle_device_def)
  let ?d = "d\<lparr>waitq := (waitq d)\<lparr>wq_lock := (held (wq_lock (waitq d)) (interrupts_on (sys s)))\<lparr>lock_val := 0\<rparr>\<rparr>\<rparr>"
  have "wake_device dev s = Some (s\<lparr>g_device_table := (g_device_table s)(dev \<mapsto> ?d)\<rparr>)"
    using d spinlock_release_held [of "wq_lock (waitq d)" "interrupts_on (sys s)" False]
    by (simp add: wake_device_def wake_up_queue_def spinlock_acquire_free)
  then show ?thesis using d(2) by (intro exI [of _ ?d]) simp
qed

lemma newline_ends_line:
  assumes "pending s l" and "idle_device dev s"
  shows "\<exists>s'. tty_input dev 0x0A s = Some s' \<and> pending s' (edit 0x0A l) \<and> idle_device dev s' \<and> sys s' = sys s"
proof -
  define s1 where "s1 = s\<lparr>tty_lock := held (tty_lock s) (interrupts_on (sys s)), sys := (sys s)\<lparr>interrupts_on := False\<rparr>\<rparr>"
  have l: "lock_tty s = Some s1" using assms(1) lock_tty_free [of s] by (simp add: pending_def s1_def)
  have p: "canonical s" "con_ok (con s)" "cb_inv (tty_queue s)" "cb_list (tty_queue s) = map scast l" using assms(1) by (simp_all add: pending_def)
  have len: "cb_count (tty_queue s) = length l" using arg_cong [OF p(4), of length] by simp
  have cl: "c_lflag (tty_conf s1) AND TTY_ICANON \<noteq> 0" using p(1) by (simp add: canonical_def s1_def)
  obtain c where c: "con_putc 0x0A (con s) = Some c" "con_ok c" using putc_ok [OF p(2)] by blast
  let ?q = "circular_buff_enqueue (tty_queue s) (scast (0x0A :: u8))"
  define s2 where "s2 = s1\<lparr>con := c, tty_queue := ?q\<rparr>"
  have "idle_device dev s2" using assms(2) by (simp add: idle_device_def s2_def s1_def)
  then obtain d where d: "wake_device dev s2 = Some (s2\<lparr>g_device_table := (g_device_table s2)(dev \<mapsto> d)\<rparr>)"
    "wq_head (waitq d) = 0" "lock_val (wq_lock (waitq d)) = 0" using wake_idle by blast
  have "tty_input dev 0x0A s = unlock_tty (s2\<lparr>g_device_table := (g_device_table s2)(dev \<mapsto> d)\<rparr>)"
    unfolding tty_input_def l using cl c(1) d(1) by (simp add: s2_def [symmetric] s1_def [symmetric]) (simp add: s1_def s2_def)
  also have "\<dots> = Some (s2\<lparr>g_device_table := (g_device_table s2)(dev \<mapsto> d),
      tty_lock := (held (tty_lock s) (interrupts_on (sys s)))\<lparr>lock_val := 0\<rparr>, sys := sys s\<rparr>)"
    by (rule unlock_tty_held [of _ "tty_lock s" "sys s" "sys s"]) (simp_all add: s1_def s2_def)
  finally have i: "tty_input dev 0x0A s = \<dots>" .
  have "cb_inv ?q" "cb_list ?q = map scast (edit 0x0A l)"
    using cb_inv_enqueue [OF p(3)] cb_list_enqueue [OF p(3), of "scast (0x0A :: u8)"] p(4) len by (simp_all add: edit_def QUEUE_SIZE_def)
  then show ?thesis unfolding i using p(1) c(2) d(2,3)
    by (simp add: pending_def canonical_def held_def idle_device_def s1_def s2_def)
qed

text \<open>Reading stops behind the newline or when the buffer is full.\<close>

lemma read_line:
  assumes "pending s l" and "0x0A \<in> set l"
  shows "\<exists>s'. tty_read dev n out s = Some (True, out @ take n (takeWhile (\<lambda>c. c \<noteq> 0x0A) l @ [0x0A]), s')
    \<and> pending s' (drop (min n (length (takeWhile (\<lambda>c. c \<noteq> 0x0A) l) + 1)) l) \<and> sys s' = sys s"
  using assms
proof (induction n arbitrary: s l out)
  case 0
  then show ?case by simp
next
  case (Suc n)
  then obtain c r where lr: "l = c # r" by (cases l) auto
  define s1 where "s1 = s\<lparr>tty_lock := held (tty_lock s) (interrupts_on (sys s)), sys := (sys s)\<lparr>interrupts_on := False\<rparr>\<rparr>"
  have l: "lock_tty s = Some s1" using Suc.prems(1) lock_tty_free [of s] by (simp add: pending_def s1_def)
  have p: "canonical s" "con_ok (con s)" "cb_inv (tty_queue s)" "cb_list (tty_queue s) = map scast (c # r)"
    using Suc.prems(1) lr by (simp_all add: pending_def)
  have ne: "\<not> circular_buff_is_empty (tty_queue s)"
    using arg_cong [OF p(4), of length] by (simp add: circular_buff_is_empty_def)
  obtain v q where q: "circular_buff_dequeue (tty_queue s) = (v, q)" by fastforce
  have vq: "v = scast c" "cb_list q = map scast r" "cb_inv q"
    using cb_list_dequeue [OF p(3)] cb_inv_dequeue [OF p(3)] p(4) q by simp_all
  define s2 where "s2 = s\<lparr>tty_queue := q, tty_lock := (held (tty_lock s) (interrupts_on (sys s)))\<lparr>lock_val := 0\<rparr>\<rparr>"
  have u: "unlock_tty (s1\<lparr>tty_queue := q\<rparr>) = Some s2"
    by (subst unlock_tty_held [of _ "tty_lock s" "sys s" "sys s"]) (simp_all add: s1_def s2_def)
  have s1: "tty_queue s1 = tty_queue s" by (simp add: s1_def)
  have cl: "c_lflag (tty_conf s2) AND TTY_ICANON \<noteq> 0" using p(1) by (simp add: canonical_def s2_def)
  have p2: "pending s2 r" using p vq by (simp add: pending_def canonical_def s2_def held_def)
  have step: "tty_read dev (Suc n) out s = (if c = 0x0A then Some (True, out @ [c], s2) else tty_read dev n (out @ [c]) s2)"
    using l ne q u cl vq(1) s1 by simp
  show ?case
  proof (cases "c = 0x0A")
    case True
    then show ?thesis using step p2 lr by (simp add: s2_def)
  next
    case False
    then have "0x0A \<in> set r" using Suc.prems(2) lr by auto
    from Suc.IH [OF p2 this, of "out @ [c]"] obtain s' where
      "tty_read dev n (out @ [c]) s2 = Some (True, (out @ [c]) @ take n (takeWhile (\<lambda>c. c \<noteq> 0x0A) r @ [0x0A]), s')"
      "pending s' (drop (min n (length (takeWhile (\<lambda>c. c \<noteq> 0x0A) r) + 1)) r)" "sys s' = sys s2" by blast
    then show ?thesis using step False lr by (simp add: s2_def)
  qed
qed

text \<open>Editing never makes a newline out of other keys and never holds more than was typed.\<close>

lemma edited_line:
  assumes "list_all (\<lambda>k. k \<noteq> 0x0A) ks" and "0x0A \<notin> set l"
  shows "0x0A \<notin> set (fold edit ks l) \<and> length (fold edit ks l) \<le> length l + length ks"
  using assms
proof (induction ks arbitrary: l)
  case (Cons k ks)
  have "0x0A \<notin> set (edit k l)" "length (edit k l) \<le> length l + 1"
    using Cons.prems by (auto simp: edit_def dest: in_set_butlastD)
  then show ?case using Cons.IH [of "edit k l"] Cons.prems(1) by simp
qed simp

text \<open>
  C26. The line discipline in canonical mode: after typing any keys, with backspace and delete erasing the last
  pending character, and then the return key, \<^verbatim>\<open>tty_read\<close> returns without blocking; it delivers the edited line with its newline,
  or as much of it as fits into the buffer, and leaves the rest pending. The terminal lock is free again.
\<close>

theorem tty_line_discipline:
  assumes "pending s []" and "idle_device dev s" and "list_all (\<lambda>k. k \<noteq> 0x0A) ks" and "length ks < 256"
  defines "line \<equiv> fold edit ks []"
  shows "\<exists>s1 s2. type_keys dev (ks @ [0x0A]) s = Some s1 \<and> tty_read dev n [] s1 = Some (True, take n (line @ [0x0A]), s2)
    \<and> pending s2 (drop n (line @ [0x0A])) \<and> sys s2 = sys s"
proof -
  have line: "0x0A \<notin> set line" "length line < 256" using edited_line [OF assms(3), of "[]"] assms(4) by (simp_all add: line_def)
  obtain s0 where s0: "type_keys dev ks s = Some s0" "pending s0 line" "g_device_table s0 = g_device_table s" "sys s0 = sys s"
    using keys_edit [OF assms(1,3)] by (auto simp: line_def)
  then have "idle_device dev s0" using assms(2) by (simp add: idle_device_def)
  then obtain s1 where s1: "tty_input dev 0x0A s0 = Some s1" "pending s1 (edit 0x0A line)" "sys s1 = sys s"
    using newline_ends_line [OF s0(2)] s0(4) by auto
  have e: "edit 0x0A line = line @ [0x0A]" using line(2) by (simp add: edit_def)
  have "takeWhile (\<lambda>c. c \<noteq> 0x0A) (line @ [0x0A]) = line" using line(1) by (subst takeWhile_append2) auto
  then obtain s2 where "tty_read dev n [] s1 = Some (True, take n (line @ [0x0A]), s2)"
      "pending s2 (drop (min n (length line + 1)) (line @ [0x0A]))" "sys s2 = sys s"
    using read_line [OF s1(2) [unfolded e], of dev n "[]"] s1(3) by auto
  moreover have "drop (min n (length line + 1)) (line @ [0x0A]) = drop n (line @ [0x0A])" by (simp add: min_def)
  moreover have "type_keys dev (ks @ [0x0A]) s = Some s1" using s0(1) s1(1) by (simp add: type_keys_def)
  ultimately show ?thesis by auto
qed

definition tty_demo :: terminal where
  "tty_demo = \<lparr>con = console_boot, tty_conf = \<lparr>c_iflag = 0, c_oflag = 0, c_cflag = 0, c_lflag = 1, c_cc = []\<rparr>,
     tty_queue = \<lparr>cb_data = (\<lambda>_. 0), cb_head = 0, cb_tail = 0, cb_count = 0\<rparr>, tty_lock = SPINLOCK_RELEASED,
     g_device_table = [1 \<mapsto> \<lparr>device_id = 1, data_ready = False, waitq = \<lparr>wq_head = 0, wq_tail = 0, wq_lock = SPINLOCK_RELEASED\<rparr>, dev_ops = kbd_ops\<rparr>],
     shift_pressed = False, ctrl_pressed = False, sys = sched_demo\<rparr>"

theorem tty_line_discipline_witness:
  "\<exists>s1 s2. type_keys 1 [0x68, 0x65, 0x08, 0x69, 0x0A] tty_demo = Some s1 \<and> tty_read 1 80 [] s1 = Some (True, [0x68, 0x69, 0x0A], s2)"
proof -
  have "pending tty_demo []"
    by (simp add: pending_def canonical_def tty_demo_def con_ok_def console_boot_def cb_inv_def cb_list_def QUEUE_SIZE_def TTY_ICANON_def
        SPINLOCK_RELEASED_def)
  moreover have "idle_device 1 tty_demo" by (simp add: idle_device_def tty_demo_def SPINLOCK_RELEASED_def)
  ultimately show ?thesis
    using tty_line_discipline [of tty_demo 1 "[0x68, 0x65, 0x08, 0x69]" 80] by (auto simp: edit_def)
qed

subsection \<open>What the code gets wrong\<close>

text \<open>A reader that comes while a line is being typed takes the incomplete line, out of reach of the erase key.\<close>

lemma read_takes_partial_line:
  assumes "pending s (c # l)" and "c \<noteq> 0x0A"
  shows "\<exists>s'. tty_read dev 1 [] s = Some (True, [c], s') \<and> pending s' l"
proof -
  have q: "cb_inv (tty_queue s)" "cb_list (tty_queue s) = scast c # map scast l" "lock_val (tty_lock s) = 0" using assms(1) by (simp_all add: pending_def)
  define s1 where "s1 = s\<lparr>tty_lock := held (tty_lock s) (interrupts_on (sys s)), sys := (sys s)\<lparr>interrupts_on := False\<rparr>\<rparr>"
  obtain v r where r: "circular_buff_dequeue (tty_queue s) = (v, r)" by fastforce
  have "v = scast c" "cb_list r = map scast l" "cb_inv r" using cb_list_dequeue [OF q(1)] cb_inv_dequeue [OF q(1)] q(2) r by simp_all
  moreover have "\<not> circular_buff_is_empty (tty_queue s)" using arg_cong [OF q(2), of length] by (simp add: circular_buff_is_empty_def)
  moreover have "unlock_tty (s1\<lparr>tty_queue := r\<rparr>)
      = Some (s\<lparr>tty_queue := r, tty_lock := (held (tty_lock s) (interrupts_on (sys s)))\<lparr>lock_val := 0\<rparr>\<rparr>)"
    by (subst unlock_tty_held [of _ "tty_lock s" "sys s" "sys s"]) (simp_all add: s1_def)
  moreover have "lock_tty s = Some s1" "tty_queue s1 = tty_queue s" using lock_tty_free [OF q(3)] by (simp_all add: s1_def)
  ultimately show ?thesis using assms r by (simp add: pending_def canonical_def held_def numeral_eq_Suc)
qed

text \<open>The erase key reaches back over a newline: a line that is complete but not read yet loses its end.\<close>

lemma erase_crosses_lines: "edit 0x08 (line @ [0x0A]) = line"
  by (simp add: edit_def)

end
