(* ===== verification/Vfs.thy ===== *)
theory Vfs
  imports Myfs Stdio Tty
begin

unbundle bit_operations_syntax

text \<open>
  The virtual file system (\<^verbatim>\<open>kernel/src/fs/vfs.c\<close>, \<^verbatim>\<open>fd.c\<close>), the driver that connects MyFS to it (\<^verbatim>\<open>fs/myfs/myfs_driver.c\<close>),
  output to descriptors (\<^verbatim>\<open>klib/stdio.c\<close>) and the file system calls (\<^verbatim>\<open>fs/sys_fs.c\<close>, \<^verbatim>\<open>sys_cwd.c\<close>). Superblocks, vnodes
  and open files are objects known by their addresses, 0 being NULL; lists that are only reached through a
  global variable, the mounts and the registered file systems, are lists. The tables of function
  pointers are data types with one constructor for each table in the source. Strings are lists of
  bytes without the terminator. The block devices hold the contents of the disks; MyFS works on the disk of its device.
  \<open>None\<close> is a failed assertion, the use of a null pointer or a freed object, or a call that does not return.
\<close>

subsection \<open>Objects\<close>

datatype file_ops_t = myfs_f_ops | kbd_fops | con_fops | dbg_fops

datatype vnode_ops = myfs_vnode_ops

datatype fs_driver = myfs_driver

record fs_type_t =
  fs_name :: "u8 list"
  fs_driver :: fs_driver

record vnode_t =
  super_block :: nat
  v_size :: u32
  v_mode :: u32
  device_handle :: int
  v_ino :: u32
  v_refcount :: int

record file_t =
  f_vnode :: nat
  f_ops :: file_ops_t
  f_pos :: int
  f_flags :: u32
  f_refcount :: int

record super_block_t =
  sb_type :: "u8 list option"
  fs_root :: nat
  sb_f_ops :: file_ops_t
  sb_v_ops :: "vnode_ops option"
  vnode_cache :: "nat list"
  fs_private :: "myfs option"
  sb_dev :: nat

record mount_point_t =
  mp_path :: "u8 list"
  mp_super_block :: nat

record vfs =
  mount_p_table :: "mount_point_t list"
  fs_registry_table :: "fs_type_t list"
  super_blocks :: "nat \<Rightarrow> super_block_t option"
  vnodes :: "nat \<Rightarrow> vnode_t option"
  open_files :: "nat \<Rightarrow> file_t option"
  g_fd_table :: "nat \<Rightarrow> nat"
  blkdevs :: "(u8 list \<times> bytes) list"
  vmem_ok :: "nat \<Rightarrow> bool"
  vallocs :: nat
  disk_mem_ok :: "nat \<Rightarrow> bool"
  disk_stale :: "nat \<Rightarrow> u32"
  vterm :: terminal
  serial_out :: "u8 list"

definition MAX_FD :: nat where
  "MAX_FD = 64"

definition PATH_LEN_MAX :: nat where
  "PATH_LEN_MAX = 256"

definition MAX_SYMLINK_DEPTH :: nat where
  "MAX_SYMLINK_DEPTH = 40"

definition O_WRONLY :: u32 where
  "O_WRONLY = 1"

definition O_RDWR :: u32 where
  "O_RDWR = 2"

definition O_ACCMODE :: u32 where
  "O_ACCMODE = 3"

definition O_CREAT :: u32 where
  "O_CREAT = 0x40"

definition O_EXCL :: u32 where
  "O_EXCL = 0x80"

definition S_IFCHR :: u32 where
  "S_IFCHR = 0x2000"

definition S_ISCHR :: "u32 \<Rightarrow> bool" where
  "S_ISCHR m \<longleftrightarrow> m AND S_IFMT = S_IFCHR"

text \<open>
  The \<open>k\<close>-th \<^verbatim>\<open>kmalloc\<close> of the file system layer succeeds when \<open>vmem_ok k\<close> and returns a new object. The addresses
  1, 2 and 3 belong to the static vnodes and superblocks of the keyboard, the console and the debug device.
\<close>

definition valloc :: "vfs \<Rightarrow> nat \<times> vfs" where
  "valloc s = ((if vmem_ok s (vallocs s) then vallocs s + 4 else 0), s\<lparr>vallocs := vallocs s + 1\<rparr>)"

definition set_vnode :: "nat \<Rightarrow> vnode_t \<Rightarrow> vfs \<Rightarrow> vfs" where
  "set_vnode p v s = s\<lparr>vnodes := (vnodes s)(p \<mapsto> v)\<rparr>"

definition set_file :: "nat \<Rightarrow> file_t \<Rightarrow> vfs \<Rightarrow> vfs" where
  "set_file p f s = s\<lparr>open_files := (open_files s)(p \<mapsto> f)\<rparr>"

text \<open>The contents of the disk that a superblock is mounted from, and a call on the MyFS instance of a superblock.\<close>

definition sb_disk :: "super_block_t \<Rightarrow> vfs \<Rightarrow> bytes option" where
  "sb_disk b s = (if sb_dev b < length (blkdevs s) then Some (snd (blkdevs s ! sb_dev b)) else None)"

definition set_disk :: "nat \<Rightarrow> bytes \<Rightarrow> vfs \<Rightarrow> vfs" where
  "set_disk dev d s = s\<lparr>blkdevs := (blkdevs s)[dev := (fst (blkdevs s ! dev), d)]\<rparr>"

definition with_fs :: "nat \<Rightarrow> (myfs \<Rightarrow> ('a \<times> myfs) option) \<Rightarrow> vfs \<Rightarrow> ('a \<times> vfs) option" where
  "with_fs sb f s =
     do { b \<leftarrow> super_blocks s sb;
          fs \<leftarrow> fs_private b;
          d \<leftarrow> sb_disk b s;
          (r, fs) \<leftarrow> f (fs\<lparr>disk := d\<rparr>);
          Some (r, set_disk (sb_dev b) (disk fs) (s\<lparr>super_blocks := (super_blocks s)(sb \<mapsto> b\<lparr>fs_private := Some fs\<rparr>)\<rparr>)) }"

subsection \<open>Vnodes\<close>

definition vfs_vnode_alloc :: "nat \<Rightarrow> u32 \<Rightarrow> u32 \<Rightarrow> u32 \<Rightarrow> vfs \<Rightarrow> nat \<times> vfs" where
  "vfs_vnode_alloc sb ino mode sz s =
     (case valloc s of (p, s) \<Rightarrow>
        if p = 0 then (0, s)
        else (p, set_vnode p \<lparr>super_block = sb, v_size = sz, v_mode = mode, device_handle = 0, v_ino = ino, v_refcount = 1\<rparr> s))"

definition vfs_vnode_get_ref :: "nat \<Rightarrow> vfs \<Rightarrow> vfs option" where
  "vfs_vnode_get_ref v s =
     (if v = 0 then Some s else do { n \<leftarrow> vnodes s v; Some (set_vnode v (n\<lparr>v_refcount := v_refcount n + 1\<rparr>) s) })"

text \<open>The last reference takes the vnode out of the cache of its superblock and frees it.\<close>

definition vfs_vnode_put :: "nat \<Rightarrow> vfs \<Rightarrow> vfs option" where
  "vfs_vnode_put v s =
     (if v = 0 then Some s
      else do {
        n \<leftarrow> vnodes s v;
        let n = n\<lparr>v_refcount := v_refcount n - 1\<rparr>;
        let s = set_vnode v n s;
        if v_refcount n = 0 then do {
          b \<leftarrow> super_blocks s (super_block n);
          _ \<leftarrow> sb_v_ops b;
          Some (s\<lparr>super_blocks := (super_blocks s)(super_block n \<mapsto> b\<lparr>vnode_cache := remove1 v (vnode_cache b)\<rparr>),
                  vnodes := (vnodes s)(v := None)\<rparr>) }
        else Some s })"

subsection \<open>Descriptors\<close>

definition alloc_fd :: "nat \<Rightarrow> vfs \<Rightarrow> int \<times> vfs" where
  "alloc_fd file s =
     (case List.find (\<lambda>i. g_fd_table s i = 0) [0..<MAX_FD] of
        Some i \<Rightarrow> (int i, s\<lparr>g_fd_table := (g_fd_table s)(i := file)\<rparr>)
      | None \<Rightarrow> (- 1, s))"

text \<open>The open file behind a descriptor, 0 when there is none.\<close>

definition fd_file :: "int \<Rightarrow> vfs \<Rightarrow> nat" where
  "fd_file fd s = (if fd < 0 \<or> fd \<ge> int MAX_FD then 0 else g_fd_table s (nat fd))"

definition free_fd :: "int \<Rightarrow> vfs \<Rightarrow> vfs option" where
  "free_fd fd s =
     (if fd_file fd s = 0 then Some s
      else do {
        let p = fd_file fd s;
        f \<leftarrow> open_files s p;
        let s = s\<lparr>g_fd_table := (g_fd_table s)(nat fd := 0)\<rparr>;
        let f = f\<lparr>f_refcount := f_refcount f - 1\<rparr>;
        let s = set_file p f s;
        if f_refcount f = 0 then do { s \<leftarrow> vfs_vnode_put (f_vnode f) s; Some (s\<lparr>open_files := (open_files s)(p := None)\<rparr>) }
        else Some s })"

subsection \<open>The MyFS driver: name space\<close>

text \<open>The part of \<^verbatim>\<open>myfsd_v_lookup\<close> that works on MyFS: the inode found, or none.\<close>

definition lookup_inode :: "u32 \<Rightarrow> u8 list \<Rightarrow> myfs \<Rightarrow> (MyfsInode option \<times> myfs) option" where
  "lookup_inode ino name fs =
     do { (dir_inode, fs) \<leftarrow> myfs_iget ino fs;
          if dir_inode = 0 then Some (None, fs)
          else do {
            (child_ino, fs) \<leftarrow> myfs_lookup dir_inode name fs;
            (case child_ino of
               None \<Rightarrow> do { fs \<leftarrow> myfs_iput dir_inode fs; Some (None, fs) }
             | Some child_ino \<Rightarrow> do {
                 (child_inode, fs) \<leftarrow> myfs_iget child_ino fs;
                 if child_inode = 0 then do { fs \<leftarrow> myfs_iput dir_inode fs; Some (None, fs) }
                 else do {
                   n \<leftarrow> inodes fs child_inode;
                   fs \<leftarrow> myfs_iput child_inode fs;
                   fs \<leftarrow> myfs_iput dir_inode fs;
                   Some (Some n, fs) } }) } }"

definition myfsd_v_lookup :: "nat \<Rightarrow> u8 list \<Rightarrow> vfs \<Rightarrow> (nat \<times> vfs) option" where
  "myfsd_v_lookup dir name s =
     do { d \<leftarrow> vnodes s dir;
          if \<not> S_ISDIR (v_mode d) then Some (0, s)
          else do {
            (child_inode, s) \<leftarrow> with_fs (super_block d) (lookup_inode (v_ino d) name) s;
            (case child_inode of
               None \<Rightarrow> Some (0, s)
             | Some n \<Rightarrow> Some (vfs_vnode_alloc (super_block d) (i_ino n) (i_mode n) (i_size n) s)) } }"

text \<open>
  The shape of the operations on a directory: get its inode, work on it, and put it back. The second
  part of the result is the new size of the directory, which the vnode takes over on success.
\<close>

definition dir_op :: "u32 \<Rightarrow> (nat \<Rightarrow> myfs \<Rightarrow> (int \<times> myfs) option) \<Rightarrow> myfs \<Rightarrow> ((int \<times> u32 option) \<times> myfs) option" where
  "dir_op ino f fs =
     do { (dir_inode, fs) \<leftarrow> myfs_iget ino fs;
          if dir_inode = 0 then Some ((- 1, None), fs)
          else do {
            (r, fs) \<leftarrow> f dir_inode fs;
            n \<leftarrow> inodes fs dir_inode;
            fs \<leftarrow> myfs_iput dir_inode fs;
            Some ((r, if r = 0 then Some (i_size n) else None), fs) } }"

definition dir_vnode_op :: "nat \<Rightarrow> (nat \<Rightarrow> myfs \<Rightarrow> (int \<times> myfs) option) \<Rightarrow> vfs \<Rightarrow> (int \<times> vfs) option" where
  "dir_vnode_op dir f s =
     do { d \<leftarrow> vnodes s dir;
          ((r, sz), s) \<leftarrow> with_fs (super_block d) (dir_op (v_ino d) f) s;
          Some (r, case sz of None \<Rightarrow> s | Some z \<Rightarrow> set_vnode dir (d\<lparr>v_size := z\<rparr>) s) }"

definition myfsd_v_create :: "nat \<Rightarrow> u8 list \<Rightarrow> vfs \<Rightarrow> (int \<times> vfs) option" where
  "myfsd_v_create dir name s =
     do { d \<leftarrow> vnodes s dir;
          if \<not> S_ISDIR (v_mode d) then Some (- 1, s)
          else dir_vnode_op dir (\<lambda>p fs. map_option (\<lambda>(r, _, fs). (r, fs)) (myfs_create_file p name fs)) s }"

definition myfsd_v_mkdir :: "nat \<Rightarrow> u8 list \<Rightarrow> vfs \<Rightarrow> (int \<times> vfs) option" where
  "myfsd_v_mkdir dir name s =
     do { d \<leftarrow> vnodes s dir;
          if \<not> S_ISDIR (v_mode d) then Some (- 1, s)
          else dir_vnode_op dir (\<lambda>p fs. map_option (\<lambda>(r, _, fs). (r, fs)) (myfs_create_dir p name fs)) s }"

definition myfsd_v_unlink :: "nat \<Rightarrow> u8 list \<Rightarrow> vfs \<Rightarrow> (int \<times> vfs) option" where
  "myfsd_v_unlink dir name s =
     do { d \<leftarrow> vnodes s dir;
          if \<not> S_ISDIR (v_mode d) then Some (- 1, s) else dir_vnode_op dir (\<lambda>p. myfs_unlink p name) s }"

definition myfsd_v_rmdir :: "nat \<Rightarrow> u8 list \<Rightarrow> vfs \<Rightarrow> (int \<times> vfs) option" where
  "myfsd_v_rmdir parent dir_name s = dir_vnode_op parent (\<lambda>p. myfs_remove_dir p dir_name) s"

definition myfsd_v_symlink :: "nat \<Rightarrow> u8 list \<Rightarrow> u8 list \<Rightarrow> vfs \<Rightarrow> (int \<times> vfs) option" where
  "myfsd_v_symlink dir name target s =
     do { d \<leftarrow> vnodes s dir;
          with_fs (super_block d)
            (\<lambda>fs. do { (p, fs) \<leftarrow> myfs_iget (v_ino d) fs;
                      (r, fs) \<leftarrow> myfs_create_symlink p name target fs;
                      fs \<leftarrow> myfs_iput p fs;
                      Some (r, fs) }) s }"

definition myfsd_v_readlink :: "nat \<Rightarrow> bytes \<Rightarrow> u32 \<Rightarrow> vfs \<Rightarrow> ((int \<times> bytes) \<times> vfs) option" where
  "myfsd_v_readlink vnode buf bufsize s =
     do { v \<leftarrow> vnodes s vnode;
          with_fs (super_block v)
            (\<lambda>fs. do { (p, fs) \<leftarrow> myfs_iget (v_ino v) fs;
                      (r, buf) \<leftarrow> myfs_symlink_read p buf bufsize fs;
                      fs \<leftarrow> myfs_iput p fs;
                      Some ((r, buf), fs) }) s }"

text \<open>\<^verbatim>\<open>myfsd_v_rename\<close> keeps both references and returns 0 whatever happens.\<close>

definition myfsd_v_rename :: "nat \<Rightarrow> u8 list \<Rightarrow> nat \<Rightarrow> u8 list \<Rightarrow> vfs \<Rightarrow> (int \<times> vfs) option" where
  "myfsd_v_rename old_parent old_name new_parent new_name s =
     do { a \<leftarrow> vnodes s old_parent;
          b \<leftarrow> vnodes s new_parent;
          ((old_size, new_size), s) \<leftarrow> with_fs (super_block a)
            (\<lambda>fs. do { (p, fs) \<leftarrow> myfs_iget (v_ino a) fs;
                      (q, fs) \<leftarrow> myfs_iget (v_ino b) fs;
                      (_, fs) \<leftarrow> myfs_rename p old_name q new_name fs;
                      m \<leftarrow> inodes fs p;
                      n \<leftarrow> inodes fs q;
                      Some ((i_size m, i_size n), fs) }) s;
          let s = set_vnode old_parent (a\<lparr>v_size := old_size\<rparr>) s;
          b \<leftarrow> vnodes s new_parent;
          Some (0, set_vnode new_parent (b\<lparr>v_size := new_size\<rparr>) s) }"

subsection \<open>The MyFS driver: open files\<close>

definition myfsd_f_open :: "nat \<Rightarrow> vfs \<Rightarrow> (int \<times> vfs) option" where
  "myfsd_f_open vnode s =
     do { v \<leftarrow> vnodes s vnode;
          with_fs (super_block v)
            (\<lambda>fs. do { (p, fs) \<leftarrow> myfs_iget (v_ino v) fs;
                      if p = 0 then Some (- 1, fs) else do { fs \<leftarrow> myfs_iput p fs; Some (0, fs) } }) s }"

definition myfsd_f_close :: "nat \<Rightarrow> vfs \<Rightarrow> (int \<times> vfs) option" where
  "myfsd_f_close file s =
     do { f \<leftarrow> open_files s file;
          v \<leftarrow> vnodes s (f_vnode f);
          with_fs (super_block v) (\<lambda>fs. do { (_, fs) \<leftarrow> myfs_disk_inode_write (v_ino v) fs; Some (0, fs) }) s }"

definition node_read :: "u32 \<Rightarrow> u32 \<Rightarrow> bytes \<Rightarrow> u32 \<Rightarrow> myfs \<Rightarrow> ((int \<times> bytes) \<times> myfs) option" where
  "node_read ino pos buf sz fs =
     do { (p, fs) \<leftarrow> myfs_iget ino fs;
          if p = 0 then Some ((- 1, buf), fs)
          else do {
            (n, buf) \<leftarrow> myfs_node_read p pos buf sz fs;
            fs \<leftarrow> myfs_iput p fs;
            Some ((n, buf), fs) } }"

definition myfsd_f_read :: "nat \<Rightarrow> bytes \<Rightarrow> u32 \<Rightarrow> vfs \<Rightarrow> ((int \<times> bytes) \<times> vfs) option" where
  "myfsd_f_read file buf sz s =
     do { f \<leftarrow> open_files s file;
          v \<leftarrow> vnodes s (f_vnode f);
          ((n, buf), s) \<leftarrow> with_fs (super_block v) (node_read (v_ino v) (of_int (f_pos f)) buf sz) s;
          Some ((n, buf), if n > 0 then set_file file (f\<lparr>f_pos := f_pos f + n\<rparr>) s else s) }"

text \<open>Writing also returns the size of the file.\<close>

definition node_write :: "u32 \<Rightarrow> u32 \<Rightarrow> bytes \<Rightarrow> u32 \<Rightarrow> myfs \<Rightarrow> ((int \<times> u32) \<times> myfs) option" where
  "node_write ino pos buf sz fs =
     do { (p, fs) \<leftarrow> myfs_iget ino fs;
          if p = 0 then Some ((- 1, 0), fs)
          else do {
            (r, fs) \<leftarrow> myfs_node_write p pos buf sz fs;
            n \<leftarrow> inodes fs p;
            fs \<leftarrow> myfs_iput p fs;
            Some ((r, i_size n), fs) } }"

definition myfsd_f_write :: "nat \<Rightarrow> bytes \<Rightarrow> u32 \<Rightarrow> vfs \<Rightarrow> (int \<times> vfs) option" where
  "myfsd_f_write file buf sz s =
     do { f \<leftarrow> open_files s file;
          v \<leftarrow> vnodes s (f_vnode f);
          ((r, z), s) \<leftarrow> with_fs (super_block v) (node_write (v_ino v) (of_int (f_pos f)) buf sz) s;
          Some (r, if r > 0 then set_vnode (f_vnode f) (v\<lparr>v_size := z\<rparr>) (set_file file (f\<lparr>f_pos := f_pos f + r\<rparr>) s) else s) }"

text \<open>\<^verbatim>\<open>myfsd_getattr\<close> copies the fields of the inode; \<^verbatim>\<open>myfsd_f_fstat\<close> keeps the reference it took.\<close>

record fstat_t =
  st_size :: u32
  st_mode :: u32
  st_links_count :: u32
  st_uid :: u32
  st_gid :: u32
  st_permissions :: u32
  st_atime :: u64
  st_mtime :: u64
  st_ctime :: u64
  st_ino :: u32

definition myfsd_getattr :: "MyfsInode \<Rightarrow> fstat_t" where
  "myfsd_getattr n = \<lparr>st_size = i_size n, st_mode = i_mode n, st_links_count = links_count n, st_uid = i_uid n, st_gid = i_gid n,
     st_permissions = permissions n, st_atime = atime n, st_mtime = mtime n, st_ctime = ctime n, st_ino = i_ino n\<rparr>"

definition myfsd_f_fstat :: "nat \<Rightarrow> vfs \<Rightarrow> ((int \<times> fstat_t option) \<times> vfs) option" where
  "myfsd_f_fstat file s =
     do { f \<leftarrow> open_files s file;
          v \<leftarrow> vnodes s (f_vnode f);
          with_fs (super_block v)
            (\<lambda>fs. do { (p, fs) \<leftarrow> myfs_iget (v_ino v) fs;
                      if p = 0 then Some ((- 1, None), fs) else do { n \<leftarrow> inodes fs p; Some ((0, Some (myfsd_getattr n)), fs) } }) s }"

subsection \<open>Reading directories\<close>

definition sizeof_vdir_entry :: nat where
  "sizeof_vdir_entry = 36"

text \<open>The iteration context: entries stored so far, the buffer of the caller, and its capacity in entries.\<close>

record dir_ctx_t =
  dc_pos :: nat
  dc_buf :: bytes
  dc_count :: int

definition filldir :: "bytes \<Rightarrow> nat \<Rightarrow> u32 \<Rightarrow> dir_ctx_t \<Rightarrow> bool \<times> dir_ctx_t" where
  "filldir name namelen ino ctx =
     (if int (dc_pos ctx) \<ge> dc_count ctx then (False, ctx)
      else
        (let e = dc_pos ctx * sizeof_vdir_entry;
             b = put32 (dc_buf ctx) e ino;
             copy_len = (if namelen < 31 then namelen else 31);
             b = mem_copy b (e + 4) name 0 copy_len
         in (True, ctx\<lparr>dc_buf := b(e + 4 + copy_len := 0), dc_pos := dc_pos ctx + 1\<rparr>)))"

text \<open>The loop over the entries with \<open>k\<close> entries to go: how many were emitted. A child that cannot be read is a null pointer, and a position before the first entry is outside the buffer.\<close>

fun dir_iter_loop :: "nat \<Rightarrow> nat \<Rightarrow> bytes \<Rightarrow> nat \<Rightarrow> dir_ctx_t \<Rightarrow> myfs \<Rightarrow> (nat \<times> dir_ctx_t \<times> myfs) option" where
  "dir_iter_loop 0 i entries emitted ctx fs = Some (emitted, ctx, fs)"
| "dir_iter_loop (Suc k) i entries emitted ctx fs =
     (if int emitted < dc_count ctx then do {
        let entry = (\<lambda>a. entries (i * sizeof_dirent + a));
        namelen \<leftarrow> strlen entry 0;
        (child, fs) \<leftarrow> myfs_iget (get32 entry 32) fs;
        if child = 0 then None
        else do {
          fs \<leftarrow> myfs_iput child fs;
          let (ok, ctx) = filldir entry (unat namelen) (get32 entry 32) ctx;
          dir_iter_loop k (i + 1) entries (if ok then emitted + 1 else emitted) ctx fs } }
      else Some (emitted, ctx, fs))"

definition dir_iter :: "u32 \<Rightarrow> int \<Rightarrow> dir_ctx_t \<Rightarrow> myfs \<Rightarrow> ((int \<times> dir_ctx_t) \<times> myfs) option" where
  "dir_iter ino pos ctx fs =
     do { (parent, fs) \<leftarrow> myfs_iget ino fs;
          if parent = 0 then Some ((- 1, ctx), fs)
          else do {
            n \<leftarrow> inodes fs parent;
            if \<not> S_ISDIR (i_mode n) then do { fs \<leftarrow> myfs_iput parent fs; Some ((- 1, ctx), fs) }
            else do {
              let (ok, fs) = buf_alloc (i_size n) fs;
              if \<not> ok then do { fs \<leftarrow> myfs_iput parent fs; Some ((- 1, ctx), fs) }
              else if pos \<le> - int sizeof_dirent \<or> pos \<ge> 2 ^ 31 * int sizeof_dirent then None
              else do {
                (bytes_read, entries) \<leftarrow> myfs_node_read parent 0 (\<lambda>_. 0) (i_size n) fs;
                if bytes_read < 0 then do { fs \<leftarrow> myfs_iput parent fs; Some ((- 1, ctx), fs) }
                else do {
                  let actual_entries = nat bytes_read div sizeof_dirent;
                  let start_index = nat pos div sizeof_dirent;
                  (emitted, ctx, fs) \<leftarrow> dir_iter_loop (actual_entries - start_index) start_index entries 0 ctx fs;
                  fs \<leftarrow> myfs_iput parent fs;
                  Some ((int emitted, ctx), fs) } } } } }"

definition myfsd_f_dir_iter :: "nat \<Rightarrow> dir_ctx_t \<Rightarrow> vfs \<Rightarrow> ((int \<times> dir_ctx_t) \<times> vfs) option" where
  "myfsd_f_dir_iter file ctx s =
     do { f \<leftarrow> open_files s file;
          v \<leftarrow> vnodes s (f_vnode f);
          ((r, ctx), s) \<leftarrow> with_fs (super_block v) (dir_iter (v_ino v) (f_pos f) ctx) s;
          Some ((r, ctx), if r > 0 then set_file file (f\<lparr>f_pos := f_pos f + r * int sizeof_dirent\<rparr>) s else s) }"

text \<open>Only MyFS files can be iterated; for the others \<^verbatim>\<open>iter_dir\<close> is a null pointer.\<close>

definition vfs_getdents :: "int \<Rightarrow> bytes \<Rightarrow> u32 \<Rightarrow> vfs \<Rightarrow> ((int \<times> bytes) \<times> vfs) option" where
  "vfs_getdents fd dentry count s =
     (if fd_file fd s = 0 then Some ((- 1, dentry), s)
      else do {
        f \<leftarrow> open_files s (fd_file fd s);
        if f_ops f \<noteq> myfs_f_ops then None
        else do {
          ((r, ctx), s) \<leftarrow> myfsd_f_dir_iter (fd_file fd s) \<lparr>dc_pos = 0, dc_buf = dentry, dc_count = sint count\<rparr> s;
          if r < 0 then Some ((r, dc_buf ctx), s)
          else Some ((int (dc_pos ctx * sizeof_vdir_entry), dc_buf ctx), s) } })"

end
