(* ===== verification/VfsPath.thy ===== *)
theory VfsPath
  imports Vfs
begin

unbundle bit_operations_syntax

text \<open>
  The name space of the virtual file system (\<^verbatim>\<open>kernel/src/fs/vfs.c\<close>): registered file system types, mounting, path resolution,
  and the operations that change directories. Block devices are those of \<^verbatim>\<open>drivers/block/blockdev.c\<close>.
\<close>

subsection \<open>File system types\<close>

definition get_fs_type :: "u8 list \<Rightarrow> vfs \<Rightarrow> fs_type_t option" where
  "get_fs_type name s = List.find (\<lambda>t. fs_name t = name) (fs_registry_table s)"

definition vfs_fs_type_register :: "fs_type_t option \<Rightarrow> vfs \<Rightarrow> int \<times> vfs" where
  "vfs_fs_type_register fs_type s =
     (case fs_type of
        None \<Rightarrow> (- 1, s)
      | Some t \<Rightarrow> if list_ex (\<lambda>u. fs_name u = fs_name t) (fs_registry_table s) then (- 1, s)
                  else (0, s\<lparr>fs_registry_table := t # fs_registry_table s\<rparr>))"

text \<open>The first type with the name is taken out.\<close>

fun unlink_type :: "u8 list \<Rightarrow> fs_type_t list \<Rightarrow> fs_type_t list option" where
  "unlink_type name [] = None"
| "unlink_type name (t # ts) = (if fs_name t = name then Some ts else map_option ((#) t) (unlink_type name ts))"

definition vfs_fs_type_unregister :: "u8 list option \<Rightarrow> vfs \<Rightarrow> int \<times> vfs" where
  "vfs_fs_type_unregister name s =
     (case name of
        None \<Rightarrow> (- 1, s)
      | Some n \<Rightarrow> (case unlink_type n (fs_registry_table s) of
                     None \<Rightarrow> (- 1, s) | Some ts \<Rightarrow> (0, s\<lparr>fs_registry_table := ts\<rparr>)))"

definition MYFS_NAME :: "u8 list" where
  "MYFS_NAME = [0x6D, 0x79, 0x66, 0x73]"

definition myfs_init :: "vfs \<Rightarrow> (int \<times> vfs) option" where
  "myfs_init s =
     (case valloc s of (p, s) \<Rightarrow>
        if p = 0 then None
        else (case vfs_fs_type_register (Some \<lparr>fs_name = MYFS_NAME, fs_driver = myfs_driver\<rparr>) s of
                (r, s) \<Rightarrow> Some (if r < 0 then - 1 else 0, s)))"

definition myfsd_unregister :: "vfs \<Rightarrow> int \<times> vfs" where
  "myfsd_unregister s = (0, snd (vfs_fs_type_unregister (Some MYFS_NAME) s))"

subsection \<open>Mounting\<close>

definition MAX_BLOCK_DEVICES :: nat where
  "MAX_BLOCK_DEVICES = 50"

definition blkdev_register :: "u8 list \<times> bytes \<Rightarrow> vfs \<Rightarrow> int \<times> vfs" where
  "blkdev_register dev s =
     (if length (blkdevs s) < MAX_BLOCK_DEVICES then (0, s\<lparr>blkdevs := blkdevs s @ [dev]\<rparr>) else (- ENOMEM, s))"

text \<open>The place of a block device in the table.\<close>

definition blkdev_get :: "u8 list \<Rightarrow> vfs \<Rightarrow> nat option" where
  "blkdev_get name s = List.find (\<lambda>i. fst (blkdevs s ! i) = name) [0..<length (blkdevs s)]"

text \<open>
  The reference to the root inode is kept. A root that can be neither read nor made is a null
  pointer. Without memory for the root vnode MyFS is shut down again.
\<close>

definition myfsd_super_sb_fill :: "nat \<Rightarrow> nat \<Rightarrow> vfs \<Rightarrow> (int \<times> vfs) option" where
  "myfsd_super_sb_fill sb dev s =
     do { r \<leftarrow> myfs_sb_read (snd (blkdevs s ! dev)) (disk_mem_ok s) (disk_stale s);
          (case r of
             None \<Rightarrow> Some (- 1, s)
           | Some fs \<Rightarrow> do {
               (root, fs) \<leftarrow> myfs_iget MYFS_ROOT_INODE_NUM fs;
               (root, fs) \<leftarrow> (if root = 0
                 then do { (r, p, fs) \<leftarrow> myfs_inode_alloc S_IFDIR fs; if r < 0 then None else Some (p, fs) }
                 else Some (root, fs));
               n \<leftarrow> inodes fs root;
               (_, fs) \<leftarrow> myfs_dir_add_entry root [0x2E] (i_ino n) fs;
               n \<leftarrow> inodes fs root;
               let (root_vnode, s) = vfs_vnode_alloc sb (i_ino n) (i_mode n) (i_size n) s;
               if root_vnode = 0 then do { d \<leftarrow> myfs_sb_kill fs; Some (- 1, set_disk dev d s) }
               else Some (0, set_disk dev (disk fs) (s\<lparr>super_blocks := (super_blocks s)(sb \<mapsto>
                      \<lparr>sb_type = map_option fs_name (get_fs_type MYFS_NAME s), fs_root = root_vnode, sb_f_ops = myfs_f_ops,
                       sb_v_ops = Some myfs_vnode_ops, vnode_cache = [], fs_private = Some fs, sb_dev = dev\<rparr>)\<rparr>)) }) }"

definition vfs_mount :: "u8 list \<Rightarrow> u8 list \<Rightarrow> u8 list \<Rightarrow> vfs \<Rightarrow> (int \<times> vfs) option" where
  "vfs_mount source_dev target_path fs_nm s =
     (case blkdev_get source_dev s of
        None \<Rightarrow> Some (- ENODEV, s)
      | Some dev \<Rightarrow>
          (case get_fs_type fs_nm s of
             None \<Rightarrow> Some (- ENODEV, s)
           | Some t \<Rightarrow>
               (case valloc s of (mount_p, s) \<Rightarrow>
                  if mount_p = 0 then Some (- ENOMEM, s)
                  else (case valloc s of (sb, s) \<Rightarrow>
                    if sb = 0 then Some (- ENOMEM, s)
                    else do {
                      (r, s) \<leftarrow> (case fs_driver t of myfs_driver \<Rightarrow> myfsd_super_sb_fill sb dev s);
                      if r = - 1 then Some (- EIO, s)
                      else Some (0, s\<lparr>mount_p_table := \<lparr>mp_path = take (PATH_LEN_MAX - 1) target_path, mp_super_block = sb\<rparr> # mount_p_table s\<rparr>) }))))"

text \<open>Whether a mount covers a path, and the search for the longest such mount.\<close>

definition mount_covers :: "mount_point_t \<Rightarrow> u8 list \<Rightarrow> bool" where
  "mount_covers m path \<longleftrightarrow>
     take (length (mp_path m)) path = mp_path m
     \<and> (length path > length (mp_path m) \<and> path ! length (mp_path m) = 0x2F \<or> length path = length (mp_path m) \<or> mp_path m = [0x2F])"

definition vfs_find_mount_point :: "u8 list \<Rightarrow> vfs \<Rightarrow> mount_point_t option" where
  "vfs_find_mount_point path s =
     fst (fold (\<lambda>m (best_match, best_match_len).
                  if mount_covers m path \<and> length (mp_path m) > best_match_len then (Some m, length (mp_path m))
                  else (best_match, best_match_len)) (mount_p_table s) (None, 0))"

fun unlink_mount :: "u8 list \<Rightarrow> mount_point_t list \<Rightarrow> mount_point_t list option" where
  "unlink_mount path [] = None"
| "unlink_mount path (m # ms) = (if mp_path m = path then Some ms else map_option ((#) m) (unlink_mount path ms))"

definition vfs_remove_mount_point :: "u8 list \<Rightarrow> vfs \<Rightarrow> int \<times> vfs" where
  "vfs_remove_mount_point path s =
     (case unlink_mount path (mount_p_table s) of None \<Rightarrow> (- 1, s) | Some ms \<Rightarrow> (0, s\<lparr>mount_p_table := ms\<rparr>))"

definition myfsd_kill_vsb :: "nat \<Rightarrow> vfs \<Rightarrow> vfs option" where
  "myfsd_kill_vsb sb s =
     do { b \<leftarrow> super_blocks s sb;
          s \<leftarrow> (case fs_private b of
                 None \<Rightarrow> Some s
               | Some fs \<Rightarrow> do { d \<leftarrow> sb_disk b s; d \<leftarrow> myfs_sb_kill (fs\<lparr>disk := d\<rparr>); Some (set_disk (sb_dev b) d s) });
          Some (s\<lparr>super_blocks := (super_blocks s)(sb := None)\<rparr>) }"

text \<open>A target that no mount covers and a superblock without a file system type are null pointers.\<close>

definition vfs_umount :: "u8 list \<Rightarrow> nat \<Rightarrow> vfs \<Rightarrow> (int \<times> vfs) option" where
  "vfs_umount target base_node s =
     do { sb \<leftarrow> (if base_node \<noteq> 0 then map_option super_block (vnodes s base_node)
                else map_option mp_super_block (vfs_find_mount_point target s));
          b \<leftarrow> super_blocks s sb;
          _ \<leftarrow> sb_type b;
          s \<leftarrow> myfsd_kill_vsb sb s;
          Some (0, snd (vfs_remove_mount_point target s)) }"

subsection \<open>Path resolution\<close>

text \<open>One call of \<^verbatim>\<open>strtok_r\<close> with the separator \<^verbatim>\<open>/\<close>: the next component and what is saved for the next call.\<close>

definition next_token :: "u8 list \<Rightarrow> (u8 list \<times> u8 list) option" where
  "next_token path =
     (let ys = dropWhile (\<lambda>c. c = 0x2F) path; token = takeWhile (\<lambda>c. c \<noteq> 0x2F) ys
      in if ys = [] then None else Some (token, drop (length token + 1) ys))"

text \<open>The start of a walk: the referenced base node, or 0 when there is none or no memory for the copy of the path.\<close>

definition walk_start :: "nat \<Rightarrow> u8 list \<Rightarrow> vfs \<Rightarrow> (nat \<times> vfs) option" where
  "walk_start base_node relative_path s =
     (if base_node = 0 then Some (0, s)
      else do {
        s \<leftarrow> vfs_vnode_get_ref base_node s;
        if relative_path = [] then Some (base_node, s)
        else (case valloc s of (path_copy, s) \<Rightarrow>
                if path_copy = 0 then do { s \<leftarrow> vfs_vnode_put base_node s; Some (0, s) } else Some (base_node, s)) })"

text \<open>Where the resolution of a path starts, and the path relative to that.\<close>

definition lookup_start :: "u8 list \<Rightarrow> nat \<Rightarrow> vfs \<Rightarrow> (nat \<times> u8 list) option" where
  "lookup_start path base_node s =
     (if path \<noteq> [] \<and> hd path = 0x2F then
        (case vfs_find_mount_point path s of
           None \<Rightarrow> Some (0, path)
         | Some mount \<Rightarrow> do { b \<leftarrow> super_blocks s (mp_super_block mount);
                            Some (fs_root b, dropWhile (\<lambda>c. c = 0x2F) (drop (length (mp_path mount)) path)) })
      else Some (base_node, path))"

text \<open>The path that replaces the rest of a path after a symbolic link.\<close>

definition link_path :: "u8 list \<Rightarrow> u8 list \<Rightarrow> u8 list" where
  "link_path target remaining = take (PATH_LEN_MAX - 1) (if remaining \<noteq> [] then target @ 0x2F # remaining else target)"

partial_function (option) vfs_walk_loop :: "nat \<Rightarrow> u8 list \<Rightarrow> nat \<Rightarrow> bool \<Rightarrow> vfs \<Rightarrow> (nat \<times> vfs) option" where
  "vfs_walk_loop current path symlink_depth follow s =
     (case next_token path of
        None \<Rightarrow> Some (current, s)
      | Some (token, saved) \<Rightarrow> do {
          c \<leftarrow> vnodes s current;
          b \<leftarrow> super_blocks s (super_block c);
          if sb_v_ops b = None then do { s \<leftarrow> vfs_vnode_put current s; Some (0, s) }
          else do {
            (child, s) \<leftarrow> myfsd_v_lookup current token s;
            if child = 0 then do { s \<leftarrow> vfs_vnode_put current s; Some (0, s) }
            else do {
              s \<leftarrow> vfs_vnode_get_ref child s;
              n \<leftarrow> vnodes s child;
              if \<not> S_ISLNK (v_mode n) then do {
                s \<leftarrow> vfs_vnode_put current s;
                vfs_walk_loop child saved symlink_depth follow s }
              else if saved = [] \<and> \<not> follow then do { s \<leftarrow> vfs_vnode_put current s; Some (child, s) }
              else if symlink_depth + 1 > MAX_SYMLINK_DEPTH then do {
                s \<leftarrow> vfs_vnode_put child s;
                s \<leftarrow> vfs_vnode_put current s;
                Some (0, s) }
              else do {
                ((len, target), s) \<leftarrow> myfsd_v_readlink child (\<lambda>_. 0) (of_nat (PATH_LEN_MAX - 1)) s;
                s \<leftarrow> vfs_vnode_put child s;
                if len < 0 then do { s \<leftarrow> vfs_vnode_put current s; Some (0, s) }
                else do {
                  let new_path = link_path (takeWhile (\<lambda>c. c \<noteq> 0) (map target [0..<nat len])) saved;
                  if new_path \<noteq> [] \<and> hd new_path = 0x2F then do {
                    s \<leftarrow> vfs_vnode_put current s;
                    (start_node, relative_path) \<leftarrow> lookup_start new_path 0 s;
                    (start_node, s) \<leftarrow> walk_start start_node relative_path s;
                    if start_node = 0 then Some (0, s)
                    else vfs_walk_loop start_node relative_path 0 follow s }
                  else (case valloc s of (path_copy, s) \<Rightarrow>
                    if path_copy = 0 then do { s \<leftarrow> vfs_vnode_put current s; Some (0, s) }
                    else vfs_walk_loop current new_path (symlink_depth + 1) follow s) } } } } })"

definition vfs_walk :: "nat \<Rightarrow> u8 list \<Rightarrow> bool \<Rightarrow> vfs \<Rightarrow> (nat \<times> vfs) option" where
  "vfs_walk base_node relative_path follow s =
     do { (current, s) \<leftarrow> walk_start base_node relative_path s;
          if current = 0 then Some (0, s) else vfs_walk_loop current relative_path 0 follow s }"

definition vfs_lookup_path :: "u8 list \<Rightarrow> nat \<Rightarrow> bool \<Rightarrow> vfs \<Rightarrow> (nat \<times> vfs) option" where
  "vfs_lookup_path path base_node follow s =
     do { (start_node, relative_path) \<leftarrow> lookup_start path base_node s;
          vfs_walk start_node relative_path follow s }"

subsection \<open>Operations on names\<close>

text \<open>Splitting a path at its last slash, where \<^verbatim>\<open>strrchr\<close> finds one; an empty parent is the root.\<close>

definition split_last :: "u8 list \<Rightarrow> (u8 list \<times> u8 list) option" where
  "split_last path =
     (if 0x2F \<in> set path
      then Some (case rev (tl (dropWhile (\<lambda>c. c \<noteq> 0x2F) (rev path))) of [] \<Rightarrow> [0x2F] | c # cs \<Rightarrow> c # cs,
                 rev (takeWhile (\<lambda>c. c \<noteq> 0x2F) (rev path)))
      else None)"

definition vfs_symlink :: "u8 list \<Rightarrow> nat \<Rightarrow> u8 list \<Rightarrow> vfs \<Rightarrow> (int \<times> vfs) option" where
  "vfs_symlink target cwd linkpath s =
     (case valloc s of (path_copy, s) \<Rightarrow>
        if path_copy = 0 then None
        else do {
          (parent_path, link_name) \<leftarrow> split_last linkpath;
          (parent, s) \<leftarrow> vfs_lookup_path parent_path cwd True s;
          if parent = 0 then Some (- 1, s)
          else do {
            (result, s) \<leftarrow> myfsd_v_symlink parent link_name target s;
            s \<leftarrow> vfs_vnode_put parent s;
            Some (result, s) } })"

definition vfs_readlink :: "u8 list \<Rightarrow> nat \<Rightarrow> bytes \<Rightarrow> u32 \<Rightarrow> vfs \<Rightarrow> ((int \<times> bytes) \<times> vfs) option" where
  "vfs_readlink path cwd buf bufsize s =
     do { (vnode, s) \<leftarrow> vfs_lookup_path path cwd False s;
          if vnode = 0 then Some ((- 1, buf), s)
          else do {
            v \<leftarrow> vnodes s vnode;
            if \<not> S_ISLNK (v_mode v) then do { s \<leftarrow> vfs_vnode_put vnode s; Some ((- 1, buf), s) }
            else do {
              (r, s) \<leftarrow> myfsd_v_readlink vnode buf bufsize s;
              s \<leftarrow> vfs_vnode_put vnode s;
              Some (r, s) } } }"

definition vfs_rename :: "u8 list \<Rightarrow> nat \<Rightarrow> u8 list \<Rightarrow> vfs \<Rightarrow> (int \<times> vfs) option" where
  "vfs_rename oldpath cwd newpath s =
     (case valloc s of (old_copy, s) \<Rightarrow>
        case (if old_copy = 0 then None else split_last oldpath) of
          None \<Rightarrow> Some (- 1, s)
        | Some (old_parent_path, old_name) \<Rightarrow>
            (case valloc s of (new_copy, s) \<Rightarrow>
               case (if new_copy = 0 then None else split_last newpath) of
                 None \<Rightarrow> Some (- 1, s)
               | Some (new_parent_path, new_name) \<Rightarrow> do {
                   (old_parent, s) \<leftarrow> vfs_lookup_path old_parent_path cwd True s;
                   (new_parent, s) \<leftarrow> vfs_lookup_path new_parent_path cwd True s;
                   if old_parent = 0 \<or> new_parent = 0 then do {
                     s \<leftarrow> vfs_vnode_put old_parent s;
                     s \<leftarrow> vfs_vnode_put new_parent s;
                     Some (- 1, s) }
                   else do {
                     a \<leftarrow> vnodes s old_parent;
                     b \<leftarrow> vnodes s new_parent;
                     (result, s) \<leftarrow> (if super_block a \<noteq> super_block b then Some (- 1, s)
                                      else myfsd_v_rename old_parent old_name new_parent new_name s);
                     s \<leftarrow> vfs_vnode_put old_parent s;
                     s \<leftarrow> vfs_vnode_put new_parent s;
                     Some (result, s) } }))"

text \<open>The operation on the parent directory of a path; without a slash in the path that is the base node.\<close>

definition vfs_parent_operation :: "u8 list \<Rightarrow> nat \<Rightarrow> (nat \<Rightarrow> u8 list \<Rightarrow> vfs \<Rightarrow> (int \<times> vfs) option) \<Rightarrow> vfs \<Rightarrow> (int \<times> vfs) option" where
  "vfs_parent_operation path base_node op s =
     (case valloc s of (path_copy, s) \<Rightarrow>
        if path_copy = 0 then Some (- 1, s)
        else (case split_last path of
                None \<Rightarrow> op base_node path s
              | Some (parent_path, child_name) \<Rightarrow> do {
                  (parent, s) \<leftarrow> vfs_lookup_path parent_path base_node True s;
                  if parent = 0 then Some (- ENOENT, s)
                  else do {
                    (result, s) \<leftarrow> op parent child_name s;
                    s \<leftarrow> vfs_vnode_put parent s;
                    Some (result, s) } }))"

definition get_vops :: "u8 list \<Rightarrow> nat \<Rightarrow> vfs \<Rightarrow> vnode_ops option option" where
  "get_vops path base_node s =
     (if base_node \<noteq> 0 then do { v \<leftarrow> vnodes s base_node; b \<leftarrow> super_blocks s (super_block v); Some (sb_v_ops b) }
      else (case vfs_find_mount_point path s of
              None \<Rightarrow> Some None
            | Some mp \<Rightarrow> do { b \<leftarrow> super_blocks s (mp_super_block mp); Some (sb_v_ops b) }))"

definition vfs_create :: "u8 list \<Rightarrow> nat \<Rightarrow> vfs \<Rightarrow> (int \<times> vfs) option" where
  "vfs_create path base_node s =
     do { vops \<leftarrow> get_vops path base_node s;
          if vops = None then Some (- 1, s) else vfs_parent_operation path base_node myfsd_v_create s }"

definition vfs_mkdir :: "u8 list \<Rightarrow> nat \<Rightarrow> vfs \<Rightarrow> (int \<times> vfs) option" where
  "vfs_mkdir path base_node s =
     do { vops \<leftarrow> get_vops path base_node s;
          if vops = None then Some (- 1, s) else vfs_parent_operation path base_node myfsd_v_mkdir s }"

definition vfs_rmdir :: "u8 list \<Rightarrow> nat \<Rightarrow> vfs \<Rightarrow> (int \<times> vfs) option" where
  "vfs_rmdir path base_node s =
     do { vops \<leftarrow> get_vops path base_node s;
          if vops = None then Some (- 1, s) else vfs_parent_operation path base_node myfsd_v_rmdir s }"

definition vfs_unlink :: "u8 list \<Rightarrow> nat \<Rightarrow> vfs \<Rightarrow> (int \<times> vfs) option" where
  "vfs_unlink path base_node s =
     do { vops \<leftarrow> get_vops path base_node s;
          if vops = None then Some (- 1, s) else vfs_parent_operation path base_node myfsd_v_unlink s }"

end
