(* ===== verification/VfsFile.thy ===== *)
theory VfsFile
  imports VfsPath
begin

unbundle bit_operations_syntax

text \<open>
  Open files: the descriptor level of \<^verbatim>\<open>kernel/src/fs/vfs.c\<close>, the standard streams (\<^verbatim>\<open>fs/fd.c\<close>, \<^verbatim>\<open>console_dev.c\<close>, \<^verbatim>\<open>keyboard_dev.c\<close>,
  \<^verbatim>\<open>serial_dev.c\<close>), output to descriptors (\<^verbatim>\<open>klib/stdio.c\<close>), and the system calls of \<^verbatim>\<open>fs/sys_fs.c\<close>, \<^verbatim>\<open>sys_cwd.c\<close> and \<^verbatim>\<open>sys_ioctl.c\<close>.
  The system calls take the working directory of the calling process as an argument.
\<close>

subsection \<open>Opening and closing\<close>

definition vfs_bind_vnode_to_fd :: "nat \<Rightarrow> u32 \<Rightarrow> vfs \<Rightarrow> (int \<times> vfs) option" where
  "vfs_bind_vnode_to_fd vnode flags s =
     (case valloc s of (file, s) \<Rightarrow>
        if file = 0 then Some (- 1, s)
        else do {
          v \<leftarrow> vnodes s vnode;
          b \<leftarrow> super_blocks s (super_block v);
          (r, s) \<leftarrow> (if sb_f_ops b = myfs_f_ops then myfsd_f_open vnode s else Some (0, s));
          if r < 0 then Some (- 1, s)
          else Some (alloc_fd file (set_file file
                 \<lparr>f_vnode = vnode, f_ops = sb_f_ops b, f_pos = 0, f_flags = flags, f_refcount = 1\<rparr> s)) })"

definition vfs_open :: "u8 list \<Rightarrow> nat \<Rightarrow> u32 \<Rightarrow> vfs \<Rightarrow> (int \<times> vfs) option" where
  "vfs_open path base_node flags s =
     do { (vnode, s) \<leftarrow> vfs_lookup_path path base_node True s;
          if vnode = 0 then
            (if flags AND O_CREAT = 0 then Some (- ENOENT, s)
             else do {
               (res, s) \<leftarrow> vfs_create path base_node s;
               if res \<noteq> 0 then Some (res, s)
               else do {
                 (vnode, s) \<leftarrow> vfs_lookup_path path base_node True s;
                 if vnode = 0 then Some (- EIO, s) else vfs_bind_vnode_to_fd vnode flags s } })
          else if flags AND O_CREAT \<noteq> 0 \<and> flags AND O_EXCL \<noteq> 0 then Some (- EEXIST, s)
          else vfs_bind_vnode_to_fd vnode flags s }"

definition vfs_close :: "int \<Rightarrow> vfs \<Rightarrow> (int \<times> vfs) option" where
  "vfs_close fd s =
     (if fd_file fd s = 0 then Some (- 1, s)
      else do {
        f \<leftarrow> open_files s (fd_file fd s);
        (result, s) \<leftarrow> (if f_ops f = myfs_f_ops then myfsd_f_close (fd_file fd s) s else Some (0, s));
        s \<leftarrow> free_fd fd s;
        Some (result, s) })"

text \<open>The descriptor is used without a check.\<close>

definition vfs_seek :: "int \<Rightarrow> int \<Rightarrow> int \<Rightarrow> vfs \<Rightarrow> (int \<times> vfs) option" where
  "vfs_seek fd relative_offset whence s =
     (if fd < 0 \<or> fd \<ge> int MAX_FD then None
      else if whence \<notin> {0, 1, 2} then Some (- 1, s)
      else do {
        f \<leftarrow> open_files s (fd_file fd s);
        v \<leftarrow> vnodes s (f_vnode f);
        let new_pos = (if whence = 0 then 0 else if whence = 1 then f_pos f else sint (v_size v)) + relative_offset;
        if new_pos < 0 \<or> new_pos > sint (v_size v) then Some (- 1, s)
        else Some (new_pos, set_file (fd_file fd s) (f\<lparr>f_pos := new_pos\<rparr>) s) })"

subsection \<open>Reading\<close>

text \<open>What a \<^verbatim>\<open>read\<close> operation does: return a count and the buffer, wait with what it has read so far, or not exist.\<close>

datatype read_result = Returned int bytes | Waiting "u8 list" | No_read

definition store_bytes :: "bytes \<Rightarrow> u8 list \<Rightarrow> bytes" where
  "store_bytes buf xs = (\<lambda>i. if i < length xs then xs ! i else buf i)"

definition file_read :: "nat \<Rightarrow> bytes \<Rightarrow> u32 \<Rightarrow> vfs \<Rightarrow> (read_result \<times> vfs) option" where
  "file_read file buf sz s =
     do { f \<leftarrow> open_files s file;
          (case f_ops f of
             myfs_f_ops \<Rightarrow> do { ((n, buf), s) \<leftarrow> myfsd_f_read file buf sz s; Some (Returned n buf, s) }
           | kbd_fops \<Rightarrow> do {
               v \<leftarrow> vnodes s (f_vnode f);
               (finished, r, t) \<leftarrow> kbd_dev_read (device_handle v) (unat sz) (vterm s);
               Some (case r of Inl e \<Rightarrow> Returned e buf
                     | Inr xs \<Rightarrow> if finished then Returned (int (length xs)) (store_bytes buf xs) else Waiting xs, s\<lparr>vterm := t\<rparr>) }
           | con_fops \<Rightarrow> Some (No_read, s)
           | dbg_fops \<Rightarrow> Some (No_read, s)) }"

definition advance :: "nat \<Rightarrow> int \<Rightarrow> vfs \<Rightarrow> vfs option" where
  "advance file n s = (if n > 0 then do { f \<leftarrow> open_files s file; Some (set_file file (f\<lparr>f_pos := f_pos f + n\<rparr>) s) } else Some s)"

definition vfs_read :: "int \<Rightarrow> bytes \<Rightarrow> u32 \<Rightarrow> vfs \<Rightarrow> (read_result \<times> vfs) option" where
  "vfs_read fd buf sz s =
     (if fd_file fd s = 0 then Some (Returned (- 1) buf, s)
      else do {
        (r, s) \<leftarrow> file_read (fd_file fd s) buf sz s;
        (case r of
           Returned n buf \<Rightarrow> do { s \<leftarrow> advance (fd_file fd s) n s; Some (Returned n buf, s) }
         | Waiting xs \<Rightarrow> Some (Waiting xs, s)
         | No_read \<Rightarrow> Some (Returned (- 1) buf, s)) })"

definition vfs_fstat :: "int \<Rightarrow> vfs \<Rightarrow> ((int \<times> fstat_t option) \<times> vfs) option" where
  "vfs_fstat fd s =
     (if fd_file fd s = 0 then Some ((- 1, None), s)
      else do {
        f \<leftarrow> open_files s (fd_file fd s);
        if f_ops f = myfs_f_ops then myfsd_f_fstat (fd_file fd s) s else Some ((- 1, None), s) })"

subsection \<open>Writing\<close>

definition STDDEBUG_FILENO :: int where
  "STDDEBUG_FILENO = 3"

definition writable :: "file_t \<Rightarrow> bool" where
  "writable f \<longleftrightarrow> f_flags f AND O_ACCMODE = O_WRONLY \<or> f_flags f AND O_ACCMODE = O_RDWR"

text \<open>
  The \<^verbatim>\<open>write\<close> operation of a file from the \<open>i\<close>-th byte on. The console prints each byte and sends it to the debug
  descriptor through \<^verbatim>\<open>kdebugc\<close>, that is \<^verbatim>\<open>vfs_write\<close>, whatever file is behind that. The first part of
  the result is \<open>None\<close> when the file has no such operation.
\<close>

partial_function (option) file_write :: "nat \<Rightarrow> bytes \<Rightarrow> nat \<Rightarrow> nat \<Rightarrow> vfs \<Rightarrow> (int option \<times> vfs) option" where
  "file_write file buf i sz s =
     do { f \<leftarrow> open_files s file;
          (case f_ops f of
             myfs_f_ops \<Rightarrow> do { (n, s) \<leftarrow> myfsd_f_write file buf (of_nat sz) s; Some (Some n, s) }
           | kbd_fops \<Rightarrow> Some (None, s)
           | con_fops \<Rightarrow>
               if i < sz then do {
                 t \<leftarrow> con_putc (buf i) (con (vterm s));
                 let s = s\<lparr>vterm := (vterm s)\<lparr>con := t\<rparr>\<rparr>;
                 let dbg = fd_file STDDEBUG_FILENO s;
                 s \<leftarrow> (if dbg = 0 then Some s
                       else do {
                         g \<leftarrow> open_files s dbg;
                         if \<not> writable g then Some s
                         else do {
                           (r, s) \<leftarrow> file_write dbg (\<lambda>_. buf i) 0 1 s;
                           (case r of None \<Rightarrow> Some s | Some n \<Rightarrow> advance dbg n s) } });
                 file_write file buf (i + 1) sz s }
               else Some (Some (int sz), s)
           | dbg_fops \<Rightarrow> Some (Some (int sz), s\<lparr>serial_out := serial_out s @ map buf [i..<sz]\<rparr>)) }"

definition vfs_write :: "int \<Rightarrow> bytes \<Rightarrow> u32 \<Rightarrow> vfs \<Rightarrow> (int \<times> vfs) option" where
  "vfs_write fd buf sz s =
     (if fd_file fd s = 0 then Some (- 1, s)
      else do {
        f \<leftarrow> open_files s (fd_file fd s);
        if \<not> writable f then Some (- 1, s)
        else do {
          (r, s) \<leftarrow> file_write (fd_file fd s) buf 0 (unat sz) s;
          (case r of None \<Rightarrow> Some (- 1, s) | Some n \<Rightarrow> do { s \<leftarrow> advance (fd_file fd s) n s; Some (n, s) }) } })"

subsection \<open>Standard streams\<close>

text \<open>The static vnodes and superblocks of the keyboard (1), the console (2) and the debug device (3).\<close>

definition dev_sb :: "file_ops_t \<Rightarrow> super_block_t" where
  "dev_sb ops = \<lparr>sb_type = None, fs_root = 0, sb_f_ops = ops, sb_v_ops = None, vnode_cache = [], fs_private = None, sb_dev = 0\<rparr>"

definition kbd_vnode_static :: vnode_t where
  "kbd_vnode_static = \<lparr>super_block = 1, v_size = 0, v_mode = S_IFCHR, device_handle = int DEVICE_HANDLE_KEYBOARD, v_ino = 0, v_refcount = 1\<rparr>"

definition con_vnode_static :: vnode_t where
  "con_vnode_static = \<lparr>super_block = 2, v_size = 0, v_mode = S_IFCHR, device_handle = 0, v_ino = 0, v_refcount = 1\<rparr>"

definition dbg_vnode_static :: vnode_t where
  "dbg_vnode_static = \<lparr>super_block = 3, v_size = 0, v_mode = S_IFCHR, device_handle = 0, v_ino = 0, v_refcount = 1\<rparr>"

text \<open>The file system layer before its initialisation, with the block devices and the terminal given.\<close>

definition vfs_boot :: "(u8 list \<times> bytes) list \<Rightarrow> (nat \<Rightarrow> bool) \<Rightarrow> (nat \<Rightarrow> bool) \<Rightarrow> (nat \<Rightarrow> u32) \<Rightarrow> terminal \<Rightarrow> vfs" where
  "vfs_boot devs mem dmem junk t =
     \<lparr>mount_p_table = [], fs_registry_table = [],
      super_blocks = [1 \<mapsto> dev_sb kbd_fops, 2 \<mapsto> dev_sb con_fops, 3 \<mapsto> dev_sb dbg_fops],
      vnodes = [1 \<mapsto> kbd_vnode_static, 2 \<mapsto> con_vnode_static, 3 \<mapsto> dbg_vnode_static],
      open_files = Map.empty, g_fd_table = (\<lambda>_. 0), blkdevs = devs, vmem_ok = mem, vallocs = 0, disk_mem_ok = dmem,
      disk_stale = junk, vterm = t, serial_out = []\<rparr>"

text \<open>
  \<^verbatim>\<open>vfs_init_stdio\<close>: position and reference count of the four files are what the memory holds,
  given by \<open>junk\<close>. A failed allocation is a write through a null pointer.
\<close>

definition stdio_file :: "(nat \<Rightarrow> int \<times> int) \<Rightarrow> nat \<Rightarrow> nat \<Rightarrow> file_ops_t \<Rightarrow> u32 \<Rightarrow> vfs \<Rightarrow> vfs option" where
  "stdio_file junk fd vnode ops flags s =
     (case valloc s of (p, s) \<Rightarrow>
        if p = 0 then None
        else Some (set_file p \<lparr>f_vnode = vnode, f_ops = ops, f_pos = fst (junk p), f_flags = flags, f_refcount = snd (junk p)\<rparr>
                     (s\<lparr>g_fd_table := (g_fd_table s)(fd := p)\<rparr>)))"

definition vfs_init_stdio :: "(nat \<Rightarrow> int \<times> int) \<Rightarrow> vfs \<Rightarrow> vfs option" where
  "vfs_init_stdio junk s =
     do { s \<leftarrow> stdio_file junk 0 1 kbd_fops 0 s;
          s \<leftarrow> stdio_file junk 1 2 con_fops O_WRONLY s;
          f \<leftarrow> open_files s (g_fd_table s 1);
          s \<leftarrow> (case valloc s of (p, s) \<Rightarrow>
                 if p = 0 then None else Some (set_file p f (s\<lparr>g_fd_table := (g_fd_table s)(2 := p)\<rparr>)));
          stdio_file junk 3 3 dbg_fops O_WRONLY s }"

subsection \<open>Output to descriptors\<close>

definition STDOUT_FILENO :: int where
  "STDOUT_FILENO = 1"

definition STDERR_FILENO :: int where
  "STDERR_FILENO = 2"

definition fd_putc :: "int \<Rightarrow> u8 \<Rightarrow> vfs \<Rightarrow> vfs option" where
  "fd_putc fd c s = do { (_, s) \<leftarrow> vfs_write fd (\<lambda>_. c) 1 s; Some s }"

definition kvfprintf :: "int \<Rightarrow> u8 list \<Rightarrow> printf_arg list \<Rightarrow> vfs \<Rightarrow> vfs option" where
  "kvfprintf file format args s =
     do { (_, s) \<leftarrow> vprintf_core (fd_putc file) PRINTF_STATE_NORMAL PRINTF_LENGTH_DEFAULT format args 0 s; Some s }"

definition kfprintf :: "int \<Rightarrow> u8 list \<Rightarrow> printf_arg list \<Rightarrow> vfs \<Rightarrow> vfs option" where
  "kfprintf file fmt args s = kvfprintf file fmt args s"

definition kprintf :: "u8 list \<Rightarrow> printf_arg list \<Rightarrow> vfs \<Rightarrow> vfs option" where
  "kprintf fmt args s = kvfprintf STDOUT_FILENO fmt args s"

definition kdebugf :: "u8 list \<Rightarrow> printf_arg list \<Rightarrow> vfs \<Rightarrow> vfs option" where
  "kdebugf fmt args s = kvfprintf STDDEBUG_FILENO fmt args s"

definition kdebugf_and_printf :: "u8 list \<Rightarrow> printf_arg list \<Rightarrow> vfs \<Rightarrow> vfs option" where
  "kdebugf_and_printf fmt args s = do { s \<leftarrow> kvfprintf STDOUT_FILENO fmt args s; kvfprintf STDOUT_FILENO fmt args s }"

definition kfputc :: "u8 \<Rightarrow> int \<Rightarrow> vfs \<Rightarrow> vfs option" where
  "kfputc c file s = do { (_, s) \<leftarrow> vfs_write file (\<lambda>_. c) 1 s; Some s }"

fun kfputs :: "u8 list \<Rightarrow> int \<Rightarrow> vfs \<Rightarrow> vfs option" where
  "kfputs [] file s = Some s"
| "kfputs (c # cs) file s = do { s \<leftarrow> kfputc c file s; kfputs cs file s }"

definition kputc :: "u8 \<Rightarrow> vfs \<Rightarrow> vfs option" where
  "kputc c s = kfputc c STDOUT_FILENO s"

definition kputs :: "u8 list \<Rightarrow> vfs \<Rightarrow> vfs option" where
  "kputs str s = kfputs str STDOUT_FILENO s"

definition kdebugc :: "u8 \<Rightarrow> vfs \<Rightarrow> vfs option" where
  "kdebugc c s = kfputc c STDDEBUG_FILENO s"

definition kdebugs :: "u8 list \<Rightarrow> vfs \<Rightarrow> vfs option" where
  "kdebugs str s = kfputs str STDDEBUG_FILENO s"

subsection \<open>System calls\<close>

text \<open>A path that the program passes as NULL is \<open>None\<close>.\<close>

definition sys_create :: "u8 list option \<Rightarrow> nat \<Rightarrow> vfs \<Rightarrow> (int \<times> vfs) option" where
  "sys_create path cwd s = (case path of None \<Rightarrow> Some (- EINVAL, s) | Some p \<Rightarrow> vfs_create p cwd s)"

definition sys_mkdir :: "u8 list option \<Rightarrow> nat \<Rightarrow> vfs \<Rightarrow> (int \<times> vfs) option" where
  "sys_mkdir path cwd s = (case path of None \<Rightarrow> Some (- EINVAL, s) | Some p \<Rightarrow> vfs_mkdir p cwd s)"

definition sys_rmdir :: "u8 list option \<Rightarrow> nat \<Rightarrow> vfs \<Rightarrow> (int \<times> vfs) option" where
  "sys_rmdir path cwd s = (case path of None \<Rightarrow> Some (- EINVAL, s) | Some p \<Rightarrow> vfs_rmdir p cwd s)"

definition sys_unlink :: "u8 list option \<Rightarrow> nat \<Rightarrow> vfs \<Rightarrow> (int \<times> vfs) option" where
  "sys_unlink path cwd s = (case path of None \<Rightarrow> Some (- EINVAL, s) | Some p \<Rightarrow> vfs_unlink p cwd s)"

definition sys_rename :: "u8 list option \<Rightarrow> u8 list option \<Rightarrow> nat \<Rightarrow> vfs \<Rightarrow> (int \<times> vfs) option" where
  "sys_rename oldpath newpath cwd s =
     (case (oldpath, newpath) of (Some p, Some q) \<Rightarrow> vfs_rename p cwd q s | _ \<Rightarrow> Some (- EINVAL, s))"

definition sys_symlink :: "u8 list option \<Rightarrow> u8 list option \<Rightarrow> nat \<Rightarrow> vfs \<Rightarrow> (int \<times> vfs) option" where
  "sys_symlink target linkpath cwd s =
     (case (target, linkpath) of (Some t, Some p) \<Rightarrow> vfs_symlink t cwd p s | _ \<Rightarrow> Some (- EINVAL, s))"

definition sys_readlink :: "u8 list option \<Rightarrow> bytes \<Rightarrow> u32 \<Rightarrow> nat \<Rightarrow> vfs \<Rightarrow> ((int \<times> bytes) \<times> vfs) option" where
  "sys_readlink path buf bufsize cwd s =
     (case path of None \<Rightarrow> Some ((- EINVAL, buf), s)
      | Some p \<Rightarrow> if bufsize = 0 then Some ((- EINVAL, buf), s) else vfs_readlink p cwd buf bufsize s)"

definition sys_mount :: "u8 list \<Rightarrow> u8 list option \<Rightarrow> u8 list option \<Rightarrow> vfs \<Rightarrow> (int \<times> vfs) option" where
  "sys_mount source target fs_nm s =
     (case (target, fs_nm) of (Some t, Some n) \<Rightarrow> vfs_mount source t n s | _ \<Rightarrow> Some (- EINVAL, s))"

definition sys_umount :: "u8 list option \<Rightarrow> nat \<Rightarrow> vfs \<Rightarrow> (int \<times> vfs) option" where
  "sys_umount target cwd s = (case target of None \<Rightarrow> Some (- EINVAL, s) | Some t \<Rightarrow> vfs_umount t cwd s)"

definition sys_open :: "u8 list option \<Rightarrow> u32 \<Rightarrow> nat \<Rightarrow> vfs \<Rightarrow> (int \<times> vfs) option" where
  "sys_open pathname flags cwd s =
     (case pathname of
        None \<Rightarrow> Some (- EINVAL, s)
      | Some p \<Rightarrow> do { (fd, s) \<leftarrow> vfs_open p cwd flags s; Some (if fd < 0 then - ENOENT else fd, s) })"

definition sys_close :: "int \<Rightarrow> vfs \<Rightarrow> (int \<times> vfs) option" where
  "sys_close fd s = (if fd < 0 \<or> fd \<le> STDERR_FILENO then Some (- EBADF, s) else vfs_close fd s)"

definition sys_lseek :: "int \<Rightarrow> int \<Rightarrow> int \<Rightarrow> vfs \<Rightarrow> (int \<times> vfs) option" where
  "sys_lseek fd off whence s = do { (_, s) \<leftarrow> vfs_seek fd off whence s; Some (- EIO, s) }"

definition sys_stat :: "int \<Rightarrow> vfs \<Rightarrow> ((int \<times> fstat_t option) \<times> vfs) option" where
  "sys_stat fd s = vfs_fstat fd s"

definition sys_read :: "int \<Rightarrow> bytes \<Rightarrow> u32 \<Rightarrow> vfs \<Rightarrow> (read_result \<times> vfs) option" where
  "sys_read fd buf count s =
     (if fd_file fd s = 0 then Some (Returned (- EBADF) buf, s)
      else do {
        (r, s) \<leftarrow> file_read (fd_file fd s) buf count s;
        Some (if r = No_read then Returned (- EINVAL) buf else r, s) })"

definition sys_write :: "int \<Rightarrow> bytes \<Rightarrow> u32 \<Rightarrow> vfs \<Rightarrow> (int \<times> vfs) option" where
  "sys_write fd buf len s =
     (if fd_file fd s = 0 then Some (- EBADF, s)
      else do {
        (r, s) \<leftarrow> file_write (fd_file fd s) buf 0 (unat len) s;
        Some (case r of None \<Rightarrow> - EINVAL | Some n \<Rightarrow> n, s) })"

definition sys_getdents :: "int \<Rightarrow> bytes \<Rightarrow> u32 \<Rightarrow> vfs \<Rightarrow> ((int \<times> bytes) \<times> vfs) option" where
  "sys_getdents fd dentry count s = (if count = 0 then Some ((- EINVAL, dentry), s) else vfs_getdents fd dentry count s)"

text \<open>\<^verbatim>\<open>sys_ioctl\<close> with the copies of the terminal settings from and to user memory as in \<^const>\<open>tty_ioctl\<close>.\<close>

definition sys_ioctl :: "(termios_t \<Rightarrow> bool) \<Rightarrow> (termios_t \<Rightarrow> termios_t \<times> bool) \<Rightarrow> int \<Rightarrow> u32 \<Rightarrow> vfs \<Rightarrow> (int \<times> vfs) option" where
  "sys_ioctl copy_to_user copy_from_user fd request s =
     (if fd_file fd s = 0 then Some (- EBADF, s)
      else do {
        f \<leftarrow> open_files s (fd_file fd s);
        v \<leftarrow> vnodes s (f_vnode f);
        if \<not> S_ISCHR (v_mode v) then Some (- ENOTTY, s)
        else (case get_device_by_handle (device_handle v) (vterm s) of
                None \<Rightarrow> Some (- EINVAL, s)
              | Some d \<Rightarrow>
                  (case dev_ops d of
                     no_ops \<Rightarrow> None
                   | kbd_ops \<Rightarrow> do {
                       (r, t) \<leftarrow> tty_ioctl copy_to_user copy_from_user (nat (device_handle v)) request (vterm s);
                       Some (r, s\<lparr>vterm := t\<rparr>) })) })"

subsection \<open>The working directory\<close>

definition MAX_PATH :: nat where
  "MAX_PATH = 2046"

text \<open>The new working directory is the second part of the result.\<close>

definition sys_chdir :: "u8 list \<Rightarrow> nat \<Rightarrow> vfs \<Rightarrow> (int \<times> nat \<times> vfs) option" where
  "sys_chdir path cwd s =
     do { (new_wd, s) \<leftarrow> vfs_lookup_path path cwd True s;
          if new_wd = 0 then Some (- ENOENT, cwd, s)
          else do {
            v \<leftarrow> vnodes s new_wd;
            if \<not> S_ISDIR (v_mode v) then do { s \<leftarrow> vfs_vnode_put new_wd s; Some (- ENOTDIR, cwd, s) }
            else do { s \<leftarrow> vfs_vnode_put cwd s; Some (0, new_wd, s) } } }"

text \<open>The search of a directory for the name of an inode.\<close>

partial_function (option) find_name :: "int \<Rightarrow> u32 \<Rightarrow> vfs \<Rightarrow> (u8 list option \<times> vfs) option" where
  "find_name parent_fd ino s =
     do { ((n, entry), s) \<leftarrow> vfs_getdents parent_fd (\<lambda>_. 0) 1 s;
          if n > 0 then
            (if get32 entry 0 = ino then Some (Some (takeWhile (\<lambda>c. c \<noteq> 0) (map entry [4..<36])), s) else find_name parent_fd ino s)
          else Some (None, s) }"

text \<open>
  The loop of \<^verbatim>\<open>sys_getcwd\<close> with the part of the path that is built so far. The results of \<^verbatim>\<open>vfs_fstat\<close>
  are used without a check: a failed call leaves an uninitialised variable.
\<close>

partial_function (option) getcwd_loop :: "nat \<Rightarrow> u8 list \<Rightarrow> vfs \<Rightarrow> ((int \<times> u8 list) \<times> vfs) option" where
  "getcwd_loop curr_vnode path s =
     do { (curr_fd, s) \<leftarrow> vfs_bind_vnode_to_fd curr_vnode 0 s;
          ((_, curr_stat), s) \<leftarrow> vfs_fstat curr_fd s;
          (parent_fd, s) \<leftarrow> vfs_open [0x2E, 0x2E] curr_vnode 0 s;
          if parent_fd < 0 then do {
            (_, s) \<leftarrow> vfs_close curr_fd s;
            s \<leftarrow> vfs_vnode_put curr_vnode s;
            Some ((parent_fd, path), s) }
          else do {
            ((_, parent_stat), s) \<leftarrow> vfs_fstat parent_fd s;
            a \<leftarrow> curr_stat;
            b \<leftarrow> parent_stat;
            if st_ino a = st_ino b then do {
              (_, s) \<leftarrow> vfs_close curr_fd s;
              (_, s) \<leftarrow> vfs_close parent_fd s;
              s \<leftarrow> vfs_vnode_put curr_vnode s;
              Some ((0, path), s) }
            else do {
              (name, s) \<leftarrow> find_name parent_fd (st_ino a) s;
              if (case name of None \<Rightarrow> False | Some nm \<Rightarrow> MAX_PATH - 1 < length path + length nm + 1) then do {
                (_, s) \<leftarrow> vfs_close curr_fd s;
                (_, s) \<leftarrow> vfs_close parent_fd s;
                s \<leftarrow> vfs_vnode_put curr_vnode s;
                Some ((- ENAMETOOLONG, path), s) }
              else do {
                f \<leftarrow> open_files s (fd_file parent_fd s);
                let parent_node = f_vnode f;
                s \<leftarrow> vfs_vnode_get_ref parent_node s;
                (_, s) \<leftarrow> vfs_close parent_fd s;
                (_, s) \<leftarrow> vfs_close curr_fd s;
                (case name of
                   None \<Rightarrow> do { s \<leftarrow> vfs_vnode_put parent_node s; Some ((- ENOENT, path), s) }
                 | Some nm \<Rightarrow> getcwd_loop parent_node (0x2F # nm @ path) s) } } } }"

text \<open>The string is copied to the buffer of the program, whatever that copy returns.\<close>

definition sys_getcwd :: "u32 \<Rightarrow> nat \<Rightarrow> vfs \<Rightarrow> ((int \<times> u8 list) \<times> vfs) option" where
  "sys_getcwd sz cwd s =
     do { s \<leftarrow> vfs_vnode_get_ref cwd s;
          ((r, path), s) \<leftarrow> getcwd_loop cwd [] s;
          let final_path = (if path = [] then [0x2F] else path);
          if r < 0 then Some ((r, []), s)
          else if length final_path + 1 > unat sz then Some ((- ERANGE, []), s)
          else Some ((0, final_path), s) }"

end
