(* ===== verification/MyfsOpen.thy ===== *)
theory MyfsOpen
  imports MyfsData
begin

text \<open>
  The life of an inode between two system calls. A file that nobody has open is only on the disk; every operation
  of the MyFS driver takes its inode into the cache with \<^verbatim>\<open>myfs_iget\<close>, works on it, and gives it back with \<^verbatim>\<open>myfs_iput\<close>,
  which writes it to the disk and evicts it. The lemmas show that this cycle loses nothing.
\<close>

subsection \<open>Stored and cached files\<close>

definition file_stored :: "myfs \<Rightarrow> MyfsInode \<Rightarrow> bool" where
  "file_stored s n \<longleftrightarrow> bitmap_is_set (inode_bitmap s) (unat (i_ino n))
     \<and> inode_pos s (i_ino n) + sizeof_inode \<le> unat (data_blocks_start (on_disk s)) * bsz s
     \<and> file_wf s n \<and> unat (block_count n) \<le> max_blocks s \<and> (\<forall>i < unat (block_count n). lba s n i \<noteq> 0)
     \<and> unat (i_size n) \<le> unat (block_count n) * bsz s"

lemma open_file_iff:
  "open_file s p n \<longleftrightarrow> p \<noteq> 0 \<and> myfs_cache_find (i_ino n) s = Some p \<and> inodes s p = Some n \<and> ref_count n \<noteq> 0 \<and> file_stored s n"
  by (auto simp: open_file_def file_stored_def)

definition not_cached :: "myfs \<Rightarrow> u32 \<Rightarrow> bool" where
  "not_cached s ino \<longleftrightarrow> (\<forall>q \<in> set (inode_hash_table s (inode_hash ino)). \<exists>m. inodes s q = Some m \<and> i_ino m \<noteq> ino)"

text \<open>A file that is only on the disk.\<close>

definition closed_file :: "myfs \<Rightarrow> MyfsInode \<Rightarrow> bool" where
  "closed_file s n \<longleftrightarrow> file_stored s n \<and> not_cached s (i_ino n) \<and> disk_inode s (i_ino n) = n"

text \<open>
  There is memory, objects that are not allocated yet are free, and freed memory does not read as the number of
  a cached inode.
\<close>

definition cache_room :: "myfs \<Rightarrow> bool" where
  "cache_room s \<longleftrightarrow> (\<forall>q > allocs s. inodes s q = None) \<and> (\<forall>k. alloc_ok s k) \<and> (\<forall>q. not_cached s (stale s q))"

lemma not_cached_find: "not_cached s ino \<Longrightarrow> myfs_cache_find ino s = Some 0"
proof -
  have "(\<forall>q \<in> set ps. \<exists>m. h q = Some m \<and> i_ino m \<noteq> ino) \<Longrightarrow> chain_find h ps ino = Some 0" for ps and h :: "nat \<Rightarrow> MyfsInode option"
    by (induction ps) auto
  then show "not_cached s ino \<Longrightarrow> myfs_cache_find ino s = Some 0" by (simp add: not_cached_def myfs_cache_find_def)
qed

lemma fs_low:
  assumes "fs_ok s" and "a \<le> unat (data_blocks_start (on_disk s)) * bsz s"
  shows "a \<le> DISK_MAX"
proof -
  have "unat (data_blocks_start (on_disk s)) * bsz s \<le> (unat (total_blocks (on_disk s)) + 8) * bsz s"
    using assms(1) by (intro mult_le_mono1) (simp add: fs_ok_def)
  then show ?thesis using assms unfolding fs_ok_def by linarith
qed

lemma stored_cong:
  "file_stored (s\<lparr>allocs := k, inodes := h, inode_hash_table := t\<rparr>) (n\<lparr>ref_count := r, dirty := d\<rparr>) = file_stored s n"
  "file_byte (s\<lparr>allocs := k, inodes := h, inode_hash_table := t\<rparr>) (n\<lparr>ref_count := r, dirty := d\<rparr>) a = file_byte s n a"
  "fs_ok (s\<lparr>allocs := k, inodes := h, inode_hash_table := t\<rparr>) = fs_ok s"
  "disk_inode (s\<lparr>allocs := k, inodes := h, inode_hash_table := t\<rparr>) ino = disk_inode s ino"
proof -
  let ?s = "s\<lparr>allocs := k, inodes := h, inode_hash_table := t\<rparr>" and ?n = "n\<lparr>ref_count := r, dirty := d\<rparr>"
  have sf: "same_fs s ?s" by (simp add: same_fs_def)
  note sfs = same_fs_simps [OF sf]
  have l: "lba ?s ?n i = lba s n i" for i by (simp add: lba_def sub_table_def ptr_def ppb_def bsz_def Let_def)
  have b: "blk ?s ?n r = blk s n r" for r
    by (cases r) (simp_all add: l sub_table_def ptr_def bsz_def)
  have "blk_ok ?s b = blk_ok s b" for b by (simp add: blk_ok_def used_def bsz_def)
  then have "file_wf ?s ?n = file_wf s n" by (simp add: file_wf_def b sfs)
  then show "file_stored ?s ?n = file_stored s n" by (simp add: file_stored_def l sfs inode_pos_def)
  show "file_byte ?s ?n a = file_byte s n a" by (simp add: file_byte_def l sfs)
  show "fs_ok ?s = fs_ok s" by (rule sfs)
  show "disk_inode ?s ino = disk_inode s ino" by (simp add: disk_inode_def inode_pos_def bsz_def)
qed

subsection \<open>The cycle\<close>

text \<open>The state with inode \<open>k\<close> in the cache for the file \<open>n\<close>, and the state after it is evicted.\<close>

definition holding :: "myfs \<Rightarrow> u32 \<Rightarrow> bytes \<Rightarrow> bytes \<Rightarrow> MyfsInode \<Rightarrow> myfs" where
  "holding s ino d b k = s\<lparr>disk := d, block_bitmap := b, allocs := Suc (Suc (allocs s)), inodes := (inodes s)(Suc (allocs s) := Some k),
     inode_hash_table := (inode_hash_table s)(inode_hash ino := (Suc (allocs s)) # inode_hash_table s (inode_hash ino))\<rparr>"

definition evicted :: "myfs \<Rightarrow> bytes \<Rightarrow> bytes \<Rightarrow> myfs" where
  "evicted s d b = s\<lparr>disk := d, block_bitmap := b, allocs := Suc (Suc (allocs s))\<rparr>"

lemma holding_simps:
  assumes "cache_room s"
  shows "file_stored (holding s ino d b k) (n\<lparr>ref_count := r, dirty := y\<rparr>) = file_stored (evicted s d b) n"
    "file_byte (holding s ino d b k) (n\<lparr>ref_count := r, dirty := y\<rparr>) a = file_byte (evicted s d b) n a"
    "fs_ok (holding s ino d b k) = fs_ok (evicted s d b)"
    "disk_inode (holding s ino d b k) j = disk_inode (evicted s d b) j"
    "i_ino k = ino \<Longrightarrow> myfs_cache_find ino (holding s ino d b k) = Some (Suc (allocs s))"
    "i_ino k = ino \<Longrightarrow> myfs_inode_cache_remove ino (holding s ino d b k) = Some (evicted s d b)"
    "not_cached (evicted s d b) j = not_cached s j" "cache_room (evicted s d b)"
proof -
  have h: "holding s ino d b k = (evicted s d b)\<lparr>allocs := Suc (Suc (allocs s)), inodes := (inodes s)(Suc (allocs s) := Some k),
     inode_hash_table := (inode_hash_table s)(inode_hash ino := (Suc (allocs s)) # inode_hash_table s (inode_hash ino))\<rparr>"
    by (simp add: holding_def evicted_def)
  show "file_stored (holding s ino d b k) (n\<lparr>ref_count := r, dirty := y\<rparr>) = file_stored (evicted s d b) n"
    "file_byte (holding s ino d b k) (n\<lparr>ref_count := r, dirty := y\<rparr>) a = file_byte (evicted s d b) n a"
    "fs_ok (holding s ino d b k) = fs_ok (evicted s d b)"
    "disk_inode (holding s ino d b k) j = disk_inode (evicted s d b) j"
    unfolding h by (rule stored_cong)+
  show f: "i_ino k = ino \<Longrightarrow> myfs_cache_find ino (holding s ino d b k) = Some (Suc (allocs s))"
    by (simp add: myfs_cache_find_def holding_def)
  have "inodes s (Suc (allocs s)) = None" using assms by (simp add: cache_room_def)
  then have "(inodes s)(Suc (allocs s) := None) = inodes s" by (simp add: fun_upd_idem)
  then show "i_ino k = ino \<Longrightarrow> myfs_inode_cache_remove ino (holding s ino d b k) = Some (evicted s d b)"
    using f by (simp add: myfs_inode_cache_remove_def free_inode_def holding_def evicted_def Let_def)
  show n: "not_cached (evicted s d b) j = not_cached s j" for j by (simp add: not_cached_def evicted_def)
  have "stale (evicted s d b) = stale s" by (simp add: evicted_def)
  then show "cache_room (evicted s d b)" using assms n by (auto simp: cache_room_def) (simp_all add: evicted_def)
qed

lemma iget_cold:
  assumes ok: "fs_ok s" and cl: "closed_file s n" and r: "cache_room s"
  shows "myfs_iget (i_ino n) s = Some (Suc (allocs s), holding s (i_ino n) (disk s) (block_bitmap s) (n\<lparr>ref_count := 1, dirty := 1\<rparr>))"
proof -
  have st: "bitmap_is_set (inode_bitmap s) (unat (i_ino n))" "inode_pos s (i_ino n) + sizeof_inode \<le> DISK_MAX"
    "disk_inode s (i_ino n) = n" "myfs_cache_find (i_ino n) s = Some 0"
    using cl fs_low [OF ok] not_cached_find by (auto simp: closed_file_def file_stored_def)
  have "disk_inode (s\<lparr>allocs := Suc (allocs s)\<rparr>) (i_ino n) = n" using st(3) by (simp add: disk_inode_def inode_pos_def bsz_def)
  then show ?thesis
    using st r fs_ok_facts(1) [OF ok]
    by (simp add: myfs_iget_def myfs_disk_inode_read_eq fs_alloc_def cache_room_def myfs_inode_cache_add_def set_inode_def holding_def Let_def)
qed

lemma kept_holding:
  assumes "kept (Suc (allocs s)) (holding s ino d b k) k t m"
  shows "t = holding s ino (disk t) (block_bitmap t) m" "i_ino m = i_ino k" "ref_count m = ref_count k"
  using assms by (cases s; cases t; simp add: kept_def holding_def)+

text \<open>Giving back the last reference to a clean inode and to a dirty one.\<close>

lemma iput_clean_last:
  assumes r: "cache_room s" and k: "i_ino k = ino" "ref_count k = 1" "dirty k = 0"
  shows "myfs_iput (Suc (allocs s)) (holding s ino d b k) = Some (evicted s d b)"
proof -
  let ?p = "Suc (allocs s)" and ?k = "k\<lparr>ref_count := 0\<rparr>"
  have s: "set_inode ?p ?k (holding s ino d b k) = holding s ino d b ?k" "inodes (holding s ino d b k) ?p = Some k" for k
    by (simp_all add: set_inode_def holding_def)
  have "inodes (holding s ino d b ?k) ?p = Some ?k" by (simp add: holding_def)
  then show ?thesis
    using k holding_simps(6) [OF r, of ?k ino d b] by (simp add: myfs_iput_def s Let_def)
qed

lemma disk_write_last:
  assumes ok: "fs_ok (evicted s d b)" and r: "cache_room s" and k: "i_ino k = ino" "ref_count k = 1" "dirty k \<noteq> 0"
    and st: "file_stored (evicted s d b) k" and get: "myfs_iget ino u = Some (Suc (allocs s), holding s ino d b k)"
  shows "myfs_disk_inode_write ino u = Some (0, evicted s (mem_copy d (inode_pos s ino) (inode_encode k) 0 sizeof_inode) b)"
proof -
  let ?p = "Suc (allocs s)" and ?h = "holding s ino" and ?d = "mem_copy d (inode_pos s ino) (inode_encode k) 0 sizeof_inode"
  let ?k1 = "k\<lparr>dirty := 0, ref_count := 0\<rparr>"
  have s: "set_inode ?p m (?h d b k) = ?h d b m" "inodes (?h d b k) ?p = Some k" for m k d
    by (simp_all add: set_inode_def holding_def)
  have pos: "inode_pos (?h d b k) j = inode_pos s j" "disk (?h d b k) = d" for d k j by (simp_all add: holding_def inode_pos_def bsz_def)
  have g: "geo (?h d b k)" "inode_pos (?h d b k) (i_ino k) + sizeof_inode \<le> DISK_MAX"
    using fs_ok_facts(1) [of "?h d b k"] holding_simps(3) [OF r] ok st fs_low [OF ok]
    by (simp_all add: file_stored_def pos) (simp add: inode_pos_def evicted_def bsz_def)
  have w: "disk_rw_spanning (inode_block (?h d b k) ino) (inode_offset (?h d b k) ino) (inode_encode k) 0 (of_nat sizeof_inode) True (?h d b k)
      = Some (inode_encode k, ?h ?d b k)"
    using write_inode [OF g] k(1) by (simp add: pos) (simp add: holding_def)
  have put: "iput_clean ?p (?h ?d b (k\<lparr>dirty := 0\<rparr>)) = Some (evicted s ?d b)"
    using holding_simps(6) [OF r, of ?k1 ino ?d b] k by (simp add: iput_clean_def s Let_def)
  show ?thesis using get put w k by (simp add: myfs_disk_inode_write_def s)
qed

lemma iput_dirty_last:
  assumes ok: "fs_ok (evicted s d b)" and r: "cache_room s" and k: "i_ino k = ino" "ref_count k = 1" "dirty k \<noteq> 0"
    and st: "file_stored (evicted s d b) k"
  shows "myfs_iput (Suc (allocs s)) (holding s ino d b k)
    = Some (evicted s (mem_copy d (inode_pos s ino) (inode_encode k) 0 sizeof_inode) b)"
proof -
  let ?p = "Suc (allocs s)" and ?h = "holding s ino" and ?d = "mem_copy d (inode_pos s ino) (inode_encode k) 0 sizeof_inode"
  let ?k0 = "k\<lparr>ref_count := 0\<rparr>"
  have s: "set_inode ?p m (?h d b k) = ?h d b m" "inodes (?h d b k) ?p = Some k" "inode_bitmap (?h d b k) = inode_bitmap s" for m k d
    by (simp_all add: set_inode_def holding_def)
  have bm: "bitmap_is_set (inode_bitmap s) (unat ino)" using st k(1) by (simp add: file_stored_def evicted_def)
  have kk: "k\<lparr>ref_count := 1\<rparr> = k" using k(2) by (cases k) simp
  have get: "myfs_iget ino (?h d b ?k0) = Some (?p, ?h d b k)"
    using holding_simps(5) [OF r, of ?k0 ino d b] k bm by (simp add: myfs_iget_def s kk)
  note dw = disk_write_last [OF ok r k st get]
  have "inodes (evicted s ?d b) ?p = None" "stale (evicted s ?d b) = stale s" using r by (simp_all add: evicted_def cache_room_def)
  moreover have "myfs_inode_cache_remove (stale s ?p) (evicted s ?d b) = Some (evicted s ?d b)"
    using r holding_simps(7) [OF r] not_cached_find [of "evicted s ?d b" "stale s ?p"] by (simp add: myfs_inode_cache_remove_def cache_room_def)
  ultimately show ?thesis using dw k by (simp add: myfs_iput_def s Let_def)
qed

text \<open>The file on the disk after the eviction, in both cases.\<close>

lemma closed_clean:
  assumes r: "cache_room s" and nc: "not_cached s ino" and k: "i_ino k = ino" and op: "file_stored (holding s ino d b k) k"
    and di: "disk_inode (holding s ino d b k) ino = k\<lparr>ref_count := x, dirty := y\<rparr>"
  defines "n' \<equiv> k\<lparr>ref_count := x, dirty := y\<rparr>"
  shows "closed_file (evicted s d b) n'" "file_byte (evicted s d b) n' a = file_byte (holding s ino d b k) k a"
proof -
  have kn: "k = n'\<lparr>ref_count := ref_count k, dirty := dirty k\<rparr>" by (simp add: n'_def)
  have i: "i_ino n' = ino" using k by (simp add: n'_def)
  have st: "file_stored (evicted s d b) n'" using op kn holding_simps(1) [OF r] by metis
  show "file_byte (evicted s d b) n' a = file_byte (holding s ino d b k) k a" using kn holding_simps(2) [OF r] by metis
  show "closed_file (evicted s d b) n'"
    using st nc di i holding_simps(4,7) [OF r] by (simp add: closed_file_def n'_def)
qed

lemma closed_dirty:
  assumes ok: "fs_ok (evicted s d b)" and r: "cache_room s" and nc: "not_cached s ino" and k: "i_ino k = ino"
    and st: "file_stored (evicted s d b) k"
  defines "d' \<equiv> mem_copy d (inode_pos s ino) (inode_encode k) 0 sizeof_inode"
  shows "closed_file (evicted s d' b) k" "fs_ok (evicted s d' b)"
    "\<And>a. a < unat (block_count k) * bsz s \<Longrightarrow> file_byte (evicted s d' b) k a = file_byte (evicted s d b) k a"
proof -
  let ?s = "evicted s d b" and ?t = "evicted s d' b"
  have e: "inode_pos ?s j = inode_pos s j" "inode_pos ?t j = inode_pos s j" "disk ?s = d" "disk ?t = d'" "bsz ?s = bsz s" for j
    by (simp_all add: evicted_def inode_pos_def bsz_def)
  have sf: "same_fs ?s ?t" by (simp add: same_fs_def evicted_def)
  note sfs = same_fs_simps [OF sf]
  show "fs_ok ?t" using ok sfs by simp
  have f: "file_wf ?s k" "unat (block_count k) \<le> max_blocks ?s" "\<forall>i < unat (block_count k). lba ?s k i \<noteq> 0"
    and low: "inode_pos s ino + sizeof_inode \<le> unat (data_blocks_start (on_disk ?s)) * bsz ?s"
    using st k by (simp_all add: file_stored_def e)
  have d: "disk ?t a = disk ?s a" if "unat (data_blocks_start (on_disk ?s)) * bsz ?s \<le> a" for a
    using that low unfolding e by (simp add: d'_def mem_copy_def)
  have us: "used ?t b = used ?s b" for b by (simp add: used_def evicted_def)
  note same = file_same [OF ok f(1) sf us refl refl refl d]
  have "lba ?t k i \<noteq> 0" if "i < unat (block_count k)" for i
    using same(1) [of "Data i"] f(2,3) that by simp
  then have "file_stored ?t k"
    using st same(2) by (simp add: file_stored_def sfs e) (simp add: evicted_def)
  moreover have "disk_inode ?t ino = k"
  proof -
    have "length (block_ptrs k) = MYFS_DIRECT_BLOCKS_MAX" using f(1) by (simp add: file_wf_def MYFS_DIRECT_BLOCKS_MAX_def)
    then show ?thesis using disk_inode_written [of k ?t ?s ino] k unfolding e by (simp add: d'_def)
  qed
  ultimately show "closed_file ?t k" using nc k holding_simps(7) [OF r] by (simp add: closed_file_def)
  show "file_byte ?t k a = file_byte ?s k a" if "a < unat (block_count k) * bsz s" for a
  proof -
    have "a div bsz s < unat (block_count k)" by (rule less_mult_imp_div_less [OF that])
    then show ?thesis using same(3) [of a] f(2) by (simp add: e)
  qed
qed

lemma open_cold:
  assumes ok: "fs_ok s" and cl: "closed_file s n" and r: "cache_room s"
  defines "k \<equiv> n\<lparr>ref_count := 1, dirty := 1\<rparr>" and "h \<equiv> holding s (i_ino n) (disk s) (block_bitmap s) (n\<lparr>ref_count := 1, dirty := 1\<rparr>)"
  shows "open_file h (Suc (allocs s)) k" "fs_ok h" "file_byte h k a = file_byte s n a" "bsz h = bsz s"
    "file_stored (evicted s (disk s) (block_bitmap s)) k" "fs_ok (evicted s (disk s) (block_bitmap s))"
    "file_byte (evicted s (disk s) (block_bitmap s)) k a = file_byte s n a"
proof -
  have e: "evicted s (disk s) (block_bitmap s) = s\<lparr>allocs := Suc (Suc (allocs s)), inodes := inodes s, inode_hash_table := inode_hash_table s\<rparr>"
    by (simp add: evicted_def)
  note ev = stored_cong [where s = s and k = "Suc (Suc (allocs s))" and h = "inodes s" and t = "inode_hash_table s", folded e]
  show st: "file_stored (evicted s (disk s) (block_bitmap s)) k" "fs_ok (evicted s (disk s) (block_bitmap s))"
    "file_byte (evicted s (disk s) (block_bitmap s)) k a = file_byte s n a"
    using cl ok ev by (simp_all add: closed_file_def k_def)
  note hs = holding_simps(1,2,3,5) [OF r, where ino = "i_ino n" and d = "disk s" and b = "block_bitmap s" and k = "n\<lparr>ref_count := 1, dirty := 1\<rparr>", folded h_def]
  have kk: "k = k\<lparr>ref_count := 1, dirty := 1\<rparr>" by (simp add: k_def)
  have "file_stored h k" using hs(1) [where n = k and r = 1 and y = 1] st(1) kk by simp
  then show "open_file h (Suc (allocs s)) k" using hs(4) by (simp add: open_file_iff k_def) (simp add: h_def holding_def)
  show "fs_ok h" using hs(3) st(2) by simp
  show "file_byte h k a = file_byte s n a" using hs(2) [where n = k and r = 1 and y = 1 and a = a] st(3) kk by simp
  show "bsz h = bsz s" by (simp add: h_def holding_def bsz_def)
qed

text \<open>
  Writing to a closed file and reading from it: taken from the disk, worked on, and stored again. The file \<open>n'\<close> is
  the one on the disk afterwards.
\<close>

lemma write_cycle:
  assumes ok: "fs_ok s" and cl: "closed_file s n" and r: "cache_room s"
    and c: "count \<noteq> 0" "unat pos + unat count + bsz s \<le> 2 ^ 32"
  obtains p h v t m s' n' where "myfs_iget (i_ino n) s = Some (p, h)" "p \<noteq> 0" "myfs_node_write p pos buf count h = Some (v, t)"
    "inodes t p = Some m" "myfs_iput p t = Some s'" "fs_ok s'" "closed_file s' n'" "cache_room s'" "i_ino n' = i_ino n" "i_size n' = i_size m"
    "s' = evicted s (disk s') (block_bitmap s')"
    "\<And>a. a < unat (block_count n) * bsz s \<Longrightarrow> \<not> (v \<noteq> - 1 \<and> unat pos \<le> a \<and> a < unat pos + unat count) \<Longrightarrow>
       file_byte s' n' a = file_byte s n a"
    "if v = - 1 then unat (block_count n) * bsz s < unat pos + unat count \<and> i_size n' = i_size n
     else v = int (unat count) \<and> i_size n' = max (i_size n) (pos + count)
       \<and> (\<forall>a. unat pos \<le> a \<and> a < unat pos + unat count \<longrightarrow> file_byte s' n' a = buf (a - unat pos))"
proof -
  let ?k = "n\<lparr>ref_count := 1, dirty := 1\<rparr>" and ?p = "Suc (allocs s)" and ?i = "i_ino n"
  let ?h = "holding s ?i (disk s) (block_bitmap s) ?k"
  note oc = open_cold [OF ok cl r]
  have nc: "not_cached s ?i" using cl by (simp add: closed_file_def)
  obtain v t m where w: "myfs_node_write ?p pos buf count ?h = Some (v, t)" "fs_ok t" "open_file t ?p m"
    and by1: "\<forall>a. a < unat (block_count ?k) * bsz ?h \<and> \<not> (v \<noteq> - 1 \<and> unat pos \<le> a \<and> a < unat pos + unat count) \<longrightarrow>
       file_byte t m a = file_byte ?h ?k a"
    and by2: "if v = - 1 then unat (block_count ?k) * bsz ?h < unat pos + unat count \<and> i_size m = i_size ?k
       else v = int (unat count) \<and> i_size m = max (i_size ?k) (pos + count)
         \<and> (\<forall>a. unat pos \<le> a \<and> a < unat pos + unat count \<longrightarrow> file_byte t m a = buf (a - unat pos))"
    and kp: "kept ?p ?h ?k t m" and bc: "block_count ?k \<le> block_count m"
    and dt: "if v = - 1 then dirty m = dirty ?k
       else dirty m = 0 \<and> disk_inode t (i_ino m) = m\<lparr>ref_count := ref_count m + 1, dirty := 1\<rparr>"
    using write_spec [OF oc(2,1) c(1), of pos buf] c(2) unfolding oc(4) by blast
  have "kept ?p (holding s ?i (disk s) (block_bitmap s) ?k) ?k t m" using kp .
  note kh = kept_holding [OF this]
  have m: "i_ino m = ?i" "ref_count m = 1" "inodes t ?p = Some m" "file_stored t m"
    using kh(2,3) w(3) by (simp_all add: open_file_iff)
  define d b where "d = disk t" and "b = block_bitmap t"
  have t: "t = holding s ?i d b m" using kh(1) by (simp add: d_def b_def)
  have mm: "m = m\<lparr>ref_count := ref_count m, dirty := dirty m\<rparr>" by simp
  have oke: "fs_ok (evicted s d b)" using w(2) holding_simps(3) [OF r] by (simp add: t)
  have ste: "file_stored (evicted s d b) m" and bye: "\<And>a. file_byte (evicted s d b) m a = file_byte t m a"
    using m(4) holding_simps(1,2) [OF r] mm unfolding t by metis+
  have ev: "evicted s d b = evicted s (disk (evicted s d b)) (block_bitmap (evicted s d b))" for d b by (simp add: evicted_def)
  note get = iget_cold [OF ok cl r]
  show thesis
  proof (cases "v = - 1")
    case True
    let ?d = "mem_copy d (inode_pos s ?i) (inode_encode m) 0 sizeof_inode"
    have "dirty m \<noteq> 0" using dt True by simp
    note put = iput_dirty_last [OF oke r m(1,2) this ste, folded t] and cd = closed_dirty [OF oke r nc m(1) ste]
    have bl: "a < unat (block_count m) * bsz s" if "a < unat (block_count n) * bsz s" for a
    proof -
      have "unat (block_count n) * bsz s \<le> unat (block_count m) * bsz s"
        using bc by (intro mult_le_mono1) (simp add: word_le_nat_alt)
      then show ?thesis using that by linarith
    qed
    show thesis
      by (rule that [OF get _ w(1) m(3) put cd(2,1) holding_simps(8) [OF r] m(1) refl ev])
        (use True by1 by2 oc(3,4) cd(3) bl bye in \<open>simp_all\<close>)
  next
    case False
    let ?n = "m\<lparr>ref_count := 2, dirty := 1\<rparr>"
    have di: "disk_inode (holding s ?i d b m) ?i = ?n" and dm: "dirty m = 0" using dt False m(1,2) by (simp_all add: t)
    note put = iput_clean_last [OF r m(1,2) dm, of d b, folded t] and cc = closed_clean [OF r nc m(1) m(4) [unfolded t] di]
    show thesis
      by (rule that [OF get _ w(1) m(3) put oke cc(1) holding_simps(8) [OF r] _ _ ev])
        (use False by1 by2 oc(3,4) cc(2) m(1) in \<open>simp_all add: t\<close>)
  qed
qed

lemma touch_cycle:
  assumes ok: "fs_ok s" and cl: "closed_file s n" and r: "cache_room s"
  defines "h \<equiv> holding s (i_ino n) (disk s) (block_bitmap s) (n\<lparr>ref_count := 1, dirty := 1\<rparr>)"
  obtains s' n' where "myfs_iget (i_ino n) s = Some (Suc (allocs s), h)" "myfs_iput (Suc (allocs s)) h = Some s'"
    "myfs_disk_inode_write (i_ino n) s = Some (0, s')"
    "fs_ok s'" "closed_file s' n'" "cache_room s'" "i_ino n' = i_ino n" "i_size n' = i_size n"
    "\<And>a. a < unat (i_size n) \<Longrightarrow> file_byte s' n' a = file_byte s n a"
proof -
  let ?k = "n\<lparr>ref_count := 1, dirty := 1\<rparr>"
  note oc = open_cold [OF ok cl r] and get = iget_cold [OF ok cl r, folded h_def]
  have nc: "not_cached s (i_ino n)" and sz: "unat (i_size n) \<le> unat (block_count n) * bsz s"
    using cl by (simp_all add: closed_file_def file_stored_def)
  have k: "i_ino ?k = i_ino n" "ref_count ?k = 1" "dirty ?k \<noteq> 0" by simp_all
  note put = iput_dirty_last [OF oc(6) r k oc(5), folded h_def] and cd = closed_dirty [OF oc(6) r nc k(1) oc(5)]
    and dw = disk_write_last [OF oc(6) r k oc(5) get [unfolded h_def]]
  show thesis
    by (rule that [OF get put dw cd(2,1) holding_simps(8) [OF r] k(1)]) (use cd(3) oc(7) sz in \<open>simp_all\<close>)
qed

lemma read_cycle:
  assumes ok: "fs_ok s" and cl: "closed_file s n" and r: "cache_room s"
    and c: "count \<noteq> 0" "unat pos + unat count \<le> unat (i_size n)"
  obtains p h s' n' where "myfs_iget (i_ino n) s = Some (p, h)" "p \<noteq> 0"
    "\<And>out. myfs_node_read p pos out count h = Some (int (unat count), mem_copy out 0 (file_byte s n) (unat pos) (unat count))"
    "myfs_iput p h = Some s'" "fs_ok s'" "closed_file s' n'" "cache_room s'" "i_ino n' = i_ino n" "i_size n' = i_size n"
    "\<And>a. a < unat (i_size n) \<Longrightarrow> file_byte s' n' a = file_byte s n a"
proof -
  let ?k = "n\<lparr>ref_count := 1, dirty := 1\<rparr>" and ?p = "Suc (allocs s)"
  let ?h = "holding s (i_ino n) (disk s) (block_bitmap s) ?k"
  note oc = open_cold [OF ok cl r]
  have "file_byte ?h ?k = file_byte s n" using oc(3) by (simp add: fun_eq_iff)
  then have rd: "myfs_node_read ?p pos out count ?h = Some (int (unat count), mem_copy out 0 (file_byte s n) (unat pos) (unat count))" for out
    using read_open [OF oc(2,1) c(1), of pos out] c(2) by simp
  show thesis by (rule touch_cycle [OF ok cl r]) (rule that [OF _ _ rd], assumption, simp, assumption+)
qed

end
