(* ===== verification/VfsProps.thy ===== *)
theory VfsProps
  imports VfsFile MyfsOpen
begin

unbundle bit_operations_syntax

text \<open>
  Properties of the virtual file system: data written through a descriptor is read back through descriptors, the
  choice of the mount point, the walk along a path, and the descriptor table.
\<close>

subsection \<open>Data through descriptors\<close>

text \<open>A descriptor on the MyFS file \<open>ino\<close> of a superblock, and a mounted MyFS that agrees with its disk.\<close>

definition myfs_fd :: "vfs \<Rightarrow> int \<Rightarrow> int \<Rightarrow> nat \<Rightarrow> u32 \<Rightarrow> bool" where
  "myfs_fd s fd pos sb ino \<longleftrightarrow> fd_file fd s \<noteq> 0 \<and>
     (\<exists>f v. open_files s (fd_file fd s) = Some f \<and> f_ops f = myfs_f_ops \<and> f_pos f = pos
        \<and> vnodes s (f_vnode f) = Some v \<and> super_block v = sb \<and> v_ino v = ino)"

definition mounted_fs :: "vfs \<Rightarrow> nat \<Rightarrow> myfs \<Rightarrow> bool" where
  "mounted_fs s sb fs \<longleftrightarrow> (\<exists>b. super_blocks s sb = Some b \<and> fs_private b = Some fs \<and> sb_disk b s = Some (disk fs))"

definition same_files :: "vfs \<Rightarrow> vfs \<Rightarrow> bool" where
  "same_files s s' \<longleftrightarrow> open_files s' = open_files s \<and> vnodes s' = vnodes s \<and> g_fd_table s' = g_fd_table s"

lemma with_fs_run:
  assumes "mounted_fs s sb fs" and "f fs = Some (r, fs')"
  obtains s' where "with_fs sb f s = Some (r, s')" "mounted_fs s' sb fs'" "same_files s s'"
    "\<And>b. super_blocks s sb = Some b \<Longrightarrow> super_blocks s' sb = Some (b\<lparr>fs_private := Some fs'\<rparr>)"
proof -
  obtain b where b: "super_blocks s sb = Some b" "fs_private b = Some fs" "sb_disk b s = Some (disk fs)"
    using assms(1) by (auto simp: mounted_fs_def)
  have d: "fs\<lparr>disk := disk fs\<rparr> = fs" and l: "sb_dev b < length (blkdevs s)"
    using b(3) by (auto simp: sb_disk_def split: if_splits)
  let ?s = "set_disk (sb_dev b) (disk fs') (s\<lparr>super_blocks := (super_blocks s)(sb \<mapsto> b\<lparr>fs_private := Some fs'\<rparr>)\<rparr>)"
  have "with_fs sb f s = Some (r, ?s)" using b d assms(2) by (simp add: with_fs_def)
  moreover have "mounted_fs ?s sb fs'" using l by (simp add: mounted_fs_def set_disk_def sb_disk_def)
  moreover have "same_files s ?s" by (simp add: same_files_def set_disk_def)
  moreover have "super_blocks ?s sb = Some (c\<lparr>fs_private := Some fs'\<rparr>)" if "super_blocks s sb = Some c" for c
    using that b(1) by (simp add: set_disk_def)
  ultimately show thesis by (rule that)
qed

lemma fd_same: "same_files s s' \<Longrightarrow> myfs_fd s' fd pos sb ino = myfs_fd s fd pos sb ino"
  by (simp add: same_files_def myfs_fd_def fd_file_def)

lemma mounted_upd: "mounted_fs (set_file p f s) sb fs = mounted_fs s sb fs" "mounted_fs (set_vnode q v s) sb fs = mounted_fs s sb fs"
  "mounted_fs (s\<lparr>vallocs := k\<rparr>) sb fs = mounted_fs s sb fs" "mounted_fs (s\<lparr>g_fd_table := g\<rparr>) sb fs = mounted_fs s sb fs"
  by (simp_all add: mounted_fs_def sb_disk_def set_file_def set_vnode_def)

lemma fd_file_upd [simp]: "fd_file fd (set_file p f s) = fd_file fd s" "fd_file fd (set_vnode q v s) = fd_file fd s"
  by (simp_all add: fd_file_def set_file_def set_vnode_def)

lemma fd_moved:
  assumes "myfs_fd s fd pos sb ino" and "open_files s (fd_file fd s) = Some f"
  shows "myfs_fd (set_file (fd_file fd s) (f\<lparr>f_pos := pos'\<rparr>) s) fd pos' sb ino"
    "myfs_fd s fd' p sb' ino' \<Longrightarrow> fd_file fd' s \<noteq> fd_file fd s \<Longrightarrow> myfs_fd (set_file (fd_file fd s) (f\<lparr>f_pos := pos'\<rparr>) s) fd' p sb' ino'"
  using assms by (auto simp: myfs_fd_def set_file_def fd_file_def)

lemma fd_resized:
  assumes "vnodes s q = Some v"
  shows "myfs_fd (set_vnode q (v\<lparr>v_size := z\<rparr>) s) fd pos sb ino = myfs_fd s fd pos sb ino"
  using assms by (auto simp: myfs_fd_def set_vnode_def fd_file_def)

text \<open>A file that MyFS has stored on its disk.\<close>

definition on_myfs :: "vfs \<Rightarrow> nat \<Rightarrow> myfs \<Rightarrow> MyfsInode \<Rightarrow> bool" where
  "on_myfs s sb fs n \<longleftrightarrow> mounted_fs s sb fs \<and> fs_ok fs \<and> closed_file fs n \<and> cache_room fs"

lemma pos_word:
  assumes "0 \<le> pos" and "nat pos + k \<le> 2 ^ 32" and "0 < k"
  shows "unat (word_of_int pos :: u32) = nat pos"
proof -
  have "nat pos < 2 ^ 32" using assms(2,3) by linarith
  then have "pos < 2 ^ 32" using assms(1) by (simp add: nat_less_iff)
  then show ?thesis using assms(1) by (simp add: unsigned_of_int take_bit_int_eq_self)
qed

lemma write_fd:
  assumes fd: "myfs_fd s fd pos sb (i_ino n)" and m: "on_myfs s sb fs n"
    and c: "0 \<le> pos" "count \<noteq> 0" "nat pos + unat count + bsz fs \<le> 2 ^ 32"
  obtains r s' fs' n' where "sys_write fd buf count s = Some (r, s')" "on_myfs s' sb fs' n'" "i_ino n' = i_ino n"
    "myfs_fd s' fd (if r = - 1 then pos else pos + r) sb (i_ino n)"
    "\<And>fd' p sb' ino'. myfs_fd s fd' p sb' ino' \<Longrightarrow> fd_file fd' s \<noteq> fd_file fd s \<Longrightarrow> myfs_fd s' fd' p sb' ino'"
    "\<And>a. a < unat (block_count n) * bsz fs \<Longrightarrow> \<not> (r \<noteq> - 1 \<and> nat pos \<le> a \<and> a < nat pos + unat count) \<Longrightarrow>
       file_byte fs' n' a = file_byte fs n a"
    "if r = - 1 then unat (block_count n) * bsz fs < nat pos + unat count \<and> i_size n' = i_size n
     else r = int (unat count) \<and> i_size n' = max (i_size n) (word_of_int pos + count)
       \<and> (\<forall>a. nat pos \<le> a \<and> a < nat pos + unat count \<longrightarrow> file_byte fs' n' a = buf (a - nat pos))
       \<and> (\<exists>f v. open_files s' (fd_file fd s') = Some f \<and> vnodes s' (f_vnode f) = Some v \<and> v_size v = i_size n')"
proof -
  obtain f v where f: "fd_file fd s \<noteq> 0" "open_files s (fd_file fd s) = Some f" "f_ops f = myfs_f_ops" "f_pos f = pos"
    "vnodes s (f_vnode f) = Some v" "super_block v = sb" "v_ino v = i_ino n"
    using fd by (auto simp: myfs_fd_def)
  have mf: "mounted_fs s sb fs" "fs_ok fs" "closed_file fs n" "cache_room fs" using m by (simp_all add: on_myfs_def)
  let ?pos = "word_of_int pos :: u32"
  have up: "unat ?pos = nat pos" using c fs_ok_facts(2) [OF mf(2)] by (intro pos_word [where k = "unat count + bsz fs"]) auto
  have b: "unat ?pos + unat count + bsz fs \<le> 2 ^ 32" using c(3) up by simp
  obtain p h r t q fs' n' where w: "myfs_iget (i_ino n) fs = Some (p, h)" "p \<noteq> 0" "myfs_node_write p ?pos buf count h = Some (r, t)"
    "inodes t p = Some q" "myfs_iput p t = Some fs'" "fs_ok fs'" "closed_file fs' n'" "cache_room fs'" "i_ino n' = i_ino n" "i_size n' = i_size q"
    and ba: "\<And>a. a < unat (block_count n) * bsz fs \<Longrightarrow> \<not> (r \<noteq> - 1 \<and> unat ?pos \<le> a \<and> a < unat ?pos + unat count) \<Longrightarrow>
       file_byte fs' n' a = file_byte fs n a"
    and bb: "if r = - 1 then unat (block_count n) * bsz fs < unat ?pos + unat count \<and> i_size n' = i_size n
     else r = int (unat count) \<and> i_size n' = max (i_size n) (?pos + count)
       \<and> (\<forall>a. unat ?pos \<le> a \<and> a < unat ?pos + unat count \<longrightarrow> file_byte fs' n' a = buf (a - unat ?pos))"
    by (rule write_cycle [OF mf(2-4) c(2) b, of buf]) blast
  have "node_write (i_ino n) ?pos buf count fs = Some ((r, i_size q), fs')" using w by (simp add: node_write_def)
  then obtain t where t: "with_fs sb (node_write (i_ino n) ?pos buf count) s = Some ((r, i_size q), t)" "mounted_fs t sb fs'" "same_files s t"
    by (rule with_fs_run [OF mf(1)])
  have ts: "open_files t = open_files s" "vnodes t = vnodes s" "fd_file x t = fd_file x s" for x
    using t(3) by (simp_all add: same_files_def fd_file_def)
  let ?f = "set_file (fd_file fd s) (f\<lparr>f_pos := pos + r\<rparr>) t"
  define s' where "s' = (if r > 0 then set_vnode (f_vnode f) (v\<lparr>v_size := i_size q\<rparr>) ?f else t)"
  have run: "sys_write fd buf count s = Some (r, s')"
    using f t(1) by (simp add: sys_write_def file_write.simps myfsd_f_write_def s'_def)
  have "0 < unat count" using c(2) by (simp add: unat_gt_0)
  then have "0 < int (unat count)" by (rule iffD2 [OF of_nat_0_less_iff])
  then have r: "r > 0 \<longleftrightarrow> r \<noteq> - 1" using bb by (cases "r = - 1") (simp, presburger)
  have vf: "vnodes ?f (f_vnode f) = Some v" using f(5) by (simp add: set_file_def ts)
  note mv = fd_moved [OF iffD2 [OF fd_same [OF t(3)] fd], where f = f and pos' = "pos + r", unfolded ts, OF f(2)] and rs = fd_resized [OF vf, of "i_size q"]
  have on: "on_myfs s' sb fs' n'" using w t(2) by (simp add: on_myfs_def s'_def mounted_upd)
  have fd1: "myfs_fd s' fd (if r = - 1 then pos else pos + r) sb (i_ino n)"
    using mv(1) rs fd fd_same [OF t(3)] r by (simp add: s'_def)
  have fd2: "myfs_fd s' fd' p sb' ino'" if "myfs_fd s fd' p sb' ino'" "fd_file fd' s \<noteq> fd_file fd s" for fd' p sb' ino'
    using mv(2) rs that fd_same [OF t(3)] by (simp add: s'_def)
  have sz: "\<exists>f v. open_files s' (fd_file fd s') = Some f \<and> vnodes s' (f_vnode f) = Some v \<and> v_size v = i_size n'" if "r \<noteq> - 1"
    using that r w(10) by (simp add: s'_def ts) (simp add: set_file_def set_vnode_def)
  note ba' = ba [unfolded up] and bb' = bb [unfolded up]
  show thesis
    by (rule that [OF run on w(9) fd1])
      (erule fd2, assumption, rule ba', assumption+, use bb' sz in \<open>simp split: if_split_asm\<close>)
qed

lemma read_fd:
  assumes fd: "myfs_fd s fd pos sb (i_ino n)" and m: "on_myfs s sb fs n"
    and c: "0 \<le> pos" "count \<noteq> 0" "nat pos + unat count \<le> unat (i_size n)"
  shows "\<exists>s'. sys_read fd out count s = Some (Returned (int (unat count)) (mem_copy out 0 (file_byte fs n) (nat pos) (unat count)), s')"
proof -
  obtain f v where f: "fd_file fd s \<noteq> 0" "open_files s (fd_file fd s) = Some f" "f_ops f = myfs_f_ops" "f_pos f = pos"
    "vnodes s (f_vnode f) = Some v" "super_block v = sb" "v_ino v = i_ino n"
    using fd by (auto simp: myfs_fd_def)
  have mf: "mounted_fs s sb fs" "fs_ok fs" "closed_file fs n" "cache_room fs" using m by (simp_all add: on_myfs_def)
  let ?pos = "word_of_int pos :: u32"
  have up: "unat ?pos = nat pos"
    using c u32_bound [of "i_size n"] by (intro pos_word [where k = "unat count"]) (auto simp: unat_gt_0)
  obtain p h fs' n' where w: "myfs_iget (i_ino n) fs = Some (p, h)" "p \<noteq> 0"
    "\<And>out. myfs_node_read p ?pos out count h = Some (int (unat count), mem_copy out 0 (file_byte fs n) (unat ?pos) (unat count))"
    "myfs_iput p h = Some fs'"
    using read_cycle [OF mf(2-4) c(2), of ?pos] c(3) up by metis
  then have "node_read (i_ino n) ?pos out count fs = Some ((int (unat count), mem_copy out 0 (file_byte fs n) (nat pos) (unat count)), fs')"
    by (simp add: node_read_def up)
  then obtain t where "with_fs sb (node_read (i_ino n) ?pos out count) s = Some ((int (unat count), mem_copy out 0 (file_byte fs n) (nat pos) (unat count)), t)"
    by (rule with_fs_run [OF mf(1)])
  then show ?thesis using f by (simp add: sys_read_def file_read_def myfsd_f_read_def)
qed

text \<open>Seeking inside the file.\<close>

lemma lseek_fd:
  assumes fd: "myfs_fd s fd p sb ino" and v: "open_files s (fd_file fd s) = Some f" "vnodes s (f_vnode f) = Some v" "v_size v = z"
    and pos: "0 \<le> pos" "nat pos \<le> unat z" "unat z < 2 ^ 31"
  shows "sys_lseek fd pos 0 s = Some (- EIO, set_file (fd_file fd s) (f\<lparr>f_pos := pos\<rparr>) s)"
    "myfs_fd (set_file (fd_file fd s) (f\<lparr>f_pos := pos\<rparr>) s) fd pos sb ino"
proof -
  have "fd_file fd s \<noteq> 0" using fd by (simp add: myfs_fd_def)
  then have "0 \<le> fd" "fd < int MAX_FD" by (auto simp: fd_file_def split: if_splits)
  moreover have "pos \<le> sint z"
  proof -
    have "int (unat z) < int (2 ^ 31)" using pos(3) by (rule iffD2 [OF of_nat_less_iff])
    then have "uint z < 2 ^ 31" by simp
    then have "sint z = int (unat z)" by (simp add: sint_uint signed_take_bit_int_eq_self_iff order_trans [of _ 0])
    moreover have "int (nat pos) \<le> int (unat z)" using pos(2) by (rule iffD2 [OF of_nat_le_iff])
    ultimately show ?thesis using pos(1) by linarith
  qed
  ultimately show "sys_lseek fd pos 0 s = Some (- EIO, set_file (fd_file fd s) (f\<lparr>f_pos := pos\<rparr>) s)"
    using v pos by (simp add: sys_lseek_def vfs_seek_def)
  show "myfs_fd (set_file (fd_file fd s) (f\<lparr>f_pos := pos\<rparr>) s) fd pos sb ino" by (rule fd_moved(1) [OF fd v(1)])
qed

text \<open>
  C1. Data written to a file comes back.  A descriptor is open on a regular MyFS file that is stored on its disk; a
  \<^verbatim>\<open>sys_write\<close> of \<open>count\<close> bytes at its position returns \<open>count\<close> or, only when the file has to grow, - 1.  After a success,
  \<^verbatim>\<open>sys_lseek\<close> back to the old position and \<^verbatim>\<open>sys_read\<close> return exactly the bytes written, and so does
  \<^verbatim>\<open>sys_read\<close> on every other descriptor for the same file that stands at that position.  In between the inode is written to
  the disk, dropped from the cache, and read again from the disk by every call.  (\<^verbatim>\<open>sys_lseek\<close> does its work but
  always reports an error.)
\<close>

theorem sys_write_read:
  assumes "myfs_fd s fd pos sb (i_ino n)" and "on_myfs s sb fs n" and "0 \<le> pos" and "count \<noteq> 0"
    and "nat pos + unat count + bsz fs \<le> 2 ^ 31" and "unat (i_size n) < 2 ^ 31"
  shows "\<exists>r s'. sys_write fd buf count s = Some (r, s')
    \<and> (if r = - 1 then unat (block_count n) * bsz fs < nat pos + unat count
       else r = int (unat count)
         \<and> (\<exists>s2 s3. sys_lseek fd pos 0 s' = Some (- EIO, s2)
              \<and> sys_read fd out count s2 = Some (Returned (int (unat count)) (mem_copy out 0 buf 0 (unat count)), s3))
         \<and> (\<forall>fd'. myfs_fd s fd' pos sb (i_ino n) \<and> fd_file fd' s \<noteq> fd_file fd s \<longrightarrow>
              (\<exists>s3. sys_read fd' out count s' = Some (Returned (int (unat count)) (mem_copy out 0 buf 0 (unat count)), s3))))"
proof -
  have b: "nat pos + unat count + bsz fs \<le> 2 ^ 32" using assms(5) by simp
  obtain r s' fs' n' where w: "sys_write fd buf count s = Some (r, s')" "on_myfs s' sb fs' n'" "i_ino n' = i_ino n"
    "myfs_fd s' fd (if r = - 1 then pos else pos + r) sb (i_ino n)"
    "\<And>fd' p sb' ino'. myfs_fd s fd' p sb' ino' \<Longrightarrow> fd_file fd' s \<noteq> fd_file fd s \<Longrightarrow> myfs_fd s' fd' p sb' ino'"
    and c: "if r = - 1 then unat (block_count n) * bsz fs < nat pos + unat count \<and> i_size n' = i_size n
     else r = int (unat count) \<and> i_size n' = max (i_size n) (word_of_int pos + count)
       \<and> (\<forall>a. nat pos \<le> a \<and> a < nat pos + unat count \<longrightarrow> file_byte fs' n' a = buf (a - nat pos))
       \<and> (\<exists>f v. open_files s' (fd_file fd s') = Some f \<and> vnodes s' (f_vnode f) = Some v \<and> v_size v = i_size n')"
    by (rule write_fd [OF assms(1-4) b, of buf]) blast
  show ?thesis
  proof (cases "r = - 1")
    case True
    then show ?thesis using w(1) c by simp
  next
    case False
    then have r: "r = int (unat count)" "i_size n' = max (i_size n) (word_of_int pos + count)"
      "\<And>a. nat pos \<le> a \<Longrightarrow> a < nat pos + unat count \<Longrightarrow> file_byte fs' n' a = buf (a - nat pos)"
      using c by simp_all
    have end': "unat (word_of_int pos + count :: u32) = nat pos + unat count"
      using pos_word [of pos "unat count + bsz fs"] assms(3-5) by (simp add: unat_word_ariths unat_gt_0)
    have sz: "nat pos + unat count \<le> unat (i_size n')" "unat (i_size n') < 2 ^ 31"
      using r(2) end' assms(5,6) fs_ok_facts(2) [of fs] assms(2) by (auto simp: on_myfs_def max_def word_le_nat_alt)
    have cp: "mem_copy out 0 (file_byte fs' n') (nat pos) (unat count) = mem_copy out 0 buf 0 (unat count)"
      using r(3) by (auto simp: mem_copy_def fun_eq_iff)
    obtain f v where f: "open_files s' (fd_file fd s') = Some f" "vnodes s' (f_vnode f) = Some v" "v_size v = i_size n'"
      using c False by auto
    have "nat pos \<le> unat (i_size n')" using sz(1) by linarith
    note sk = lseek_fd [OF w(4) f assms(3) this sz(2)]
    let ?s2 = "set_file (fd_file fd s') (f\<lparr>f_pos := pos\<rparr>) s'"
    have s2: "sys_lseek fd pos 0 s' = Some (- EIO, ?s2)" "on_myfs ?s2 sb fs' n'" "myfs_fd ?s2 fd pos sb (i_ino n')"
      using sk w(2,3) by (simp_all add: on_myfs_def mounted_upd)
    note rd = read_fd [OF _ _ assms(3,4) sz(1), of _ _ sb fs' out, unfolded cp]
    have "\<exists>s3. sys_read fd out count ?s2 = Some (Returned (int (unat count)) (mem_copy out 0 buf 0 (unat count)), s3)"
      by (rule rd [OF s2(3,2)])
    moreover have "\<exists>s3. sys_read fd' out count s' = Some (Returned (int (unat count)) (mem_copy out 0 buf 0 (unat count)), s3)"
      if "myfs_fd s fd' pos sb (i_ino n)" "fd_file fd' s \<noteq> fd_file fd s" for fd'
      using rd [OF _ w(2), of fd'] w(3) w(5) [OF that] by simp
    ultimately show ?thesis using w(1) r(1) False s2(1) by (intro exI [of _ r] exI [of _ s']) auto
  qed
qed

text \<open>
  \<^verbatim>\<open>vfs_write\<close> moves the position twice: the driver has already moved it when \<^verbatim>\<open>vfs_write\<close> adds the count again, so
  the next write leaves a gap.
\<close>

lemma vfs_write_moves_twice:
  assumes "myfs_fd s fd pos sb (i_ino n)" and "on_myfs s sb fs n" and "0 \<le> pos" and "count \<noteq> 0"
    and "nat pos + unat count + bsz fs \<le> 2 ^ 32" and "open_files s (fd_file fd s) = Some f" and "writable f"
    and "vfs_write fd buf count s = Some (int (unat count), s')"
  shows "myfs_fd s' fd (pos + 2 * int (unat count)) sb (i_ino n)"
proof -
  obtain r t where w: "sys_write fd buf count s = Some (r, t)" "myfs_fd t fd (if r = - 1 then pos else pos + r) sb (i_ino n)"
    by (rule write_fd [OF assms(1-5), of buf]) blast
  have fd: "fd_file fd s \<noteq> 0" using assms(1) by (simp add: myfs_fd_def)
  obtain x where x: "file_write (fd_file fd s) buf 0 (unat count) s = Some (x, t)"
    using w(1) fd by (auto simp: sys_write_def bind_eq_Some_conv)
  have "- 1 \<noteq> int (unat count)" using of_nat_0_le_iff [of "unat count"] by linarith
  then have xr: "x = Some r" using w(1) fd x assms(8) assms(6,7) by (auto simp: sys_write_def vfs_write_def split: option.splits)
  obtain g where g: "open_files t (fd_file fd t) = Some g" "f_pos g = (if r = - 1 then pos else pos + r)"
    using w(2) by (auto simp: myfs_fd_def)
  have r: "r = int (unat count)" "advance (fd_file fd t) r t = Some s'"
    using assms(6-8) fd x xr by (auto simp: vfs_write_def bind_eq_Some_conv)
  have "0 < unat count" using assms(4) by (simp add: unat_gt_0)
  then have p: "0 < r" unfolding r(1) by (rule iffD2 [OF of_nat_0_less_iff])
  then have "s' = set_file (fd_file fd t) (g\<lparr>f_pos := f_pos g + r\<rparr>) t" using r(2) g(1) by (simp add: advance_def)
  moreover have "f_pos g + r = pos + 2 * int (unat count)" using g(2) p r(1) by simp
  ultimately show ?thesis using fd_moved(1) [OF w(2) g(1)] by simp
qed

text \<open>A mounted disk with file 5 on it, open as descriptor 4 at position 50.\<close>

definition fs_demo_idle :: myfs where
  "fs_demo_idle = fs_demo_block\<lparr>inodes := (\<lambda>_. None), inode_hash_table := (\<lambda>_. [])\<rparr>"

definition fs_demo_stored :: myfs where
  "fs_demo_stored = evicted fs_demo_idle (mem_copy (disk fs_demo_idle) (inode_pos fs_demo_idle 5) (inode_encode file_demo) 0 sizeof_inode)
     (block_bitmap fs_demo_idle)"

definition vfs_demo :: vfs where
  "vfs_demo = (vfs_boot [([0x61], disk fs_demo_stored)] (\<lambda>_. True) (\<lambda>_. True) (\<lambda>_. 0) tty_demo)
     \<lparr>super_blocks := [10 \<mapsto> \<lparr>sb_type = Some MYFS_NAME, fs_root = 11, sb_f_ops = myfs_f_ops, sb_v_ops = Some myfs_vnode_ops,
        vnode_cache = [], fs_private = Some fs_demo_stored, sb_dev = 0\<rparr>],
      vnodes := [11 \<mapsto> \<lparr>super_block = 10, v_size = 100, v_mode = S_IFREG, device_handle = 0, v_ino = 5, v_refcount = 1\<rparr>],
      open_files := [12 \<mapsto> \<lparr>f_vnode = 11, f_ops = myfs_f_ops, f_pos = 50, f_flags = O_RDWR, f_refcount = 1\<rparr>],
      g_fd_table := (\<lambda>_. 0)(4 := 12)\<rparr>"

lemma fs_demo_stored_ok: "fs_ok fs_demo_stored" "closed_file fs_demo_stored file_demo" "cache_room fs_demo_stored" "bsz fs_demo_stored = 2048"
proof -
  let ?s = fs_demo_idle
  have r: "cache_room ?s" by (simp add: cache_room_def not_cached_def fs_demo_idle_def fs_demo_block_def fs_demo_def layout_defs)
  have e: "evicted ?s (disk ?s) (block_bitmap ?s) = fs_demo_file\<lparr>allocs := Suc (Suc (allocs ?s)), inodes := (\<lambda>_. None), inode_hash_table := (\<lambda>_. [])\<rparr>"
    by (simp add: evicted_def fs_demo_idle_def fs_demo_file_def)
  have f: "file_demo = file_demo\<lparr>ref_count := ref_count file_demo, dirty := dirty file_demo\<rparr>" by simp
  have ok: "fs_ok (evicted ?s (disk ?s) (block_bitmap ?s))" unfolding e stored_cong by (rule fs_demo_file_ok)
  have st: "file_stored (evicted ?s (disk ?s) (block_bitmap ?s)) file_demo"
    using stored_cong(1) f file_demo_open unfolding e open_file_iff by metis
  have i: "i_ino file_demo = 5" "not_cached ?s 5" by (simp_all add: file_demo_def not_cached_def fs_demo_idle_def)
  note cd = closed_dirty [OF ok r i(2,1) st, folded fs_demo_stored_def]
  show "fs_ok fs_demo_stored" "closed_file fs_demo_stored file_demo" by (rule cd)+
  show "cache_room fs_demo_stored" unfolding fs_demo_stored_def by (rule holding_simps(8) [OF r])
  show "bsz fs_demo_stored = 2048"
    using fs_demo_file_ok(2) by (simp add: bsz_def fs_demo_stored_def evicted_def fs_demo_idle_def fs_demo_file_def)
qed

theorem sys_write_read_witness:
  "\<exists>s' s2 s3. sys_write 4 (\<lambda>i. of_nat i) 200 vfs_demo = Some (200, s') \<and> sys_lseek 4 50 0 s' = Some (- EIO, s2)
     \<and> sys_read 4 (\<lambda>_. 0) 200 s2 = Some (Returned 200 (mem_copy (\<lambda>_. 0) 0 (\<lambda>i. of_nat i) 0 200), s3)"
proof -
  have f: "myfs_fd vfs_demo 4 50 10 (i_ino file_demo)"
    by (simp add: myfs_fd_def fd_file_def MAX_FD_def vfs_demo_def vfs_boot_def file_demo_def)
  have m: "on_myfs vfs_demo 10 fs_demo_stored file_demo"
    using fs_demo_stored_ok by (simp add: on_myfs_def mounted_fs_def sb_disk_def vfs_demo_def vfs_boot_def)
  have h: "nat 50 + unat (200 :: u32) + bsz fs_demo_stored \<le> 2 ^ 31" "unat (i_size file_demo) < 2 ^ 31"
    "\<not> unat (block_count file_demo) * bsz fs_demo_stored < nat 50 + unat (200 :: u32)"
    by (simp_all add: fs_demo_stored_ok(4) file_demo_def)
  obtain r s' where w: "sys_write 4 (\<lambda>i. of_nat i) 200 vfs_demo = Some (r, s')"
    "if r = - 1 then unat (block_count file_demo) * bsz fs_demo_stored < nat 50 + unat (200 :: u32)
       else r = int (unat (200 :: u32))
         \<and> (\<exists>s2 s3. sys_lseek 4 50 0 s' = Some (- EIO, s2)
              \<and> sys_read 4 (\<lambda>_. 0) 200 s2 = Some (Returned (int (unat (200 :: u32))) (mem_copy (\<lambda>_. 0) 0 (\<lambda>i. of_nat i) 0 (unat (200 :: u32))), s3))"
    using sys_write_read [OF f m _ _ h(1,2), of "\<lambda>i. of_nat i" "\<lambda>_. 0"] by (force split: if_splits)
  have "r \<noteq> - 1" using w(2) h(3) by auto
  then show ?thesis using w by auto
qed

subsection \<open>Mount points\<close>

text \<open>A mount point is above a path when its path is a prefix that ends where a component ends.\<close>

definition above :: "u8 list \<Rightarrow> u8 list \<Rightarrow> bool" where
  "above mp path \<longleftrightarrow> (\<exists>rest. path = mp @ rest \<and> (rest = [] \<or> hd rest = 0x2F \<or> mp = [0x2F]))"

lemma mount_covers_above: "mount_covers m path = above (mp_path m) path"
proof
  assume c: "mount_covers m path"
  then have "path = mp_path m @ drop (length (mp_path m)) path"
    using append_take_drop_id [of "length (mp_path m)" path] by (simp only: mount_covers_def)
  moreover have "drop (length (mp_path m)) path = [] \<or> hd (drop (length (mp_path m)) path) = 0x2F \<or> mp_path m = [0x2F]"
    using c by (auto simp: mount_covers_def hd_drop_conv_nth)
  ultimately show "above (mp_path m) path" unfolding above_def by blast
qed (auto simp: above_def mount_covers_def hd_conv_nth nth_append)

text \<open>The search, with the best match of the mounts before.\<close>

lemma best_mount:
  assumes "fold (\<lambda>m (best_match, best_match_len).
      if mount_covers m path \<and> length (mp_path m) > best_match_len then (Some m, length (mp_path m)) else (best_match, best_match_len)) ms (b, l) = (b', l')"
  shows "(b' = b \<and> l' = l \<and> (\<forall>m \<in> set ms. above (mp_path m) path \<longrightarrow> length (mp_path m) \<le> l))
    \<or> (\<exists>xs m ys. ms = xs @ m # ys \<and> b' = Some m \<and> l' = length (mp_path m) \<and> l < l' \<and> above (mp_path m) path
        \<and> (\<forall>m' \<in> set xs. above (mp_path m') path \<longrightarrow> length (mp_path m') < l')
        \<and> (\<forall>m' \<in> set ys. above (mp_path m') path \<longrightarrow> length (mp_path m') \<le> l'))"
  using assms
proof (induction ms arbitrary: b l)
  case Nil
  then show ?case by simp
next
  case (Cons m ms)
  show ?case
  proof (cases "above (mp_path m) path \<and> l < length (mp_path m)")
    case True
    then have "fold (\<lambda>m (best_match, best_match_len).
      if mount_covers m path \<and> length (mp_path m) > best_match_len then (Some m, length (mp_path m)) else (best_match, best_match_len))
        ms (Some m, length (mp_path m)) = (b', l')"
      using Cons.prems by (simp add: mount_covers_above)
    from Cons.IH [OF this] show ?thesis
    proof (elim disjE exE conjE)
      assume "b' = Some m" "l' = length (mp_path m)" "\<forall>m' \<in> set ms. above (mp_path m') path \<longrightarrow> length (mp_path m') \<le> length (mp_path m)"
      then show ?thesis using True by (intro disjI2 exI [of _ "[]"] exI [of _ m] exI [of _ ms]) simp
    next
      fix xs k ys
      assume "ms = xs @ k # ys" "b' = Some k" "l' = length (mp_path k)" "length (mp_path m) < l'" "above (mp_path k) path"
        "\<forall>m' \<in> set xs. above (mp_path m') path \<longrightarrow> length (mp_path m') < l'" "\<forall>m' \<in> set ys. above (mp_path m') path \<longrightarrow> length (mp_path m') \<le> l'"
      then show ?thesis using True by (intro disjI2 exI [of _ "m # xs"] exI [of _ k] exI [of _ ys]) simp
    qed
  next
    case False
    then have "fold (\<lambda>m (best_match, best_match_len).
      if mount_covers m path \<and> length (mp_path m) > best_match_len then (Some m, length (mp_path m)) else (best_match, best_match_len)) ms (b, l) = (b', l')"
      using Cons.prems by (auto simp: mount_covers_above)
    from Cons.IH [OF this] show ?thesis
    proof (elim disjE exE conjE)
      fix xs k ys
      assume "ms = xs @ k # ys" "b' = Some k" "l' = length (mp_path k)" "l < l'" "above (mp_path k) path"
        "\<forall>m' \<in> set xs. above (mp_path m') path \<longrightarrow> length (mp_path m') < l'" "\<forall>m' \<in> set ys. above (mp_path m') path \<longrightarrow> length (mp_path m') \<le> l'"
      then show ?thesis using False by (intro disjI2 exI [of _ "m # xs"] exI [of _ k] exI [of _ ys]) auto
    qed (use False in auto)
  qed
qed

text \<open>
  C13. The mount point of a path is the innermost one: its path is a prefix of the path that ends at a component boundary,
  no mount with this property is longer, and of several mounts on the same directory the most recent one (the first in
  the list) is taken.  There is none only when no mount with a non-empty path is above the path.
\<close>

theorem find_mount_point_innermost:
  "case vfs_find_mount_point path s of
     None \<Rightarrow> \<forall>m \<in> set (mount_p_table s). \<not> above (mp_path m) path \<or> mp_path m = []
   | Some m \<Rightarrow> \<exists>newer older. mount_p_table s = newer @ m # older \<and> above (mp_path m) path \<and> mp_path m \<noteq> []
       \<and> (\<forall>m' \<in> set newer. above (mp_path m') path \<longrightarrow> length (mp_path m') < length (mp_path m))
       \<and> (\<forall>m' \<in> set older. above (mp_path m') path \<longrightarrow> length (mp_path m') \<le> length (mp_path m))"
proof -
  let ?step = "\<lambda>m (best_match, best_match_len). if mount_covers m path \<and> length (mp_path m) > best_match_len then (Some m, length (mp_path m))
      else (best_match, best_match_len)"
  obtain b l where f: "fold ?step (mount_p_table s) (None, 0) = (b, l)" by force
  then have v: "vfs_find_mount_point path s = b" by (simp add: vfs_find_mount_point_def)
  from best_mount [OF f] show ?thesis unfolding v by (elim disjE exE conjE) auto
qed

theorem find_mount_point_innermost_witness:
  "let s = vfs_demo\<lparr>mount_p_table := [\<lparr>mp_path = [0x2F, 0x6D], mp_super_block = 1\<rparr>, \<lparr>mp_path = [0x2F], mp_super_block = 2\<rparr>]\<rparr>
   in map_option mp_super_block (vfs_find_mount_point [0x2F, 0x6D, 0x2F, 0x61] s) = Some 1
     \<and> map_option mp_super_block (vfs_find_mount_point [0x2F, 0x6D, 0x61] s) = Some 2"
proof -
  define t where "t = vfs_demo\<lparr>mount_p_table := [\<lparr>mp_path = [0x2F, 0x6D], mp_super_block = 1\<rparr>, \<lparr>mp_path = [0x2F], mp_super_block = 2\<rparr>]\<rparr>"
  have tab: "mount_p_table t = [\<lparr>mp_path = [0x2F, 0x6D], mp_super_block = 1\<rparr>, \<lparr>mp_path = [0x2F], mp_super_block = 2\<rparr>]" by (simp add: t_def)
  have ab: "above [0x2F, 0x6D] [0x2F, 0x6D, 0x2F, 0x61]" "above [0x2F] [0x2F, 0x6D, 0x61]" "\<not> above [0x2F, 0x6D] [0x2F, 0x6D, 0x61]"
    by (simp_all add: above_def)
  have "map_option mp_super_block (vfs_find_mount_point [0x2F, 0x6D, 0x2F, 0x61] t) = Some 1"
    using find_mount_point_innermost [where path = "[0x2F, 0x6D, 0x2F, 0x61]" and s = t] ab(1)
    by (auto simp: tab Cons_eq_append_conv split: option.splits)
  moreover have "map_option mp_super_block (vfs_find_mount_point [0x2F, 0x6D, 0x61] t) = Some 2"
    using find_mount_point_innermost [where path = "[0x2F, 0x6D, 0x61]" and s = t] ab(2,3)
    by (auto simp: tab Cons_eq_append_conv split: option.splits)
  ultimately show ?thesis by (simp add: t_def)
qed

subsection \<open>Walking along a path\<close>

text \<open>\<^const>\<open>next_token\<close> is what one call of \<^verbatim>\<open>strtok_r\<close> does on the copy of the path in memory.\<close>

lemma next_token_strtok_r:
  assumes "cstr m d [0x2F]" and "0 < d" and "cstr m p path" and "0 < p" and "str = p \<and> save = x \<or> str = 0 \<and> save = p"
  shows "\<exists>m' save' q. strtok_r m str d save = Some (q, save', m')
    \<and> (case next_token path of None \<Rightarrow> q = 0 | Some (token, saved) \<Rightarrow> q \<noteq> 0 \<and> cstr m' q token \<and> cstr m' save' saved)"
proof -
  let ?ys = "dropWhile (\<lambda>c. c = 0x2F) path"
  have "?ys = dropWhile (\<lambda>c. c \<in> set [0x2F]) path" "takeWhile (\<lambda>c. c \<noteq> 0x2F) ?ys = takeWhile (\<lambda>c. c \<notin> set [0x2F]) ?ys" by simp_all
  from strtok_r_spec [OF assms this] assms(4) show ?thesis by (auto simp: next_token_def Let_def)
qed

text \<open>The components of a path: what stands between its slashes and is not empty.\<close>

fun pieces :: "u8 list \<Rightarrow> u8 list list" where
  "pieces [] = [[]]"
| "pieces (c # cs) = (if c = 0x2F then [] # pieces cs else (c # hd (pieces cs)) # tl (pieces cs))"

definition components :: "u8 list \<Rightarrow> u8 list list" where
  "components path = filter (\<lambda>p. p \<noteq> []) (pieces path)"

lemma pieces_token: "0x2F \<notin> set t \<Longrightarrow> pieces (t @ 0x2F # r) = t # pieces r" "0x2F \<notin> set t \<Longrightarrow> pieces t = [t]"
  by (induction t) auto

lemma components_slashes: "components (dropWhile (\<lambda>c. c = 0x2F) path) = components path"
  by (induction path) (simp_all add: components_def)

lemma first_component:
  assumes "ys \<noteq> []" and "hd ys \<noteq> 0x2F"
  defines "t \<equiv> takeWhile (\<lambda>c. c \<noteq> 0x2F) ys"
  shows "components ys = t # components (drop (length t + 1) ys)"
proof -
  have t: "0x2F \<notin> set t" by (auto simp: t_def dest: set_takeWhileD)
  have ne: "t \<noteq> []" using assms(1,2) by (cases ys) (simp_all add: t_def)
  have td: "ys = t @ dropWhile (\<lambda>c. c \<noteq> 0x2F) ys" by (simp add: t_def)
  show "components ys = t # components (drop (length t + 1) ys)"
  proof (cases "dropWhile (\<lambda>c. c \<noteq> 0x2F) ys")
    case Nil
    have e: "ys = t" using td unfolding Nil by simp
    then have "drop (length t + 1) ys = []" by simp
    then show ?thesis using pieces_token(2) [OF t] ne e by (simp add: components_def)
  next
    case (Cons c r)
    then have "c = 0x2F" using hd_dropWhile [of "\<lambda>c. c \<noteq> 0x2F" ys] by simp
    then have e: "ys = t @ 0x2F # r" using td unfolding Cons by simp
    then have "drop (length t + 1) ys = r" by simp
    then show ?thesis using pieces_token(1) [OF t, of r] ne e by (simp add: components_def)
  qed
qed

lemma next_token_components:
  "case next_token path of None \<Rightarrow> components path = [] | Some (token, saved) \<Rightarrow> components path = token # components saved \<and> length saved < length path"
proof -
  define ys where "ys = dropWhile (\<lambda>c. c = 0x2F) path"
  have c: "components path = components ys" by (simp add: ys_def components_slashes)
  have n: "next_token path = (let token = takeWhile (\<lambda>c. c \<noteq> 0x2F) ys in if ys = [] then None else Some (token, drop (length token + 1) ys))"
    by (simp only: next_token_def ys_def Let_def)
  show ?thesis
  proof (cases "ys = []")
    case True
    then show ?thesis by (simp add: n c) (simp add: components_def)
  next
    case False
    moreover have "hd ys \<noteq> 0x2F" using False hd_dropWhile [of "\<lambda>c. c = 0x2F" path] by (simp add: ys_def)
    moreover have "length ys \<le> length path" by (simp add: ys_def length_dropWhile_le)
    then have "length ys - Suc k < length path" for k using False by (cases ys) auto
    ultimately show ?thesis using first_component [of ys] by (simp add: n c Let_def)
  qed
qed

text \<open>
  The reference: going down a list of components, one directory after the other. \<open>Some None\<close> means that a symbolic
  link is met.
\<close>

fun descend :: "nat \<Rightarrow> u8 list list \<Rightarrow> vfs \<Rightarrow> (nat \<times> vfs) option option" where
  "descend current [] s = Some (Some (current, s))"
| "descend current (name # names) s = do {
     c \<leftarrow> vnodes s current;
     b \<leftarrow> super_blocks s (super_block c);
     if sb_v_ops b = None then do { s \<leftarrow> vfs_vnode_put current s; Some (Some (0, s)) }
     else do {
       (child, s) \<leftarrow> myfsd_v_lookup current name s;
       if child = 0 then do { s \<leftarrow> vfs_vnode_put current s; Some (Some (0, s)) }
       else do {
         s \<leftarrow> vfs_vnode_get_ref child s;
         n \<leftarrow> vnodes s child;
         if S_ISLNK (v_mode n) then Some None
         else do { s \<leftarrow> vfs_vnode_put current s; descend child names s } } } }"

lemma walk_descend:
  assumes "descend current (components path) s = Some (Some r)"
  shows "vfs_walk_loop current path depth follow s = Some r"
  using assms
proof (induction "length path" arbitrary: current path s rule: less_induct)
  case less
  note nt = next_token_components [of path]
  show ?case
  proof (cases "next_token path")
    case None
    then show ?thesis using nt less.prems by (simp add: vfs_walk_loop.simps)
  next
    case (Some x)
    obtain token saved where x: "x = (token, saved)" by force
    then have c: "components path = token # components saved" "length saved < length path" using nt Some by simp_all
    note ih = less.hyps [OF c(2)]
    note d = less.prems [unfolded c(1) descend.simps] and walk = vfs_walk_loop.simps [of current path depth follow s, unfolded Some x]
    obtain v b where v: "vnodes s current = Some v" "super_blocks s (super_block v) = Some b"
      using d by (auto simp: bind_eq_Some_conv)
    show ?thesis
    proof (cases "sb_v_ops b = None")
      case True
      then show ?thesis using d v by (auto simp: walk bind_eq_Some_conv)
    next
      case False
      then obtain y where ops: "sb_v_ops b = Some y" by auto
      then obtain child t where l: "myfsd_v_lookup current token s = Some (child, t)"
        using d v by (auto simp: bind_eq_Some_conv)
      show ?thesis
      proof (cases "child = 0")
        case True
        then show ?thesis using d v ops l by (auto simp: walk bind_eq_Some_conv)
      next
        case n0: False
        obtain u n where u: "vfs_vnode_get_ref child t = Some u" "vnodes u child = Some n"
          using d v ops l n0 by (auto simp: bind_eq_Some_conv)
        have nl: "\<not> S_ISLNK (v_mode n)" using d v ops l n0 u by auto
        obtain w where w: "vfs_vnode_put current u = Some w" "descend child (components saved) w = Some (Some r)"
          using d v ops l n0 u nl by (auto simp: bind_eq_Some_conv)
        show ?thesis using ih [OF w(2)] v ops l n0 u nl w(1) by (simp add: walk)
      qed
    qed
  qed
qed



end
