(* ===== verification/VfsStreams.thy ===== *)
theory VfsStreams
  imports VfsProps ConsoleProps
begin

unbundle bit_operations_syntax

text \<open>
  Descriptors and the standard streams: the descriptor table hands out the lowest free number, and what the kernel
  prints with \<^verbatim>\<open>kprintf\<close> appears on the screen and on the debug port.
\<close>

subsection \<open>Formatted text through an output function that may fail\<close>

lemma output_string_rec:
  "output_string putc [] s = Some s" "output_string putc (c # cs) s = Option.bind (putc c s) (output_string putc cs)"
proof -
  have "fold (\<lambda>c r. Option.bind r (putc c)) xs None = None" for xs by (induction xs) auto
  then show "output_string putc [] s = Some s" "output_string putc (c # cs) s = Option.bind (putc c s) (output_string putc cs)"
    by (cases "putc c s"; simp add: output_string_def)+
qed

lemma output_string_append: "output_string putc (xs @ ys) s = Option.bind (output_string putc xs s) (output_string putc ys)"
proof (induction xs arbitrary: s)
  case (Cons c xs)
  then show ?case by (cases "putc c s") (simp_all add: output_string_rec)
qed (simp add: output_string_rec)

lemma output_string_snoc: "output_string snoc t out = Some (out @ t)"
  by (induction t arbitrary: out) (simp_all add: output_string_rec snoc_def)

lemma unsigned_run:
  "output_unsigned putc v r s = output_string putc (if length (unsigned_digits (unat v) r) \<ge> 32 then [] else rev (unsigned_digits (unat v) r)) s"
  by (simp add: output_unsigned_def Let_def output_string_rec)

lemma number_run:
  "output_number putc len sg r args s
     = Option.bind (output_number snoc len sg r args []) (\<lambda>(args, t). map_option (Pair args) (output_string putc t s))"
proof (cases "number_arg len sg args")
  case (Some x)
  obtain v as where x: "x = (v, as)" by force
  define ds where "ds v = (if length (unsigned_digits (unat v) r) \<ge> 32 then [] else rev (unsigned_digits (unat v) r))" for v :: u64
  note run = unsigned_run [of _ _ r, folded ds_def]
  have p: "(case output_string putc t s of None \<Rightarrow> None | Some s \<Rightarrow> Some (as, s)) = Option.bind (output_string putc t s) (\<lambda>s. Some (as, s))" for t
    by (cases "output_string putc t s") simp_all
  show ?thesis
    using Some x
    by (simp add: output_number_def output_signed_def run output_string_snoc output_string_rec snoc_def map_option_case p)
qed (simp add: output_number_def)

lemma specifier_run:
  "printf_specifier putc len c args s
     = Option.bind (spec_text len c args) (\<lambda>(args, k, t). map_option (\<lambda>s. (args, k, s)) (output_string putc t s))"
proof -
  define G where "G = (\<lambda>(args :: printf_arg list, k :: nat, t). map_option (\<lambda>s. (args, k, s)) (output_string putc t s))"
  have g: "G (as, k, t) = Option.bind (output_string putc t s) (\<lambda>s. Some (as, k, s))" for as k t
    by (cases "output_string putc t s") (simp_all add: G_def)
  have num: "Option.bind (output_number putc len sg r args s) (\<lambda>(args, s). Some (args, 0, s))
      = Option.bind (Option.bind (output_number snoc len sg r args []) (\<lambda>(args, t). Some (args, 0, t))) G" for sg r
    unfolding number_run [of putc] by (cases "output_number snoc len sg r args []") (auto simp: g map_option_case split: option.splits)
  note defs = printf_specifier_def spec_text_def G_def [symmetric] num
  consider "c = 0x78 \<or> c = 0x58 \<or> c = 0x70" | "c = 0x64 \<or> c = 0x69" | "c = 0x75 \<or> c = 0x6F" | "c = 0x73" | "c = 0x63"
    | "c = 0x25 \<or> c \<notin> {0x78, 0x58, 0x70, 0x64, 0x69, 0x75, 0x6F, 0x73, 0x63, 0x25}" by blast
  then show ?thesis
  proof cases
    case 4
    then show ?thesis by (auto simp: defs g snoc_def output_string_snoc output_string_rec split: list.splits printf_arg.splits)
  next
    case 5
    then show ?thesis by (auto simp: defs g snoc_def output_string_snoc output_string_rec split: list.splits printf_arg.splits)
  next
    case 6
    then show ?thesis by (auto simp: defs g snoc_def output_string_snoc output_string_rec)
  qed (auto simp: defs)
qed

lemma vprintf_snoc:
  "vprintf_core snoc st len fmt args n out = map_option (\<lambda>(k, t). (k, out @ t)) (vprintf_core snoc st len fmt args n [])"
  using vprintf_total [of "\<lambda>c out. out @ [c]" st len fmt args n "[]" out] by (simp add: snoc_total)

lemma vprintf_run:
  "vprintf_core putc st len fmt args n s
     = Option.bind (vprintf_core snoc st len fmt args n []) (\<lambda>(k, t). map_option (Pair k) (output_string putc t s))"
proof (induction putc st len fmt args n s rule: vprintf_core.induct)
  case (2 putc len c fmt args n s)
  show ?case
  proof (cases "c = 0x25")
    case True
    then show ?thesis using 2(1) by simp
  next
    case False
    let ?v = "vprintf_core snoc PRINTF_STATE_NORMAL len fmt args (n + 1)"
    have sn: "vprintf_core snoc PRINTF_STATE_NORMAL len (c # fmt) args n [] = map_option (\<lambda>(k, t). (k, c # t)) (?v [])"
      using False vprintf_snoc [of PRINTF_STATE_NORMAL len fmt args "n + 1" "[c]"] by (simp add: snoc_def)
    show ?thesis
    proof (cases "putc c s")
      case None
      then show ?thesis using False unfolding sn by (cases "?v []") (auto simp: output_string_rec)
    next
      case (Some s')
      then have "vprintf_core putc PRINTF_STATE_NORMAL len fmt args (n + 1) s'
          = Option.bind (?v []) (\<lambda>(k, t). map_option (Pair k) (output_string putc t s'))" using 2(2) False by simp
      then show ?thesis using False Some unfolding sn by (cases "?v []") (auto simp: output_string_rec)
    qed
  qed
next
  case (6 putc len c fmt args n s)
  show ?case
  proof (cases "spec_text len c args")
    case None
    then show ?thesis by (simp add: specifier_run)
  next
    case (Some r)
    obtain as k t where r: "r = (as, k, t)" by (cases r)
    let ?v = "vprintf_core snoc PRINTF_STATE_NORMAL len fmt as (n + k)"
    have sn: "vprintf_core snoc PRINTF_STATE_SPECIFIER len (c # fmt) args n [] = map_option (\<lambda>(k, u). (k, t @ u)) (?v [])"
      using Some r vprintf_snoc [of PRINTF_STATE_NORMAL len fmt as "n + k" t] by (simp add: spec_text_def)
    show ?thesis
    proof (cases "output_string putc t s")
      case None
      then show ?thesis using Some r unfolding sn by (cases "?v []") (auto simp: specifier_run output_string_append)
    next
      case o: (Some s')
      then have "vprintf_core putc PRINTF_STATE_NORMAL len fmt as (n + k) s'
          = Option.bind (?v []) (\<lambda>(k, t). map_option (Pair k) (output_string putc t s'))"
        using 6 [of "(as, k, s')" as "(k, s')" k s'] Some r by (simp add: specifier_run)
      then show ?thesis using Some r o unfolding sn by (cases "?v []") (auto simp: specifier_run output_string_append)
    qed
  qed
qed (simp_all add: output_string_rec)

lemma kvfprintf_text:
  "formatted fmt args = Some t \<Longrightarrow> kvfprintf fd fmt args s = output_string (fd_putc fd) t s"
  unfolding kvfprintf_def vprintf_run [of "fd_putc fd"] formatted_def by (auto simp: map_option_case split: option.splits)

subsection \<open>Standard output\<close>

definition stream :: "vfs \<Rightarrow> int \<Rightarrow> file_ops_t \<Rightarrow> bool" where
  "stream s fd ops \<longleftrightarrow> fd_file fd s \<noteq> 0 \<and> (\<exists>f. open_files s (fd_file fd s) = Some f \<and> f_ops f = ops \<and> writable f)"

text \<open>Descriptor 1 is the console and descriptor 3 the debug port.\<close>

definition std_streams :: "vfs \<Rightarrow> bool" where
  "std_streams s \<longleftrightarrow> stream s STDOUT_FILENO con_fops \<and> stream s STDDEBUG_FILENO dbg_fops"

lemma advance_stream:
  assumes "open_files s p = Some f"
  shows "advance p n s = Some (if n > 0 then set_file p (f\<lparr>f_pos := f_pos f + n\<rparr>) s else s)"
    "stream (set_file p (f\<lparr>f_pos := x\<rparr>) s) fd ops = stream s fd ops"
proof -
  show "advance p n s = Some (if n > 0 then set_file p (f\<lparr>f_pos := f_pos f + n\<rparr>) s else s)" using assms by (simp add: advance_def)
  have "writable (f\<lparr>f_pos := x\<rparr>) = writable f" by (simp add: writable_def)
  then show "stream (set_file p (f\<lparr>f_pos := x\<rparr>) s) fd ops = stream s fd ops"
    using assms by (auto simp: stream_def set_file_def fd_file_def)
qed

lemma stdout_byte:
  assumes st: "std_streams s" and ok: "con_ok (con (vterm s))"
  shows "\<exists>s'. fd_putc STDOUT_FILENO c s = Some s' \<and> con_putc c (con (vterm s)) = Some (con (vterm s')) \<and> con_ok (con (vterm s'))
    \<and> serial_out s' = serial_out s @ [c] \<and> std_streams s'"
proof -
  let ?p = "fd_file STDOUT_FILENO s" and ?q = "fd_file STDDEBUG_FILENO s"
  obtain f where f: "?p \<noteq> 0" "open_files s ?p = Some f" "f_ops f = con_fops" "writable f"
    using st by (auto simp: std_streams_def stream_def)
  obtain g where g: "?q \<noteq> 0" "open_files s ?q = Some g" "f_ops g = dbg_fops" "writable g"
    using st by (auto simp: std_streams_def stream_def)
  have pq: "?p \<noteq> ?q" using f g by auto
  obtain t where t: "con_putc c (con (vterm s)) = Some t" "con_ok t" using putc_ok [OF ok] by blast
  define s1 where "s1 = s\<lparr>vterm := (vterm s)\<lparr>con := t\<rparr>\<rparr>"
  define s2 where "s2 = s1\<lparr>serial_out := serial_out s1 @ [c]\<rparr>"
  define s3 where "s3 = set_file ?q (g\<lparr>f_pos := f_pos g + 1\<rparr>) s2"
  have e: "fd_file x s1 = fd_file x s" "fd_file x s2 = fd_file x s" "fd_file x s3 = fd_file x s" for x
    by (simp_all add: s1_def s2_def s3_def fd_file_def set_file_def)
  have o: "open_files s1 = open_files s" "open_files s2 = open_files s" "open_files s3 ?p = Some f"
    using f pq by (simp_all add: s1_def s2_def s3_def set_file_def)
  have dbg: "file_write ?q (\<lambda>_. c) 0 1 s1 = Some (Some 1, s2)"
    using g by (simp add: file_write.simps [of ?q] o) (simp add: s2_def)
  have adv: "advance ?q 1 s2 = Some s3" using g by (simp add: advance_def o s3_def)
  have fin: "file_write ?p (\<lambda>_. c) 1 1 s3 = Some (Some 1, s3)"
    using f o(3) by (simp add: file_write.simps [of ?p])
  have w: "file_write ?p (\<lambda>_. c) 0 1 s = Some (Some 1, s3)"
    using f g t(1) dbg adv fin by (simp add: file_write.simps [of ?p _ _ _ s] s1_def [symmetric] e o Let_def)
  let ?s = "set_file ?p (f\<lparr>f_pos := f_pos f + 1\<rparr>) s3"
  have "fd_putc STDOUT_FILENO c s = Some ?s"
    using f w o(3) by (simp add: fd_putc_def vfs_write_def e advance_def)
  moreover have "con (vterm ?s) = t" "serial_out ?s = serial_out s @ [c]" by (simp_all add: set_file_def s3_def s2_def s1_def)
  moreover have "std_streams ?s"
  proof -
    have "stream ?s fd ops = stream s3 fd ops" for fd ops by (rule advance_stream(2) [OF o(3)])
    moreover have "stream s3 fd ops = stream s2 fd ops" for fd ops unfolding s3_def by (rule advance_stream(2)) (simp add: o g)
    moreover have "stream s2 fd ops = stream s fd ops" for fd ops by (simp add: stream_def e o)
    ultimately show ?thesis using st by (simp add: std_streams_def)
  qed
  ultimately show ?thesis using t by auto
qed

lemma stdout_text:
  assumes "std_streams s" and "con_ok (con (vterm s))"
  shows "\<exists>s'. output_string (fd_putc STDOUT_FILENO) t s = Some s' \<and> con_puts t (con (vterm s)) = Some (con (vterm s')) \<and> con_ok (con (vterm s'))
    \<and> serial_out s' = serial_out s @ t \<and> std_streams s'"
  using assms
proof (induction t arbitrary: s)
  case (Cons c t)
  obtain s1 where s1: "fd_putc STDOUT_FILENO c s = Some s1" "con_putc c (con (vterm s)) = Some (con (vterm s1))" "con_ok (con (vterm s1))"
    "serial_out s1 = serial_out s @ [c]" "std_streams s1" using stdout_byte [OF Cons.prems] by blast
  then show ?case using Cons.IH [OF s1(5,3)] by (auto simp: output_string_rec)
qed (simp add: output_string_rec)

text \<open>After \<^verbatim>\<open>vfs_init_stdio\<close> with enough memory the streams are there.\<close>

lemma init_std_streams:
  assumes "\<And>k. k < 4 \<Longrightarrow> mem k"
  shows "\<exists>s. vfs_init_stdio junk (vfs_boot devs mem dmem stl t) = Some s \<and> std_streams s \<and> vterm s = t \<and> serial_out s = []"
  using assms [of 0] assms [of 1] assms [of 2] assms [of 3]
  by (simp add: vfs_init_stdio_def stdio_file_def valloc_def vfs_boot_def set_file_def std_streams_def stream_def fd_file_def
      STDOUT_FILENO_def STDDEBUG_FILENO_def MAX_FD_def writable_def O_ACCMODE_def O_WRONLY_def O_RDWR_def numeral_2_eq_2 numeral_3_eq_3)

text \<open>
  C25. \<^verbatim>\<open>kprintf\<close> prints.  With the standard streams set up and a well-formed console, \<^verbatim>\<open>kprintf\<close> returns for every format and
  arguments that fit it; the screen afterwards is the one that writing the formatted text to the console gives, escape
  sequences and scrolling included, the same text has been sent to the debug port, byte by byte, and streams and console
  are again in order.
\<close>

theorem kprintf_prints:
  assumes "std_streams s" and "con_ok (con (vterm s))" and "formatted fmt args = Some t"
  shows "\<exists>s'. kprintf fmt args s = Some s' \<and> con_puts t (con (vterm s)) = Some (con (vterm s')) \<and> serial_out s' = serial_out s @ t
    \<and> std_streams s' \<and> con_ok (con (vterm s'))"
  using stdout_text [OF assms(1,2), of t] by (auto simp: kprintf_def kvfprintf_text [OF assms(3)])

theorem kprintf_prints_witness:
  "\<exists>s s'. vfs_init_stdio (\<lambda>_. (0, 0)) (vfs_boot [] (\<lambda>_. True) (\<lambda>_. True) (\<lambda>_. 0) tty_demo) = Some s
     \<and> kprintf [0x25, 0x64] [Arg32 (- 7)] s = Some s' \<and> serial_out s' = [0x2D, 0x37] \<and> con_puts [0x2D, 0x37] console_boot = Some (con (vterm s'))"
proof -
  obtain s where s: "vfs_init_stdio (\<lambda>_. (0, 0)) (vfs_boot [] (\<lambda>_. True) (\<lambda>_. True) (\<lambda>_. 0) tty_demo) = Some s" "std_streams s"
    "vterm s = tty_demo" "serial_out s = []"
    using init_std_streams [of "\<lambda>_. True"] by metis
  have "decimal (- 7) = [0x2D, 0x37]" by (simp add: decimal_def unsigned_digits.simps g_hex_chars_def)
  then have f: "formatted [0x25, 0x64] [Arg32 (- 7)] = Some [0x2D, 0x37]" using formatted_d by metis
  have c: "con (vterm s) = console_boot" by (simp add: s(3) tty_demo_def)
  have ok: "con_ok (con (vterm s))" unfolding c by (simp add: con_ok_def console_boot_def)
  show ?thesis using kprintf_prints [OF s(2) ok f] s c by auto
qed

subsection \<open>The life of a descriptor\<close>

lemma alloc_fd_lowest:
  assumes "\<exists>i < MAX_FD. g_fd_table s i = 0"
  obtains i where "i < MAX_FD" "g_fd_table s i = 0" "\<And>j. j < i \<Longrightarrow> g_fd_table s j \<noteq> 0"
    "alloc_fd p s = (int i, s\<lparr>g_fd_table := (g_fd_table s)(i := p)\<rparr>)"
proof (cases "List.find (\<lambda>i. g_fd_table s i = 0) [0..<MAX_FD]")
  case None
  then show ?thesis using assms by (auto simp: find_None_iff)
next
  case (Some i)
  then have "i < MAX_FD" "g_fd_table s i = 0" "\<And>j. j < i \<Longrightarrow> g_fd_table s j \<noteq> 0" by (auto simp: find_upt_Some)
  then show ?thesis using that Some by (simp add: alloc_fd_def)
qed

lemma open_run:
  assumes m: "on_myfs s sb fs n" and v: "vnodes s q = Some v" "super_block v = sb" "v_ino v = i_ino n"
    and b: "super_blocks s sb = Some b" "sb_f_ops b = myfs_f_ops"
    and mem: "vmem_ok s (vallocs s)" and free: "\<exists>i < MAX_FD. g_fd_table s i = 0"
  obtains i s1 fs' n' where "vfs_bind_vnode_to_fd q flags s = Some (int i, s1)" "on_myfs s1 sb fs' n'" "i_ino n' = i_ino n" "i_size n' = i_size n"
    "i < MAX_FD" "g_fd_table s i = 0" "\<And>j. j < i \<Longrightarrow> g_fd_table s j \<noteq> 0"
    "g_fd_table s1 = (g_fd_table s)(i := vallocs s + 4)" "vnodes s1 = vnodes s" "super_blocks s1 sb = Some (b\<lparr>fs_private := Some fs'\<rparr>)"
    "open_files s1 = (open_files s)(vallocs s + 4 \<mapsto> \<lparr>f_vnode = q, f_ops = myfs_f_ops, f_pos = 0, f_flags = flags, f_refcount = 1\<rparr>)"
    "\<And>a. a < unat (i_size n) \<Longrightarrow> file_byte fs' n' a = file_byte fs n a"
proof -
  let ?s = "s\<lparr>vallocs := vallocs s + 1\<rparr>" and ?p = "vallocs s + 4"
  let ?f = "\<lparr>f_vnode = q, f_ops = myfs_f_ops, f_pos = 0, f_flags = flags, f_refcount = 1\<rparr>"
  have mf: "mounted_fs ?s sb fs" "fs_ok fs" "closed_file fs n" "cache_room fs"
    using m by (simp_all add: on_myfs_def mounted_upd)
  obtain h fs' n' where c: "myfs_iget (i_ino n) fs = Some (Suc (allocs fs), h)" "myfs_iput (Suc (allocs fs)) h = Some fs'"
    "fs_ok fs'" "closed_file fs' n'" "cache_room fs'" "i_ino n' = i_ino n" "i_size n' = i_size n"
    "\<And>a. a < unat (i_size n) \<Longrightarrow> file_byte fs' n' a = file_byte fs n a"
    by (rule touch_cycle [OF mf(2-4)]) blast
  define op where "op = (\<lambda>fs. do { (p, fs) \<leftarrow> myfs_iget (i_ino n) fs; if p = 0 then Some (- 1, fs) else do { fs \<leftarrow> myfs_iput p fs; Some (0 :: int, fs) } })"
  have "op fs = Some (0, fs')" using c(1,2) by (simp add: op_def)
  then obtain t where t: "with_fs sb op ?s = Some (0, t)" "mounted_fs t sb fs'" "same_files ?s t"
    "\<And>b. super_blocks ?s sb = Some b \<Longrightarrow> super_blocks t sb = Some (b\<lparr>fs_private := Some fs'\<rparr>)"
    by (rule with_fs_run [OF mf(1)]) blast
  have ts: "open_files t = open_files s" "vnodes t = vnodes s" "g_fd_table t = g_fd_table s" using t(3) by (simp_all add: same_files_def)
  have tab: "g_fd_table (set_file ?p ?f t) = g_fd_table s" by (simp add: set_file_def ts)
  obtain i where i: "i < MAX_FD" "g_fd_table s i = 0" "\<And>j. j < i \<Longrightarrow> g_fd_table s j \<noteq> 0"
    "alloc_fd ?p (set_file ?p ?f t) = (int i, (set_file ?p ?f t)\<lparr>g_fd_table := (g_fd_table s)(i := ?p)\<rparr>)"
    using alloc_fd_lowest [of "set_file ?p ?f t" ?p] free unfolding tab by blast
  let ?s1 = "(set_file ?p ?f t)\<lparr>g_fd_table := (g_fd_table s)(i := ?p)\<rparr>"
  have run: "vfs_bind_vnode_to_fd q flags s = Some (int i, ?s1)"
    using mem v b t(1) i(4) by (simp add: vfs_bind_vnode_to_fd_def valloc_def myfsd_f_open_def op_def)
  have on: "on_myfs ?s1 sb fs' n'" using c t(2) by (simp add: on_myfs_def mounted_upd)
  have sb1: "super_blocks ?s1 sb = Some (b\<lparr>fs_private := Some fs'\<rparr>)" using t(4) b(1) by (simp add: set_file_def)
  show thesis
    by (rule that [OF run on c(6,7) i(1-3) _ _ sb1]) (simp_all add: set_file_def ts c(8))
qed

lemma close_run:
  assumes m: "on_myfs s sb fs n" and v: "vnodes s q = Some v" "super_block v = sb" "v_ino v = i_ino n" "q \<noteq> 0"
    and b: "super_blocks s sb = Some b" "sb_v_ops b = Some ops"
    and fd: "i < MAX_FD" "g_fd_table s i = p" "p \<noteq> 0"
    and f: "open_files s p = Some f" "f_vnode f = q" "f_ops f = myfs_f_ops" "f_refcount f = 1"
  obtains s2 where "vfs_close (int i) s = Some (0, s2)" "g_fd_table s2 = (g_fd_table s)(i := 0)" "open_files s2 = (open_files s)(p := None)"
    "vnodes s2 = (vnodes s)(q := if v_refcount v = 1 then None else Some (v\<lparr>v_refcount := v_refcount v - 1\<rparr>))"
proof -
  have mf: "mounted_fs s sb fs" "fs_ok fs" "closed_file fs n" "cache_room fs" using m by (simp_all add: on_myfs_def)
  obtain fs' where c: "myfs_disk_inode_write (i_ino n) fs = Some (0, fs')" by (rule touch_cycle [OF mf(2-4)]) blast
  define op where "op = (\<lambda>fs. do { (_, fs) \<leftarrow> myfs_disk_inode_write (i_ino n) fs; Some (0 :: int, fs) })"
  have "op fs = Some (0, fs')" using c by (simp add: op_def)
  then obtain t where t: "with_fs sb op s = Some (0, t)" "mounted_fs t sb fs'" "same_files s t"
    "\<And>b. super_blocks s sb = Some b \<Longrightarrow> super_blocks t sb = Some (b\<lparr>fs_private := Some fs'\<rparr>)"
    by (rule with_fs_run [OF mf(1)]) blast
  have ts: "open_files t = open_files s" "vnodes t = vnodes s" "g_fd_table t = g_fd_table s" using t(3) by (simp_all add: same_files_def)
  have ff: "fd_file (int i) s = p" "fd_file (int i) t = p" using fd by (simp_all add: fd_file_def ts)
  have cl: "myfsd_f_close p s = Some (0, t)" using f v t(1) by (simp add: myfsd_f_close_def op_def)
  let ?u = "set_file p (f\<lparr>f_refcount := 0\<rparr>) (t\<lparr>g_fd_table := (g_fd_table s)(i := 0)\<rparr>)"
  have "\<exists>w. vfs_vnode_put q ?u = Some w \<and> g_fd_table w = (g_fd_table s)(i := 0) \<and> open_files w = (open_files s)(p \<mapsto> f\<lparr>f_refcount := 0\<rparr>)
    \<and> vnodes w = (vnodes s)(q := if v_refcount v = 1 then None else Some (v\<lparr>v_refcount := v_refcount v - 1\<rparr>))"
    using v t(4) [OF b(1)] b(2) by (simp add: vfs_vnode_put_def set_vnode_def set_file_def ts)
  then obtain w where w: "vfs_vnode_put q ?u = Some w" "g_fd_table w = (g_fd_table s)(i := 0)"
    "open_files w = (open_files s)(p \<mapsto> f\<lparr>f_refcount := 0\<rparr>)"
    "vnodes w = (vnodes s)(q := if v_refcount v = 1 then None else Some (v\<lparr>v_refcount := v_refcount v - 1\<rparr>))" by blast
  let ?s = "w\<lparr>open_files := (open_files w)(p := None)\<rparr>"
  have "free_fd (int i) t = Some ?s" using ff fd f w(1) by (simp add: free_fd_def ts Let_def)
  then have "vfs_close (int i) s = Some (0, ?s)" using ff fd f cl by (simp add: vfs_close_def)
  then show thesis by (rule that) (use w in \<open>simp_all add: fun_eq_iff\<close>)
qed

text \<open>
  C21. The life of a descriptor.  Binding the vnode of a stored MyFS file to a descriptor, which is what opening ends with,
  takes the lowest free number, leaves the other descriptors alone, and gives a descriptor at the start of the file,
  through which the contents of the file can be read.  Closing it frees the number and the file object, returns 0, and
  drops one reference to the vnode, which is freed with its last reference.
\<close>

theorem descriptor_lifecycle:
  assumes "on_myfs s sb fs n" and "vnodes s q = Some v" and "super_block v = sb" and "v_ino v = i_ino n" and "q \<noteq> 0"
    and "super_blocks s sb = Some b" and "sb_f_ops b = myfs_f_ops" and "sb_v_ops b = Some ops"
    and "vmem_ok s (vallocs s)" and "open_files s (vallocs s + 4) = None" and "\<exists>i < MAX_FD. g_fd_table s i = 0"
  shows "\<exists>i s1 s2. vfs_bind_vnode_to_fd q flags s = Some (int i, s1)
    \<and> i < MAX_FD \<and> g_fd_table s i = 0 \<and> (\<forall>j < i. g_fd_table s j \<noteq> 0) \<and> (\<forall>j. j \<noteq> i \<longrightarrow> g_fd_table s1 j = g_fd_table s j)
    \<and> (i_size n \<noteq> 0 \<longrightarrow> (\<forall>out. \<exists>s'. sys_read (int i) out (i_size n) s1
          = Some (Returned (int (unat (i_size n))) (mem_copy out 0 (file_byte fs n) 0 (unat (i_size n))), s')))
    \<and> vfs_close (int i) s1 = Some (0, s2) \<and> g_fd_table s2 = g_fd_table s \<and> open_files s2 = open_files s
    \<and> vnodes s2 = (vnodes s)(q := if v_refcount v = 1 then None else Some (v\<lparr>v_refcount := v_refcount v - 1\<rparr>))"
proof -
  let ?p = "vallocs s + 4"
  obtain i s1 fs' n' where o: "vfs_bind_vnode_to_fd q flags s = Some (int i, s1)" "on_myfs s1 sb fs' n'" "i_ino n' = i_ino n" "i_size n' = i_size n"
    "i < MAX_FD" "g_fd_table s i = 0" "\<And>j. j < i \<Longrightarrow> g_fd_table s j \<noteq> 0"
    "g_fd_table s1 = (g_fd_table s)(i := ?p)" "vnodes s1 = vnodes s" "super_blocks s1 sb = Some (b\<lparr>fs_private := Some fs'\<rparr>)"
    "open_files s1 = (open_files s)(?p \<mapsto> \<lparr>f_vnode = q, f_ops = myfs_f_ops, f_pos = 0, f_flags = flags, f_refcount = 1\<rparr>)"
    and by': "\<And>a. a < unat (i_size n) \<Longrightarrow> file_byte fs' n' a = file_byte fs n a"
    by (rule open_run [OF assms(1-4,6,7,9,11)]) blast
  have fd: "myfs_fd s1 (int i) 0 sb (i_ino n')" using o assms(2-4) by (simp add: myfs_fd_def fd_file_def)
  have "mem_copy out 0 (file_byte fs' n') 0 (unat (i_size n)) = mem_copy out 0 (file_byte fs n) 0 (unat (i_size n))" for out
    using by' by (auto simp: mem_copy_def fun_eq_iff)
  then have rd: "\<exists>s'. sys_read (int i) out (i_size n) s1
      = Some (Returned (int (unat (i_size n))) (mem_copy out 0 (file_byte fs n) 0 (unat (i_size n))), s')" if "i_size n \<noteq> 0" for out
    using read_fd [OF fd o(2), of "i_size n" out] that o(4) by simp
  have v1: "vnodes s1 q = Some v" "v_ino v = i_ino n'" and g1: "g_fd_table s1 i = ?p" and p0: "?p \<noteq> 0"
    and b1: "sb_v_ops (b\<lparr>fs_private := Some fs'\<rparr>) = Some ops" using assms o by simp_all
  have f1: "open_files s1 ?p = Some \<lparr>f_vnode = q, f_ops = myfs_f_ops, f_pos = 0, f_flags = flags, f_refcount = 1\<rparr>" using o(11) by simp
  obtain s2 where c: "vfs_close (int i) s1 = Some (0, s2)" "g_fd_table s2 = (g_fd_table s1)(i := 0)" "open_files s2 = (open_files s1)(?p := None)"
    "vnodes s2 = (vnodes s1)(q := if v_refcount v = 1 then None else Some (v\<lparr>v_refcount := v_refcount v - 1\<rparr>))"
    by (rule close_run [OF o(2) v1(1) assms(3) v1(2) assms(5) o(10) b1 o(5) g1 p0 f1]) auto
  have "g_fd_table s2 = g_fd_table s" "open_files s2 = open_files s"
    using o(6) assms(10) by (simp_all add: c o(8,11) fun_eq_iff)
  then show ?thesis using o rd c by (intro exI [of _ i] exI [of _ s1] exI [of _ s2]) simp
qed

theorem descriptor_lifecycle_witness:
  "\<exists>s1 s2. vfs_bind_vnode_to_fd 11 0 vfs_demo = Some (0, s1) \<and> vfs_close 0 s1 = Some (0, s2) \<and> g_fd_table s2 = g_fd_table vfs_demo \<and> vnodes s2 11 = None"
proof -
  let ?v = "\<lparr>super_block = 10, v_size = 100, v_mode = S_IFREG, device_handle = 0, v_ino = 5, v_refcount = 1\<rparr>"
  have m: "on_myfs vfs_demo 10 fs_demo_stored file_demo"
    using fs_demo_stored_ok by (simp add: on_myfs_def mounted_fs_def sb_disk_def vfs_demo_def vfs_boot_def)
  have v: "vnodes vfs_demo 11 = Some ?v" "super_block ?v = 10" "v_ino ?v = i_ino file_demo" "(11 :: nat) \<noteq> 0"
    by (simp_all add: vfs_demo_def file_demo_def)
  obtain b where b: "super_blocks vfs_demo 10 = Some b" "sb_f_ops b = myfs_f_ops" "sb_v_ops b = Some myfs_vnode_ops"
    by (simp add: vfs_demo_def)
  have r: "vmem_ok vfs_demo (vallocs vfs_demo)" "open_files vfs_demo (vallocs vfs_demo + 4) = None"
    "g_fd_table vfs_demo 0 = 0" by (simp_all add: vfs_demo_def vfs_boot_def)
  then have free: "\<exists>i < MAX_FD. g_fd_table vfs_demo i = 0" by (intro exI [of _ 0]) (simp add: MAX_FD_def)
  obtain i s1 s2 where o: "vfs_bind_vnode_to_fd 11 0 vfs_demo = Some (int i, s1)" "\<forall>j < i. g_fd_table vfs_demo j \<noteq> 0"
    "vfs_close (int i) s1 = Some (0, s2)" "g_fd_table s2 = g_fd_table vfs_demo"
    "vnodes s2 = (vnodes vfs_demo)(11 := if v_refcount ?v = 1 then None else Some (?v\<lparr>v_refcount := v_refcount ?v - 1\<rparr>))"
    using descriptor_lifecycle [OF m v b r(1,2) free, of 0] by blast
  have "i = 0" using o(2) r(3) by (cases i) auto
  then show ?thesis using o by (intro exI [of _ s1] exI [of _ s2]) simp
qed

end
