(* ===== verification/Net.thy ===== *)
theory Net
  imports KPrelude Errno "HOL-Library.Monad_Syntax"
begin

text \<open>
  The network stack: the data path of the RTL8139 driver
  (\<^verbatim>\<open>drivers/rtl8139/rtl8139.c\<close>), the ARP cache and messages (\<^verbatim>\<open>net/arp.c\<close>), ICMP echo
  (\<^verbatim>\<open>net/icmp.c\<close>) and the raw sockets (\<^verbatim>\<open>net/net_syscalls.c\<close>).

  A received frame is the driver's 2048-byte copy buffer, a byte function; a
  frame the kernel builds is the list of its bytes, field after field, since
  the header structures are packed. \<^verbatim>\<open>sent\<close> lists the frames handed to the card,
  each with its transmit descriptor, as the transmit buffer holds it when its
  length is written to the descriptor. \<^verbatim>\<open>capr\<close> lists the read positions reported
  to the card. Writing outside a buffer is the value \<^verbatim>\<open>None\<close>. What other threads
  and interrupts do while a system call yields is a parameter.
\<close>

section \<open>Byte order\<close>

definition ntohs :: "u16 \<Rightarrow> u16" where
  "ntohs netshort = (drop_bit 8 netshort OR push_bit 8 netshort)"

definition htons :: "u16 \<Rightarrow> u16" where
  "htons hostshort = (drop_bit 8 hostshort OR push_bit 8 hostshort)"

definition le16 :: "u16 \<Rightarrow> u8 list" where
  "le16 v = [ucast v, ucast (drop_bit 8 v)]"

definition get16 :: "bytes \<Rightarrow> nat \<Rightarrow> u16" where
  "get16 b a = ucast (b a) OR push_bit 8 (ucast (b (a + 1)))"

definition mem_list :: "bytes \<Rightarrow> nat \<Rightarrow> nat \<Rightarrow> u8 list" where
  "mem_list b a n = map (\<lambda>i. b (a + i)) [0..<n]"

section \<open>State\<close>

definition ETHER_HEADER_SIZE :: nat where
  "ETHER_HEADER_SIZE = 14"

definition IPV4_HEADER_SIZE :: nat where
  "IPV4_HEADER_SIZE = 20"

definition ICMP_HEADER_SIZE :: nat where
  "ICMP_HEADER_SIZE = 8"

definition MAX_ETHER_PACKET_SIZE :: nat where
  "MAX_ETHER_PACKET_SIZE = 1500"

definition ARP_CACHE_SIZE :: nat where
  "ARP_CACHE_SIZE = 16"

definition ARP_PACKET_SIZE :: nat where
  "ARP_PACKET_SIZE = 42"

definition ARP_OP_REQUEST :: u16 where
  "ARP_OP_REQUEST = 1"

definition ARP_OP_REPLY :: u16 where
  "ARP_OP_REPLY = 2"

definition ETHER_TYPE_IPV4 :: u16 where
  "ETHER_TYPE_IPV4 = 0x0800"

definition ETHER_TYPE_ARP :: u16 where
  "ETHER_TYPE_ARP = 0x0806"

definition DEFAULT_TTL :: u8 where
  "DEFAULT_TTL = 128"

definition ICMP_PROTOCOL :: u8 where
  "ICMP_PROTOCOL = 1"

definition ICMP_ECHO_REPLY :: u8 where
  "ICMP_ECHO_REPLY = 0"

definition ICMP_ECHO_REQUEST :: u8 where
  "ICMP_ECHO_REQUEST = 8"

definition OUR_PING_IDENTIFIER :: u16 where
  "OUR_PING_IDENTIFIER = 0x4321"

definition MAX_SOCKETS :: nat where
  "MAX_SOCKETS = 16"

definition SOCKET_RX_BUF_SIZE :: nat where
  "SOCKET_RX_BUF_SIZE = 2048"

definition SOCKET_RX_QUEUE :: nat where
  "SOCKET_RX_QUEUE = 4"

definition SOCKET_FD_BASE :: int where
  "SOCKET_FD_BASE = 64"

definition RECVFROM_TIMEOUT_TICKS :: u32 where
  "RECVFROM_TIMEOUT_TICKS = 3000"

definition RTL8139_RX_BUFFER_SIZE :: nat where
  "RTL8139_RX_BUFFER_SIZE = 8192 + 16"

definition RX_COPY_BUFFER_SIZE :: nat where
  "RX_COPY_BUFFER_SIZE = 2048"

definition RTL8139_MAX_TRANSMIT_SIZE :: nat where
  "RTL8139_MAX_TRANSMIT_SIZE = 1792"

definition ISR_ROK :: u16 where
  "ISR_ROK = 1"

definition ENFILE :: int where
  "ENFILE = 23"

definition EAFNOSUPPORT :: int where
  "EAFNOSUPPORT = 124"

lemmas net_consts = ETHER_HEADER_SIZE_def IPV4_HEADER_SIZE_def ICMP_HEADER_SIZE_def MAX_ETHER_PACKET_SIZE_def
  ARP_CACHE_SIZE_def ARP_PACKET_SIZE_def ARP_OP_REQUEST_def ARP_OP_REPLY_def ETHER_TYPE_IPV4_def
  ETHER_TYPE_ARP_def DEFAULT_TTL_def ICMP_PROTOCOL_def ICMP_ECHO_REPLY_def ICMP_ECHO_REQUEST_def
  OUR_PING_IDENTIFIER_def MAX_SOCKETS_def SOCKET_RX_BUF_SIZE_def SOCKET_RX_QUEUE_def SOCKET_FD_BASE_def
  RECVFROM_TIMEOUT_TICKS_def RTL8139_RX_BUFFER_SIZE_def RX_COPY_BUFFER_SIZE_def
  RTL8139_MAX_TRANSMIT_SIZE_def ISR_ROK_def ENFILE_def EAFNOSUPPORT_def

record arp_cache_entry_t =
  ae_ip :: "u8 list"
  ae_mac :: "u8 list"
  ae_valid :: bool

record rx_packet_t =
  rx_data :: bytes
  rx_len :: u32
  arrived_ticks :: u32

record socket_t =
  in_use :: bool
  bound_protocol :: u16
  rx_queue :: "rx_packet_t list"
  rx_head :: nat
  rx_tail :: nat
  rx_count :: nat

record net =
  g_arp_cache :: "arp_cache_entry_t list"
  g_arp_cache_next :: nat
  g_sockets :: "socket_t list"
  rtl8139_mac :: "u8 list"
  my_ip_address :: "u8 list"
  rx_ring :: bytes
  received_packet_buffer :: bytes
  received_packet_length :: u32
  packet_ready :: bool
  current_tx_desc :: nat
  current_offset :: u16
  sent :: "(nat \<times> u8 list) list"
  capr :: "u16 list"
  net_ticks :: u32

definition zero_packet :: rx_packet_t where
  "zero_packet = \<lparr> rx_data = (\<lambda>_. 0), rx_len = 0, arrived_ticks = 0 \<rparr>"

definition zero_socket :: socket_t where
  "zero_socket = \<lparr> in_use = False, bound_protocol = 0, rx_queue = replicate SOCKET_RX_QUEUE zero_packet,
     rx_head = 0, rx_tail = 0, rx_count = 0 \<rparr>"

definition zero_entry :: arp_cache_entry_t where
  "zero_entry = \<lparr> ae_ip = replicate 4 0, ae_mac = replicate 6 0, ae_valid = False \<rparr>"

definition net_start :: "u8 list \<Rightarrow> net" where
  "net_start mac = \<lparr> g_arp_cache = replicate ARP_CACHE_SIZE zero_entry, g_arp_cache_next = 0,
     g_sockets = replicate MAX_SOCKETS zero_socket, rtl8139_mac = mac, my_ip_address = [10, 0, 0, 100],
     rx_ring = (\<lambda>_. 0), received_packet_buffer = (\<lambda>_. 0), received_packet_length = 0,
     packet_ready = False, current_tx_desc = 0, current_offset = 0, sent = [], capr = [], net_ticks = 0 \<rparr>"

section \<open>Sending\<close>

definition rtl8139_send_packet :: "u8 list \<Rightarrow> net \<Rightarrow> net" where
  "rtl8139_send_packet data s =
     (if length data = 0 \<or> length data > RTL8139_MAX_TRANSMIT_SIZE then s
      else s\<lparr>sent := sent s @ [(current_tx_desc s, data)],
             current_tx_desc := (current_tx_desc s + 1) mod 4\<rparr>)"

section \<open>ARP\<close>

definition arp_entry_for :: "u8 list \<Rightarrow> arp_cache_entry_t \<Rightarrow> bool" where
  "arp_entry_for ip e \<longleftrightarrow> ae_valid e \<and> ae_ip e = ip"

definition arp_cache_lookup :: "u8 list \<Rightarrow> net \<Rightarrow> u8 list option" where
  "arp_cache_lookup ip s =
     (case List.find (\<lambda>i. arp_entry_for ip (g_arp_cache s ! i)) [0..<ARP_CACHE_SIZE] of
        Some i \<Rightarrow> Some (ae_mac (g_arp_cache s ! i))
      | None \<Rightarrow> None)"

definition arp_cache_insert :: "u8 list \<Rightarrow> u8 list \<Rightarrow> net \<Rightarrow> net" where
  "arp_cache_insert ip mac s =
     (case List.find (\<lambda>i. arp_entry_for ip (g_arp_cache s ! i)) [0..<ARP_CACHE_SIZE] of
        Some i \<Rightarrow> s\<lparr>g_arp_cache := (g_arp_cache s)[i := (g_arp_cache s ! i)\<lparr>ae_mac := mac\<rparr>]\<rparr>
      | None \<Rightarrow>
          s\<lparr>g_arp_cache := (g_arp_cache s)
               [g_arp_cache_next s := \<lparr> ae_ip = ip, ae_mac = mac, ae_valid = True \<rparr>],
            g_arp_cache_next := (g_arp_cache_next s + 1) mod ARP_CACHE_SIZE\<rparr>)"

text \<open>
  An ARP body is a position in a frame. \<^verbatim>\<open>arp_operation\<close>, \<^verbatim>\<open>arp_src_mac\<close>,
  \<^verbatim>\<open>arp_src_ip\<close> and \<^verbatim>\<open>arp_dst_ip\<close> read the fields of \<^verbatim>\<open>arp_packet_t\<close>.
\<close>

definition arp_operation :: "bytes \<Rightarrow> nat \<Rightarrow> u16" where
  "arp_operation p arp = get16 p (arp + 6)"

definition arp_src_mac :: "bytes \<Rightarrow> nat \<Rightarrow> u8 list" where
  "arp_src_mac p arp = mem_list p (arp + 8) 6"

definition arp_src_ip :: "bytes \<Rightarrow> nat \<Rightarrow> u8 list" where
  "arp_src_ip p arp = mem_list p (arp + 14) 4"

definition arp_dst_ip :: "bytes \<Rightarrow> nat \<Rightarrow> u8 list" where
  "arp_dst_ip p arp = mem_list p (arp + 24) 4"

definition check_arp_is_for_us :: "bytes \<Rightarrow> nat \<Rightarrow> u8 list \<Rightarrow> bool" where
  "check_arp_is_for_us p arp our_ip \<longleftrightarrow>
     ntohs (arp_operation p arp) = ARP_OP_REQUEST \<and> arp_dst_ip p arp = our_ip"

definition arp_body :: "u16 \<Rightarrow> u8 list \<Rightarrow> u8 list \<Rightarrow> u8 list \<Rightarrow> u8 list \<Rightarrow> u8 list" where
  "arp_body operation src_mac src_ip dst_mac dst_ip =
     le16 (htons 1) @ le16 (htons ETHER_TYPE_IPV4) @ [6, 4] @ le16 (htons operation) @
     src_mac @ src_ip @ dst_mac @ dst_ip"

definition arp_send_reply :: "bytes \<Rightarrow> nat \<Rightarrow> u8 list \<Rightarrow> u8 list \<Rightarrow> net \<Rightarrow> net" where
  "arp_send_reply p request our_mac our_ip s = rtl8139_send_packet
     (arp_src_mac p request @ our_mac @ [0x08, 0x06] @
      arp_body ARP_OP_REPLY our_mac our_ip (arp_src_mac p request) (arp_src_ip p request)) s"

definition arp_send_request :: "u8 list \<Rightarrow> u8 list \<Rightarrow> u8 list \<Rightarrow> net \<Rightarrow> net" where
  "arp_send_request target_ip our_mac our_ip s = rtl8139_send_packet
     (replicate 6 0xFF @ our_mac @ [0x08, 0x06] @
      arp_body ARP_OP_REQUEST our_mac our_ip (replicate 6 0xFF) target_ip) s"

definition arp_is_reply :: "bytes \<Rightarrow> u32 \<Rightarrow> u8 list option" where
  "arp_is_reply packet_buffer len =
     (if unat len < ETHER_HEADER_SIZE + 28 then None
      else if (push_bit 8 (ucast (packet_buffer 12)) OR ucast (packet_buffer 13) :: u16) \<noteq> ETHER_TYPE_ARP
        then None
      else if ntohs (arp_operation packet_buffer ETHER_HEADER_SIZE) \<noteq> ARP_OP_REPLY then None
      else Some (arp_src_mac packet_buffer ETHER_HEADER_SIZE))"

fun arp_resolve_tries :: "(net \<Rightarrow> net) \<Rightarrow> u8 list \<Rightarrow> u8 list \<Rightarrow> u8 list \<Rightarrow> nat list \<Rightarrow> net \<Rightarrow> u8 list option \<times> net"
  where
  "arp_resolve_tries yield target_ip our_mac our_ip [] s = (None, s)"
| "arp_resolve_tries yield target_ip our_mac our_ip (tries # rest) s =
     (let s1 = (if tries mod 5 = 0 then arp_send_request target_ip our_mac our_ip s else s);
          s2 = yield s1
      in case arp_cache_lookup target_ip s2 of
           Some mac \<Rightarrow> (Some mac, s2)
         | None \<Rightarrow> arp_resolve_tries yield target_ip our_mac our_ip rest s2)"

definition arp_resolve :: "(net \<Rightarrow> net) \<Rightarrow> u8 list \<Rightarrow> u8 list \<Rightarrow> u8 list \<Rightarrow> net \<Rightarrow> u8 list option \<times> net" where
  "arp_resolve yield target_ip our_mac our_ip s =
     (case arp_cache_lookup target_ip s of
        Some mac \<Rightarrow> (Some mac, s)
      | None \<Rightarrow> arp_resolve_tries yield target_ip our_mac our_ip [0..<15] s)"

section \<open>ICMP\<close>

fun sum16 :: "u8 list \<Rightarrow> u32 \<Rightarrow> u32" where
  "sum16 (lo # hi # data) acc = sum16 data (acc + (ucast lo OR push_bit 8 (ucast hi)))"
| "sum16 [b] acc = acc + ucast b"
| "sum16 [] acc = acc"

lemma unat_halves:
  fixes acc :: u32
  shows "unat (drop_bit 16 acc) = unat acc div 65536" and "unat (acc AND 0xFFFF) = unat acc mod 65536"
proof -
  show "unat (drop_bit 16 acc) = unat acc div 65536" by (simp add: drop_bit_eq_div unat_div)
  have "acc AND 0xFFFF = acc mod 65536"
    using take_bit_eq_mask [of 16 acc] by (simp add: take_bit_eq_mod mask_eq_exp_minus_1)
  then show "unat (acc AND 0xFFFF) = unat acc mod 65536" by (simp add: unat_mod)
qed

lemma unat_fold_step:
  "unat ((acc AND 0xFFFF) + drop_bit 16 acc :: u32) = unat acc mod 65536 + unat acc div 65536"
proof -
  have "unat acc < 65536 * 65536" using unsigned_less [of acc] by simp
  then have "unat acc div 65536 < 65536" by (rule less_mult_imp_div_less)
  moreover have "unat acc mod 65536 < 65536" by simp
  ultimately show ?thesis by (simp add: unat_word_ariths unat_halves)
qed

lemma fold_carry_less:
  assumes "drop_bit 16 acc \<noteq> (0::u32)"
  shows "unat ((acc AND 0xFFFF) + drop_bit 16 acc) < unat acc"
proof -
  have "unat acc div 65536 \<noteq> 0" using assms unat_halves(1) [of acc] by (metis unsigned_eq_0_iff)
  moreover have "unat acc = unat acc div 65536 * 65536 + unat acc mod 65536" by simp
  ultimately show ?thesis unfolding unat_fold_step by linarith
qed

function fold_carry :: "u32 \<Rightarrow> u32" where
  "fold_carry acc = (if drop_bit 16 acc \<noteq> 0 then fold_carry ((acc AND 0xFFFF) + drop_bit 16 acc) else acc)"
  by auto
termination
  by (relation "measure unat") (auto intro: fold_carry_less)

declare fold_carry.simps [simp del]

definition calculate_checksum :: "u8 list \<Rightarrow> u16" where
  "calculate_checksum data = ucast (NOT (fold_carry (sum16 data 0)))"

definition ip_header_length_size :: "bytes \<Rightarrow> nat \<Rightarrow> nat" where
  "ip_header_length_size p ip = unat (p ip AND 0x0F) * 4"

definition icmp_is_ping_request :: "bytes \<Rightarrow> nat \<Rightarrow> u8 list \<Rightarrow> bool" where
  "icmp_is_ping_request p ip_header our_ip =
     (if mem_list p (ip_header + 16) 4 \<noteq> our_ip then False
      else if p (ip_header + 9) \<noteq> ICMP_PROTOCOL then False
      else let icmp = ip_header + ip_header_length_size p ip_header
           in p icmp = ICMP_ECHO_REQUEST \<and> p (icmp + 1) = 0)"

text \<open>
  The headers of an outgoing echo message, with the two checksum fields as
  arguments: the code stores 0 there, sums the header and stores the result.
\<close>

definition ipv4_header_bytes :: "u16 \<Rightarrow> u16 \<Rightarrow> u8 list \<Rightarrow> u8 list \<Rightarrow> u8 list" where
  "ipv4_header_bytes total_length header_checksum src_ip dst_ip =
     [0x45, 0] @ le16 (htons total_length) @ le16 (htons 0x1234) @ le16 0 @
     [DEFAULT_TTL, ICMP_PROTOCOL] @ le16 header_checksum @ src_ip @ dst_ip"

definition icmp_message :: "u8 \<Rightarrow> u16 \<Rightarrow> u8 list \<Rightarrow> u8 list \<Rightarrow> u8 list \<Rightarrow> u8 list" where
  "icmp_message type checksum identifier sequence data =
     [type, 0] @ le16 checksum @ identifier @ sequence @ data"

definition echo_frame :: "u8 list \<Rightarrow> u8 list \<Rightarrow> u16 \<Rightarrow> u8 list \<Rightarrow> u8 list \<Rightarrow> u8 \<Rightarrow> u8 list \<Rightarrow> u8 list \<Rightarrow> u8 list \<Rightarrow> u8 list" where
  "echo_frame dst_mac src_mac total_length src_ip dst_ip type identifier sequence data =
     dst_mac @ src_mac @ [0x08, 0x00] @
     ipv4_header_bytes total_length (calculate_checksum (ipv4_header_bytes total_length 0 src_ip dst_ip)) src_ip dst_ip @
     icmp_message type (calculate_checksum (icmp_message type 0 identifier sequence data))
       identifier sequence data"

text \<open>
  The reply buffer has \<^verbatim>\<open>MAX_ETHER_PACKET_SIZE\<close> bytes; the length of the copied
  data comes from the request's total length field. A copy that leaves the
  buffer, or a length below the two headers (the subtraction wraps), is \<^verbatim>\<open>None\<close>.
\<close>

definition icmp_send_ping_reply :: "bytes \<Rightarrow> u8 list \<Rightarrow> u8 list \<Rightarrow> net \<Rightarrow> net option" where
  "icmp_send_ping_reply packet_buffer our_mac our_ip s =
     (let ip_request = ETHER_HEADER_SIZE;
          hl = ip_header_length_size packet_buffer ip_request;
          icmp_request = ip_request + hl;
          ip_total_len = ntohs (get16 packet_buffer (ip_request + 2));
          icmp_total = (ucast ip_total_len :: u32) - of_nat hl;
          icmp_data_len = icmp_total - of_nat ICMP_HEADER_SIZE
      in if unat icmp_data_len > MAX_ETHER_PACKET_SIZE - (ETHER_HEADER_SIZE + IPV4_HEADER_SIZE + ICMP_HEADER_SIZE)
         then None
         else Some (rtl8139_send_packet
           (echo_frame (mem_list packet_buffer 6 6) our_mac
              (ucast (of_nat IPV4_HEADER_SIZE + icmp_total)) our_ip
              (mem_list packet_buffer (ip_request + 12) 4) ICMP_ECHO_REPLY
              (mem_list packet_buffer (icmp_request + 4) 2) (mem_list packet_buffer (icmp_request + 6) 2)
              (mem_list packet_buffer (icmp_request + ICMP_HEADER_SIZE) (unat icmp_data_len))) s))"

definition ping_data :: "u8 list" where
  "ping_data = map of_char ''Hello from myos!''"

definition icmp_send_echo_request :: "u8 list \<Rightarrow> u16 \<Rightarrow> u8 list \<Rightarrow> u8 list \<Rightarrow> u8 list \<Rightarrow> net \<Rightarrow> bool \<times> net" where
  "icmp_send_echo_request target_ip sequence our_mac our_ip dst_mac s =
     (if ETHER_HEADER_SIZE + IPV4_HEADER_SIZE + ICMP_HEADER_SIZE + length ping_data > MAX_ETHER_PACKET_SIZE
      then (False, s)
      else (True, rtl8139_send_packet
        (echo_frame dst_mac our_mac (of_nat (IPV4_HEADER_SIZE + ICMP_HEADER_SIZE + length ping_data))
           our_ip target_ip ICMP_ECHO_REQUEST (le16 (htons OUR_PING_IDENTIFIER)) (le16 (htons sequence))
           ping_data) s))"

definition icmp_is_echo_reply :: "bytes \<Rightarrow> nat \<Rightarrow> bool" where
  "icmp_is_echo_reply p ip_header =
     (if p (ip_header + 9) \<noteq> ICMP_PROTOCOL then False
      else let icmp = ip_header + ip_header_length_size p ip_header
           in p icmp = ICMP_ECHO_REPLY \<and> p (icmp + 1) = 0 \<and> ntohs (get16 p (icmp + 4)) = OUR_PING_IDENTIFIER)"

definition icmp_get_reply_sequence :: "bytes \<Rightarrow> nat \<Rightarrow> u16" where
  "icmp_get_reply_sequence p ip_header = ntohs (get16 p (ip_header + ip_header_length_size p ip_header + 6))"

definition icmp_get_reply_data_len :: "bytes \<Rightarrow> nat \<Rightarrow> u16" where
  "icmp_get_reply_data_len p ip_header =
     ntohs (get16 p (ip_header + 2)) - of_nat (ip_header_length_size p ip_header) - of_nat ICMP_HEADER_SIZE"

section \<open>Sockets\<close>

definition fd_to_socket :: "int \<Rightarrow> net \<Rightarrow> nat option" where
  "fd_to_socket fd s =
     (let idx = fd - SOCKET_FD_BASE
      in if idx < 0 \<or> idx \<ge> int MAX_SOCKETS then None
         else if \<not> in_use (g_sockets s ! nat idx) then None
         else Some (nat idx))"

definition arp_handle :: "bytes \<Rightarrow> net \<Rightarrow> bool \<times> net" where
  "arp_handle packet s =
     (let arp = ETHER_HEADER_SIZE;
          s1 = (if ntohs (arp_operation packet arp) = ARP_OP_REPLY
                then arp_cache_insert (arp_src_ip packet arp) (arp_src_mac packet arp) s else s)
      in if check_arp_is_for_us packet arp (my_ip_address s1)
         then (False, arp_send_reply packet arp (rtl8139_mac s1) (my_ip_address s1) s1)
         else (True, s1))"

definition icmp_handle :: "bytes \<Rightarrow> net \<Rightarrow> (bool \<times> net) option" where
  "icmp_handle packet s =
     (if icmp_is_ping_request packet ETHER_HEADER_SIZE (my_ip_address s)
      then do {
        s1 \<leftarrow> icmp_send_ping_reply packet (rtl8139_mac s) (my_ip_address s) s;
        Some (True, s1)
      }
      else Some (True, s))"

definition socket_enqueue :: "rx_packet_t \<Rightarrow> socket_t \<Rightarrow> socket_t" where
  "socket_enqueue pkt sk =
     (if rx_count sk \<ge> SOCKET_RX_QUEUE then sk
      else sk\<lparr>rx_queue := (rx_queue sk)[rx_tail sk := pkt],
              rx_tail := (rx_tail sk + 1) mod SOCKET_RX_QUEUE,
              rx_count := rx_count sk + 1\<rparr>)"

definition socket_slot :: "bytes \<Rightarrow> u32 \<Rightarrow> u32 \<Rightarrow> rx_packet_t \<Rightarrow> rx_packet_t" where
  "socket_slot packet len ticks slot =
     (let copy = (if unat len < SOCKET_RX_BUF_SIZE then len else of_nat SOCKET_RX_BUF_SIZE)
      in \<lparr> rx_data = mem_copy (rx_data slot) 0 packet 0 (unat copy), rx_len = copy, arrived_ticks = ticks \<rparr>)"

definition socket_deliver :: "bytes \<Rightarrow> u32 \<Rightarrow> u16 \<Rightarrow> u32 \<Rightarrow> socket_t \<Rightarrow> socket_t" where
  "socket_deliver packet len ethertype ticks sk =
     (if \<not> in_use sk then sk
      else if bound_protocol sk \<noteq> 0 \<and> bound_protocol sk \<noteq> ethertype then sk
      else socket_enqueue (socket_slot packet len ticks (rx_queue sk ! rx_tail sk)) sk)"

definition net_socket_deliver :: "bytes \<Rightarrow> u32 \<Rightarrow> net \<Rightarrow> net option" where
  "net_socket_deliver packet len s =
     (if unat len < ETHER_HEADER_SIZE then Some s
      else let ethertype = (push_bit 8 (ucast (packet 12)) OR ucast (packet 13) :: u16)
           in case arp_handle packet s of
                (False, s1) \<Rightarrow> Some s1
              | (True, s1) \<Rightarrow> do {
                  (go_on, s2) \<leftarrow> icmp_handle packet s1;
                  if \<not> go_on then Some s2
                  else Some (s2\<lparr>g_sockets :=
                    map (socket_deliver packet len ethertype (net_ticks s2)) (g_sockets s2)\<rparr>)
                })"

definition sys_socket :: "int \<Rightarrow> int \<Rightarrow> int \<Rightarrow> net \<Rightarrow> int \<times> net" where
  "sys_socket domain type protocol s =
     (if domain \<noteq> 1 \<or> type \<noteq> 1 then (- EAFNOSUPPORT, s)
      else case List.find (\<lambda>i. \<not> in_use (g_sockets s ! i)) [0..<MAX_SOCKETS] of
             Some i \<Rightarrow> (SOCKET_FD_BASE + int i,
               s\<lparr>g_sockets := (g_sockets s)[i := zero_socket\<lparr>in_use := True, bound_protocol := word_of_int protocol\<rparr>]\<rparr>)
           | None \<Rightarrow> (- ENFILE, s))"

definition sys_bind :: "int \<Rightarrow> bytes option \<Rightarrow> u32 \<Rightarrow> net \<Rightarrow> int \<times> net" where
  "sys_bind fd addr addrlen s =
     (case fd_to_socket fd s of
        None \<Rightarrow> (- EBADF, s)
      | Some i \<Rightarrow>
          (case addr of
             None \<Rightarrow> (- EINVAL, s)
           | Some ll \<Rightarrow>
               if addrlen < 10 then (- EINVAL, s)
               else (0, s\<lparr>g_sockets := (g_sockets s)[i := (g_sockets s ! i)\<lparr>bound_protocol := get16 ll 2\<rparr>]\<rparr>)))"

definition sys_sendto :: "int \<Rightarrow> bytes option \<Rightarrow> u32 \<Rightarrow> net \<Rightarrow> int \<times> net" where
  "sys_sendto fd buf len s =
     (case fd_to_socket fd s of
        None \<Rightarrow> (- EBADF, s)
      | Some _ \<Rightarrow>
          (case buf of
             None \<Rightarrow> (- EINVAL, s)
           | Some data \<Rightarrow>
               if len = 0 then (- EINVAL, s)
               else (sint len, rtl8139_send_packet (mem_list data 0 (unat len)) s)))"

definition socket_dequeue :: "socket_t \<Rightarrow> rx_packet_t \<times> socket_t" where
  "socket_dequeue sk =
     (rx_queue sk ! rx_head sk,
      sk\<lparr>rx_head := (rx_head sk + 1) mod SOCKET_RX_QUEUE, rx_count := rx_count sk - 1\<rparr>)"

text \<open>
  \<^verbatim>\<open>recv_wait\<close> is the waiting loop of \<^verbatim>\<open>sys_recvfrom\<close>: \<^verbatim>\<open>(False, s)\<close> is the time-out.
  The socket's fields are read again after every yield, through the pointer
  taken before the loop.
\<close>

partial_function (option) recv_wait :: "(net \<Rightarrow> net) \<Rightarrow> nat \<Rightarrow> u32 \<Rightarrow> net \<Rightarrow> (bool \<times> net) option" where
  "recv_wait yield i start s =
     (if rx_count (g_sockets s ! i) = 0
      then if net_ticks s - start \<ge> RECVFROM_TIMEOUT_TICKS then Some (False, s)
           else recv_wait yield i start (yield s)
      else Some (True, s))"

definition recv_addr :: "rx_packet_t \<Rightarrow> bytes \<Rightarrow> bytes" where
  "recv_addr slot ll =
     (let ts = arrived_ticks slot;
          family = [1, 0];
          protocol = le16 (push_bit 8 (ucast (rx_data slot 12)) OR ucast (rx_data slot 13));
          mac = [rx_data slot 6, rx_data slot 7, ucast (drop_bit 24 ts), ucast (drop_bit 16 ts),
                 ucast (drop_bit 8 ts), ucast ts]
      in mem_copy ll 0 (\<lambda>i. (family @ protocol @ mac) ! i) 0 10)"

text \<open>
  The result is the return value, the user's buffer, the user's address
  structure with its length, and the state.
\<close>

definition sys_recvfrom :: "(net \<Rightarrow> net) \<Rightarrow> int \<Rightarrow> bytes option \<Rightarrow> u32 \<Rightarrow> (bytes \<times> u32) option \<Rightarrow> net \<Rightarrow>
    (int \<times> bytes option \<times> (bytes \<times> u32) option \<times> net) option" where
  "sys_recvfrom yield fd buf len src_addr s =
     (case fd_to_socket fd s of
        None \<Rightarrow> Some (- EBADF, buf, src_addr, s)
      | Some i \<Rightarrow>
          (case buf of
             None \<Rightarrow> Some (- EINVAL, buf, src_addr, s)
           | Some data \<Rightarrow>
               if len = 0 then Some (- EINVAL, buf, src_addr, s)
               else do {
                 (arrived, s1) \<leftarrow> recv_wait yield i (net_ticks s) s;
                 if \<not> arrived then Some (-1, buf, src_addr, s1)
                 else let (slot, sk) = socket_dequeue (g_sockets s1 ! i);
                          copy = (if rx_len slot < len then rx_len slot else len);
                          src = (case src_addr of
                                   None \<Rightarrow> None
                                 | Some (ll, addrlen) \<Rightarrow>
                                     if addrlen \<ge> 10 then Some (recv_addr slot ll, 10) else Some (ll, addrlen))
                      in Some (sint copy, Some (mem_copy data 0 (rx_data slot) 0 (unat copy)), src,
                               s1\<lparr>g_sockets := (g_sockets s1)[i := sk]\<rparr>)
               }))"

definition sys_arp_resolve :: "(net \<Rightarrow> net) \<Rightarrow> u8 list option \<Rightarrow> bool \<Rightarrow> net \<Rightarrow> int \<times> u8 list option \<times> net" where
  "sys_arp_resolve yield target_ip out_given s =
     (case target_ip of
        None \<Rightarrow> (- EINVAL, None, s)
      | Some ip \<Rightarrow>
          if \<not> out_given then (- EINVAL, None, s)
          else case arp_resolve yield ip (rtl8139_mac s) (my_ip_address s) s of
                 (Some mac, s1) \<Rightarrow> (0, Some mac, s1)
               | (None, s1) \<Rightarrow> (-1, None, s1))"

definition sys_net_close :: "int \<Rightarrow> net \<Rightarrow> int \<times> net" where
  "sys_net_close fd s =
     (let idx = fd - SOCKET_FD_BASE
      in if idx < 0 \<or> idx \<ge> int MAX_SOCKETS then (- EBADF, s)
         else if \<not> in_use (g_sockets s ! nat idx) then (- EBADF, s)
         else (0, s\<lparr>g_sockets := (g_sockets s)[nat idx := zero_socket]\<rparr>))"

definition sys_net_close_all :: "net \<Rightarrow> net" where
  "sys_net_close_all s = s\<lparr>g_sockets := map (\<lambda>sk. if in_use sk then zero_socket else sk) (g_sockets s)\<rparr>"

section \<open>Receiving\<close>

text \<open>
  \<^verbatim>\<open>rx_buf\<close> is the card's receive ring. The two header words are read at the
  offset itself, the data bytes modulo the ring's size.
\<close>

definition rtl8139_receive_packet :: "bytes \<Rightarrow> nat \<Rightarrow> net \<Rightarrow> u32 \<times> bytes \<times> net" where
  "rtl8139_receive_packet buffer buffer_len s =
     (let rx_buf = rx_ring s;
          off = unat (current_offset s);
          len = get16 rx_buf (off + 2)
      in if len < 4 then (0, buffer, s)
         else let data_len = len - 4
              in if unat data_len > buffer_len then (0, buffer, s)
                 else let buffer1 = (\<lambda>i. if i < unat data_len then rx_buf ((off + 4 + i) mod RTL8139_RX_BUFFER_SIZE)
                                         else buffer i);
                          packet_size = ((4 + ucast len) + 3 :: u32) AND NOT 3;
                          offset1 = ucast ((ucast (current_offset s) + packet_size) mod of_nat RTL8139_RX_BUFFER_SIZE) :: u16
                      in (ucast data_len, buffer1,
                          s\<lparr>current_offset := offset1,
                            capr := capr s @ [(offset1 - 0x10) mod of_nat RTL8139_RX_BUFFER_SIZE]\<rparr>))"

definition rtl8139_isr_handler :: "u16 \<Rightarrow> net \<Rightarrow> net option" where
  "rtl8139_isr_handler status s =
     (if status AND ISR_ROK \<noteq> 0
      then case rtl8139_receive_packet (received_packet_buffer s) RX_COPY_BUFFER_SIZE s of
             (len, buffer, s1) \<Rightarrow>
               let s2 = s1\<lparr>received_packet_buffer := buffer, received_packet_length := len\<rparr>
               in if len > 0
                  then net_socket_deliver (received_packet_buffer s2) len (s2\<lparr>packet_ready := True\<rparr>)
                  else Some s2
      else Some s)"

definition rtl8139_get_packet :: "bytes \<Rightarrow> u32 \<Rightarrow> net \<Rightarrow> u32 \<times> bytes" where
  "rtl8139_get_packet buffer max_len s =
     (let len = (if received_packet_length s > max_len then max_len else received_packet_length s)
      in (len, mem_copy buffer 0 (received_packet_buffer s) 0 (unat len)))"

definition rtl8139_has_packet :: "net \<Rightarrow> bool" where
  "rtl8139_has_packet s = packet_ready s"

definition rtl8139_clear_packet :: "net \<Rightarrow> net" where
  "rtl8139_clear_packet s = s\<lparr>packet_ready := False, received_packet_length := 0\<rparr>"

end
