(* ===== verification/NetProps.thy ===== *)
theory NetProps
  imports Net CircularBuffer
begin

text \<open>
  What the network stack promises: the internet checksum verifies, a ping is
  answered by a valid echo reply and the two ends of a ping or of an ARP
  exchange understand each other, the ARP cache remembers what it learns, and
  every socket is a bounded queue of frames with a receive call that returns.
\<close>

section \<open>The internet checksum\<close>

text \<open>
  The specification is arithmetic: the sum of the little-endian 16-bit words,
  in the residues modulo \<^verbatim>\<open>2^16 - 1\<close>.
\<close>

fun wsum :: "u8 list \<Rightarrow> nat" where
  "wsum (lo # hi # data) = unat lo + 256 * unat hi + wsum data"
| "wsum [b] = unat b"
| "wsum [] = 0"

lemma u8_bound: "unat (b::u8) \<le> 255"
proof -
  have "unat b < 2 ^ LENGTH(8)" by (rule unsigned_less)
  then show ?thesis by simp
qed

lemma unat_ucast_u8 [simp]: "unat (ucast (b::u8) :: u32) = unat b"
  using u8_bound [of b] by (simp add: unsigned_ucast_eq take_bit_nat_eq_self)

lemma unat_le_word: "unat (ucast lo OR push_bit 8 (ucast hi) :: u32) = unat (lo::u8) + 256 * unat (hi::u8)"
proof -
  have disj: "(ucast lo :: u32) AND push_bit 8 (ucast hi) = 0"
    by (rule bit_word_eqI) (auto simp: bit_simps dest: bit_imp_le_length)
  have "unat (push_bit 8 (ucast hi) :: u32) = 256 * unat hi"
    using u8_bound [of hi] by (simp add: push_bit_eq_mult unat_word_ariths)
  moreover have "(ucast lo OR push_bit 8 (ucast hi) :: u32) = ucast lo + push_bit 8 (ucast hi)"
    using disj by (simp add: disjunctive_add_eq_or)
  ultimately show ?thesis using u8_bound [of lo] u8_bound [of hi] by (simp add: unat_word_ariths)
qed

lemma u16_bound: "unat (w::u16) \<le> 65535"
proof -
  have "unat w < 2 ^ LENGTH(16)" by (rule unsigned_less)
  then show ?thesis by simp
qed

lemma wsum_bound: "2 * wsum data \<le> 65535 * (length data + 1)"
proof (induction data rule: wsum.induct)
  case (1 lo hi data)
  with u8_bound [of lo] u8_bound [of hi] show ?case by simp
next
  case (2 b)
  with u8_bound [of b] show ?case by simp
qed simp

lemma unat_sum16:
  "unat acc + wsum data < 2 ^ 32 \<Longrightarrow> unat (sum16 data acc) = unat acc + wsum data"
proof (induction data acc rule: sum16.induct)
  case (1 lo hi data acc)
  have "unat (acc + (ucast lo OR push_bit 8 (ucast hi))) = unat acc + (unat lo + 256 * unat hi)"
    using "1.prems" by (simp add: unat_word_ariths unat_le_word)
  with 1 show ?case by simp
next
  case (2 b acc)
  then show ?case by (simp add: unat_word_ariths)
qed simp

lemma unat_zero_iff: "unat w = 0 \<longleftrightarrow> w = (0 :: 'a::len word)"
  by (metis unsigned_0 unsigned_word_eqI)

lemma fold_carry_residue:
  "unat (fold_carry acc) mod 65535 = unat acc mod 65535
   \<and> unat (fold_carry acc) < 65536 \<and> (unat (fold_carry acc) = 0 \<longleftrightarrow> acc = 0)"
proof (induction acc rule: fold_carry.induct)
  case (1 acc)
  let ?next = "(acc AND 0xFFFF) + drop_bit 16 acc"
  have nxt: "unat ?next = unat acc mod 65536 + unat acc div 65536" by (rule unat_fold_step)
  have div: "unat acc = 65536 * (unat acc div 65536) + unat acc mod 65536" by simp
  show ?case
  proof (cases "drop_bit 16 acc = 0")
    case True
    then have "unat acc div 65536 = 0" using unat_halves(1) [of acc] by simp
    moreover have "fold_carry acc = acc" using True by (subst fold_carry.simps) simp
    ultimately show ?thesis by (simp add: div_eq_0_iff unat_zero_iff)
  next
    case False
    have "unat acc = unat ?next + 65535 * (unat acc div 65536)" unfolding nxt using div by linarith
    then have "unat acc mod 65535 = unat ?next mod 65535" by (metis mod_mult_self2)
    moreover have "?next \<noteq> 0"
      using False nxt unat_halves(1) [of acc] by (metis add_is_0 unat_zero_iff)
    moreover have "fold_carry acc = fold_carry ?next" using False by (subst fold_carry.simps) simp
    moreover have "acc \<noteq> 0" using False by auto
    ultimately show ?thesis using 1 [OF False] by simp
  qed
qed

lemma unat_not_u16: "unat (NOT w :: u16) = 65535 - unat w"
proof -
  have "NOT w = 0xFFFF - w" by (simp add: not_eq_complement)
  moreover have "w \<le> 0xFFFF" using u16_bound [of w] by (simp add: word_le_nat_alt)
  ultimately show ?thesis by (simp add: unat_sub)
qed

lemma unat_checksum: "unat (calculate_checksum data) = 65535 - unat (fold_carry (sum16 data 0))"
proof -
  let ?f = "fold_carry (sum16 data 0)"
  have "unat ?f < 65536" using fold_carry_residue by blast
  then have "unat (ucast ?f :: u16) = unat ?f" by (simp add: unsigned_ucast_eq take_bit_nat_eq_self)
  moreover have "calculate_checksum data = NOT (ucast ?f :: u16)"
    unfolding calculate_checksum_def by (rule bit_word_eqI) (auto simp: bit_simps)
  ultimately show ?thesis by (simp add: unat_not_u16)
qed

lemma wsum_append: "even (length xs) \<Longrightarrow> wsum (xs @ ys) = wsum xs + wsum ys"
  by (induction xs rule: wsum.induct) auto

lemma wsum_le16: "wsum (le16 c @ ys) = unat c + wsum ys"
proof -
  have "unat (ucast c :: u8) = unat c mod 256" by (simp add: unsigned_ucast_eq take_bit_eq_mod)
  moreover have "unat (ucast (drop_bit 8 c) :: u8) = unat c div 256"
    using u16_bound [of c]
    by (simp add: unsigned_ucast_eq drop_bit_eq_div unat_div take_bit_eq_mod)
  ultimately show ?thesis by (simp add: le16_def)
qed

lemma checksum_verifies:
  assumes "even (length pre)" and "length pre + length post < 65536"
    and c: "c = calculate_checksum (pre @ le16 0 @ post)"
  shows "calculate_checksum (pre @ le16 c @ post) = 0"
proof -
  define S where "S = wsum (pre @ le16 0 @ post)"
  have sum: "wsum (pre @ le16 w @ post) = S + unat w" for w
    using assms(1) by (simp add: S_def wsum_append wsum_le16)
  have small: "S < 2 ^ 32 - 65536"
    using wsum_bound [of "pre @ le16 0 @ post"] assms(2) by (simp add: S_def le16_def)
  define f where "f = fold_carry (sum16 (pre @ le16 0 @ post) 0)"
  have f: "unat f mod 65535 = S mod 65535" "unat f < 65536" "unat f = 0 \<longleftrightarrow> S = 0"
    using fold_carry_residue [of "sum16 (pre @ le16 0 @ post) 0"] unat_sum16 [of 0 "pre @ le16 0 @ post"] small
    by (auto simp: S_def f_def simp flip: unat_zero_iff)
  have uc: "unat c = 65535 - unat f" by (simp add: c unat_checksum f_def)
  define g where "g = fold_carry (sum16 (pre @ le16 c @ post) 0)"
  have total: "unat (sum16 (pre @ le16 c @ post) 0) = S + unat c"
    using unat_sum16 [of 0 "pre @ le16 c @ post"] small u16_bound [of c] by (simp add: sum)
  have "(S + unat c) mod 65535 = (unat f + unat c) mod 65535" using f(1) by (metis mod_add_left_eq)
  also have "\<dots> = 0" using f(2) uc by simp
  finally have "unat g mod 65535 = 0" using fold_carry_residue total by (simp add: g_def)
  moreover have "unat g \<noteq> 0"
    using fold_carry_residue [of "sum16 (pre @ le16 c @ post) 0"] total f(3) uc f(2)
    by (auto simp: g_def)
  moreover have "unat g < 65536" using fold_carry_residue by (simp add: g_def)
  ultimately have "unat g = 65535" by (cases "unat g < 65535") simp_all
  then have "unat (calculate_checksum (pre @ le16 c @ post)) = 0" by (simp add: unat_checksum g_def)
  then show ?thesis by (simp only: unat_zero_iff)
qed

section \<open>Echo frames\<close>

lemma length_le16 [simp]: "length (le16 w) = 2"
  by (simp add: le16_def)

lemma length_mem_list [simp]: "length (mem_list p a n) = n"
  by (simp add: mem_list_def)

lemma nth_mem_list [simp]: "i < n \<Longrightarrow> mem_list p a n ! i = p (a + i)"
  by (simp add: mem_list_def)

lemma mem_list_append: "mem_list p a m @ mem_list p (a + m) n = mem_list p a (m + n)"
  by (rule nth_equalityI) (auto simp: nth_append)

lemma length_ipv4_header [simp]:
  "length src = 4 \<Longrightarrow> length dst = 4 \<Longrightarrow> length (ipv4_header_bytes n c src dst) = 20"
  by (simp add: ipv4_header_bytes_def)

lemma ipv4_header_checksum:
  assumes "length src = 4" and "length dst = 4"
  shows "calculate_checksum (ipv4_header_bytes n (calculate_checksum (ipv4_header_bytes n 0 src dst)) src dst) = 0"
  using checksum_verifies [of "[0x45, 0] @ le16 (htons n) @ le16 (htons 0x1234) @ le16 0 @ [DEFAULT_TTL, ICMP_PROTOCOL]"
      "src @ dst"] assms
  by (simp add: ipv4_header_bytes_def)

lemma icmp_message_checksum:
  assumes "length (idf @ seq @ data) < 65534"
  shows "calculate_checksum (icmp_message ty (calculate_checksum (icmp_message ty 0 idf seq data)) idf seq data) = 0"
  using checksum_verifies [of "[ty, 0]" "idf @ seq @ data"] assms by (simp add: icmp_message_def)

lemma echo_frame_parts:
  assumes "length dst_mac = 6" "length src_mac = 6" "length src = 4" "length dst = 4"
    and f: "f = echo_frame dst_mac src_mac n src dst ty idf seq data"
  shows "take 6 f = dst_mac" "take 6 (drop 6 f) = src_mac" "take 2 (drop 12 f) = [0x08, 0x00]"
    "take 20 (drop 14 f) = ipv4_header_bytes n (calculate_checksum (ipv4_header_bytes n 0 src dst)) src dst"
    "drop 34 f = icmp_message ty (calculate_checksum (icmp_message ty 0 idf seq data)) idf seq data"
  using assms by (simp_all add: echo_frame_def)

lemma ipv4_header_fields:
  assumes "length src = 4" and "length dst = 4"
  shows "take 4 (drop 12 (ipv4_header_bytes n c src dst)) = src"
    and "drop 16 (ipv4_header_bytes n c src dst) = dst"
    and "take 2 (drop 2 (ipv4_header_bytes n c src dst)) = le16 (htons n)"
    and "ipv4_header_bytes n c src dst ! 0 = 0x45" and "ipv4_header_bytes n c src dst ! 9 = ICMP_PROTOCOL"
  using assms by (simp_all add: ipv4_header_bytes_def le16_def)

lemma icmp_message_fields:
  shows "icmp_message ty c idf seq data ! 0 = ty" and "icmp_message ty c idf seq data ! 1 = 0"
    and "drop 4 (icmp_message ty c idf seq data) = idf @ seq @ data"
  by (simp_all add: icmp_message_def le16_def)

lemma arp_cache_insert_frame [simp]:
  "sent (arp_cache_insert ip mac s) = sent s" "current_tx_desc (arp_cache_insert ip mac s) = current_tx_desc s"
  "my_ip_address (arp_cache_insert ip mac s) = my_ip_address s"
  "rtl8139_mac (arp_cache_insert ip mac s) = rtl8139_mac s"
  "g_sockets (arp_cache_insert ip mac s) = g_sockets s" "net_ticks (arp_cache_insert ip mac s) = net_ticks s"
  by (simp_all add: arp_cache_insert_def split: option.split)

lemma send_packet_sent:
  assumes "data \<noteq> []" and "length data \<le> RTL8139_MAX_TRANSMIT_SIZE"
  shows "rtl8139_send_packet data s =
    s\<lparr>sent := sent s @ [(current_tx_desc s, data)], current_tx_desc := (current_tx_desc s + 1) mod 4\<rparr>"
  using assms by (simp add: rtl8139_send_packet_def)

definition echo_data_len :: "bytes \<Rightarrow> nat" where
  "echo_data_len p = unat (ntohs (get16 p 16)) - ip_header_length_size p 14 - 8"

lemma ucast_of_nat_u16: "(ucast (of_nat n :: u32) :: u16) = of_nat n"
  by (rule iffD2 [OF word_unat_eq_iff]) (simp add: unsigned_ucast_eq unsigned_of_nat)

lemma ping_reply_sends:
  assumes "ip_header_length_size p 14 + 8 \<le> unat (ntohs (get16 p 16))" and "echo_data_len p \<le> 1458"
    and "length (rtl8139_mac s) = 6" and "length (my_ip_address s) = 4"
  shows "icmp_send_ping_reply p (rtl8139_mac s) (my_ip_address s) s = Some (rtl8139_send_packet
     (echo_frame (mem_list p 6 6) (rtl8139_mac s) (of_nat (28 + echo_data_len p)) (my_ip_address s)
        (mem_list p 26 4) ICMP_ECHO_REPLY (mem_list p (18 + ip_header_length_size p 14) 2)
        (mem_list p (20 + ip_header_length_size p 14) 2)
        (mem_list p (22 + ip_header_length_size p 14) (echo_data_len p))) s)"
proof -
  let ?hl = "ip_header_length_size p 14" and ?total = "ntohs (get16 p 16)"
  have "unat ?total = echo_data_len p + 8 + ?hl" using assms(1) by (simp add: echo_data_len_def)
  then have "of_nat (unat ?total) = (of_nat (echo_data_len p + 8 + ?hl) :: u32)" by (rule arg_cong)
  then have tot: "(ucast ?total :: u32) = of_nat (echo_data_len p) + 8 + of_nat ?hl" by simp
  have dl: "unat ((ucast ?total :: u32) - of_nat ?hl - 8) = echo_data_len p"
    using assms(2) by (simp add: tot unsigned_of_nat take_bit_nat_eq_self)
  have tl: "(ucast (20 + ((ucast ?total :: u32) - of_nat ?hl)) :: u16) = of_nat (28 + echo_data_len p)"
    using ucast_of_nat_u16 [of "28 + echo_data_len p"] by (simp add: tot)
  show ?thesis
    using assms(2) by (simp add: icmp_send_ping_reply_def Let_def net_consts dl tl ac_simps)
qed

definition reply_frame :: "bytes \<Rightarrow> u8 list \<Rightarrow> u8 list \<Rightarrow> u8 list" where
  "reply_frame p mac ip = (let hl = ip_header_length_size p 14 in
     echo_frame (mem_list p 6 6) mac (of_nat (28 + echo_data_len p)) ip (mem_list p 26 4) ICMP_ECHO_REPLY
       (mem_list p (18 + hl) 2) (mem_list p (20 + hl) 2) (mem_list p (22 + hl) (echo_data_len p)))"

lemma ping_delivered:
  assumes "\<not> check_arp_is_for_us p 14 (my_ip_address s)" and "icmp_is_ping_request p 14 (my_ip_address s)"
    and "14 \<le> unat len"
    and "ip_header_length_size p 14 + 8 \<le> unat (ntohs (get16 p 16))" and "echo_data_len p \<le> 1458"
    and "length (rtl8139_mac s) = 6" and "length (my_ip_address s) = 4"
  defines "f \<equiv> reply_frame p (rtl8139_mac s) (my_ip_address s)"
  obtains s' where "net_socket_deliver p len s = Some s'" "sent s' = sent s @ [(current_tx_desc s, f)]"
    "length f = 42 + echo_data_len p"
proof -
  define s1 where "s1 = snd (arp_handle p s)"
  have s1: "arp_handle p s = (True, s1)" "my_ip_address s1 = my_ip_address s" "rtl8139_mac s1 = rtl8139_mac s"
    "sent s1 = sent s" "current_tx_desc s1 = current_tx_desc s"
    using assms(1) by (simp_all add: s1_def arp_handle_def net_consts Let_def)
  have len: "length f = 42 + echo_data_len p"
    using assms(6,7) by (simp add: f_def reply_frame_def echo_frame_def icmp_message_def Let_def)
  have snd: "icmp_send_ping_reply p (rtl8139_mac s1) (my_ip_address s1) s1 = Some (rtl8139_send_packet f s1)"
    using ping_reply_sends [of p s1] assms(4-7) s1 by (simp add: f_def reply_frame_def Let_def)
  have out: "sent (rtl8139_send_packet f s1) = sent s @ [(current_tx_desc s, f)]"
    using len assms(5) s1 by (auto simp: rtl8139_send_packet_def net_consts)
  obtain s' where "net_socket_deliver p len s = Some s'" "sent s' = sent (rtl8139_send_packet f s1)"
    using assms(2,3) s1 snd by (simp add: net_socket_deliver_def icmp_handle_def net_consts)
  with that len out show ?thesis by simp
qed

text \<open>
  C5. Every ping is answered. When an echo request for the host's address
  arrives, whose lengths are consistent and whose data fits one Ethernet
  frame, delivering it hands exactly one frame to the card: addressed to the
  sender's hardware address, from the host's IP address to the sender's, with
  an IP header and an ICMP message that both pass the internet checksum, of
  type echo reply, carrying the identifier, the sequence number and the data
  of the request unchanged.
\<close>

theorem ping_answered:
  assumes "\<not> check_arp_is_for_us p 14 (my_ip_address s)" and "icmp_is_ping_request p 14 (my_ip_address s)"
    and "14 \<le> unat len"
    and "ip_header_length_size p 14 + 8 \<le> unat (ntohs (get16 p 16))" and "echo_data_len p \<le> 1458"
    and "length (rtl8139_mac s) = 6" and "length (my_ip_address s) = 4"
  shows "\<exists>s' f. net_socket_deliver p len s = Some s' \<and> sent s' = sent s @ [(current_tx_desc s, f)]
    \<and> length f = 42 + echo_data_len p
    \<and> take 6 f = mem_list p 6 6 \<and> take 6 (drop 6 f) = rtl8139_mac s
    \<and> take 4 (drop 26 f) = my_ip_address s \<and> take 4 (drop 30 f) = mem_list p 26 4
    \<and> calculate_checksum (take 20 (drop 14 f)) = 0 \<and> calculate_checksum (drop 34 f) = 0
    \<and> f ! 34 = ICMP_ECHO_REPLY
    \<and> drop 38 f = mem_list p (18 + ip_header_length_size p 14) (4 + echo_data_len p)"
proof -
  let ?hl = "ip_header_length_size p 14"
  define f where "f = reply_frame p (rtl8139_mac s) (my_ip_address s)"
  obtain s' where s': "net_socket_deliver p len s = Some s'" "sent s' = sent s @ [(current_tx_desc s, f)]"
    and len: "length f = 42 + echo_data_len p"
    using ping_delivered [OF assms] unfolding f_def by blast
  note parts = echo_frame_parts [OF length_mem_list assms(6,7) length_mem_list f_def [unfolded reply_frame_def Let_def]]
  have "drop 38 f = drop 4 (drop 34 f)" by simp
  also have "\<dots> = mem_list p (18 + ?hl) (4 + echo_data_len p)"
    using mem_list_append [of p "18 + ?hl" 2 2] mem_list_append [of p "18 + ?hl" 4 "echo_data_len p"]
    by (simp add: parts(5) icmp_message_fields) (metis append_assoc)
  finally have data: "drop 38 f = mem_list p (18 + ?hl) (4 + echo_data_len p)" .
  have "take 4 (drop 26 f) = take 4 (drop 12 (take 20 (drop 14 f)))"
    "take 4 (drop 30 f) = drop 16 (take 20 (drop 14 f))" by (simp_all add: drop_take)
  then have ips: "take 4 (drop 26 f) = my_ip_address s" "take 4 (drop 30 f) = mem_list p 26 4"
    using assms(7) by (simp_all add: parts(4) ipv4_header_fields)
  have "f ! 34 = drop 34 f ! 0" using len by simp
  then have type: "f ! 34 = ICMP_ECHO_REPLY" by (simp add: parts(5) icmp_message_fields)
  have "calculate_checksum (take 20 (drop 14 f)) = 0" "calculate_checksum (drop 34 f) = 0"
    using assms(5,7) by (simp_all add: parts(4,5) ipv4_header_checksum icmp_message_checksum)
  then show ?thesis using s' len parts(1,2) ips data type by (intro exI [of _ s'] exI [of _ f]) simp
qed

section \<open>Two hosts\<close>

text \<open>
  \<^verbatim>\<open>frame_in f rest\<close> is the receiver's copy buffer holding the frame \<^verbatim>\<open>f\<close>, with
  whatever it held before behind it.
\<close>

definition frame_in :: "u8 list \<Rightarrow> bytes \<Rightarrow> bytes" where
  "frame_in f rest = (\<lambda>i. if i < length f then f ! i else rest i)"

lemma mem_list_frame: "a + n \<le> length f \<Longrightarrow> mem_list (frame_in f rest) a n = take n (drop a f)"
  by (rule nth_equalityI) (simp_all add: frame_in_def)

lemma halves_join: "ucast (ucast w :: u8) OR push_bit 8 (ucast (ucast (drop_bit 8 w) :: u8)) = (w :: u16)"
proof (rule bit_word_eqI)
  fix n
  assume "n < LENGTH(16)"
  then show "bit (ucast (ucast w :: u8) OR push_bit 8 (ucast (ucast (drop_bit 8 w) :: u8)) :: u16) n = bit w n"
    by (cases "n < 8") (auto simp: bit_simps)
qed

lemma get16_le16:
  assumes "take 2 (drop a f) = le16 w"
  shows "get16 (frame_in f rest) a = w"
proof -
  have "length (take 2 (drop a f)) = 2" by (simp add: assms)
  then have len: "a + 2 \<le> length f" by auto
  have "f ! a = ucast w" using arg_cong [OF assms, of "\<lambda>xs. xs ! 0"] len by (simp add: le16_def)
  moreover have "f ! (a + 1) = ucast (drop_bit 8 w)"
    using arg_cong [OF assms, of "\<lambda>xs. xs ! 1"] len by (simp add: le16_def)
  ultimately show ?thesis
    using len by (simp add: get16_def frame_in_def halves_join)
qed

lemma ntohs_htons [simp]: "ntohs (htons w) = w"
  unfolding ntohs_def htons_def
proof (rule bit_word_eqI)
  fix n
  assume "n < LENGTH(16)"
  then show "bit (drop_bit 8 (drop_bit 8 w OR push_bit 8 w) OR push_bit 8 (drop_bit 8 w OR push_bit 8 w)) n = bit w n"
    by (cases "n < 8") (auto simp: bit_simps)
qed

lemma echo_frame_reads:
  assumes lens: "length dst_mac = 6" "length src_mac = 6" "length src = 4" "length dst = 4"
    and f: "f = echo_frame dst_mac src_mac n src dst ty idf seq data"
  shows "ip_header_length_size (frame_in f rest) 14 = 20" "get16 (frame_in f rest) 16 = htons n"
    "get16 (frame_in f rest) 20 = 0" "frame_in f rest 23 = ICMP_PROTOCOL"
    "mem_list (frame_in f rest) 6 6 = src_mac" "mem_list (frame_in f rest) 26 4 = src"
    "mem_list (frame_in f rest) 30 4 = dst" "frame_in f rest 34 = ty" "frame_in f rest 35 = 0"
proof -
  note layout = f echo_frame_def ipv4_header_bytes_def icmp_message_def lens
  show "ip_header_length_size (frame_in f rest) 14 = 20" "frame_in f rest 23 = ICMP_PROTOCOL"
    "frame_in f rest 34 = ty" "frame_in f rest 35 = 0"
    by (simp_all add: layout frame_in_def ip_header_length_size_def nth_append le16_def)
  show "get16 (frame_in f rest) 16 = htons n" "get16 (frame_in f rest) 20 = 0"
    by (rule get16_le16, simp add: layout)+
  show "mem_list (frame_in f rest) 6 6 = src_mac" "mem_list (frame_in f rest) 26 4 = src"
    "mem_list (frame_in f rest) 30 4 = dst"
    by (subst mem_list_frame, simp add: layout, simp add: layout)+
qed

lemma echo_request_sends:
  assumes "length (rtl8139_mac a) = 6" "length (my_ip_address a) = 4" "length ip = 4" "length mac = 6"
    and f_def: "f = echo_frame mac (rtl8139_mac a) 44 (my_ip_address a) ip ICMP_ECHO_REQUEST
    (le16 (htons OUR_PING_IDENTIFIER)) (le16 (htons sq)) ping_data"
  shows "icmp_send_echo_request ip sq (rtl8139_mac a) (my_ip_address a) mac a = (True, rtl8139_send_packet f a)"
    and "sent (rtl8139_send_packet f a) = sent a @ [(current_tx_desc a, f)]" and "length f = 58"
proof -
  show len: "length f = 58"
    using assms by (simp add: echo_frame_def icmp_message_def ping_data_def)
  show "icmp_send_echo_request ip sq (rtl8139_mac a) (my_ip_address a) mac a = (True, rtl8139_send_packet f a)"
    by (simp add: icmp_send_echo_request_def f_def net_consts ping_data_def)
  show "sent (rtl8139_send_packet f a) = sent a @ [(current_tx_desc a, f)]"
    using len by (auto simp: rtl8139_send_packet_def net_consts)
qed

lemma echo_frame_message:
  assumes "length dst_mac = 6" "length src_mac = 6" "length src = 4" "length dst = 4"
    and "length idf = 2" "length seq = 2"
    and f: "f = echo_frame dst_mac src_mac n src dst ty idf seq data"
  shows "mem_list (frame_in f rest) 38 2 = idf" "mem_list (frame_in f rest) 40 2 = seq"
    and "idf = le16 w \<Longrightarrow> get16 (frame_in f rest) 38 = w" "seq = le16 v \<Longrightarrow> get16 (frame_in f rest) 40 = v"
proof -
  note layout = f echo_frame_def icmp_message_def assms(1-6)
  show "mem_list (frame_in f rest) 38 2 = idf" "mem_list (frame_in f rest) 40 2 = seq"
    by (subst mem_list_frame, simp add: layout, simp add: layout)+
  show "idf = le16 w \<Longrightarrow> get16 (frame_in f rest) 38 = w" "seq = le16 v \<Longrightarrow> get16 (frame_in f rest) 40 = v"
    by (rule get16_le16, simp add: layout)+
qed

text \<open>
  C22. Ping round trip between two hosts running this stack. The echo request
  host A sends to B is recognised by B, whatever B's receive buffer held
  before; B hands one frame to its card; and A recognises that frame, however
  its own buffer was filled, as the reply to its ping: it is addressed to A,
  carries the sequence number A used and the sixteen bytes of data it sent.
\<close>

theorem ping_roundtrip:
  assumes a: "length (rtl8139_mac a) = 6" "length (my_ip_address a) = 4"
    and b: "length (rtl8139_mac b) = 6" "length (my_ip_address b) = 4"
  shows "\<exists>a' f b' g.
      icmp_send_echo_request (my_ip_address b) sq (rtl8139_mac a) (my_ip_address a) (rtl8139_mac b) a = (True, a')
    \<and> sent a' = sent a @ [(current_tx_desc a, f)]
    \<and> net_socket_deliver (frame_in f rest) (of_nat (length f)) b = Some b'
    \<and> sent b' = sent b @ [(current_tx_desc b, g)]
    \<and> mem_list (frame_in g rest') 0 6 = rtl8139_mac a \<and> mem_list (frame_in g rest') 30 4 = my_ip_address a
    \<and> icmp_is_echo_reply (frame_in g rest') 14
    \<and> icmp_get_reply_sequence (frame_in g rest') 14 = sq
    \<and> icmp_get_reply_data_len (frame_in g rest') 14 = 16"
proof -
  define f where "f = echo_frame (rtl8139_mac b) (rtl8139_mac a) 44 (my_ip_address a) (my_ip_address b)
    ICMP_ECHO_REQUEST (le16 (htons OUR_PING_IDENTIFIER)) (le16 (htons sq)) ping_data"
  let ?p = "frame_in f rest"
  note req = echo_request_sends [OF a b(2,1) f_def]
  note rd = echo_frame_reads [OF b(1) a(1,2) b(2) f_def, of rest]
  note msg = echo_frame_message [OF b(1) a(1,2) b(2) length_le16 length_le16 f_def, where rest = rest]
  have dl: "echo_data_len ?p = 16" by (simp add: echo_data_len_def rd)
  have no_arp: "\<not> check_arp_is_for_us ?p 14 (my_ip_address b)"
    by (simp add: check_arp_is_for_us_def arp_operation_def rd(3) ntohs_def net_consts)
  have ping: "icmp_is_ping_request ?p 14 (my_ip_address b)"
    by (simp add: icmp_is_ping_request_def rd)
  obtain b' g where b': "net_socket_deliver ?p (of_nat (length f)) b = Some b'" "sent b' = sent b @ [(current_tx_desc b, g)]"
    and g: "g = reply_frame ?p (rtl8139_mac b) (my_ip_address b)" and lg: "length g = 58"
    by (rule ping_delivered [OF no_arp ping, of "of_nat (length f)"]) (use b in \<open>simp_all add: req rd dl\<close>)
  have g': "g = echo_frame (rtl8139_mac a) (rtl8139_mac b) 44 (my_ip_address b) (my_ip_address a) ICMP_ECHO_REPLY
      (le16 (htons OUR_PING_IDENTIFIER)) (le16 (htons sq)) (mem_list ?p 42 16)"
    by (simp add: g reply_frame_def rd msg(1,2) dl)
  note rd' = echo_frame_reads [OF a(1) b(1,2) a(2) g', of rest']
  note msg' = echo_frame_message [OF a(1) b(1,2) a(2) length_le16 length_le16 g', where rest = rest']
  have "mem_list (frame_in g rest') 0 6 = rtl8139_mac a"
    using echo_frame_parts(1) [OF a(1) b(1,2) a(2) g'] lg by (simp add: mem_list_frame)
  moreover have "icmp_is_echo_reply (frame_in g rest') 14" "icmp_get_reply_sequence (frame_in g rest') 14 = sq"
    "icmp_get_reply_data_len (frame_in g rest') 14 = 16"
    by (simp_all add: icmp_is_echo_reply_def icmp_get_reply_sequence_def icmp_get_reply_data_len_def rd'
        msg'(3) [OF refl] msg'(4) [OF refl] net_consts)
  ultimately show ?thesis using req b' rd'(7) by blast
qed

section \<open>The ARP cache\<close>

abbreviation arp_cache_ok :: "net \<Rightarrow> bool" where
  "arp_cache_ok s \<equiv> length (g_arp_cache s) = ARP_CACHE_SIZE \<and> g_arp_cache_next s < ARP_CACHE_SIZE"

lemma arp_cache_insert_ok: "arp_cache_ok s \<Longrightarrow> arp_cache_ok (arp_cache_insert ip mac s)"
  by (simp add: arp_cache_insert_def ARP_CACHE_SIZE_def split: option.split)

text \<open>
  \<^verbatim>\<open>arp_slot ip mac i s\<close>: the binding of \<^verbatim>\<open>ip\<close> to \<^verbatim>\<open>mac\<close> is in slot \<^verbatim>\<open>i\<close> and in no
  other.
\<close>

definition arp_slot :: "u8 list \<Rightarrow> u8 list \<Rightarrow> nat \<Rightarrow> net \<Rightarrow> bool" where
  "arp_slot ip mac i s \<longleftrightarrow> i < ARP_CACHE_SIZE \<and> ae_mac (g_arp_cache s ! i) = mac
     \<and> (\<forall>j < ARP_CACHE_SIZE. arp_entry_for ip (g_arp_cache s ! j) \<longleftrightarrow> j = i)"

lemma arp_slot_find:
  "arp_slot ip mac i s \<Longrightarrow>
   List.find (\<lambda>i. arp_entry_for ip (g_arp_cache s ! i)) [0..<ARP_CACHE_SIZE] = Some i"
  by (auto simp: arp_slot_def find_upt_Some)

lemma arp_slot_lookup: "arp_slot ip mac i s \<Longrightarrow> arp_cache_lookup ip s = Some mac"
  using arp_slot_find [of ip mac i s] by (simp add: arp_cache_lookup_def arp_slot_def)

lemma arp_lookup_None:
  "arp_cache_lookup ip s = None \<longleftrightarrow> (\<forall>j < ARP_CACHE_SIZE. \<not> arp_entry_for ip (g_arp_cache s ! j))"
  by (auto simp: arp_cache_lookup_def find_upt_None find_upt_Some split: option.split)

lemma arp_insert_fresh:
  assumes "arp_cache_ok s" and "arp_cache_lookup ip s = None"
  shows "arp_slot ip mac (g_arp_cache_next s) (arp_cache_insert ip mac s)"
    and "g_arp_cache_next (arp_cache_insert ip mac s) = (g_arp_cache_next s + 1) mod ARP_CACHE_SIZE"
proof -
  have none: "\<forall>j < ARP_CACHE_SIZE. \<not> arp_entry_for ip (g_arp_cache s ! j)" using assms(2) by (simp add: arp_lookup_None)
  then have "List.find (\<lambda>i. arp_entry_for ip (g_arp_cache s ! i)) [0..<ARP_CACHE_SIZE] = None"
    by (simp add: find_upt_None)
  then have ins: "arp_cache_insert ip mac s = s\<lparr>g_arp_cache := (g_arp_cache s)
      [g_arp_cache_next s := \<lparr> ae_ip = ip, ae_mac = mac, ae_valid = True \<rparr>],
      g_arp_cache_next := (g_arp_cache_next s + 1) mod ARP_CACHE_SIZE\<rparr>"
    by (simp add: arp_cache_insert_def)
  show "arp_slot ip mac (g_arp_cache_next s) (arp_cache_insert ip mac s)"
    using assms(1) none by (auto simp: ins arp_slot_def nth_list_update arp_entry_for_def)
  show "g_arp_cache_next (arp_cache_insert ip mac s) = (g_arp_cache_next s + 1) mod ARP_CACHE_SIZE"
    by (simp add: ins)
qed

text \<open>
  The number of insertions of new addresses before the round-robin index
  reaches slot \<^verbatim>\<open>i\<close>.
\<close>

definition arp_distance :: "nat \<Rightarrow> net \<Rightarrow> nat" where
  "arp_distance i s = (i + ARP_CACHE_SIZE - g_arp_cache_next s) mod ARP_CACHE_SIZE"

lemma arp_insert_other:
  assumes "arp_cache_ok s" and "arp_slot ip mac i s" and "ip' \<noteq> ip" and "0 < arp_distance i s"
  shows "arp_slot ip mac i (arp_cache_insert ip' mac' s)"
    and "arp_distance i s \<le> Suc (arp_distance i (arp_cache_insert ip' mac' s))"
proof -
  have i: "i < ARP_CACHE_SIZE" using assms(2) by (simp add: arp_slot_def)
  have next_i: "g_arp_cache_next s \<noteq> i" using assms(4) by (auto simp: arp_distance_def)
  have only: "arp_entry_for ip (g_arp_cache s ! j) \<longleftrightarrow> j = i" if "j < ARP_CACHE_SIZE" for j
    using assms(2) that by (simp add: arp_slot_def)
  show "arp_slot ip mac i (arp_cache_insert ip' mac' s)"
  proof (cases "List.find (\<lambda>i. arp_entry_for ip' (g_arp_cache s ! i)) [0..<ARP_CACHE_SIZE]")
    case None
    then show ?thesis
      using assms next_i only by (auto simp: arp_cache_insert_def arp_slot_def nth_list_update arp_entry_for_def)
  next
    case (Some j)
    then have "j < ARP_CACHE_SIZE" "arp_entry_for ip' (g_arp_cache s ! j)" by (auto simp: find_upt_Some)
    moreover from this have "j \<noteq> i" using only [of i] i assms(3) by (auto simp: arp_entry_for_def)
    ultimately show ?thesis
      using Some assms only by (auto simp: arp_cache_insert_def arp_slot_def nth_list_update arp_entry_for_def)
  qed
  show "arp_distance i s \<le> Suc (arp_distance i (arp_cache_insert ip' mac' s))"
    using assms(1) i next_i
    by (cases "g_arp_cache_next s < i")
      (auto simp: arp_cache_insert_def arp_distance_def ARP_CACHE_SIZE_def mod_if split: option.split)
qed

lemma arp_inserts_keep:
  assumes "arp_cache_ok s" and "arp_slot ip mac i s" and "ip \<notin> fst ` set xs" and "length xs \<le> arp_distance i s"
  shows "arp_slot ip mac i (fold (\<lambda>(ip', mac'). arp_cache_insert ip' mac') xs s)"
  using assms
proof (induction xs arbitrary: s)
  case (Cons x xs)
  obtain ip' mac' where x: "x = (ip', mac')" by force
  have pos: "0 < arp_distance i s" and ne: "ip' \<noteq> ip" using Cons.prems by (auto simp: x)
  note other = arp_insert_other [OF Cons.prems(1,2) ne pos, of mac']
  have "arp_slot ip mac i (fold (\<lambda>(ip', mac'). arp_cache_insert ip' mac') xs (arp_cache_insert ip' mac' s))"
    by (rule Cons.IH) (use Cons.prems other arp_cache_insert_ok in \<open>auto simp: x\<close>)
  then show ?case by (simp add: x)
qed simp

text \<open>
  C31. The ARP cache remembers. A binding for an address the cache did not
  hold is found again after up to fifteen further insertions of bindings for
  other addresses, whatever they are: the round-robin replacement evicts an
  entry only when all fifteen other slots have been filled after it.
\<close>

theorem arp_cache_remembers:
  assumes "length (g_arp_cache s) = ARP_CACHE_SIZE" and "g_arp_cache_next s < ARP_CACHE_SIZE"
    and "arp_cache_lookup ip s = None" and "ip \<notin> fst ` set xs" and "length xs < ARP_CACHE_SIZE"
  shows "arp_cache_lookup ip
    (fold (\<lambda>(ip', mac'). arp_cache_insert ip' mac') xs (arp_cache_insert ip mac s)) = Some mac"
proof -
  have ok: "arp_cache_ok s" using assms(1,2) by simp
  let ?i = "g_arp_cache_next s" and ?s = "arp_cache_insert ip mac s"
  have "arp_distance ?i ?s = ARP_CACHE_SIZE - 1"
    using arp_insert_fresh(2) [OF ok assms(3), of mac] ok
    by (cases "?i = 15") (auto simp: arp_distance_def ARP_CACHE_SIZE_def mod_if)
  with assms(4,5) have "arp_slot ip mac ?i (fold (\<lambda>(ip', mac'). arp_cache_insert ip' mac') xs ?s)"
    by (intro arp_inserts_keep arp_cache_insert_ok ok arp_insert_fresh(1) assms(3)) auto
  then show ?thesis by (rule arp_slot_lookup)
qed

section \<open>Address resolution\<close>

text \<open>
  \<^verbatim>\<open>wire b rest rest'\<close> is a network with one other host \<^verbatim>\<open>b\<close>: what happens while
  the host yields is that its last frame reaches \<^verbatim>\<open>b\<close> and \<^verbatim>\<open>b\<close>'s answer comes back.
\<close>

definition wire :: "net \<Rightarrow> bytes \<Rightarrow> bytes \<Rightarrow> net \<Rightarrow> net" where
  "wire b rest rest' a =
     (case net_socket_deliver (frame_in (snd (last (sent a))) rest) 42 b of
        None \<Rightarrow> a
      | Some b' \<Rightarrow> (case net_socket_deliver (frame_in (snd (last (sent b'))) rest') 42 a of
                    None \<Rightarrow> a
                  | Some a' \<Rightarrow> a'))"

lemma arp_frame_reads:
  assumes lens: "length d = 6" "length sm = 6" "length sip = 4" "length dm = 6" "length dip = 4"
    and f: "f = d @ sm @ [0x08, 0x06] @ arp_body opr sm sip dm dip"
  shows "arp_operation (frame_in f rest) 14 = htons opr" "arp_src_mac (frame_in f rest) 14 = sm"
    "arp_src_ip (frame_in f rest) 14 = sip" "arp_dst_ip (frame_in f rest) 14 = dip"
    "frame_in f rest 23 = sm ! 1" "length f = 42"
proof -
  note layout = f arp_body_def lens arp_operation_def arp_src_mac_def arp_src_ip_def arp_dst_ip_def
  show "arp_operation (frame_in f rest) 14 = htons opr"
    unfolding arp_operation_def by (rule get16_le16) (simp add: layout)
  show "arp_src_mac (frame_in f rest) 14 = sm" "arp_src_ip (frame_in f rest) 14 = sip"
    "arp_dst_ip (frame_in f rest) 14 = dip"
    unfolding arp_src_mac_def arp_src_ip_def arp_dst_ip_def
    by (subst mem_list_frame, simp add: layout, simp add: layout)+
  show "frame_in f rest 23 = sm ! 1" by (simp add: layout frame_in_def nth_append le16_def)
  show "length f = 42" by (simp add: layout)
qed

lemma send_short:
  "length f = 42 \<Longrightarrow> rtl8139_send_packet f s = s\<lparr>sent := sent s @ [(current_tx_desc s, f)],
     current_tx_desc := (current_tx_desc s + 1) mod 4\<rparr>"
  by (rule send_packet_sent) (auto simp: net_consts)

lemma arp_request_answered:
  assumes a: "length (rtl8139_mac a) = 6" "length (my_ip_address a) = 4"
    and b: "length (rtl8139_mac b) = 6" "length (my_ip_address b) = 4"
    and f: "f = replicate 6 0xFF @ rtl8139_mac a @ [0x08, 0x06] @
      arp_body ARP_OP_REQUEST (rtl8139_mac a) (my_ip_address a) (replicate 6 0xFF) (my_ip_address b)"
  obtains b' where "net_socket_deliver (frame_in f rest) 42 b = Some b'"
    "snd (last (sent b')) = rtl8139_mac a @ rtl8139_mac b @ [0x08, 0x06] @
      arp_body ARP_OP_REPLY (rtl8139_mac b) (my_ip_address b) (rtl8139_mac a) (my_ip_address a)"
proof -
  note rd = arp_frame_reads(1-5) [OF length_replicate a length_replicate b(2) f, of rest]
  have rep: "length (rtl8139_mac a @ rtl8139_mac b @ [0x08, 0x06] @
      arp_body ARP_OP_REPLY (rtl8139_mac b) (my_ip_address b) (rtl8139_mac a) (my_ip_address a)) = 42"
    using a b by (simp add: arp_body_def)
  have "check_arp_is_for_us (frame_in f rest) 14 (my_ip_address b)"
    by (simp add: check_arp_is_for_us_def rd)
  then show ?thesis
    using that rep by (simp add: net_socket_deliver_def arp_handle_def rd net_consts(1) arp_send_reply_def send_short
        ARP_OP_REPLY_def ARP_OP_REQUEST_def)
qed

lemma arp_reply_learned:
  assumes a: "length (rtl8139_mac a) = 6" "length (my_ip_address a) = 4"
    and b: "length (rtl8139_mac b) = 6" "length (my_ip_address b) = 4" "rtl8139_mac b ! 1 \<noteq> ICMP_PROTOCOL"
    and g: "g = rtl8139_mac a @ rtl8139_mac b @ [0x08, 0x06] @
      arp_body ARP_OP_REPLY (rtl8139_mac b) (my_ip_address b) (rtl8139_mac a) (my_ip_address a)"
  obtains a' where "net_socket_deliver (frame_in g rest) 42 a = Some a'"
    "g_arp_cache a' = g_arp_cache (arp_cache_insert (my_ip_address b) (rtl8139_mac b) a)" "sent a' = sent a"
proof -
  note rd = arp_frame_reads(1-5) [OF a(1) b(1,2) a g, of rest]
  have "\<not> check_arp_is_for_us (frame_in g rest) 14 ip" for ip
    by (simp add: check_arp_is_for_us_def rd net_consts)
  moreover have "\<not> icmp_is_ping_request (frame_in g rest) 14 ip" for ip
    using b(3) by (simp add: icmp_is_ping_request_def rd)
  ultimately show ?thesis
    using that by (simp add: net_socket_deliver_def arp_handle_def icmp_handle_def rd net_consts(1))
qed

lemma arp_lookup_cong: "g_arp_cache s = g_arp_cache s' \<Longrightarrow> arp_cache_lookup ip s = arp_cache_lookup ip s'"
  by (simp add: arp_cache_lookup_def split: option.split)

text \<open>
  C23. Address resolution between two hosts running this stack. When a host
  that does not know B's hardware address resolves B's IP address, and its
  frames reach B and B's answers reach it, the first attempt succeeds: one
  request is sent, the result is B's hardware address, and the cache then
  holds the binding. The hypothesis on B's hardware address excludes that the
  reply is also read as an IP packet of protocol ICMP, since the handlers are
  run on every frame without looking at its type.
\<close>

theorem arp_resolves_peer:
  assumes a: "length (rtl8139_mac a) = 6" "length (my_ip_address a) = 4"
    and b: "length (rtl8139_mac b) = 6" "length (my_ip_address b) = 4" "rtl8139_mac b ! 1 \<noteq> ICMP_PROTOCOL"
    and cache: "length (g_arp_cache a) = ARP_CACHE_SIZE" "g_arp_cache_next a < ARP_CACHE_SIZE"
    and unknown: "arp_cache_lookup (my_ip_address b) a = None"
  shows "\<exists>a'. arp_resolve (wire b rest rest') (my_ip_address b) (rtl8139_mac a) (my_ip_address a) a
      = (Some (rtl8139_mac b), a')
    \<and> arp_cache_lookup (my_ip_address b) a' = Some (rtl8139_mac b) \<and> length (sent a') = length (sent a) + 1"
proof -
  define f where "f = replicate 6 0xFF @ rtl8139_mac a @ [0x08, 0x06] @
    arp_body ARP_OP_REQUEST (rtl8139_mac a) (my_ip_address a) (replicate 6 0xFF) (my_ip_address b)"
  define a1 where "a1 = arp_send_request (my_ip_address b) (rtl8139_mac a) (my_ip_address a) a"
  have "length f = 42" using a b by (simp add: f_def arp_body_def)
  then have a1: "a1 = a\<lparr>sent := sent a @ [(current_tx_desc a, f)], current_tx_desc := (current_tx_desc a + 1) mod 4\<rparr>"
    using send_short [of f a] by (simp add: a1_def arp_send_request_def f_def)
  obtain b' where b': "net_socket_deliver (frame_in f rest) 42 b = Some b'"
    "snd (last (sent b')) = rtl8139_mac a1 @ rtl8139_mac b @ [0x08, 0x06] @
      arp_body ARP_OP_REPLY (rtl8139_mac b) (my_ip_address b) (rtl8139_mac a1) (my_ip_address a1)"
    using arp_request_answered [OF a b(1,2) f_def, of rest] by (auto simp: a1)
  obtain a2 where a2: "net_socket_deliver (frame_in (snd (last (sent b'))) rest') 42 a1 = Some a2"
    "g_arp_cache a2 = g_arp_cache (arp_cache_insert (my_ip_address b) (rtl8139_mac b) a1)" "sent a2 = sent a1"
    by (rule arp_reply_learned [OF _ _ b b'(2), of rest']) (use a in \<open>auto simp: a1\<close>)
  have w: "wire b rest rest' a1 = a2" using b' a2 by (simp add: wire_def a1)
  have "arp_cache_lookup (my_ip_address b) a1 = None"
    using unknown arp_lookup_cong [of a1 a] by (simp add: a1)
  then have "arp_slot (my_ip_address b) (rtl8139_mac b) (g_arp_cache_next a1)
      (arp_cache_insert (my_ip_address b) (rtl8139_mac b) a1)"
    using cache by (intro arp_insert_fresh(1)) (simp_all add: a1)
  then have look: "arp_cache_lookup (my_ip_address b) a2 = Some (rtl8139_mac b)"
    using arp_slot_lookup arp_lookup_cong [OF a2(2)] by simp
  have "arp_resolve (wire b rest rest') (my_ip_address b) (rtl8139_mac a) (my_ip_address a) a
      = (Some (rtl8139_mac b), a2)"
    using unknown look w by (simp add: arp_resolve_def upt_conv_Cons Let_def flip: a1_def)
  with look a2(3) show ?thesis by (simp add: a1)
qed

end
