(* ===== verification/NetSockets.thy ===== *)
theory NetSockets
  imports NetProps
begin

text \<open>
  The raw sockets: the receive queue of a socket implements the locale
  \<open>bounded_fifo\<close>, delivery appends to it, \<^verbatim>\<open>sys_recvfrom\<close> takes from it and
  returns within its time-out; and the concrete instances of the network
  properties.
\<close>

section \<open>The receive queue\<close>

definition socket_ok :: "socket_t \<Rightarrow> bool" where
  "socket_ok sk \<longleftrightarrow> length (rx_queue sk) = SOCKET_RX_QUEUE \<and> rx_head sk < SOCKET_RX_QUEUE
     \<and> rx_count sk \<le> SOCKET_RX_QUEUE \<and> rx_tail sk = (rx_head sk + rx_count sk) mod SOCKET_RX_QUEUE"

definition socket_frames :: "socket_t \<Rightarrow> rx_packet_t list" where
  "socket_frames sk = map (\<lambda>k. rx_queue sk ! ((rx_head sk + k) mod SOCKET_RX_QUEUE)) [0..<rx_count sk]"

lemma length_socket_frames [simp]: "length (socket_frames sk) = rx_count sk"
  by (simp add: socket_frames_def)

lemma socket_frames_empty [simp]: "socket_frames sk = [] \<longleftrightarrow> rx_count sk = 0"
  by (simp add: socket_frames_def)

lemma socket_ok_enqueue: "socket_ok sk \<Longrightarrow> socket_ok (socket_enqueue pkt sk)"
  by (auto simp: socket_ok_def socket_enqueue_def SOCKET_RX_QUEUE_def mod_Suc_eq)

lemma socket_frames_enqueue:
  assumes "socket_ok sk"
  shows "socket_frames (socket_enqueue pkt sk)
    = (if rx_count sk < SOCKET_RX_QUEUE then socket_frames sk @ [pkt] else socket_frames sk)"
proof -
  have "rx_tail sk \<noteq> (rx_head sk + k) mod SOCKET_RX_QUEUE" if "k < rx_count sk" "rx_count sk < SOCKET_RX_QUEUE" for k
    using ring_index_neq [OF that, of "rx_head sk"] assms by (simp add: socket_ok_def)
  then show ?thesis
    using assms by (auto simp: socket_frames_def socket_enqueue_def socket_ok_def)
qed

lemma socket_ok_dequeue: "socket_ok sk \<Longrightarrow> 0 < rx_count sk \<Longrightarrow> socket_ok (snd (socket_dequeue sk))"
  by (cases "rx_count sk") (auto simp: socket_ok_def socket_dequeue_def SOCKET_RX_QUEUE_def mod_Suc_eq mod_add_left_eq)

lemma socket_frames_dequeue:
  assumes "socket_ok sk" and "0 < rx_count sk"
  shows "socket_frames sk = fst (socket_dequeue sk) # socket_frames (snd (socket_dequeue sk))"
proof -
  obtain n where n: "rx_count sk = Suc n" using assms(2) by (cases "rx_count sk") auto
  show ?thesis
    using assms(1)
    by (simp add: socket_frames_def socket_dequeue_def n upt_conv_Cons map_Suc_upt [symmetric] mod_simps
        socket_ok_def del: upt_Suc)
qed

interpretation rx: bounded_fifo "\<lambda>sk pkt. socket_enqueue pkt sk" socket_dequeue socket_frames socket_ok SOCKET_RX_QUEUE
proof unfold_locales
  fix sk :: socket_t and pkt
  assume ok: "socket_ok sk"
  then show "length (socket_frames sk) \<le> SOCKET_RX_QUEUE" by (simp add: socket_ok_def)
  show "socket_ok (socket_enqueue pkt sk)" using ok by (rule socket_ok_enqueue)
  show "socket_frames (socket_enqueue pkt sk) =
      (if length (socket_frames sk) < SOCKET_RX_QUEUE then socket_frames sk @ [pkt] else socket_frames sk)"
    using socket_frames_enqueue [OF ok] by simp
next
  fix sk :: socket_t
  assume ok: "socket_ok sk" and "socket_frames sk \<noteq> []"
  then have pos: "0 < rx_count sk" by simp
  show "socket_ok (snd (socket_dequeue sk))" using ok pos by (rule socket_ok_dequeue)
  show "fst (socket_dequeue sk) = hd (socket_frames sk)
      \<and> socket_frames (snd (socket_dequeue sk)) = tl (socket_frames sk)"
    using socket_frames_dequeue [OF ok pos] by (metis list.sel(1,3))
qed

section \<open>Delivery and reception\<close>

definition net_ok :: "net \<Rightarrow> bool" where
  "net_ok s \<longleftrightarrow> length (g_sockets s) = MAX_SOCKETS \<and> (\<forall>sk \<in> set (g_sockets s). socket_ok sk)"

lemma net_ok_nth: "net_ok s \<Longrightarrow> i < MAX_SOCKETS \<Longrightarrow> socket_ok (g_sockets s ! i)"
  by (simp add: net_ok_def)

lemma socket_deliver_fields [simp]:
  "in_use (socket_deliver p len ety t sk) = in_use sk"
  "bound_protocol (socket_deliver p len ety t sk) = bound_protocol sk"
  by (simp_all add: socket_deliver_def socket_enqueue_def)

lemma socket_deliver_ok [simp]: "socket_ok sk \<Longrightarrow> socket_ok (socket_deliver p len ety t sk)"
  by (simp add: socket_deliver_def socket_ok_enqueue)

text \<open>The bytes of a queued frame, the type field of a frame, and the sockets that want it.\<close>

definition packet_bytes :: "rx_packet_t \<Rightarrow> u8 list" where
  "packet_bytes pkt = mem_list (rx_data pkt) 0 (unat (rx_len pkt))"

definition ether_type_of :: "bytes \<Rightarrow> u16" where
  "ether_type_of p = push_bit 8 (ucast (p 12)) OR ucast (p 13)"

definition wants :: "u16 \<Rightarrow> socket_t \<Rightarrow> bool" where
  "wants ety sk \<longleftrightarrow> in_use sk \<and> (bound_protocol sk = 0 \<or> bound_protocol sk = ety)"

lemma packet_bytes_slot:
  assumes "length f \<le> SOCKET_RX_BUF_SIZE"
  shows "packet_bytes (socket_slot (frame_in f rest) (of_nat (length f)) t slot) = f"
proof -
  have len: "unat (of_nat (length f) :: u32) = length f"
    using assms by (simp add: unsigned_of_nat take_bit_nat_eq_self SOCKET_RX_BUF_SIZE_def)
  have "unat (rx_len (socket_slot (frame_in f rest) (of_nat (length f)) t slot)) = length f"
    using assms len by (simp add: socket_slot_def Let_def SOCKET_RX_BUF_SIZE_def)
  moreover have "rx_data (socket_slot (frame_in f rest) (of_nat (length f)) t slot) k = f ! k" if "k < length f" for k
    using assms len that by (simp add: socket_slot_def Let_def SOCKET_RX_BUF_SIZE_def mem_copy_def frame_in_def)
  ultimately show ?thesis unfolding packet_bytes_def by (auto intro!: nth_equalityI)
qed

lemma socket_deliver_frames:
  assumes "socket_ok sk" and "length f \<le> SOCKET_RX_BUF_SIZE"
  shows "map packet_bytes (socket_frames (socket_deliver (frame_in f rest) (of_nat (length f)) ety t sk))
    = (if wants ety sk then take SOCKET_RX_QUEUE (map packet_bytes (socket_frames sk) @ [f])
       else map packet_bytes (socket_frames sk))"
proof -
  have "rx_count sk \<le> SOCKET_RX_QUEUE" using assms(1) by (simp add: socket_ok_def)
  then show ?thesis
    using socket_frames_enqueue [OF assms(1)] packet_bytes_slot [OF assms(2)]
    by (auto simp: socket_deliver_def wants_def)
qed

text \<open>A frame that neither asks for the host's hardware address nor is a ping for it.\<close>

definition quiet :: "u8 list \<Rightarrow> bytes \<Rightarrow> u8 list \<Rightarrow> bool" where
  "quiet ip rest f \<longleftrightarrow> ETHER_HEADER_SIZE \<le> length f \<and> length f \<le> SOCKET_RX_BUF_SIZE
     \<and> \<not> check_arp_is_for_us (frame_in f rest) ETHER_HEADER_SIZE ip
     \<and> \<not> icmp_is_ping_request (frame_in f rest) ETHER_HEADER_SIZE ip"

lemma deliver_quiet:
  assumes "quiet (my_ip_address s) rest f"
  obtains s' where "net_socket_deliver (frame_in f rest) (of_nat (length f)) s = Some s'"
    "my_ip_address s' = my_ip_address s"
    "g_sockets s' = map (socket_deliver (frame_in f rest) (of_nat (length f)) (ether_type_of (frame_in f rest)) (net_ticks s))
      (g_sockets s)"
proof -
  define s1 where "s1 = snd (arp_handle (frame_in f rest) s)"
  have s1: "arp_handle (frame_in f rest) s = (True, s1)" "my_ip_address s1 = my_ip_address s"
    "g_sockets s1 = g_sockets s" "net_ticks s1 = net_ticks s"
    using assms by (simp_all add: s1_def arp_handle_def quiet_def Let_def)
  have "unat (of_nat (length f) :: u32) = length f"
    using assms by (simp add: quiet_def unsigned_of_nat take_bit_nat_eq_self SOCKET_RX_BUF_SIZE_def)
  then show ?thesis
    using assms that s1 by (simp add: net_socket_deliver_def icmp_handle_def quiet_def ether_type_of_def)
qed

fun deliver_all :: "bytes \<Rightarrow> u8 list list \<Rightarrow> net \<Rightarrow> net option" where
  "deliver_all rest [] s = Some s"
| "deliver_all rest (f # fs) s = do {
     s1 \<leftarrow> net_socket_deliver (frame_in f rest) (of_nat (length f)) s;
     deliver_all rest fs s1
   }"

lemma take_absorb: "take n (take n xs @ ys) = take n (xs @ ys)"
  by (cases "length xs \<le> n") simp_all

lemma deliver_all_frames:
  assumes "net_ok s" and "i < MAX_SOCKETS"
    and "\<forall>f \<in> set fs. quiet (my_ip_address s) rest f"
    and "\<forall>f \<in> set fs. wants (ether_type_of (frame_in f rest)) (g_sockets s ! i)"
  shows "\<exists>s'. deliver_all rest fs s = Some s' \<and> net_ok s'
    \<and> in_use (g_sockets s' ! i) = in_use (g_sockets s ! i)
    \<and> map packet_bytes (socket_frames (g_sockets s' ! i))
      = take SOCKET_RX_QUEUE (map packet_bytes (socket_frames (g_sockets s ! i)) @ fs)"
  using assms
proof (induction fs arbitrary: s)
  case Nil
  then show ?case using net_ok_nth [of s i] by (simp add: socket_ok_def)
next
  case (Cons f fs)
  have "quiet (my_ip_address s) rest f" using Cons.prems(3) by simp
  then obtain s1 where s1: "net_socket_deliver (frame_in f rest) (of_nat (length f)) s = Some s1"
    "my_ip_address s1 = my_ip_address s"
    "g_sockets s1 = map (socket_deliver (frame_in f rest) (of_nat (length f)) (ether_type_of (frame_in f rest)) (net_ticks s))
      (g_sockets s)"
    by (rule deliver_quiet)
  have ok: "net_ok s1" using Cons.prems(1) by (simp add: net_ok_def s1(3))
  have nth: "g_sockets s1 ! i = socket_deliver (frame_in f rest) (of_nat (length f))
      (ether_type_of (frame_in f rest)) (net_ticks s) (g_sockets s ! i)"
    using Cons.prems(1,2) by (simp add: s1(3) net_ok_def)
  have fr: "map packet_bytes (socket_frames (g_sockets s1 ! i))
      = take SOCKET_RX_QUEUE (map packet_bytes (socket_frames (g_sockets s ! i)) @ [f])"
    using Cons.prems net_ok_nth [OF Cons.prems(1,2)] by (simp add: nth socket_deliver_frames quiet_def)
  have "\<forall>f \<in> set fs. wants (ether_type_of (frame_in f rest)) (g_sockets s1 ! i)"
    using Cons.prems(4) by (simp add: nth wants_def)
  then have "\<exists>s'. deliver_all rest fs s1 = Some s' \<and> net_ok s'
    \<and> in_use (g_sockets s' ! i) = in_use (g_sockets s1 ! i)
    \<and> map packet_bytes (socket_frames (g_sockets s' ! i))
      = take SOCKET_RX_QUEUE (map packet_bytes (socket_frames (g_sockets s1 ! i)) @ fs)"
    using Cons.prems(2,3) ok s1(2) by (intro Cons.IH) simp_all
  moreover have "take SOCKET_RX_QUEUE (map packet_bytes (socket_frames (g_sockets s1 ! i)) @ fs)
      = take SOCKET_RX_QUEUE (map packet_bytes (socket_frames (g_sockets s ! i)) @ f # fs)"
    unfolding fr take_absorb by (simp only: append_assoc append_Cons append_Nil)
  ultimately show ?case by (simp only: deliver_all.simps s1(1) bind.bind_lunit nth socket_deliver_fields)
qed

fun receive_all :: "(net \<Rightarrow> net) \<Rightarrow> int \<Rightarrow> u32 \<Rightarrow> nat \<Rightarrow> net \<Rightarrow> (u8 list list \<times> net) option" where
  "receive_all yield fd len 0 s = Some ([], s)"
| "receive_all yield fd len (Suc n) s = do {
     (r, buf, src, s1) \<leftarrow> sys_recvfrom yield fd (Some (\<lambda>_. 0)) len None s;
     (fs, s2) \<leftarrow> receive_all yield fd len n s1;
     Some (mem_list (the buf) 0 (nat r) # fs, s2)
   }"

definition short_frames :: "socket_t \<Rightarrow> bool" where
  "short_frames sk \<longleftrightarrow> (\<forall>pkt \<in> set (socket_frames sk). unat (rx_len pkt) \<le> SOCKET_RX_BUF_SIZE)"

lemma nat_sint_small:
  fixes w :: u32
  assumes "unat w < 2 ^ 31"
  shows "nat (sint w) = unat w"
proof -
  have "int (unat w) < int (2 ^ 31)" using assms by (rule iffD2 [OF of_nat_less_iff])
  then have "uint w < 2 ^ 31" by simp
  then have "sint w = uint w" by (simp add: sint_uint signed_take_bit_int_eq_self_iff order_trans [of _ 0])
  then show ?thesis by simp
qed

lemma recvfrom_takes:
  assumes fd: "fd_to_socket fd s = Some i" and "net_ok s" and "i < MAX_SOCKETS"
    and "0 < rx_count (g_sockets s ! i)" and "short_frames (g_sockets s ! i)"
    and len: "SOCKET_RX_BUF_SIZE \<le> unat len"
  obtains r buf s' where "sys_recvfrom yield fd (Some data) len None s = Some (r, Some buf, None, s')"
    "map packet_bytes (socket_frames (g_sockets s ! i))
      = mem_list buf 0 (nat r) # map packet_bytes (socket_frames (g_sockets s' ! i))"
    "fd_to_socket fd s' = Some i" "net_ok s'" "short_frames (g_sockets s' ! i)"
proof -
  let ?sk = "g_sockets s ! i"
  obtain pkt sk' where d: "socket_dequeue ?sk = (pkt, sk')" by force
  have ok: "socket_ok ?sk" using net_ok_nth assms(2,3) by blast
  have fr: "socket_frames ?sk = pkt # socket_frames sk'" and ok': "socket_ok sk'"
    using socket_frames_dequeue [OF ok assms(4)] socket_ok_dequeue [OF ok assms(4)] d by simp_all
  define s' where "s' = s\<lparr>g_sockets := (g_sockets s)[i := sk']\<rparr>"
  have lens: "i < length (g_sockets s)" using assms(2,3) by (simp add: net_ok_def)
  have short: "unat (rx_len pkt) \<le> SOCKET_RX_BUF_SIZE" using assms(5) fr by (simp add: short_frames_def)
  have nz: "len \<noteq> 0" using len by (auto simp: SOCKET_RX_BUF_SIZE_def)
  have copy: "(if rx_len pkt < len then rx_len pkt else len) = rx_len pkt"
    using short len by (auto simp: word_less_nat_alt word_unat_eq_iff)
  have "nat (sint (rx_len pkt)) = unat (rx_len pkt)"
    using short by (intro nat_sint_small) (simp add: SOCKET_RX_BUF_SIZE_def)
  moreover have "recv_wait yield i (net_ticks s) s = Some (True, s)"
    using assms(4) by (subst recv_wait.simps) simp
  then have run: "sys_recvfrom yield fd (Some data) len None s
      = Some (sint (rx_len pkt), Some (mem_copy data 0 (rx_data pkt) 0 (unat (rx_len pkt))), None, s')"
    using fd nz by (simp add: sys_recvfrom_def d copy s'_def Let_def)
  moreover have "mem_list (mem_copy data 0 (rx_data pkt) 0 (unat (rx_len pkt))) 0 (unat (rx_len pkt)) = packet_bytes pkt"
    by (auto simp: packet_bytes_def mem_copy_def intro!: nth_equalityI)
  moreover have "fd_to_socket fd s' = Some i"
    using fd lens d by (auto simp: fd_to_socket_def s'_def Let_def socket_dequeue_def nth_list_update split: if_split_asm)
  moreover have "net_ok s'"
    using assms(2) ok' set_update_subset_insert [of "g_sockets s" i sk'] by (auto simp: net_ok_def s'_def)
  moreover have "short_frames (g_sockets s' ! i)" using assms(5) fr lens by (simp add: short_frames_def s'_def)
  ultimately show ?thesis using that fr lens by (simp add: s'_def)
qed

lemma receive_all_frames:
  assumes "fd_to_socket fd s = Some i" and "net_ok s" and "i < MAX_SOCKETS" and "short_frames (g_sockets s ! i)"
    and "SOCKET_RX_BUF_SIZE \<le> unat len" and "n \<le> rx_count (g_sockets s ! i)"
  shows "\<exists>s'. receive_all yield fd len n s
    = Some (take n (map packet_bytes (socket_frames (g_sockets s ! i))), s')"
  using assms
proof (induction n arbitrary: s)
  case (Suc n)
  then have pos: "0 < rx_count (g_sockets s ! i)" by simp
  obtain r buf s1 where
    s1: "sys_recvfrom yield fd (Some (\<lambda>_. 0)) len None s = Some (r, Some buf, None, s1)"
      "map packet_bytes (socket_frames (g_sockets s ! i))
        = mem_list buf 0 (nat r) # map packet_bytes (socket_frames (g_sockets s1 ! i))"
      "fd_to_socket fd s1 = Some i" "net_ok s1" "short_frames (g_sockets s1 ! i)"
    by (rule recvfrom_takes [OF Suc.prems(1-3) pos Suc.prems(4,5), of yield "\<lambda>_. 0"])
  have "rx_count (g_sockets s ! i) = Suc (rx_count (g_sockets s1 ! i))"
    using arg_cong [OF s1(2), of length] by simp
  with Suc.IH [of s1] Suc.prems s1 show ?case by auto
qed simp

lemma fd_socket_range: "fd_to_socket fd s = Some i \<Longrightarrow> i < MAX_SOCKETS \<and> in_use (g_sockets s ! i) \<and> fd = SOCKET_FD_BASE + int i"
  by (auto simp: fd_to_socket_def Let_def split: if_split_asm)

lemma fd_to_socket_in_use:
  "i < MAX_SOCKETS \<Longrightarrow> in_use (g_sockets s ! i) \<Longrightarrow> fd_to_socket (SOCKET_FD_BASE + int i) s = Some i"
  by (simp add: fd_to_socket_def)

text \<open>
  C4. A socket receives what arrives, in order. Let frames arrive that the
  socket's filter accepts and that the kernel does not answer itself, while
  the socket's queue is empty. Then all of them are processed, and as many
  \<^verbatim>\<open>sys_recvfrom\<close> calls as there are frames, at most the four the queue holds,
  return exactly the first of these frames, byte for byte and in the order of
  arrival; later ones are dropped.
\<close>

theorem socket_receives_in_order:
  assumes fd: "fd_to_socket fd s = Some i" and ok: "net_ok s" and empty: "rx_count (g_sockets s ! i) = 0"
    and quiet: "\<forall>f \<in> set fs. quiet (my_ip_address s) rest f"
    and wants: "\<forall>f \<in> set fs. wants (ether_type_of (frame_in f rest)) (g_sockets s ! i)"
    and len: "SOCKET_RX_BUF_SIZE \<le> unat len"
  shows "\<exists>s1 s2. deliver_all rest fs s = Some s1
    \<and> receive_all yield fd len (min SOCKET_RX_QUEUE (length fs)) s1 = Some (take SOCKET_RX_QUEUE fs, s2)"
proof -
  note i = fd_socket_range [OF fd]
  obtain s1 where s1: "deliver_all rest fs s = Some s1" "net_ok s1" "in_use (g_sockets s1 ! i)"
    "map packet_bytes (socket_frames (g_sockets s1 ! i)) = take SOCKET_RX_QUEUE fs"
    using deliver_all_frames [OF ok _ quiet wants] i empty by (auto simp: socket_frames_def)
  have fd1: "fd_to_socket fd s1 = Some i" using fd_to_socket_in_use i s1(3) by simp
  have count: "rx_count (g_sockets s1 ! i) = min SOCKET_RX_QUEUE (length fs)"
    using arg_cong [OF s1(4), of length] by (simp add: min.commute)
  have "unat (rx_len pkt) \<le> SOCKET_RX_BUF_SIZE" if "pkt \<in> set (socket_frames (g_sockets s1 ! i))" for pkt
  proof -
    have "packet_bytes pkt \<in> set (take SOCKET_RX_QUEUE fs)" using that by (simp flip: s1(4))
    then have "length (packet_bytes pkt) \<le> SOCKET_RX_BUF_SIZE" using quiet by (auto simp: quiet_def dest: in_set_takeD)
    then show ?thesis by (simp add: packet_bytes_def)
  qed
  then have "short_frames (g_sockets s1 ! i)" by (simp add: short_frames_def)
  then have "\<exists>s2. receive_all yield fd len (min SOCKET_RX_QUEUE (length fs)) s1
      = Some (take (min SOCKET_RX_QUEUE (length fs)) (map packet_bytes (socket_frames (g_sockets s1 ! i))), s2)"
    using fd1 s1(2) i len count by (intro receive_all_frames) simp_all
  then show ?thesis using s1(1,4) by (auto simp: min_def)
qed

section \<open>The receive call returns\<close>

lemma recv_wait_returns:
  assumes clock: "\<And>s. \<exists>d. 0 < d \<and> d \<le> 2 ^ 32 - 3000 \<and> net_ticks (yield s) = net_ticks s + of_nat d"
  shows "\<exists>arrived s'. recv_wait yield i start s = Some (arrived, s')
    \<and> (if arrived then 0 < rx_count (g_sockets s' ! i)
       else rx_count (g_sockets s' ! i) = 0 \<and> RECVFROM_TIMEOUT_TICKS \<le> net_ticks s' - start)"
proof (induction "3000 - unat (net_ticks s - start)" arbitrary: s rule: less_induct)
  case less
  show ?case
  proof (cases "rx_count (g_sockets s ! i) = 0 \<and> net_ticks s - start < RECVFROM_TIMEOUT_TICKS")
    case True
    obtain d where d: "0 < d" "d \<le> 2 ^ 32 - 3000" "net_ticks (yield s) = net_ticks s + of_nat d"
      using clock by blast
    let ?e = "net_ticks s - start"
    have e: "unat ?e < 3000" using True by (simp add: RECVFROM_TIMEOUT_TICKS_def word_less_nat_alt)
    have "unat (?e + of_nat d) = unat ?e + d"
      using e d(1,2) by (simp add: unat_word_ariths unsigned_of_nat take_bit_nat_eq_self)
    moreover have "?e + of_nat d = net_ticks (yield s) - start" by (simp add: d(3))
    ultimately have "unat (net_ticks (yield s) - start) = unat ?e + d" by simp
    then have "3000 - unat (net_ticks (yield s) - start) < 3000 - unat ?e" using e d(1) by linarith
    moreover have "recv_wait yield i start s = recv_wait yield i start (yield s)"
      using True by (subst recv_wait.simps) (auto dest: leD)
    ultimately show ?thesis using less by simp
  next
    case False
    then show ?thesis by (subst recv_wait.simps) (auto simp: not_less)
  qed
qed


section \<open>Concrete instances\<close>

definition demo_host :: net where
  "demo_host = net_start [0x52, 0x54, 0x00, 0x12, 0x34, 0x56]"

definition demo_peer :: net where
  "demo_peer = (net_start [0x52, 0x54, 0x00, 0x65, 0x43, 0x21])\<lparr>my_ip_address := [10, 0, 0, 1]\<rparr>"

definition demo_ping :: "u8 list" where
  "demo_ping = [0x52, 0x54, 0x00, 0x12, 0x34, 0x56] @ [0x52, 0x54, 0x00, 0x65, 0x43, 0x21] @ [0x08, 0x00] @
     [0x45, 0, 0, 30, 0, 1, 0, 0, 64, 1, 0, 0, 10, 0, 0, 1, 10, 0, 0, 100] @
     [8, 0, 0, 0, 0x12, 0x34, 0, 7, 0x68, 0x69]"

theorem ping_answered_witness:
  "\<exists>s' f. net_socket_deliver (frame_in demo_ping (\<lambda>_. 0)) 44 demo_host = Some s' \<and> sent s' = [(0, f)]
    \<and> length f = 44 \<and> calculate_checksum (drop 34 f) = 0 \<and> drop 38 f = [0x12, 0x34, 0, 7, 0x68, 0x69]"
proof -
  let ?p = "frame_in demo_ping (\<lambda>_. 0)"
  have "\<not> check_arp_is_for_us ?p 14 (my_ip_address demo_host)"
    "icmp_is_ping_request ?p 14 (my_ip_address demo_host)"
    "14 \<le> unat (44::u32)" "ip_header_length_size ?p 14 + 8 \<le> unat (ntohs (get16 ?p 16))" "echo_data_len ?p \<le> 1458"
    "length (rtl8139_mac demo_host) = 6" "length (my_ip_address demo_host) = 4"
    by code_simp+
  note ping_answered [OF this]
  moreover have "echo_data_len ?p = 2" "sent demo_host = []" "current_tx_desc demo_host = 0"
    "mem_list ?p (18 + ip_header_length_size ?p 14) (4 + 2) = [0x12, 0x34, 0, 7, 0x68, 0x69]"
    by code_simp+
  ultimately show ?thesis by auto
qed

theorem ping_roundtrip_witness:
  "\<exists>a' f b' g.
      icmp_send_echo_request [10, 0, 0, 1] 7 (rtl8139_mac demo_host) (my_ip_address demo_host) (rtl8139_mac demo_peer) demo_host
        = (True, a')
    \<and> sent a' = [(0, f)] \<and> net_socket_deliver (frame_in f (\<lambda>_. 0)) (of_nat (length f)) demo_peer = Some b'
    \<and> sent b' = [(0, g)] \<and> icmp_is_echo_reply (frame_in g (\<lambda>_. 0)) 14
    \<and> icmp_get_reply_sequence (frame_in g (\<lambda>_. 0)) 14 = 7"
proof -
  have "length (rtl8139_mac demo_host) = 6" "length (my_ip_address demo_host) = 4"
    "length (rtl8139_mac demo_peer) = 6" "length (my_ip_address demo_peer) = 4"
    by code_simp+
  note ping_roundtrip [OF this, where sq = 7 and rest = "\<lambda>_. 0" and rest' = "\<lambda>_. 0"]
  moreover have "my_ip_address demo_peer = [10, 0, 0, 1]" "sent demo_host = []" "current_tx_desc demo_host = 0"
    "sent demo_peer = []" "current_tx_desc demo_peer = 0"
    by code_simp+
  ultimately show ?thesis by auto
qed

theorem arp_cache_remembers_witness:
  "arp_cache_lookup [10, 0, 0, 1] (fold (\<lambda>(ip', mac'). arp_cache_insert ip' mac')
      [([10, 0, 0, 2], [1, 2, 3, 4, 5, 6]), ([10, 0, 0, 3], [1, 2, 3, 4, 5, 7])]
      (arp_cache_insert [10, 0, 0, 1] [0x52, 0x54, 0, 1, 2, 3] demo_host)) = Some [0x52, 0x54, 0, 1, 2, 3]"
proof (rule arp_cache_remembers)
  show "length (g_arp_cache demo_host) = ARP_CACHE_SIZE" "g_arp_cache_next demo_host < ARP_CACHE_SIZE"
    "arp_cache_lookup [10, 0, 0, 1] demo_host = None"
    by code_simp+
qed (simp_all add: ARP_CACHE_SIZE_def)

theorem arp_resolves_peer_witness:
  "\<exists>a'. arp_resolve (wire demo_peer (\<lambda>_. 0) (\<lambda>_. 0)) (my_ip_address demo_peer) (rtl8139_mac demo_host)
      (my_ip_address demo_host) demo_host = (Some (rtl8139_mac demo_peer), a')
    \<and> arp_cache_lookup (my_ip_address demo_peer) a' = Some (rtl8139_mac demo_peer)
    \<and> length (sent a') = length (sent demo_host) + 1"
proof (rule arp_resolves_peer)
  show "length (rtl8139_mac demo_host) = 6" "length (my_ip_address demo_host) = 4"
    "length (rtl8139_mac demo_peer) = 6" "length (my_ip_address demo_peer) = 4" "rtl8139_mac demo_peer ! 1 \<noteq> ICMP_PROTOCOL"
    "length (g_arp_cache demo_host) = ARP_CACHE_SIZE" "g_arp_cache_next demo_host < ARP_CACHE_SIZE"
    "arp_cache_lookup (my_ip_address demo_peer) demo_host = None"
    by code_simp+
qed

text \<open>A socket for ARP frames on the demonstration host, and a frame it accepts.\<close>

definition demo_open :: net where
  "demo_open = snd (sys_socket 1 1 0x0806 demo_host)"

definition demo_frame :: "u8 list" where
  "demo_frame = replicate 12 0xFF @ [0x08, 0x06] @ replicate 28 0"

theorem socket_receives_in_order_witness:
  "\<exists>s1 s2. deliver_all (\<lambda>_. 0) [demo_frame, demo_frame @ [1]] demo_open = Some s1
    \<and> receive_all id 64 4096 (min SOCKET_RX_QUEUE (length [demo_frame, demo_frame @ [1]])) s1
      = Some (take SOCKET_RX_QUEUE [demo_frame, demo_frame @ [1]], s2)"
proof (rule socket_receives_in_order)
  show "fd_to_socket 64 demo_open = Some 0" "net_ok demo_open" "rx_count (g_sockets demo_open ! 0) = 0"
    "\<forall>f \<in> set [demo_frame, demo_frame @ [1]]. quiet (my_ip_address demo_open) (\<lambda>_. 0) f"
    "\<forall>f \<in> set [demo_frame, demo_frame @ [1]]. wants (ether_type_of (frame_in f (\<lambda>_. 0))) (g_sockets demo_open ! 0)"
    "SOCKET_RX_BUF_SIZE \<le> unat (4096::u32)"
    by code_simp+
qed

definition tick :: "net \<Rightarrow> net" where
  "tick s = s\<lparr>net_ticks := net_ticks s + 1\<rparr>"


end
