(* ===== verification/Modules.thy ===== *)
theory Modules
  imports KPrelude "HOL-Library.Monad_Syntax"
begin

text \<open>
  The module registry (\<^verbatim>\<open>modules.c\<close>): subsystems with named dependencies,
  initialised in dependency order.

  A module is its position in the registry list; the list holds the records in
  the order of their \<^verbatim>\<open>next\<close> pointers. Names are strings, compared for equality
  as \<^verbatim>\<open>strcmp\<close> does. The initialisation functions are the kernel's subsystems;
  what matters here is when they run, so the state logs the modules whose
  \<^verbatim>\<open>init\<close> has been called, in order. The recursion over dependencies follows no
  measure, since nothing keeps the dependency graph acyclic: a non-terminating
  load is \<^verbatim>\<open>None\<close>.
\<close>

datatype module_state_t = MODULE_LOADING | MODULE_LOADED

record module_t =
  m_name :: string
  required_modules_names :: "string list option"
  has_init :: bool
  m_state :: module_state_t

record modules =
  module_registry :: "module_t list"
  init_log :: "nat list"

definition modules_init_registry :: "module_t list \<Rightarrow> module_t list \<Rightarrow> modules \<Rightarrow> modules" where
  "modules_init_registry static_modules dynamic_modules s =
     s\<lparr>module_registry := fold (#) static_modules (module_registry s) @ dynamic_modules\<rparr>"

definition find_module_by_name :: "string \<Rightarrow> modules \<Rightarrow> nat option" where
  "find_module_by_name name s =
     List.find (\<lambda>i. m_name (module_registry s ! i) = name) [0..<length (module_registry s)]"

definition set_module_state :: "nat \<Rightarrow> module_state_t \<Rightarrow> modules \<Rightarrow> modules" where
  "set_module_state i st s =
     s\<lparr>module_registry := (module_registry s)[i := (module_registry s ! i)\<lparr>m_state := st\<rparr>]\<rparr>"

primrec foldM :: "('x \<Rightarrow> 's \<Rightarrow> 's option) \<Rightarrow> 'x list \<Rightarrow> 's \<Rightarrow> 's option" where
  "foldM f [] s = Some s"
| "foldM f (x # xs) s = f x s \<bind> foldM f xs"

lemma foldM_mono [partial_function_mono]:
  assumes "\<And>x s. mono_option (\<lambda>F. B F x s)"
  shows "mono_option (\<lambda>F. foldM (B F) xs s)"
proof (induction xs arbitrary: s)
  case Nil
  show ?case by (simp add: monotone_def option.leq_refl)
next
  case (Cons x xs)
  show ?case unfolding foldM.simps by (intro bind_mono assms Cons.IH)
qed

partial_function (option) module_load :: "nat \<Rightarrow> modules \<Rightarrow> modules option" where
  "module_load i s =
     (if m_state (module_registry s ! i) = MODULE_LOADED then Some s
      else do {
        s2 \<leftarrow> foldM (\<lambda>name s1. case find_module_by_name name s1 of
                             Some dep \<Rightarrow> module_load dep s1
                           | None \<Rightarrow> Some s1)
               (case required_modules_names (module_registry s ! i) of Some names \<Rightarrow> names | None \<Rightarrow> [])
               (set_module_state i MODULE_LOADING s);
        let s3 = (if has_init (module_registry s2 ! i) then s2\<lparr>init_log := init_log s2 @ [i]\<rparr> else s2);
        Some (set_module_state i MODULE_LOADED s3)
      })"

definition modules_load :: "modules \<Rightarrow> modules option" where
  "modules_load s = foldM module_load [0..<length (module_registry s)] s"

section \<open>Dependency order\<close>

text \<open>
  The registry without the load states never changes. \<^verbatim>\<open>depends R i j\<close>: module
  \<^verbatim>\<open>i\<close> of the registry \<^verbatim>\<open>R\<close> names module \<^verbatim>\<open>j\<close> as a dependency.
\<close>

definition skeleton :: "module_t list \<Rightarrow> module_t list" where
  "skeleton R = map (\<lambda>m. m\<lparr>m_state := MODULE_LOADING\<rparr>) R"

definition required :: "module_t list \<Rightarrow> nat \<Rightarrow> string list" where
  "required R i = (case required_modules_names (R ! i) of Some names \<Rightarrow> names | None \<Rightarrow> [])"

definition find_in :: "module_t list \<Rightarrow> string \<Rightarrow> nat option" where
  "find_in R name = List.find (\<lambda>i. m_name (R ! i) = name) [0..<length R]"

definition depends :: "module_t list \<Rightarrow> nat \<Rightarrow> nat \<Rightarrow> bool" where
  "depends R i j \<longleftrightarrow> (\<exists>name \<in> set (required R i). find_in R name = Some j)"

definition loaded :: "modules \<Rightarrow> nat set" where
  "loaded s = {i. i < length (module_registry s) \<and> m_state (module_registry s ! i) = MODULE_LOADED}"

definition before_in :: "nat list \<Rightarrow> nat \<Rightarrow> nat \<Rightarrow> bool" where
  "before_in xs j i \<longleftrightarrow> (\<exists>ys zs. xs = ys @ i # zs \<and> j \<in> set ys)"

definition modules_inv :: "module_t list \<Rightarrow> modules \<Rightarrow> bool" where
  "modules_inv R s \<longleftrightarrow> skeleton (module_registry s) = R \<and> distinct (init_log s)
     \<and> set (init_log s) = {i \<in> loaded s. has_init (R ! i)}
     \<and> (\<forall>i \<in> loaded s. \<forall>j. depends R i j \<longrightarrow> j \<in> loaded s)
     \<and> (\<forall>i \<in> set (init_log s). \<forall>j. depends R i j \<and> has_init (R ! j) \<longrightarrow> before_in (init_log s) j i)"

lemma find_cong: "(\<And>x. x \<in> set xs \<Longrightarrow> P x = Q x) \<Longrightarrow> List.find P xs = List.find Q xs"
  by (induction xs) auto

lemma skeleton_nth:
  assumes "skeleton (module_registry s) = R"
  shows "length (module_registry s) = length R"
    and "i < length R \<Longrightarrow> has_init (module_registry s ! i) = has_init (R ! i)"
    and "i < length R \<Longrightarrow> required_modules_names (module_registry s ! i) = required_modules_names (R ! i)"
    and "i < length R \<Longrightarrow> m_name (module_registry s ! i) = m_name (R ! i)"
    and "find_module_by_name name s = find_in R name"
  using assms by (auto simp: skeleton_def find_module_by_name_def find_in_def intro!: find_cong)

lemma find_in_less: "find_in R name = Some j \<Longrightarrow> j < length R"
  by (simp add: find_in_def find_upt_Some)

lemma m_state_same: "m_state m = st \<Longrightarrow> m\<lparr>m_state := st\<rparr> = m"
  by auto

lemma set_loading_id:
  "i < length (module_registry s) \<Longrightarrow> m_state (module_registry s ! i) \<noteq> MODULE_LOADED \<Longrightarrow>
   set_module_state i MODULE_LOADING s = s"
  by (cases "m_state (module_registry s ! i)") (simp_all add: set_module_state_def m_state_same)

lemma set_loaded:
  assumes "skeleton (module_registry s) = R" and "i < length R"
  shows "skeleton (module_registry (set_module_state i MODULE_LOADED s)) = R"
    and "loaded (set_module_state i MODULE_LOADED s) = insert i (loaded s)"
    and "init_log (set_module_state i MODULE_LOADED s) = init_log s"
proof -
  have "(skeleton (module_registry s))[i := (module_registry s ! i)\<lparr>m_state := MODULE_LOADING\<rparr>] = skeleton (module_registry s)"
    using assms by (intro nth_equalityI) (auto simp: skeleton_def nth_list_update)
  then show "skeleton (module_registry (set_module_state i MODULE_LOADED s)) = R"
    using assms by (simp add: skeleton_def set_module_state_def map_update)
  show "loaded (set_module_state i MODULE_LOADED s) = insert i (loaded s)"
    using assms by (auto simp: loaded_def set_module_state_def nth_list_update skeleton_def)
  show "init_log (set_module_state i MODULE_LOADED s) = init_log s" by (simp add: set_module_state_def)
qed

lemma before_in_append: "before_in xs j i \<Longrightarrow> before_in (xs @ ys) j i"
  unfolding before_in_def by (metis append.assoc append_Cons)

lemma before_in_last: "j \<in> set xs \<Longrightarrow> before_in (xs @ [i]) j i"
  by (auto simp: before_in_def)

text \<open>Running \<^verbatim>\<open>init\<close> and marking a module whose dependencies are loaded keeps the invariant.\<close>

lemma module_finish:
  assumes inv: "modules_inv R s" and i: "i < length R" "i \<notin> loaded s" and deps: "\<And>j. depends R i j \<Longrightarrow> j \<in> loaded s"
  defines "s' \<equiv> set_module_state i MODULE_LOADED
    (if has_init (module_registry s ! i) then s\<lparr>init_log := init_log s @ [i]\<rparr> else s)"
  shows "modules_inv R s'" and "loaded s' = insert i (loaded s)"
proof -
  have sk: "skeleton (module_registry s) = R" using inv by (simp add: modules_inv_def)
  have hi: "has_init (module_registry s ! i) = has_init (R ! i)" using skeleton_nth(2) [OF sk i(1)] .
  let ?t = "if has_init (module_registry s ! i) then s\<lparr>init_log := init_log s @ [i]\<rparr> else s"
  have t: "skeleton (module_registry ?t) = R" "loaded ?t = loaded s" using sk by (simp_all add: loaded_def)
  note sl = set_loaded [OF t(1) i(1), folded s'_def]
  show ld: "loaded s' = insert i (loaded s)" using sl(2) t(2) by simp
  have log: "init_log s' = (if has_init (R ! i) then init_log s @ [i] else init_log s)"
    using sl(3) by (simp add: hi)
  have no: "i \<notin> set (init_log s)" using inv i(2) by (simp add: modules_inv_def)
  show "modules_inv R s'"
    using inv sl(1) deps no unfolding modules_inv_def ld log
    by (auto intro: before_in_append before_in_last)
qed

text \<open>\<^verbatim>\<open>loads R rank B s s'\<close>: from \<^verbatim>\<open>s\<close>, modules of rank up to the bound have been loaded.\<close>

definition loads :: "module_t list \<Rightarrow> (nat \<Rightarrow> bool) \<Rightarrow> modules \<Rightarrow> modules \<Rightarrow> bool" where
  "loads R B s s' \<longleftrightarrow> modules_inv R s' \<and> loaded s \<subseteq> loaded s' \<and> (\<forall>j \<in> loaded s' - loaded s. B j)"

lemma loads_trans: "loads R B s s1 \<Longrightarrow> loads R B s1 s2 \<Longrightarrow> loads R B s s2"
  unfolding loads_def by blast

lemma loads_mono: "loads R B s s' \<Longrightarrow> (\<And>j. B j \<Longrightarrow> C j) \<Longrightarrow> loads R C s s'"
  unfolding loads_def by blast

lemma foldM_deps:
  assumes "\<And>name j s. name \<in> set names \<Longrightarrow> find_in R name = Some j \<Longrightarrow> modules_inv R s \<Longrightarrow>
      \<exists>s'. load j s = Some s' \<and> loads R B s s' \<and> j \<in> loaded s'"
    and "modules_inv R s"
  shows "\<exists>s'. foldM (\<lambda>name s1. case find_module_by_name name s1 of Some dep \<Rightarrow> load dep s1 | None \<Rightarrow> Some s1)
      names s = Some s' \<and> loads R B s s'
    \<and> (\<forall>name \<in> set names. \<forall>j. find_in R name = Some j \<longrightarrow> j \<in> loaded s')"
  using assms
proof (induction names arbitrary: s)
  case Nil
  then show ?case by (simp add: loads_def)
next
  case (Cons name names)
  have find: "find_module_by_name name s = find_in R name"
    using Cons.prems(2) by (simp add: modules_inv_def skeleton_nth(5))
  obtain s1 where s1: "(case find_module_by_name name s of Some dep \<Rightarrow> load dep s | None \<Rightarrow> Some s) = Some s1"
    "loads R B s s1" "\<And>j. find_in R name = Some j \<Longrightarrow> j \<in> loaded s1"
  proof (cases "find_in R name")
    case None
    then show ?thesis using that [of s] Cons.prems(2) find by (simp add: loads_def)
  next
    case (Some j)
    then show ?thesis using that Cons.prems(1) [of name j s] Cons.prems(2) find by auto
  qed
  have inv1: "modules_inv R s1" using s1(2) by (simp add: loads_def)
  have "\<exists>s'. foldM (\<lambda>name s1. case find_module_by_name name s1 of Some dep \<Rightarrow> load dep s1 | None \<Rightarrow> Some s1)
      names s1 = Some s' \<and> loads R B s1 s'
    \<and> (\<forall>name \<in> set names. \<forall>j. find_in R name = Some j \<longrightarrow> j \<in> loaded s')"
    by (rule Cons.IH [OF Cons.prems(1) inv1]) simp_all
  then obtain s2 where "foldM (\<lambda>name s1. case find_module_by_name name s1 of Some dep \<Rightarrow> load dep s1 | None \<Rightarrow> Some s1)
      names s1 = Some s2" "loads R B s1 s2" "\<forall>name \<in> set names. \<forall>j. find_in R name = Some j \<longrightarrow> j \<in> loaded s2"
    by blast
  moreover from this(2) s1(3) have "\<And>j. find_in R name = Some j \<Longrightarrow> j \<in> loaded s2"
    unfolding loads_def by blast
  ultimately show ?case using s1(1) loads_trans [OF s1(2)] by simp
qed

lemma module_load_ordered:
  assumes acyclic: "\<And>i j. i < length R \<Longrightarrow> depends R i j \<Longrightarrow> rank j < (rank i :: nat)"
    and "i < length R" and "modules_inv R s"
  shows "\<exists>s'. module_load i s = Some s' \<and> loads R (\<lambda>j. rank j \<le> rank i) s s' \<and> i \<in> loaded s'"
  using assms(2,3)
proof (induction "rank i" arbitrary: i s rule: less_induct)
  case less
  have sk: "skeleton (module_registry s) = R" using less.prems(2) by (simp add: modules_inv_def)
  have i: "i < length (module_registry s)" using less.prems(1) skeleton_nth(1) [OF sk] by simp
  show ?case
  proof (cases "m_state (module_registry s ! i) = MODULE_LOADED")
    case True
    then have "module_load i s = Some s" by (subst module_load.simps) simp
    with True i less.prems(2) show ?thesis by (simp add: loads_def loaded_def)
  next
    case False
    let ?deps = "foldM (\<lambda>name s1. case find_module_by_name name s1 of Some dep \<Rightarrow> module_load dep s1 | None \<Rightarrow> Some s1)
      (required R i) s"
    have "\<exists>s2. ?deps = Some s2 \<and> loads R (\<lambda>j. rank j < rank i) s s2
      \<and> (\<forall>name \<in> set (required R i). \<forall>j. find_in R name = Some j \<longrightarrow> j \<in> loaded s2)"
    proof (rule foldM_deps [where load = module_load, OF _ less.prems(2)])
      fix name j t
      assume "name \<in> set (required R i)" and f: "find_in R name = Some j" and "modules_inv R t"
      then have r: "rank j < rank i" using acyclic [OF less.prems(1)] by (auto simp: depends_def)
      obtain t' where "module_load j t = Some t'" "loads R (\<lambda>k. rank k \<le> rank j) t t'" "j \<in> loaded t'"
        using less.hyps [OF r find_in_less [OF f] \<open>modules_inv R t\<close>] by blast
      then show "\<exists>t'. module_load j t = Some t' \<and> loads R (\<lambda>j. rank j < rank i) t t' \<and> j \<in> loaded t'"
        using loads_mono [of R "\<lambda>k. rank k \<le> rank j" t t' "\<lambda>j. rank j < rank i"] r by auto
    qed
    then obtain s2 where s2: "?deps = Some s2" "loads R (\<lambda>j. rank j < rank i) s s2"
      "\<And>j. depends R i j \<Longrightarrow> j \<in> loaded s2"
      by (auto simp: depends_def)
    have inv2: "modules_inv R s2" and fresh: "i \<notin> loaded s2"
      using s2(2) False i by (auto simp: loads_def loaded_def)
    note fin = module_finish [OF inv2 less.prems(1) fresh s2(3)]
    have "module_load i s = Some (set_module_state i MODULE_LOADED
        (if has_init (module_registry s2 ! i) then s2\<lparr>init_log := init_log s2 @ [i]\<rparr> else s2))"
      using False s2(1) set_loading_id [OF i False] skeleton_nth(3) [OF sk less.prems(1)]
      by (subst module_load.simps) (simp add: required_def Let_def)
    with fin s2(2) show ?thesis by (auto simp: loads_def intro: less_imp_le)
  qed
qed

lemma modules_load_all:
  assumes "\<And>i j. i < length R \<Longrightarrow> depends R i j \<Longrightarrow> rank j < (rank i :: nat)"
    and "set is \<subseteq> {..<length R}" and "modules_inv R s"
  shows "\<exists>s'. foldM module_load is s = Some s' \<and> modules_inv R s' \<and> loaded s \<union> set is \<subseteq> loaded s'"
  using assms(2,3)
proof (induction "is" arbitrary: s)
  case (Cons i "is")
  obtain s1 where s1: "module_load i s = Some s1" "loads R (\<lambda>j. rank j \<le> rank i) s s1" "i \<in> loaded s1"
    using module_load_ordered [of R rank i s, OF assms(1)] Cons.prems by auto
  then obtain s2 where s2: "foldM module_load is s1 = Some s2" "modules_inv R s2" "loaded s1 \<union> set is \<subseteq> loaded s2"
    using Cons.IH [of s1] Cons.prems by (auto simp: loads_def)
  moreover have "loaded s \<union> set (i # is) \<subseteq> loaded s2" using s1(2,3) s2(3) unfolding loads_def by auto
  ultimately show ?case using s1(1) by simp
qed simp

text \<open>
  C7. Modules are initialised in dependency order. When the dependencies
  between the registered modules are acyclic, so that some rank decreases
  along them, \<^verbatim>\<open>modules_load\<close> returns with every module loaded; the \<^verbatim>\<open>init\<close>
  function of each module that has one was called exactly once, and after the
  \<^verbatim>\<open>init\<close> functions of all the modules it depends on.
\<close>

theorem modules_load_in_order:
  fixes rank :: "nat \<Rightarrow> nat"
  assumes start: "init_log s = []" "\<forall>m \<in> set (module_registry s). m_state m = MODULE_LOADING"
    and acyclic: "\<forall>i < length (module_registry s). \<forall>j. depends (module_registry s) i j \<longrightarrow> rank j < rank i"
  shows "\<exists>s'. modules_load s = Some s'
    \<and> (\<forall>i < length (module_registry s). m_state (module_registry s' ! i) = MODULE_LOADED)
    \<and> distinct (init_log s')
    \<and> set (init_log s') = {i. i < length (module_registry s) \<and> has_init (module_registry s ! i)}
    \<and> (\<forall>i j. i \<in> set (init_log s') \<and> depends (module_registry s) i j \<and> j \<in> set (init_log s')
         \<longrightarrow> before_in (init_log s') j i)"
proof -
  let ?R = "module_registry s"
  have sk: "skeleton ?R = ?R" using start(2) by (auto simp: skeleton_def m_state_same intro!: map_idI)
  have none: "loaded s = {}" using start(2) by (auto simp: loaded_def dest!: nth_mem)
  have "modules_inv ?R s" using sk none start(1) by (simp add: modules_inv_def)
  then obtain s' where s': "modules_load s = Some s'" "modules_inv ?R s'" "{..<length ?R} \<subseteq> loaded s'"
    using modules_load_all [of ?R rank "[0..<length ?R]" s] acyclic by (auto simp: modules_load_def lessThan_atLeast0)
  have "length (module_registry s') = length ?R" using skeleton_nth(1) s'(2) by (auto simp: modules_inv_def)
  then have ld: "loaded s' = {..<length ?R}" using s'(3) by (auto simp: loaded_def)
  have "\<forall>i < length ?R. m_state (module_registry s' ! i) = MODULE_LOADED"
    using s'(3) by (auto simp: loaded_def)
  moreover have "distinct (init_log s')" "set (init_log s') = {i. i < length ?R \<and> has_init (?R ! i)}"
    using s'(2) by (auto simp: modules_inv_def ld)
  ultimately show ?thesis using s'(1,2) by (auto simp: modules_inv_def)
qed

text \<open>
  A dependency cycle is not detected: a module that names itself is never
  loaded, the recursion does not return.
\<close>

definition self_module :: module_t where
  "self_module = \<lparr> m_name = ''a'', required_modules_names = Some [''a''], has_init = True, m_state = MODULE_LOADING \<rparr>"

lemma self_dependency_never_returns: "module_load 0 \<lparr> module_registry = [self_module], init_log = [] \<rparr> = None"
proof -
  let ?s = "\<lparr> module_registry = [self_module], init_log = [] \<rparr>"
  have set: "set_module_state 0 MODULE_LOADING ?s = ?s"
    by (rule set_loading_id) (simp_all add: self_module_def)
  have find: "find_module_by_name ''a'' ?s = Some 0" by (simp add: find_module_by_name_def self_module_def)
  have names: "required_modules_names self_module = Some [''a'']" "m_state self_module = MODULE_LOADING"
    by (simp_all add: self_module_def)
  have "\<not> (i = 0 \<and> s = ?s)" if "module_load i s = Some r" for i s r
    using that
  proof (rule module_load.raw_induct [where P = "\<lambda>i s r. \<not> (i = 0 \<and> s = ?s)", rotated])
    fix load i s r
    assume IH: "\<And>i s r. load i s = Some r \<Longrightarrow> \<not> (i = 0 \<and> s = ?s)"
      and body: "(if m_state (module_registry s ! i) = MODULE_LOADED then Some s
      else do {
        s2 \<leftarrow> foldM (\<lambda>name s1. case find_module_by_name name s1 of
                             Some dep \<Rightarrow> load dep s1
                           | None \<Rightarrow> Some s1)
               (case required_modules_names (module_registry s ! i) of Some names \<Rightarrow> names | None \<Rightarrow> [])
               (set_module_state i MODULE_LOADING s);
        let s3 = (if has_init (module_registry s2 ! i) then s2\<lparr>init_log := init_log s2 @ [i]\<rparr> else s2);
        Some (set_module_state i MODULE_LOADED s3)
      }) = Some r"
    show "\<not> (i = 0 \<and> s = ?s)"
      using IH [of 0 ?s] body by (auto simp: names set find bind_eq_Some_conv)
  qed
  then show ?thesis by (metis not_None_eq)
qed

section \<open>A registry\<close>

definition demo_modules :: modules where
  "demo_modules = modules_init_registry
     [\<lparr> m_name = ''pci'', required_modules_names = None, has_init = True, m_state = MODULE_LOADING \<rparr>,
      \<lparr> m_name = ''rtl8139'', required_modules_names = Some [''pci''], has_init = True, m_state = MODULE_LOADING \<rparr>]
     [\<lparr> m_name = ''initrd'', required_modules_names = Some [''rtl8139'', ''absent''], has_init = False,
        m_state = MODULE_LOADING \<rparr>]
     \<lparr> module_registry = [], init_log = [] \<rparr>"

theorem modules_load_in_order_witness:
  "\<exists>s'. modules_load demo_modules = Some s' \<and> distinct (init_log s') \<and> set (init_log s') = {0, 1}
    \<and> before_in (init_log s') 1 0"
proof -
  have reg: "length (module_registry demo_modules) = 3" "has_init (module_registry demo_modules ! 0)"
    "has_init (module_registry demo_modules ! 1)" "\<not> has_init (module_registry demo_modules ! 2)"
    by code_simp+
  have fin: "find_in (module_registry demo_modules) ''pci'' = Some 1"
    "find_in (module_registry demo_modules) ''rtl8139'' = Some 0"
    "find_in (module_registry demo_modules) ''absent'' = None"
    by code_simp+
  have req: "required (module_registry demo_modules) 0 = [''pci'']" "required (module_registry demo_modules) 1 = []"
    "required (module_registry demo_modules) 2 = [''rtl8139'', ''absent'']"
    by code_simp+
  have dep: "i = 0 \<and> j = 1 \<or> i = 2 \<and> j = 0" if d: "depends (module_registry demo_modules) i j" "i < 3" for i j
  proof -
    consider "i = 0" | "i = 1" | "i = 2" using d(2) by linarith
    then show ?thesis using d(1) by cases (simp_all add: depends_def fin req [unfolded One_nat_def])
  qed
  have start: "init_log demo_modules = []" "\<forall>m \<in> set (module_registry demo_modules). m_state m = MODULE_LOADING"
    by code_simp+
  have acyclic: "\<forall>i < length (module_registry demo_modules). \<forall>j. depends (module_registry demo_modules) i j
      \<longrightarrow> (if j = 0 then 1 else j div 2 * 2) < (if i = 0 then 1 else i div 2 * 2)"
    using dep reg(1) by fastforce
  have "depends (module_registry demo_modules) 0 1" by (simp add: depends_def fin req)
  moreover have "i < 3 \<and> has_init (module_registry demo_modules ! i) \<longleftrightarrow> i = 0 \<or> i = 1" for i
  proof -
    consider "i = 0" | "i = 1" | "i = 2" | "3 \<le> i" by linarith
    then show ?thesis by cases (use reg [unfolded One_nat_def] in simp_all)
  qed
  moreover note modules_load_in_order [OF start acyclic]
  ultimately show ?thesis by (auto simp: reg(1))
qed

end
