(* ===== verification/Spec2Isabelle.thy ===== *)
theory Spec2Isabelle
  imports Ranges Bitmap CircularBuffer Pmm KString AddressSpace KHeapProps VmSpaceProps MyfsData SchedMain VfsStreams NetSockets Modules
begin

text \<open>
  \<^bold>\<open>The kabanos kernel.\<close>

  kabanos is a small operating system for 32-bit x86. Its kernel (\<^verbatim>\<open>src/kernel\<close>) hands out physical frames, builds two-level page tables, runs a
  slab heap on top of them, gives every process an address space with demand paging and copy-on-write, keeps
  files on a disk in its own format MyFS behind a virtual file system, schedules threads with multilevel feedback
  queues, talks to a text console, a keyboard and a network card, and starts its subsystems in dependency order. This
  development models these parts as functions and proves what they promise each other.

  \<^bold>\<open>Conventions.\<close> C integers are words of their width; a size or an index that the code keeps in range is a
  natural number, and the lemmas say where that needs a bound. Memory behind a pointer is a function from
  offsets to bytes (\<open>bytes\<close>), and structs that live in such memory (page tables, slabs, disk blocks) are read and
  written through the little-endian accesses of theory \<open>KPrelude\<close>. Objects that are only reached by pointers, such
  as threads and inodes in memory, are records in a map from addresses, with address 0 as the null pointer. Static
  variables are fields of a state record that the operations take and return. \<open>None\<close> stands for a panic, a failed assertion, an
  access outside an object or a loop that does not end; error codes are values. Loops that may not end
  are \<^verbatim>\<open>partial_function (option)\<close>, so no fuel is chosen anywhere; that they do end is part of the properties.

  \<^bold>\<open>Theories and parts.\<close>
  \<^item> \<open>KPrelude\<close>: machine integers, byte arrays, counting loops, shared lemmas; \<open>Errno\<close>: error numbers;
    \<open>LinkedList\<close>: linked lists and queues in a store.
  \<^item> \<open>Ranges\<close>: alignment and address ranges (\<^verbatim>\<open>utils/math.h\<close>, \<^verbatim>\<open>utils/range.h\<close>, \<^verbatim>\<open>memory_map.c\<close>). Aligning a range
    inwards and outwards brackets it.
  \<^item> \<open>Bitmap\<close> (\<^verbatim>\<open>adt/bitmap.h\<close>) and the locale \<open>bit_array\<close> that the frame allocator, the heap and MyFS use;
    \<open>CircularBuffer\<close> (\<^verbatim>\<open>adt/circular_buffer.c\<close>), which implements the locale \<open>bounded_fifo\<close>.
  \<^item> \<open>Pmm\<close> (\<^verbatim>\<open>mm/pmm.c\<close>): frames and their reference counts. Initialisation frees exactly the usable frames, an allocated frame
    was free and is not handed out again before it is freed, and a frame is freed with its last reference. The locale
    \<open>frame_source\<close> is what the page tables need of it.
  \<^item> \<open>Paging\<close> and \<open>AddressSpace\<close> (\<^verbatim>\<open>arch/i686/hal_vmm.c\<close>): mapping, unmapping, cloning and copy-on-write on page
    tables in byte-level physical memory, with the translation of the processor as the specification.
  \<^item> \<open>KHeap\<close> and \<open>KHeapProps\<close> (\<^verbatim>\<open>mm/kmalloc.c\<close>): first fit for heap pages, slab caches with free lists inside the slabs
    (locale \<open>object_stack\<close>), size arithmetic.
  \<^item> \<open>VmSpace\<close> and \<open>VmSpaceProps\<close> (\<^verbatim>\<open>mm/va_allocation.c\<close>, \<^verbatim>\<open>vmspace.c\<close>, the page-fault handler, \<^verbatim>\<open>sys_sbrk\<close>): regions are
    backed entirely or not at all, and the program break keeps the heap backed.
  \<^item> \<open>KString\<close> (\<^verbatim>\<open>klib/string.c\<close>): C strings against lists of characters.
  \<^item> \<open>MyfsDisk\<close>, \<open>MyfsInode\<close>, \<open>Myfs\<close> (\<^verbatim>\<open>fs/myfs/myfs.c\<close>): the disk format, inodes, files and directories; \<open>MyfsProps\<close>,
    \<open>MyfsFile\<close> and \<open>MyfsData\<close>: bitmaps and the inode table, the map from file blocks to disk blocks, and that
    reading returns what was written, whatever mixture of direct and indirect blocks a file has.
  \<^item> \<open>Sched\<close> (\<^verbatim>\<open>spinlock.c\<close>, \<^verbatim>\<open>sched/*.c\<close>): locks, ready queues, dispatcher, sleepers, wait queues, time; \<open>SchedProps\<close>,
    \<open>SchedTime\<close>, \<open>SchedMain\<close>: the linked queues refine lists, a timer tick refines the abstract tick, and every ready thread runs.
  \<^item> \<open>Console\<close> and \<open>ConsoleProps\<close> (\<^verbatim>\<open>drivers/console\<close>, the keyboard and the devices): the VGA text console with its
    escape sequences; every write stays on the screen, and plain text appears cell by cell.
  \<^item> \<open>WaitQueue\<close> (\<^verbatim>\<open>sched/wait.c\<close>) and \<open>Tty\<close> (\<^verbatim>\<open>drivers/console/tty.c\<close>): sleeping on queues, and the line discipline against an
    editor for lines.
  \<^item> \<open>Stdio\<close> (\<^verbatim>\<open>klib/stdio.c\<close>): the automaton behind \<^verbatim>\<open>printf\<close>; output is bounded by its buffer, and numbers printed
    are read back by \<^verbatim>\<open>atoi\<close>.
  \<^item> \<open>Vfs\<close>, \<open>VfsPath\<close>, \<open>VfsFile\<close> (\<^verbatim>\<open>fs/vfs.c\<close>, \<^verbatim>\<open>fs/fd.c\<close>, \<^verbatim>\<open>fs/sys_fs.c\<close>, the MyFS driver, \<^verbatim>\<open>sys_cwd.c\<close>): vnodes, mounts, path
    resolution, descriptors and the system calls on files. \<open>MyfsOpen\<close> relates an inode in the cache to its copy on
    the disk; \<open>VfsProps\<close> and \<open>VfsStreams\<close> put the layers together: what \<^verbatim>\<open>sys_write\<close> writes \<^verbatim>\<open>sys_read\<close> reads, paths are
    resolved component by component under the innermost mount, descriptors are taken and released, \<^verbatim>\<open>kprintf\<close> reaches
    the screen.
  \<^item> \<open>Net\<close> (\<^verbatim>\<open>net/*.c\<close>, \<^verbatim>\<open>drivers/rtl8139/rtl8139.c\<close>): the ARP cache, ICMP echo, raw sockets and the data path of the card.
    \<open>NetProps\<close>: the checksum verifies, a ping is answered and recognised, an address is resolved and remembered.
    \<open>NetSockets\<close>: a socket's queue is a second implementation of \<open>bounded_fifo\<close>; frames are received in order, and the
    receive call returns.
  \<^item> \<open>Modules\<close> (\<^verbatim>\<open>modules.c\<close>): the registry; with acyclic dependencies every subsystem is initialised once, after those it needs.

  \<^bold>\<open>Parameters.\<close> Code outside the kernel sources, and what runs while a thread does not, enters as an argument: the
  outcome of \<^verbatim>\<open>kmalloc\<close> in the file system, the contents of user memory, the effect of other threads and interrupts
  during a yield (for the network calls). The properties state what they need of it.

  \<^bold>\<open>Not modelled.\<close> The creation of threads and processes (\<^verbatim>\<open>sched/thread.c\<close>, \<^verbatim>\<open>proc/*.c\<close>, \<^verbatim>\<open>sched_init\<close>) with the ELF loader
  that only it uses, because it prepares machine stacks for the assembly of the context switch; that assembly, the
  descriptor tables, the interrupt controller and the system call entry, whose meaning is that of the processor; the
  port protocols of the disk, the PCI bus and the set-up of the network card; the start-up sequence, the look-up of
  boot options and debug output; the unit tests; the boot loader, the user programs, the C library stubs and the disk
  image tool, which are separate programs.
\<close>

end
